(* ===== verification/Kernel_Prelude.thy ===== *)
theory Kernel_Prelude
  imports Main "HOL-Library.Word" "HOL-Library.Signed_Division"
begin

text \<open>
  The machine the C sources are compiled for, and the facts every component shares.
  The sources keep addresses in \<^verbatim>\<open>uint32_t\<close> and are the 32-bit kernel of the
  repository (README: QEMU i386), so \<open>int\<close>, \<open>unsigned int\<close>, \<open>size_t\<close> and
  pointers are all 32 bits wide here and \<open>char\<close> is a signed byte. Values are words:
  arithmetic wraps (what the \<^verbatim>\<open>-O0\<close> build does), and comparisons of C \<open>int\<close>s
  are the signed ones, \<open><s\<close> and \<open>\<le>s\<close>.
  Memory is a function from addresses to bytes. The theory holds loads, stores and their
  interaction, block fills and copies as closed forms of the loops that perform them,
  terminated strings, and page-aligned addresses.
\<close>

unbundle bit_operations_syntax

section \<open>Types and status codes\<close>

type_synonym u8 = "8 word"
type_synonym u16 = "16 word"
type_synonym u32 = "32 word"
type_synonym addr = "32 word"
type_synonym mem = "addr \<Rightarrow> u8"

abbreviation (input) EIO :: u32 where "EIO \<equiv> 1"
abbreviation (input) EINVARG :: u32 where "EINVARG \<equiv> 2"
abbreviation (input) ENOMEM :: u32 where "ENOMEM \<equiv> 3"
abbreviation (input) EBADPATH :: u32 where "EBADPATH \<equiv> 4"
abbreviation (input) EFSNOTUS :: u32 where "EFSNOTUS \<equiv> 5"
abbreviation (input) ERDONLY :: u32 where "ERDONLY \<equiv> 6"
abbreviation (input) EUNIMP :: u32 where "EUNIMP \<equiv> 7"
abbreviation (input) EISTKN :: u32 where "EISTKN \<equiv> 8"

text \<open>
  What a C function does when it does not return a value: it panics (prints and loops
  forever), touches an array or a pointer outside what the language defines, or divides by zero.
\<close>

datatype fault = Panic string | OutOfBounds | NullDeref | DivByZero | Uninitialised

type_synonym 'a run = "fault + 'a"

section \<open>Collections of rules\<close>

named_theorems mem_simps "reads of updated memory"
named_theorems loop_simps "closed forms of loops"

section \<open>Words\<close>

lemma unat_of_nat32 [simp]: "n < 4294967296 \<Longrightarrow> unat (of_nat n :: u32) = n"
  by (simp add: unat_of_nat take_bit_eq_mod)

lemma of_nat32_eq_iff:
  "a < 4294967296 \<Longrightarrow> b < 4294967296 \<Longrightarrow> (of_nat a :: u32) = of_nat b \<longleftrightarrow> a = b"
  by (metis unat_of_nat32)

lemma unat32_less [simp]: "unat (w :: u32) < 4294967296"
  using unsigned_less [of w, where ?'a = nat] by simp

lemma eq_add_of_nat_iff:
  fixes x p :: u32
  assumes "n < 4294967296"
  shows "x = p + of_nat n \<longleftrightarrow> unat (x - p) = n"
proof
  assume "unat (x - p) = n"
  then have "of_nat n = x - p" by (metis of_nat_unat ucast_id)
  then show "x = p + of_nat n" by simp
qed (use assms in simp)

text \<open>A counter below a bound does not wrap when it is incremented.\<close>

lemma unat_inc:
  fixes i n :: u32
  assumes "i < n"
  shows "unat (i + 1) = Suc (unat i)"
proof -
  have "Suc (unat i) \<le> unat n" using assms by (simp add: word_less_nat_alt)
  also have "unat n < 4294967296" by simp
  finally show ?thesis by (simp add: unat_word_ariths)
qed

lemma unat_dec: "(n :: u32) \<noteq> 0 \<Longrightarrow> unat (n - 1) = unat n - 1"
  by (metis unat_minus_one)

lemma sint_inc:
  fixes i n :: u32
  assumes "i <s n"
  shows "sint (i + 1) = sint i + 1"
proof -
  have "sint i < sint n" using assms by (simp add: word_sless_alt)
  then show ?thesis
    using sint_ge [of i] sint_lt [of n] by (simp add: sint_word_ariths signed_take_bit_int_eq_self)
qed

text \<open>Small words read the same signed and unsigned.\<close>

lemma sint_small: "unat (w :: u32) < 2147483648 \<Longrightarrow> sint w = int (unat w)"
proof -
  assume w: "unat w < 2147483648"
  have "int (unat w) < int 2147483648" using w by (simp only: of_nat_less_iff)
  then have u: "uint w < 2147483648" by simp
  have "sint w = signed_take_bit 31 (uint w)" by (simp add: sint_uint)
  also have "\<dots> = uint w"
    by (rule signed_take_bit_int_eq_self) (use u in \<open>simp_all add: order.trans [OF _ uint_ge_0]\<close>)
  finally show ?thesis by simp
qed

lemma sless_small:
  "unat (a :: u32) < 2147483648 \<Longrightarrow> unat (b :: u32) < 2147483648 \<Longrightarrow> a <s b \<longleftrightarrow> unat a < unat b"
  by (simp only: word_sless_alt sint_small of_nat_less_iff)

lemma nat_sint_less: "nat (sint (w :: u32)) < 2147483648"
  using sint_lt [of w] by simp

lemma unat_of_sint: "0 \<le> sint (w :: u32) \<Longrightarrow> unat w = nat (sint w)"
proof -
  assume "0 \<le> sint w"
  then have "uint w = sint w" using sint_lt [of w] by (simp add: uint_sint take_bit_int_eq_self)
  then show ?thesis by (simp add: unat_eq_nat_uint)
qed

lemma nat_sint_le: "nat (sint (w :: u32)) \<le> unat w"
  using unat_of_sint [of w] by (cases "0 \<le> sint w") simp_all

lemma unat_mod32: "unat ((a :: u32) mod b) = unat a mod unat b"
  by (simp add: unat_mod_distrib)

text \<open>Bytes read as signed \<open>char\<close>s or as unsigned ones.\<close>

lemma sint_scast8: "sint (scast (a :: u8) :: u32) = sint a"
  using sint_ge [of a] sint_lt [of a]
  by (simp add: signed_scast_eq signed_take_bit_int_eq_self)

lemma scast8_inj [simp]: "(scast (a :: u8) :: u32) = scast b \<longleftrightarrow> a = b"
  by (metis sint_scast8 signed_word_eqI)

lemma unat_ucast8 [simp]: "unat (ucast (a :: u8) :: u32) = unat a"
  using unsigned_less [of a, where ?'a = nat]
  by (simp add: unsigned_ucast_eq take_bit_nat_eq_self)

lemma ucast8_inj [simp]: "(ucast (a :: u8) :: u32) = ucast b \<longleftrightarrow> a = b"
  by (metis unat_ucast8 unsigned_word_eqI)

text \<open>The difference of two unsigned bytes, as C computes it, has the sign of their order.\<close>

lemma signed_small:
  "0 \<le> x \<Longrightarrow> x < 256 \<Longrightarrow> 0 \<le> y \<Longrightarrow> y < 256 \<Longrightarrow> signed_take_bit 31 (x - y) = (x - y :: int)"
  by (rule signed_take_bit_int_eq_self) simp_all

lemma uint8_less: "uint (a :: u8) < 256"
  using uint_lt2p [of a] by simp

lemma sint_ucast8: "sint (ucast (a :: u8) :: u32) = uint a"
proof -
  have "uint (ucast a :: u32) = uint a" by (simp add: uint_up_ucast is_up)
  then show ?thesis
    using signed_small [of "uint a" 0] uint8_less [of a] by (simp add: sint_uint)
qed

lemma sint_byte_diff: "sint ((ucast (a :: u8) :: u32) - ucast (b :: u8)) = uint a - uint b"
  using signed_small [of "uint a" "uint b"] uint8_less [of a] uint8_less [of b]
  by (simp add: sint_word_ariths sint_ucast8)

lemma sint_uminus_ucast8: "sint (- ucast (a :: u8) :: u32) = - uint a"
  using sint_byte_diff [of 0 a] by simp

lemma uint_pos: "x \<noteq> 0 \<Longrightarrow> 0 < uint (x :: u8)"
  by (metis uint_0_iff uint_ge_0 order_le_less)

text \<open>What the measures of counting loops need.\<close>

named_theorems measure_simps "a loop counter gets closer to its bound"

lemma unat_up [measure_simps]: "(i :: u32) < n \<Longrightarrow> unat n - unat (i + 1) < unat n - unat i"
  by (simp add: unat_inc word_less_nat_alt)

lemma unat_down [measure_simps]: "(n :: u32) \<noteq> 0 \<Longrightarrow> unat (n - 1) < unat n"
  by (simp add: unat_dec) (metis diff_Suc_less gr0I unat_0_iff)

lemma unat_down2 [measure_simps]: "0 < (n :: u32) - 1 \<Longrightarrow> unat (n - 2) < unat (n - 1)"
  using unat_down [of "n - 1"] by (cases "n = 1") simp_all

lemmas sint_up [measure_simps] = sint_inc word_sless_alt

section \<open>Memory: block fills, block copies\<close>

definition mem_fill :: "mem \<Rightarrow> addr \<Rightarrow> nat \<Rightarrow> (nat \<Rightarrow> u8) \<Rightarrow> mem" where
  "mem_fill m p n f = (\<lambda>x. if unat (x - p) < n then f (unat (x - p)) else m x)"

definition mem_copy :: "mem \<Rightarrow> addr \<Rightarrow> addr \<Rightarrow> nat \<Rightarrow> mem" where
  "mem_copy m d s n = mem_fill m d n (\<lambda>i. m (s + of_nat i))"

lemma mem_fill_0 [simp]: "mem_fill m p 0 f = m"
  by (simp add: mem_fill_def)

lemma mem_fill_Suc:
  "n < 4294967296 \<Longrightarrow> mem_fill m p (Suc n) f = (mem_fill m p n f)(p + of_nat n := f n)"
  by (auto simp: mem_fill_def fun_eq_iff less_Suc_eq eq_add_of_nat_iff)

lemma fold_fill [loop_simps]:
  "n \<le> 4294967296 \<Longrightarrow> fold (\<lambda>i m. m(p + of_nat i := f i)) [0..<n] m = mem_fill m p n f"
  by (induction n) (simp_all add: mem_fill_Suc)

lemma mem_fill_in [mem_simps]:
  "i < n \<Longrightarrow> n \<le> 4294967296 \<Longrightarrow> mem_fill m p n f (p + of_nat i) = f i"
  by (simp add: mem_fill_def)

lemma mem_fill_out [mem_simps]: "n \<le> unat (x - p) \<Longrightarrow> mem_fill m p n f x = m x"
  by (simp add: mem_fill_def)

text \<open>Nothing outside a block differs.\<close>

definition unchanged_outside :: "mem \<Rightarrow> mem \<Rightarrow> addr \<Rightarrow> nat \<Rightarrow> bool" where
  "unchanged_outside m m' p n \<longleftrightarrow> (\<forall>x. n \<le> unat (x - p) \<longrightarrow> m' x = m x)"

lemma unchanged_outside_fill [simp]: "unchanged_outside m (mem_fill m p n f) p n"
  by (simp add: unchanged_outside_def mem_fill_def)

lemma unchanged_outside_copy [simp]: "unchanged_outside m (mem_copy m p s n) p n"
  by (simp add: unchanged_outside_def mem_copy_def mem_fill_def)

lemma unchanged_outside_refl [simp]: "unchanged_outside m m p n"
  by (simp add: unchanged_outside_def)

lemma unchanged_outside_trans:
  "unchanged_outside m m' p n \<Longrightarrow> unchanged_outside m' m'' p n \<Longrightarrow> unchanged_outside m m'' p n"
  by (simp add: unchanged_outside_def)

lemma unchanged_outside_le: "unchanged_outside m m' p k \<Longrightarrow> k \<le> n \<Longrightarrow> unchanged_outside m m' p n"
  by (simp add: unchanged_outside_def)

lemma mem_fill_cong:
  "(\<And>i. i < n \<Longrightarrow> f i = g i) \<Longrightarrow> mem_fill m p n f = mem_fill m p n g"
  by (simp add: mem_fill_def fun_eq_iff)

lemma mem_copy_in [mem_simps]:
  "i < n \<Longrightarrow> n \<le> 4294967296 \<Longrightarrow> mem_copy m d s n (d + of_nat i) = m (s + of_nat i)"
  by (simp add: mem_copy_def mem_simps)

lemma mem_copy_out [mem_simps]: "n \<le> unat (x - d) \<Longrightarrow> mem_copy m d s n x = m x"
  by (simp add: mem_copy_def mem_simps)

text \<open>A block written one byte at a time from the front.\<close>

lemma unat_diff_succ:
  fixes x p :: u32
  assumes "x \<noteq> p"
  shows "unat (x - (p + 1)) = unat (x - p) - 1"
proof -
  have "unat (x - p - 1) = unat (x - p) - 1" using assms by (intro unat_dec) simp
  then show ?thesis by (simp add: diff_diff_eq)
qed

lemma mem_fill_Cons:
  assumes "n < 4294967296"
  shows "mem_fill (m(p := f 0)) (p + 1) n (\<lambda>i. f (Suc i)) = mem_fill m p (Suc n) f"
proof
  fix x
  show "mem_fill (m(p := f 0)) (p + 1) n (\<lambda>i. f (Suc i)) x = mem_fill m p (Suc n) f x"
  proof (cases "x = p")
    case True
    have "unat (p - (p + 1)) = 4294967295" by (simp add: unsigned_minus_1_eq_mask mask_eq_exp_minus_1)
    with True assms show ?thesis by (simp add: mem_fill_def)
  next
    case False
    then have "0 < unat (x - p)" by (metis eq_iff_diff_eq_0 neq0_conv unat_0_iff)
    with False show ?thesis
      by (auto simp: mem_fill_def unat_diff_succ Suc_diff_le less_Suc_eq_le)
  qed
qed

definition bytes :: "mem \<Rightarrow> addr \<Rightarrow> nat \<Rightarrow> u8 list" where
  "bytes m a n = map (\<lambda>i. m (a + of_nat i)) [0..<n]"

lemma length_bytes [simp]: "length (bytes m a n) = n"
  by (simp add: bytes_def)

lemma nth_bytes [simp]: "i < n \<Longrightarrow> bytes m a n ! i = m (a + of_nat i)"
  by (simp add: bytes_def)

lemma bytes_0 [simp]: "bytes m a 0 = []"
  by (simp add: bytes_def)

lemma bytes_Suc: "bytes m a (Suc n) = m a # bytes m (a + 1) n"
  by (rule nth_equalityI) (auto simp: nth_Cons add.assoc split: nat.splits)

lemma bytes_numeral: "bytes m a (numeral k) = m a # bytes m (a + 1) (pred_numeral k)"
  by (simp add: numeral_eq_Suc bytes_Suc)

lemma bytes_fill:
  "n \<le> 4294967296 \<Longrightarrow> bytes (mem_fill m a n f) a n = map f [0..<n]"
  by (rule nth_equalityI) (auto simp: mem_simps)

text \<open>The bytes of one block are not among those of another.\<close>

definition apart :: "addr \<Rightarrow> nat \<Rightarrow> addr \<Rightarrow> nat \<Rightarrow> bool" where
  "apart a n b k \<longleftrightarrow> (\<forall>i < n. \<forall>j < k. a + of_nat i \<noteq> b + of_nat j)"

lemma apartD: "apart a n b k \<Longrightarrow> i < n \<Longrightarrow> j < k \<Longrightarrow> a + of_nat i \<noteq> b + of_nat j"
  by (simp add: apart_def)

lemma apart_sym: "apart a n b k \<Longrightarrow> apart b k a n"
  unfolding apart_def by metis

lemma apart_tail: "apart a (Suc n) b (Suc k) \<Longrightarrow> apart (a + 1) n (b + 1) k"
proof (unfold apart_def, intro allI impI)
  fix i j
  assume "\<forall>i < Suc n. \<forall>j < Suc k. a + of_nat i \<noteq> b + of_nat j" "i < n" "j < k"
  then have "a + of_nat (Suc i) \<noteq> b + of_nat (Suc j)" by blast
  then show "a + 1 + of_nat i \<noteq> b + 1 + of_nat j" by (simp add: add.assoc)
qed

lemma apart_le: "apart a n b k \<Longrightarrow> n' \<le> n \<Longrightarrow> k' \<le> k \<Longrightarrow> apart a n' b k'"
  by (auto simp: apart_def)

lemma apart_out:
  assumes "apart a n b k" "j < k"
  shows "n \<le> unat (b + of_nat j - a)"
proof (rule ccontr)
  assume "\<not> n \<le> unat (b + of_nat j - a)"
  then have "a + of_nat (unat (b + of_nat j - a)) \<noteq> b + of_nat j"
    using assms unfolding apart_def by (meson not_le)
  then show False by simp
qed

text \<open>Two fills side by side are one fill.\<close>

lemma unat_sub_of_nat:
  "k < 4294967296 \<Longrightarrow> unat ((u :: u32) - of_nat k) = (if k \<le> unat u then unat u - k else 4294967296 + unat u - k)"
  by (auto simp: unat_sub_if')

lemma mem_fill_append:
  assumes "k \<le> n" "n < 4294967296"
  shows "mem_fill (mem_fill m p k f) (p + of_nat k) (n - k) g
    = mem_fill m p n (\<lambda>i. if i < k then f i else g (i - k))"
proof
  fix x
  have u: "unat (x - (p + of_nat k)) =
      (if k \<le> unat (x - p) then unat (x - p) - k else 4294967296 + unat (x - p) - k)"
    using assms unat_sub_of_nat [of k "x - p"] by (simp add: diff_diff_eq)
  show "mem_fill (mem_fill m p k f) (p + of_nat k) (n - k) g x
    = mem_fill m p n (\<lambda>i. if i < k then f i else g (i - k)) x"
    using assms unfolding mem_fill_def u by auto
qed

lemma unchanged_outside_shift:
  assumes "unchanged_outside m m' (p + of_nat k) (n - k)" "k \<le> n" "n < 4294967296"
  shows "unchanged_outside m m' p n"
  unfolding unchanged_outside_def
proof (intro allI impI)
  fix x assume n: "n \<le> unat (x - p)"
  have "unat (x - (p + of_nat k)) = unat (x - p) - k"
    using assms(2,3) n unat_sub_of_nat [of k "x - p"] by (simp add: diff_diff_eq)
  then show "m' x = m x" using assms(1) n by (simp add: unchanged_outside_def)
qed

section \<open>Little-endian 32-bit loads and stores\<close>

definition load32 :: "mem \<Rightarrow> addr \<Rightarrow> u32" where
  "load32 m a = ucast (m a) OR push_bit 8 (ucast (m (a + 1)))
     OR push_bit 16 (ucast (m (a + 2))) OR push_bit 24 (ucast (m (a + 3)))"

definition store32 :: "mem \<Rightarrow> addr \<Rightarrow> u32 \<Rightarrow> mem" where
  "store32 m a v = m(a := ucast v, a + 1 := ucast (drop_bit 8 v),
     a + 2 := ucast (drop_bit 16 v), a + 3 := ucast (drop_bit 24 v))"

lemma bytes_of_word:
  fixes v :: u32
  shows "(ucast (ucast v :: u8) :: u32) OR push_bit 8 (ucast (ucast (drop_bit 8 v) :: u8))
     OR push_bit 16 (ucast (ucast (drop_bit 16 v) :: u8))
     OR push_bit 24 (ucast (ucast (drop_bit 24 v) :: u8)) = v"
proof (rule bit_word_eqI)
  fix n :: nat
  assume "n < LENGTH(32)"
  then have n: "n < 32" by simp
  consider "n < 8" | "8 \<le> n" "n < 16" | "16 \<le> n" "n < 24" | "24 \<le> n" by linarith
  then show "bit ((ucast (ucast v :: u8) :: u32) OR push_bit 8 (ucast (ucast (drop_bit 8 v) :: u8))
     OR push_bit 16 (ucast (ucast (drop_bit 16 v) :: u8))
     OR push_bit 24 (ucast (ucast (drop_bit 24 v) :: u8))) n \<longleftrightarrow> bit v n"
    using n by cases (auto simp: bit_simps)
qed

lemma load_store_same [mem_simps]: "load32 (store32 m a v) a = v"
proof -
  have "a + 1 \<noteq> a + (2::u32)" "a + 1 \<noteq> a + (3::u32)" "a + 2 \<noteq> a + (3::u32)"
    "a \<noteq> a + (1::u32)" "a \<noteq> a + (2::u32)" "a \<noteq> a + (3::u32)"
    by simp_all
  then show ?thesis by (simp add: load32_def store32_def bytes_of_word)
qed

lemma load32_cong:
  "(\<And>x. unat (x - a) < 4 \<Longrightarrow> m' x = m x) \<Longrightarrow> load32 m' a = load32 m a"
  by (simp add: load32_def)

lemma store32_out [mem_simps]: "4 \<le> unat (x - a) \<Longrightarrow> store32 m a v x = m x"
  by (auto simp: store32_def)

lemma store32_within:
  assumes "i + 4 \<le> n"
  shows "unchanged_outside m (store32 m (p + of_nat i) v) p n"
  unfolding unchanged_outside_def
proof (intro allI impI)
  fix x assume x: "n \<le> unat (x - p)"
  have "i \<le> unat (x - p)" using x assms by simp
  moreover have "i < 4294967296" using calculation unat32_less [of "x - p"] by linarith
  ultimately have "unat (x - p - of_nat i) = unat (x - p) - i" by (simp add: unat_sub_of_nat)
  then show "store32 m (p + of_nat i) v x = m x" using x assms by (intro store32_out) (simp add: diff_diff_eq)
qed

lemma load_store_other [mem_simps]:
  assumes "apart a 4 b 4"
  shows "load32 (store32 m a v) b = load32 m b"
proof (rule load32_cong)
  fix x assume x: "unat (x - b) < 4"
  have "4 \<le> unat (b + of_nat (unat (x - b)) - a)" by (rule apart_out [OF assms x])
  then show "store32 m a v x = m x" by (simp add: mem_simps)
qed

section \<open>Terminated strings in memory\<close>

definition cstr :: "mem \<Rightarrow> addr \<Rightarrow> u8 list \<Rightarrow> bool" where
  "cstr m a bs \<longleftrightarrow> 0 \<notin> set bs \<and> (\<forall>i < length bs. m (a + of_nat i) = bs ! i)
     \<and> m (a + of_nat (length bs)) = 0"

lemma cstr_Nil [simp]: "cstr m a [] \<longleftrightarrow> m a = 0"
  by (simp add: cstr_def)

lemma cstr_Cons [simp]: "cstr m a (b # bs) \<longleftrightarrow> b \<noteq> 0 \<and> m a = b \<and> cstr m (a + 1) bs"
  by (auto simp: cstr_def nth_Cons less_Suc_eq_0_disj add.assoc split: nat.splits)

lemma cstr_length:
  assumes "cstr m a bs"
  shows "length bs < 4294967296"
proof (rule ccontr)
  assume "\<not> length bs < 4294967296"
  then have le: "4294967296 \<le> length bs" by simp
  let ?k = "length bs mod 4294967296"
  have w: "(of_nat ?k :: u32) = of_nat (length bs)"
    by (simp add: word_eq_iff_unsigned [where ?'a = nat] unat_of_nat take_bit_eq_mod)
  have k: "?k < length bs" using le by (meson mod_less_divisor less_le_trans zero_less_numeral)
  with assms have "m (a + of_nat ?k) = bs ! ?k" by (simp add: cstr_def)
  with assms w have "bs ! ?k = 0" by (simp add: cstr_def)
  with k assms show False by (metis cstr_def nth_mem)
qed

lemma cstr_unique: "cstr m a bs \<Longrightarrow> cstr m a cs \<Longrightarrow> bs = cs"
proof (induction bs arbitrary: a cs)
  case Nil
  then show ?case by (cases cs) auto
next
  case (Cons b bs)
  then show ?case by (cases cs) auto
qed

lemma cstr_frame:
  "cstr m a bs \<Longrightarrow> (\<And>i. i \<le> length bs \<Longrightarrow> m' (a + of_nat i) = m (a + of_nat i)) \<Longrightarrow> cstr m' a bs"
  by (simp add: cstr_def)

end
