(* ===== verification/CString.thy ===== *)
theory CString
  imports Kernel_Prelude
begin

text \<open>
  \<^verbatim>\<open>src/libc/string.c\<close>: the string functions, over the byte memory of the prelude.
  A loop bounded by a counter is a recursion with that counter as its measure; a loop that
  only a terminator ends is a \<^theory_text>\<open>partial_function\<close> into \<open>option\<close>,
  \<open>None\<close> meaning that it does not return. The theorems show that every loop returns on
  terminated strings, what it computes and which bytes it writes.
\<close>

section \<open>Characters\<close>

definition toupper :: "u8 \<Rightarrow> u8" where
  "toupper c = (if 0x61 \<le>s c \<and> c \<le>s 0x7a then c - 0x61 + 0x41 else c)"

definition tolower :: "u8 \<Rightarrow> u8" where
  "tolower c = (if 0x41 \<le>s c \<and> c \<le>s 0x5a then c + (0x61 - 0x41) else c)"

definition tonumericdigit :: "u8 \<Rightarrow> u32" where
  "tonumericdigit c = scast c - 48"

section \<open>Lengths\<close>

partial_function (option) strlen_loop :: "mem \<Rightarrow> addr \<Rightarrow> u32 \<Rightarrow> u32 option" where
  "strlen_loop m s len = (if m (s + len) \<noteq> 0 then strlen_loop m s (len + 1) else Some len)"

definition strlen :: "mem \<Rightarrow> addr \<Rightarrow> u32 option" where
  "strlen m s = strlen_loop m s 0"

function strnlen_loop :: "mem \<Rightarrow> addr \<Rightarrow> u32 \<Rightarrow> u32 \<Rightarrow> u32" where
  "strnlen_loop m s mx x =
     (if x <s mx then if m (s + x) = 0 then x else strnlen_loop m s mx (x + 1) else x)"
  by pat_completeness auto
termination
  by (relation "measure (\<lambda>(m, s, mx, x). nat (sint mx - sint x))") (auto simp: measure_simps)

definition strnlen :: "mem \<Rightarrow> addr \<Rightarrow> u32 \<Rightarrow> u32" where
  "strnlen m s mx = strnlen_loop m s mx 0"

function strnlen_terminator_loop :: "mem \<Rightarrow> addr \<Rightarrow> u32 \<Rightarrow> u8 \<Rightarrow> u32 \<Rightarrow> u32" where
  "strnlen_terminator_loop m s maxlen t len =
     (if len < maxlen \<and> m (s + len) \<noteq> t then strnlen_terminator_loop m s maxlen t (len + 1)
      else len)"
  by pat_completeness auto
termination
  by (relation "measure (\<lambda>(m, s, maxlen, t, len). unat maxlen - unat len)") (auto simp: measure_simps)

definition strnlen_terminator :: "mem \<Rightarrow> addr \<Rightarrow> u32 \<Rightarrow> u8 \<Rightarrow> u32" where
  "strnlen_terminator m s maxlen t = strnlen_terminator_loop m s maxlen t 0"

section \<open>Comparison\<close>

text \<open>
  \<open>istrncmp\<close> tests \<open>--n > 0\<close> after each character, so it reads at least one, and
  \<open>n = 0\<close> counts down from \<open>2 ^ 32 - 1\<close>. It does not stop at a terminator.
\<close>

function istrncmp :: "mem \<Rightarrow> addr \<Rightarrow> addr \<Rightarrow> u32 \<Rightarrow> u32" where
  "istrncmp m s1 s2 n =
     (let f = scast (toupper (m s1)); l = scast (toupper (m s2)) in
      if f = l then if n - 1 > 0 then istrncmp m (s1 + 1) (s2 + 1) (n - 1) else f - l
      else f - l)"
  by pat_completeness auto
termination
  by (relation "measure (\<lambda>(m, s1, s2, n). unat (n - 1))") (auto simp: measure_simps)

partial_function (option) strcmp :: "mem \<Rightarrow> addr \<Rightarrow> addr \<Rightarrow> u32 option" where
  "strcmp m s1 s2 =
     (if m s1 \<noteq> 0 \<and> m s1 = m s2 then strcmp m (s1 + 1) (s2 + 1)
      else Some (ucast (m s1) - ucast (m s2)))"

function strncmp :: "mem \<Rightarrow> addr \<Rightarrow> addr \<Rightarrow> u32 \<Rightarrow> u32" where
  "strncmp m s1 s2 n =
     (if n \<noteq> 0 \<and> m s1 \<noteq> 0 \<and> m s1 = m s2 then strncmp m (s1 + 1) (s2 + 1) (n - 1)
      else if n = 0 then 0 else ucast (m s1) - ucast (m s2))"
  by pat_completeness auto
termination
  by (relation "measure (\<lambda>(m, s1, s2, n). unat n)") (auto simp: measure_simps)

section \<open>Copying\<close>

text \<open>\<open>strcpy\<close> returns its advanced pointer, the address of the terminator it wrote.\<close>

partial_function (option) strcpy :: "mem \<Rightarrow> addr \<Rightarrow> addr \<Rightarrow> (addr \<times> mem) option" where
  "strcpy m destination source =
     (if m source \<noteq> 0
      then strcpy (m(destination := m source)) (destination + 1) (source + 1)
      else Some (destination, m(destination := 0)))"

partial_function (option) strcat_end :: "mem \<Rightarrow> addr \<Rightarrow> addr option" where
  "strcat_end m dest = (if m dest \<noteq> 0 then strcat_end m (dest + 1) else Some dest)"

partial_function (option) strcat_copy :: "mem \<Rightarrow> addr \<Rightarrow> addr \<Rightarrow> mem option" where
  "strcat_copy m dest src =
     (if m src \<noteq> 0 then strcat_copy (m(dest := m src)) (dest + 1) (src + 1)
      else Some (m(dest := 0)))"

definition strcat :: "mem \<Rightarrow> addr \<Rightarrow> addr \<Rightarrow> mem option" where
  "strcat m dest src =
     (case strcat_end m dest of None \<Rightarrow> None | Some d \<Rightarrow> strcat_copy m d src)"

text \<open>The two loops of \<open>strncpy\<close> share their counter \<open>i\<close>.\<close>

function strncpy_copy :: "mem \<Rightarrow> addr \<Rightarrow> addr \<Rightarrow> u32 \<Rightarrow> u32 \<Rightarrow> u32 \<times> mem" where
  "strncpy_copy m dest src n i =
     (if i < n \<and> m (src + i) \<noteq> 0
      then strncpy_copy (m(dest + i := m (src + i))) dest src n (i + 1) else (i, m))"
  by pat_completeness auto
termination
  by (relation "measure (\<lambda>(m, dest, src, n, i). unat n - unat i)") (auto simp: measure_simps)

function strncpy_pad :: "mem \<Rightarrow> addr \<Rightarrow> u32 \<Rightarrow> u32 \<Rightarrow> mem" where
  "strncpy_pad m dest n i =
     (if i < n then strncpy_pad (m(dest + i := 0)) dest n (i + 1) else m)"
  by pat_completeness auto
termination
  by (relation "measure (\<lambda>(m, dest, n, i). unat n - unat i)") (auto simp: measure_simps)

definition strncpy :: "mem \<Rightarrow> addr \<Rightarrow> addr \<Rightarrow> u32 \<Rightarrow> addr \<times> mem" where
  "strncpy m dest src n =
     (case strncpy_copy m dest src n 0 of (i, m') \<Rightarrow> (dest, strncpy_pad m' dest n i))"

declare strnlen_loop.simps [simp del] strnlen_terminator_loop.simps [simp del]
  istrncmp.simps [simp del] strncmp.simps [simp del]
  strncpy_copy.simps [simp del] strncpy_pad.simps [simp del]

section \<open>Lengths are right and the loops return\<close>

lemma strlen_loop_cstr:
  "cstr m (s + len) bs \<Longrightarrow> strlen_loop m s len = Some (len + of_nat (length bs))"
proof (induction bs arbitrary: len)
  case Nil
  then show ?case by (subst strlen_loop.simps) simp
next
  case (Cons b bs)
  then have "strlen_loop m s (len + 1) = Some (len + 1 + of_nat (length bs))"
    by (intro Cons.IH) (simp add: add.assoc)
  with Cons.prems show ?case by (subst strlen_loop.simps) (simp add: add.assoc)
qed

lemma strlen_cstr: "cstr m s bs \<Longrightarrow> strlen m s = Some (of_nat (length bs))"
  by (simp add: strlen_def strlen_loop_cstr)

lemma strnlen_loop_cstr:
  "cstr m (s + x) bs \<Longrightarrow> x \<le>s mx \<Longrightarrow>
     sint (strnlen_loop m s mx x) = min (sint x + int (length bs)) (sint mx)"
proof (induction bs arbitrary: x)
  case Nil
  then show ?case by (subst strnlen_loop.simps) (auto simp: word_sless_alt word_sle_eq)
next
  case (Cons b bs)
  show ?case
  proof (cases "x <s mx")
    case True
    then have le: "x + 1 \<le>s mx" and sx: "sint (x + 1) = sint x + 1"
      by (simp_all add: sint_inc word_sle_eq word_sless_alt)
    have "sint (strnlen_loop m s mx (x + 1)) = min (sint (x + 1) + int (length bs)) (sint mx)"
      using Cons.prems(1) le by (intro Cons.IH) (simp_all add: add.assoc)
    with True sx Cons.prems(1) show ?thesis by (subst strnlen_loop.simps) simp
  next
    case False
    with Cons.prems show ?thesis
      by (subst strnlen_loop.simps) (auto simp: word_sless_alt word_sle_eq)
  qed
qed

lemma strnlen_cstr:
  "cstr m s bs \<Longrightarrow> 0 \<le>s mx \<Longrightarrow> sint (strnlen m s mx) = min (int (length bs)) (sint mx)"
  by (simp add: strnlen_def strnlen_loop_cstr)

section \<open>Comparison\<close>

lemma istrncmp_zero_iff:
  "istrncmp m s1 s2 n = 0 \<longleftrightarrow>
     (\<forall>i \<le> unat (n - 1). toupper (m (s1 + of_nat i)) = toupper (m (s2 + of_nat i)))"
proof (induction m s1 s2 n rule: istrncmp.induct)
  case (1 m s1 s2 n)
  show ?case
  proof (cases "toupper (m s1) = toupper (m s2)")
    case same: True
    show ?thesis
    proof (cases "0 < n - 1")
      case True
      then have k: "unat (n - 1) = Suc (unat (n - 1 - 1))"
        by (metis Suc_pred' unat_dec unat_gt_0 word_gt_0)
      have "istrncmp m s1 s2 n = istrncmp m (s1 + 1) (s2 + 1) (n - 1)"
        using same True by (subst istrncmp.simps) simp
      also have "\<dots> = 0 \<longleftrightarrow> (\<forall>i \<le> unat (n - 1 - 1).
          toupper (m (s1 + 1 + of_nat i)) = toupper (m (s2 + 1 + of_nat i)))"
        using "1.IH" same True by simp
      finally show ?thesis
        using same by (simp add: k All_less_Suc2 add.assoc flip: less_Suc_eq_le)
    next
      case False
      then have "unat (n - 1) = 0" by (simp add: word_gt_0)
      with same False show ?thesis by (subst istrncmp.simps) simp
    qed
  next
    case False
    then have "istrncmp m s1 s2 n = scast (toupper (m s1)) - scast (toupper (m s2))"
      by (subst istrncmp.simps) simp
    then show ?thesis using False by (auto intro: exI [where x = 0])
  qed
qed

text \<open>What \<open>strcmp\<close> returns, read off the two strings.\<close>

fun strcmp_spec :: "u8 list \<Rightarrow> u8 list \<Rightarrow> u32" where
  "strcmp_spec [] [] = 0"
| "strcmp_spec (x # xs) [] = ucast x"
| "strcmp_spec [] (y # ys) = - ucast y"
| "strcmp_spec (x # xs) (y # ys) = (if x = y then strcmp_spec xs ys else ucast x - ucast y)"

lemma strcmp_cstr: "cstr m s1 a \<Longrightarrow> cstr m s2 b \<Longrightarrow> strcmp m s1 s2 = Some (strcmp_spec a b)"
proof (induction a b arbitrary: s1 s2 rule: strcmp_spec.induct)
qed (subst strcmp.simps, auto)+

lemma strcmp_spec_sign:
  "0 \<notin> set a \<Longrightarrow> 0 \<notin> set b \<Longrightarrow>
    (sint (strcmp_spec a b) = 0 \<longleftrightarrow> a = b) \<and> (sint (strcmp_spec a b) < 0 \<longleftrightarrow> ord_class.lexordp a b)"
proof (induction a b rule: strcmp_spec.induct)
  case (2 x xs)
  then show ?case using uint_pos [of x] by (simp add: sint_ucast8)
next
  case (3 y ys)
  then show ?case using uint_pos [of y] by (simp add: sint_uminus_ucast8)
next
  case (4 x xs y ys)
  have "x \<noteq> y \<Longrightarrow> uint x \<noteq> uint y" by (simp add: word_uint_eq_iff)
  with 4 show ?case by (cases "x = y") (auto simp: sint_byte_diff word_less_def)
qed simp

lemma strncmp_cstr:
  "cstr m s1 a \<Longrightarrow> cstr m s2 b \<Longrightarrow>
     strncmp m s1 s2 n = strcmp_spec (take (unat n) a) (take (unat n) b)"
proof (induction a b arbitrary: s1 s2 n rule: strcmp_spec.induct)
  case (4 x xs y ys)
  show ?case
  proof (cases "n = 0")
    case False
    then have "unat n = Suc (unat (n - 1))" by (simp add: unat_dec unat_gt_0 word_neq_0_conv)
    with 4 False show ?thesis by (subst strncmp.simps) simp
  qed (subst strncmp.simps, simp)
qed (subst strncmp.simps, auto simp: take_Cons' unat_eq_0)+

section \<open>Copying\<close>

lemma strcpy_fill:
  "cstr m s bs \<Longrightarrow> apart d (Suc (length bs)) s (Suc (length bs)) \<Longrightarrow> length bs < 4294967295 \<Longrightarrow>
     strcpy m d s = Some (d + of_nat (length bs), mem_fill m d (Suc (length bs)) (\<lambda>i. (bs @ [0]) ! i))"
proof (induction bs arbitrary: m d s)
  case Nil
  then show ?case by (subst strcpy.simps) (simp add: mem_fill_Suc)
next
  case (Cons b bs)
  let ?m = "m(d := b)"
  have src: "cstr ?m (s + 1) bs"
  proof (rule cstr_frame [where m = m])
    show "cstr m (s + 1) bs" using Cons.prems by simp
    fix i assume "i \<le> length bs"
    then have "d + of_nat 0 \<noteq> s + of_nat (Suc i)"
      using apartD [OF Cons.prems(2), of 0 "Suc i"] by simp
    then show "?m (s + 1 + of_nat i) = m (s + 1 + of_nat i)" by (simp add: add.assoc)
  qed
  have "strcpy ?m (d + 1) (s + 1) = Some (d + 1 + of_nat (length bs),
      mem_fill ?m (d + 1) (Suc (length bs)) (\<lambda>i. (bs @ [0]) ! i))"
    using Cons.IH [OF src] apart_tail [of d "Suc (length bs)" s "Suc (length bs)"] Cons.prems(2,3)
    by (simp del: fun_upd_apply)
  moreover have "mem_fill ?m (d + 1) (Suc (length bs)) (\<lambda>i. (bs @ [0]) ! i)
      = mem_fill m d (Suc (Suc (length bs))) (\<lambda>i. ((b # bs) @ [0]) ! i)"
    using mem_fill_Cons [of "Suc (length bs)" m d "\<lambda>i. ((b # bs) @ [0]) ! i"] Cons.prems(3) by simp
  ultimately show ?case
    using Cons.prems(1) by (subst strcpy.simps) (simp add: add.assoc)
qed

lemma cstr_fill:
  "0 \<notin> set bs \<Longrightarrow> length bs < 4294967295 \<Longrightarrow>
     cstr (mem_fill m d (Suc (length bs)) (\<lambda>i. (bs @ [0]) ! i)) d bs"
  by (simp add: cstr_def mem_simps nth_append)

lemma strcat_copy_strcpy:
  assumes "strcpy m d s = Some (d', m')"
  shows "strcat_copy m d s = Some m'"
proof -
  have "strcat_copy m d s = Some (snd (d', m'))"
  proof (rule strcpy.raw_induct [where P = "\<lambda>m d s r. strcat_copy m d s = Some (snd r)", OF _ assms])
    fix f m d s r
    assume "\<And>m d s r. f m d s = Some r \<Longrightarrow> strcat_copy m d s = Some (snd r)"
      and "(if m s \<noteq> 0 then f (m(d := m s)) (d + 1) (s + 1) else Some (d, m(d := 0))) = Some r"
    then show "strcat_copy m d s = Some (snd r)"
      by (subst strcat_copy.simps) (auto split: if_splits)
  qed
  then show ?thesis by simp
qed

lemma strcat_end_cstr: "cstr m d bs \<Longrightarrow> strcat_end m d = Some (d + of_nat (length bs))"
proof (induction bs arbitrary: d)
  case Nil
  then show ?case by (subst strcat_end.simps) simp
next
  case (Cons b bs)
  then show ?case by (subst strcat_end.simps) (simp add: add.assoc)
qed

lemma strcat_fill:
  assumes "cstr m d ds" "cstr m s ss" "length ss < 4294967295"
    "apart (d + of_nat (length ds)) (Suc (length ss)) s (Suc (length ss))"
  shows "strcat m d s = Some (mem_fill m (d + of_nat (length ds)) (Suc (length ss)) (\<lambda>i. (ss @ [0]) ! i))"
  using strcpy_fill [OF assms(2,4,3)]
  by (simp add: strcat_def strcat_end_cstr [OF assms(1)] strcat_copy_strcpy)

text \<open>Whatever the source holds, \<open>strncpy\<close> writes to the destination only.\<close>

lemma strncpy_copy_outside: "unat n \<le> unat (x - d) \<Longrightarrow> snd (strncpy_copy m d s n i) x = m x"
proof (induction m d s n i rule: strncpy_copy.induct)
  case (1 m dest src n i)
  have "x \<noteq> dest + i" if "i < n" using that "1.prems" by (auto simp: word_less_nat_alt)
  then show ?case using 1 by (subst strncpy_copy.simps) (simp add: fun_upd_other del: fun_upd_apply)
qed

lemma strncpy_pad_outside: "unat n \<le> unat (x - d) \<Longrightarrow> strncpy_pad m d n i x = m x"
proof (induction m d n i rule: strncpy_pad.induct)
  case (1 m dest n i)
  have "x \<noteq> dest + i" if "i < n" using that "1.prems" by (auto simp: word_less_nat_alt)
  then show ?case using 1 by (subst strncpy_pad.simps) (simp add: fun_upd_other del: fun_upd_apply)
qed

lemma strncpy_outside: "unchanged_outside m (snd (strncpy m d s n)) d (unat n)"
  using strncpy_copy_outside [of n _ d m s 0] strncpy_pad_outside [of n _ d]
  by (simp add: strncpy_def unchanged_outside_def split: prod.splits) (metis snd_conv)

text \<open>\<open>strncpy\<close>: the copied prefix, then zeros up to \<open>n\<close>.\<close>

lemma strncpy_pad_fill:
  "unat i \<le> unat n \<Longrightarrow>
     strncpy_pad m d n i = mem_fill m (d + i) (unat n - unat i) (\<lambda>_. 0)"
proof (induction m d n i rule: strncpy_pad.induct)
  case (1 m dest n i)
  show ?case
  proof (cases "i < n")
    case True
    then have i: "unat (i + 1) = Suc (unat i)" and lt: "unat i < unat n"
      by (simp_all add: unat_inc word_less_nat_alt)
    have "strncpy_pad m dest n i = mem_fill (m(dest + i := 0)) (dest + i + 1) (unat n - Suc (unat i)) (\<lambda>_. 0)"
      using "1.IH" True i lt by (subst strncpy_pad.simps) (simp add: add.assoc del: fun_upd_apply)
    also have "\<dots> = mem_fill m (dest + i) (Suc (unat n - Suc (unat i))) (\<lambda>_. 0)"
      by (rule mem_fill_Cons) (rule less_imp_diff_less [OF unat32_less])
    finally show ?thesis using lt by (simp add: Suc_diff_Suc)
  next
    case False
    with 1 have "i = n" by (simp add: word_le_nat_alt word_less_nat_alt flip: word_unat_eq_iff)
    then show ?thesis by (subst strncpy_pad.simps) simp
  qed
qed


lemma strncpy_copy_fill:
  assumes "apart d (unat n) s (unat n)" "unat i + length bs \<le> unat n"
    "0 \<notin> set bs" "\<forall>j < length bs. m (s + i + of_nat j) = bs ! j"
    "unat i + length bs = unat n \<or> m (s + i + of_nat (length bs)) = 0"
  shows "strncpy_copy m d s n i = (i + of_nat (length bs), mem_fill m (d + i) (length bs) (\<lambda>j. bs ! j))"
  using assms(2-)
proof (induction bs arbitrary: m i)
  case Nil
  then show ?case by (subst strncpy_copy.simps) (auto simp: word_less_nat_alt)
next
  case (Cons b bs)
  let ?m = "m(d + i := b)"
  have lt: "i < n" using Cons.prems(1) by (simp add: word_less_nat_alt)
  then have i: "unat (i + 1) = Suc (unat i)" by (rule unat_inc)
  have keep: "?m (s + i + 1 + of_nat j) = m (s + i + 1 + of_nat j)" if "Suc (unat i) + j < unat n" for j
  proof -
    have "d + of_nat (unat i) \<noteq> s + of_nat (Suc (unat i) + j)"
      using that by (intro apartD [OF assms(1)]) simp_all
    then show ?thesis by (simp add: ac_simps)
  qed
  have b: "m (s + i) = b" "b \<noteq> 0" using Cons.prems(2,3) by (auto dest: spec [of _ 0])
  have tl: "m (s + i + 1 + of_nat j) = bs ! j" if "j < length bs" for j
    using Cons.prems(3) that by (auto simp: ac_simps dest: spec [of _ "Suc j"])
  have "strncpy_copy ?m d s n (i + 1) = (i + 1 + of_nat (length bs),
      mem_fill ?m (d + (i + 1)) (length bs) (\<lambda>j. bs ! j))"
  proof (rule Cons.IH)
    show "unat (i + 1) + length bs \<le> unat n" "0 \<notin> set bs" using Cons.prems i by auto
    show "\<forall>j < length bs. ?m (s + (i + 1) + of_nat j) = bs ! j"
      using keep tl Cons.prems(1) by (simp add: add.assoc [symmetric] del: fun_upd_apply)
    show "unat (i + 1) + length bs = unat n \<or> ?m (s + (i + 1) + of_nat (length bs)) = 0"
    proof (cases "unat (i + 1) + length bs = unat n")
      case False
      then have "Suc (unat i) + length bs < unat n" using Cons.prems(1) i by simp
      from keep [OF this] False show ?thesis
        using Cons.prems(4) i by (simp add: add.assoc del: fun_upd_apply)
    qed simp
  qed
  moreover have "length bs < 4294967296"
  proof -
    have "length bs \<le> unat n" using Cons.prems(1) by simp
    also have "unat n < 4294967296" by simp
    finally show ?thesis .
  qed
  then have "mem_fill ?m (d + (i + 1)) (length bs) (\<lambda>j. bs ! j)
      = mem_fill m (d + i) (length (b # bs)) (\<lambda>j. (b # bs) ! j)"
    using mem_fill_Cons [of "length bs" m "d + i" "\<lambda>j. (b # bs) ! j"] by (simp add: add.assoc)
  ultimately show ?case
    using b lt by (subst strncpy_copy.simps) (simp add: add.assoc)
qed

lemma strncpy_cstr:
  assumes "cstr m s bs" "apart d (unat n) s (unat n)"
  shows "strncpy m d s n = (d, mem_fill m d (unat n) (\<lambda>i. if i < length bs then bs ! i else 0))"
proof -
  let ?p = "take (unat n) bs"
  have len: "length ?p \<le> unat n" "length ?p < 4294967296"
    using cstr_length [OF assms(1)] by auto
  have u: "unat (of_nat (length ?p) :: u32) = length ?p" using len by simp
  have "strncpy_copy m d s n 0 = (0 + of_nat (length ?p), mem_fill m (d + 0) (length ?p) (\<lambda>j. ?p ! j))"
    using assms by (intro strncpy_copy_fill) (auto simp: cstr_def min_def dest: in_set_takeD)
  then have "strncpy m d s n =
      (d, mem_fill (mem_fill m d (length ?p) (\<lambda>j. ?p ! j)) (d + of_nat (length ?p)) (unat n - length ?p) (\<lambda>_. 0))"
    using len u by (simp add: strncpy_def strncpy_pad_fill)
  also have "\<dots> = (d, mem_fill m d (unat n) (\<lambda>i. if i < length ?p then ?p ! i else 0))"
    using len by (subst mem_fill_append) auto
  also have "\<dots> = (d, mem_fill m d (unat n) (\<lambda>i. if i < length bs then bs ! i else 0))"
    by (auto intro!: mem_fill_cong)
  finally show ?thesis .
qed

end
