(* ===== verification/CStdlib.thy ===== *)
theory CStdlib
  imports CString
begin

text \<open>
  \<^verbatim>\<open>src/libc/stdlib.c\<close> without its allocator: block operations on memory,
  number parsing and the pseudo-random generator. A \<^verbatim>\<open>for\<close> loop with fixed bounds is a
  fold over its indices that threads the memory, so that a copy reads what earlier
  iterations wrote; \<open>memmove\<close> is shown to be the simultaneous copy for all overlaps.
\<close>

section \<open>Block operations\<close>

definition memset :: "mem \<Rightarrow> addr \<Rightarrow> u32 \<Rightarrow> u32 \<Rightarrow> addr \<times> mem" where
  "memset m ptr c sz = (ptr, fold (\<lambda>i m. m(ptr + of_nat i := ucast c)) [0..<unat sz] m)"

definition memmove :: "mem \<Rightarrow> addr \<Rightarrow> addr \<Rightarrow> u32 \<Rightarrow> addr \<times> mem" where
  "memmove m dest src n =
     (dest,
      if dest < src then fold (\<lambda>i m. m(dest + of_nat i := m (src + of_nat i))) [0..<unat n] m
      else fold (\<lambda>i m. m(dest + of_nat i := m (src + of_nat i))) (rev [0..<unat n]) m)"

text \<open>\<open>memcpy\<close> counts an \<^verbatim>\<open>int\<close> down to exactly zero, so it makes \<open>unat len\<close> rounds.\<close>

definition memcpy :: "mem \<Rightarrow> addr \<Rightarrow> addr \<Rightarrow> u32 \<Rightarrow> addr \<times> mem" where
  "memcpy m dest src len =
     (dest, fold (\<lambda>i m. m(dest + of_nat i := m (src + of_nat i))) [0..<unat len] m)"

text \<open>\<open>memcmp\<close> compares \<^verbatim>\<open>char\<close>s, which are signed.\<close>

fun memcmp_loop :: "mem \<Rightarrow> addr \<Rightarrow> addr \<Rightarrow> nat \<Rightarrow> u32" where
  "memcmp_loop m c1 c2 0 = 0"
| "memcmp_loop m c1 c2 (Suc count) =
     (if m c1 \<noteq> m c2 then if m c1 <s m c2 then -1 else 1
      else memcmp_loop m (c1 + 1) (c2 + 1) count)"

definition memcmp :: "mem \<Rightarrow> addr \<Rightarrow> addr \<Rightarrow> u32 \<Rightarrow> u32" where
  "memcmp m s1 s2 count = memcmp_loop m s1 s2 (nat (sint count))"

section \<open>Numbers\<close>

definition isdigit :: "u8 \<Rightarrow> bool" where
  "isdigit c \<longleftrightarrow> 48 \<le>s c \<and> c \<le>s 57"

partial_function (option) atoi_loop :: "mem \<Rightarrow> addr \<Rightarrow> u32 \<Rightarrow> u32 \<Rightarrow> u32 option" where
  "atoi_loop m str i r =
     (if m (str + i) \<noteq> 0 then atoi_loop m str (i + 1) (r * 10 + scast (m (str + i)) - 48)
      else Some r)"

definition atoi :: "mem \<Rightarrow> addr \<Rightarrow> u32 option" where
  "atoi m str =
     (let sign = (if m str = 0x2d then -1 else 1); i = (if m str = 0x2d then 1 else 0) in
      map_option (\<lambda>r. sign * r) (atoi_loop m str i 0))"

text \<open>
  The generator's state is the static \<open>saved_seed\<close>. \<open>rand\<close> computes the next state
  into a local variable and leaves \<open>saved_seed\<close> as it was.
\<close>

definition rand :: "u32 \<Rightarrow> u32 \<times> u32" where
  "rand saved_seed =
     (let seed = 1; s = (if saved_seed = 0 then seed else saved_seed);
          s = s * 1103515245 + 12345
      in ((s div 65536) mod 32768, saved_seed))"

definition srand :: "u32 \<Rightarrow> u32 \<Rightarrow> u32" where
  "srand seed saved_seed = seed"

text \<open>\<^verbatim>\<open>abs\<close> of \<^verbatim>\<open>src/libc/math.c\<close>; the least \<^verbatim>\<open>int\<close> is its own.\<close>

definition abs_int :: "u32 \<Rightarrow> u32" where
  "abs_int n = (if n <s 0 then - n else n)"

section \<open>Closed forms\<close>

lemma memset_fill: "memset m p c n = (p, mem_fill m p (unat n) (\<lambda>_. ucast c))"
  using fold_fill [of "unat n" p "\<lambda>_. ucast c" m] less_imp_le [OF unat32_less] by (simp add: memset_def)

lemma copy_forward:
  "n \<le> 4294967296 \<Longrightarrow> (\<And>i j. i < j \<Longrightarrow> j < n \<Longrightarrow> d + of_nat i \<noteq> s + of_nat j) \<Longrightarrow>
     fold (\<lambda>i m. m(d + of_nat i := m (s + of_nat i))) [0..<n] m = mem_copy m d s n"
proof (induction n)
  case 0
  show ?case by (simp add: mem_copy_def)
next
  case (Suc n)
  have "apart d n (s + of_nat n) 1" using Suc.prems(2) [of _ n] by (simp add: apart_def)
  from apart_out [OF this, of 0] have "mem_copy m d s n (s + of_nat n) = m (s + of_nat n)"
    by (simp add: mem_simps)
  moreover have "fold (\<lambda>i m. m(d + of_nat i := m (s + of_nat i))) [0..<n] m = mem_copy m d s n"
    using Suc.prems by (intro Suc.IH) auto
  ultimately show ?case
    using Suc.prems(1) by (simp add: mem_copy_def mem_fill_Suc del: fun_upd_apply)
qed

lemma mem_fill_upd:
  assumes "n < 4294967296"
  shows "mem_fill (m(p + of_nat n := v)) p n f = (mem_fill m p n f)(p + of_nat n := v)"
proof
  fix x
  show "mem_fill (m(p + of_nat n := v)) p n f x = ((mem_fill m p n f)(p + of_nat n := v)) x"
    using assms by (cases "x = p + of_nat n") (simp_all add: mem_fill_def)
qed

lemma copy_backward:
  "n \<le> 4294967296 \<Longrightarrow> (\<And>i j. j < i \<Longrightarrow> i < n \<Longrightarrow> d + of_nat i \<noteq> s + of_nat j) \<Longrightarrow>
     fold (\<lambda>i m. m(d + of_nat i := m (s + of_nat i))) (rev [0..<n]) m = mem_copy m d s n"
proof (induction n arbitrary: m)
  case 0
  show ?case by (simp add: mem_copy_def)
next
  case (Suc n)
  let ?m = "m(d + of_nat n := m (s + of_nat n))"
  have "fold (\<lambda>i m. m(d + of_nat i := m (s + of_nat i))) (rev [0..<Suc n]) m = mem_copy ?m d s n"
    using Suc.prems Suc.IH [of ?m] by (simp del: fun_upd_apply)
  also have "\<dots> = mem_fill ?m d n (\<lambda>i. m (s + of_nat i))"
    unfolding mem_copy_def using Suc.prems(2) [of _ n] by (intro mem_fill_cong) (auto dest: not_sym)
  also have "\<dots> = mem_copy m d s (Suc n)"
    using Suc.prems(1) by (simp add: mem_copy_def mem_fill_Suc mem_fill_upd)
  finally show ?case .
qed

lemma add_of_nat_eq:
  fixes a b :: u32
  assumes "unat a + i < 4294967296" "unat b + j < 4294967296"
  shows "a + of_nat i = b + of_nat j \<longleftrightarrow> unat a + i = unat b + j"
proof -
  have "unat (a + of_nat i) = unat a + i" "unat (b + of_nat j) = unat b + j"
    using assms by (simp_all add: unat_word_ariths)
  then show ?thesis by (metis unsigned_word_eqI)
qed

lemma memmove_copy:
  assumes "unat d + unat n \<le> 4294967296" "unat s + unat n \<le> 4294967296"
  shows "memmove m d s n = (d, mem_copy m d s (unat n))"
proof (cases "d < s")
  case True
  then have "fold (\<lambda>i m. m(d + of_nat i := m (s + of_nat i))) [0..<unat n] m = mem_copy m d s (unat n)"
    using assms by (intro copy_forward) (auto simp: add_of_nat_eq word_less_nat_alt less_imp_le)
  with True show ?thesis by (simp add: memmove_def)
next
  case False
  then have "fold (\<lambda>i m. m(d + of_nat i := m (s + of_nat i))) (rev [0..<unat n]) m = mem_copy m d s (unat n)"
    using assms by (intro copy_backward) (auto simp: add_of_nat_eq word_less_nat_alt less_imp_le)
  with False show ?thesis by (simp add: memmove_def)
qed

lemma memcpy_copy:
  assumes "apart d (unat n) s (unat n)"
  shows "memcpy m d s n = (d, mem_copy m d s (unat n))"
proof -
  have "fold (\<lambda>i m. m(d + of_nat i := m (s + of_nat i))) [0..<unat n] m = mem_copy m d s (unat n)"
    using apartD [OF assms] by (intro copy_forward) (auto simp: less_imp_le)
  then show ?thesis by (simp add: memcpy_def)
qed

lemma memcmp_loop_zero_iff: "memcmp_loop m a b n = 0 \<longleftrightarrow> bytes m a n = bytes m b n"
  by (induction n arbitrary: a b) (auto simp: bytes_Suc)

lemma memcmp_zero_iff:
  "memcmp m a b n = 0 \<longleftrightarrow> bytes m a (nat (sint n)) = bytes m b (nat (sint n))"
  by (simp add: memcmp_def memcmp_loop_zero_iff)

text \<open>The decimal numeral of a number, as ASCII bytes.\<close>

fun decimal :: "nat \<Rightarrow> u8 list" where
  "decimal n = (if n < 10 then [48 + of_nat n] else decimal (n div 10) @ [48 + of_nat (n mod 10)])"

declare decimal.simps [simp del]

lemma atoi_loop_cstr:
  "cstr m (str + i) bs \<Longrightarrow>
     atoi_loop m str i r = Some (foldl (\<lambda>r b. r * 10 + scast b - 48) r bs)"
proof (induction bs arbitrary: i r)
  case Nil
  then show ?case by (subst atoi_loop.simps) simp
next
  case (Cons b bs)
  then show ?case by (subst atoi_loop.simps) (simp add: add.assoc)
qed

lemma digit_value:
  assumes "d < 10"
  shows "(scast (48 + of_nat d :: u8) :: u32) = 48 + of_nat d" "(48 + of_nat d :: u8) \<noteq> 0"
    "(48 + of_nat d :: u8) \<noteq> 0x2d"
proof -
  have "d \<in> {0, 1, 2, 3, 4, 5, 6, 7, 8, 9}" using assms by auto
  then show "(scast (48 + of_nat d :: u8) :: u32) = 48 + of_nat d" "(48 + of_nat d :: u8) \<noteq> 0"
    "(48 + of_nat d :: u8) \<noteq> 0x2d"
    by auto
qed

lemma decimal_value: "foldl (\<lambda>r b. r * 10 + scast b - 48) 0 (decimal n) = (of_nat n :: u32)"
proof (induction n rule: decimal.induct)
  case (1 n)
  show ?case
  proof (cases "n < 10")
    case True
    then show ?thesis by (subst decimal.simps) (simp add: digit_value)
  next
    case False
    have "(of_nat (n div 10 * 10 + n mod 10) :: u32) = of_nat n" by simp
    then have "(of_nat (n div 10) :: u32) * 10 + of_nat (n mod 10) = of_nat n"
      by (simp only: of_nat_add of_nat_mult of_nat_numeral)
    with False 1 show ?thesis
      by (subst decimal.simps) (simp add: digit_value)
  qed
qed

lemma decimal_hd: "decimal n \<noteq> [] \<and> hd (decimal n) \<noteq> 0x2d"
proof (induction n rule: decimal.induct)
  case (1 n)
  then show ?case by (subst (1 2) decimal.simps) (auto simp: digit_value)
qed


section \<open>Properties\<close>

text \<open>
  C35: \<open>memmove\<close> writes exactly what a simultaneous copy would, for any overlap of the two
  blocks: each destination byte is the byte the source held before the call, every other byte
  of memory is unchanged, and the destination is returned.
\<close>

theorem memmove_correct:
  assumes "unat dest + unat n \<le> 4294967296" and "unat src + unat n \<le> 4294967296"
  shows "fst (memmove m dest src n) = dest
    \<and> bytes (snd (memmove m dest src n)) dest (unat n) = bytes m src (unat n)
    \<and> unchanged_outside m (snd (memmove m dest src n)) dest (unat n)"
  using memmove_copy [OF assms]
  by (auto simp: mem_copy_def mem_simps less_imp_le intro!: nth_equalityI)

theorem memmove_correct_witness:
  "bytes (snd (memmove (\<lambda>x. ucast x) 0x1002 0x1000 4)) 0x1002 4 = [0, 1, 2, 3]"
proof -
  have "bytes (snd (memmove (\<lambda>x. ucast x) 0x1002 0x1000 4)) 0x1002 (unat (4 :: u32))
    = bytes (\<lambda>x. ucast x) 0x1000 (unat (4 :: u32))"
    using memmove_correct [of "0x1002" 4 "0x1000" "\<lambda>x. ucast x"] by simp
  then show ?thesis by (simp add: bytes_def upt_rec)
qed

text \<open>
  \<open>atoi\<close> reads back the decimal numeral of any number, with or without a minus sign
  (modulo \<open>2 ^ 32\<close>, so exactly for every \<^verbatim>\<open>int\<close>).
\<close>

lemma atoi_decimal:
  assumes "cstr m s (decimal n)" and "m t = 0x2d" and "cstr m (t + 1) (decimal k)"
  shows "atoi m s = Some (of_nat n) \<and> atoi m t = Some (- of_nat k)"
proof
  from assms(1) have "m s = hd (decimal n)" using decimal_hd [of n] by (cases "decimal n") auto
  then have "m s \<noteq> 0x2d" using decimal_hd [of n] by simp
  then show "atoi m s = Some (of_nat n)"
    using atoi_loop_cstr [of m s 0] assms(1) by (simp add: atoi_def decimal_value)
  show "atoi m t = Some (- of_nat k)"
    using atoi_loop_cstr [of m t 1] assms(2,3) by (simp add: atoi_def decimal_value)
qed

end
