(* ===== verification/Heap.thy ===== *)
theory Heap
  imports CStdlib
begin

text \<open>
  \<^verbatim>\<open>src/mem/heap.c\<close>: the block heap. A table of one byte per 4096-byte block lies in
  memory at \<open>entries\<close>; the heap's data starts at \<open>saddr\<close>.
\<close>

section \<open>State\<close>

record heap_table =
  entries :: addr
  total :: u32

record heap =
  heap_tbl :: heap_table
  saddr :: addr

abbreviation (input) HEAP_BLOCK_TABLE_ENTRY_TAKEN :: u8 where "HEAP_BLOCK_TABLE_ENTRY_TAKEN \<equiv> 0x01"
abbreviation (input) HEAP_BLOCK_TABLE_ENTRY_FREE :: u8 where "HEAP_BLOCK_TABLE_ENTRY_FREE \<equiv> 0x00"
abbreviation (input) HEAP_BLOCK_HAS_NEXT :: u32 where "HEAP_BLOCK_HAS_NEXT \<equiv> 0b100000000"
abbreviation (input) HEAP_BLOCK_IS_FIRST :: u32 where "HEAP_BLOCK_IS_FIRST \<equiv> 0b010000000"
abbreviation (input) DEXTER_HEAP_BLOCK_SIZE :: u32 where "DEXTER_HEAP_BLOCK_SIZE \<equiv> 4096"

section \<open>Operations\<close>

definition heap_validate_table :: "addr \<Rightarrow> addr \<Rightarrow> heap_table \<Rightarrow> u32" where
  "heap_validate_table ptr end_ptr tbl =
     (let table_size = end_ptr - ptr; total_blocks = table_size div DEXTER_HEAP_BLOCK_SIZE in
      if total tbl \<noteq> total_blocks then - EINVARG else 0)"

definition heap_validate_alignment :: "addr \<Rightarrow> bool" where
  "heap_validate_alignment ptr \<longleftrightarrow> ptr mod DEXTER_HEAP_BLOCK_SIZE = 0"

definition heap_align_value_to_upper :: "u32 \<Rightarrow> u32" where
  "heap_align_value_to_upper val =
     (if val mod DEXTER_HEAP_BLOCK_SIZE = 0 then val
      else val - val mod DEXTER_HEAP_BLOCK_SIZE + DEXTER_HEAP_BLOCK_SIZE)"

definition heap_get_entry_type :: "u8 \<Rightarrow> u32" where
  "heap_get_entry_type entry = ucast entry AND 0x0f"

text \<open>
  \<open>heap_create\<close> returns its status, the heap it filled in (unchanged when the alignment
  check fails) and the memory with the table cleared.
\<close>

definition heap_create :: "mem \<Rightarrow> heap \<Rightarrow> addr \<Rightarrow> addr \<Rightarrow> heap_table \<Rightarrow> u32 \<times> heap \<times> mem" where
  "heap_create m h ptr end_ptr tbl =
     (if \<not> heap_validate_alignment ptr \<or> \<not> heap_validate_alignment end_ptr then (- EINVARG, h, m)
      else
        let h' = \<lparr>heap_tbl = tbl, saddr = ptr\<rparr>; r = heap_validate_table ptr end_ptr tbl in
        if r <s 0 then (r, h', m)
        else (r, h', snd (memset m (entries tbl) (ucast HEAP_BLOCK_TABLE_ENTRY_FREE) (1 * total tbl))))"

text \<open>
  The search loop: \<open>bs\<close> is the start of the current run of free blocks (\<open>-1\<close> for none)
  and \<open>bc\<close> its length; it stops when the run is long enough.
\<close>

function heap_get_start_block_loop :: "mem \<Rightarrow> heap \<Rightarrow> u32 \<Rightarrow> u32 \<Rightarrow> u32 \<Rightarrow> u32 \<Rightarrow> u32" where
  "heap_get_start_block_loop m h total_blocks i bc bs =
     (if i < total (heap_tbl h) then
        if heap_get_entry_type (m (entries (heap_tbl h) + i)) \<noteq> ucast HEAP_BLOCK_TABLE_ENTRY_FREE
        then heap_get_start_block_loop m h total_blocks (i + 1) 0 (-1)
        else
          let bs' = (if bs = -1 then i else bs); bc' = bc + 1 in
          if bc' = total_blocks then bs'
          else heap_get_start_block_loop m h total_blocks (i + 1) bc' bs'
      else bs)"
  by pat_completeness auto
termination
  by (relation "measure (\<lambda>(m, h, n, i, bc, bs). unat (total (heap_tbl h)) - unat i)")
    (auto simp: measure_simps)

declare heap_get_start_block_loop.simps [simp del]

definition heap_get_start_block :: "mem \<Rightarrow> heap \<Rightarrow> u32 \<Rightarrow> u32" where
  "heap_get_start_block m h total_blocks =
     (let bs = heap_get_start_block_loop m h total_blocks 0 0 (-1) in
      if bs = -1 then - ENOMEM else bs)"

definition heap_block_to_address :: "heap \<Rightarrow> u32 \<Rightarrow> addr" where
  "heap_block_to_address h block = saddr h + block * DEXTER_HEAP_BLOCK_SIZE"

text \<open>The difference is an \<^verbatim>\<open>int\<close>, so the division truncates towards zero.\<close>

definition heap_address_to_block :: "heap \<Rightarrow> addr \<Rightarrow> u32" where
  "heap_address_to_block h address = word_of_int (sint (address - saddr h) sdiv 4096)"

text \<open>
  A table entry is an \<^verbatim>\<open>unsigned char\<close>, so \<^verbatim>\<open>entry |= HEAP_BLOCK_HAS_NEXT\<close> keeps the
  low eight bits of the 32-bit result.
\<close>

definition entry_or :: "u8 \<Rightarrow> u32 \<Rightarrow> u8" where
  "entry_or entry flag = ucast (ucast entry OR flag)"

definition heap_mark_blocks_taken :: "mem \<Rightarrow> heap \<Rightarrow> u32 \<Rightarrow> u32 \<Rightarrow> mem" where
  "heap_mark_blocks_taken m h start_block total_blocks =
     (let end_block = start_block + total_blocks - 1;
          entry = entry_or HEAP_BLOCK_TABLE_ENTRY_TAKEN HEAP_BLOCK_IS_FIRST;
          entry = (if 1 <s total_blocks then entry_or entry HEAP_BLOCK_HAS_NEXT else entry)
      in fst (fold
        (\<lambda>i (m, entry).
           (m(entries (heap_tbl h) + i := entry),
            if i \<noteq> end_block - 1 then entry_or HEAP_BLOCK_TABLE_ENTRY_TAKEN HEAP_BLOCK_HAS_NEXT
            else HEAP_BLOCK_TABLE_ENTRY_TAKEN))
        (map word_of_int [sint start_block..sint end_block]) (m, entry)))"

function heap_mark_blocks_free :: "mem \<Rightarrow> heap \<Rightarrow> u32 \<Rightarrow> mem" where
  "heap_mark_blocks_free m h i =
     (if i <s total (heap_tbl h) then
        let entry = m (entries (heap_tbl h) + i);
            m' = m(entries (heap_tbl h) + i := HEAP_BLOCK_TABLE_ENTRY_FREE) in
        if ucast entry AND HEAP_BLOCK_HAS_NEXT = 0 then m'
        else heap_mark_blocks_free m' h (i + 1)
      else m)"
  by pat_completeness auto
termination
  by (relation "measure (\<lambda>(m, h, i). nat (sint (total (heap_tbl h)) - sint i))")
    (auto simp: measure_simps)

declare heap_mark_blocks_free.simps [simp del]

definition heap_malloc_blocks :: "mem \<Rightarrow> heap \<Rightarrow> u32 \<Rightarrow> addr \<times> mem" where
  "heap_malloc_blocks m h total_blocks =
     (let start_block = heap_get_start_block m h total_blocks in
      if start_block <s 0 then (0, m)
      else (heap_block_to_address h start_block,
            heap_mark_blocks_taken m h start_block total_blocks))"

definition heap_malloc :: "mem \<Rightarrow> heap \<Rightarrow> u32 \<Rightarrow> addr \<times> mem" where
  "heap_malloc m h sz =
     (let aligned_size = heap_align_value_to_upper sz;
          total_blocks = aligned_size div DEXTER_HEAP_BLOCK_SIZE
      in heap_malloc_blocks m h total_blocks)"

definition heap_free :: "mem \<Rightarrow> heap \<Rightarrow> addr \<Rightarrow> mem" where
  "heap_free m h ptr = heap_mark_blocks_free m h (heap_address_to_block h ptr)"


section \<open>Alignment\<close>

lemma heap_align_value_to_upper_nat:
  "unat (heap_align_value_to_upper v) = ((unat v + 4095) div 4096 * 4096) mod 4294967296"
proof -
  define q r where "q = unat v div 4096" and "r = unat v mod 4096"
  have v: "unat v = 4096 * q + r" and r: "r < 4096"
    by (simp_all add: q_def r_def)
  show ?thesis
  proof (cases "r = 0")
    case True
    then have "v mod 4096 = 0" by (simp add: word_unat_eq_iff unat_mod32 r_def)
    moreover have "(unat v + 4095) div 4096 = q" using v True by (intro div_nat_eqI) simp_all
    moreover have "4096 * q < 4294967296" using v True unat32_less [of v] by linarith
    ultimately show ?thesis using v True by (simp add: heap_align_value_to_upper_def)
  next
    case False
    then have "v mod 4096 \<noteq> 0" by (simp add: word_unat_eq_iff unat_mod32 r_def)
    moreover have "(unat v + 4095) div 4096 = Suc q" using v r False by (intro div_nat_eqI) simp_all
    then have "(unat v + 4095) div 4096 * 4096 = 4096 * q + 4096" by simp
    moreover have "unat (v - v mod 4096) = 4096 * q"
      using v r by (simp add: unat_sub word_le_nat_alt unat_mod32)
    ultimately show ?thesis
      by (simp add: heap_align_value_to_upper_def unat_word_ariths)
  qed
qed

section \<open>The search\<close>

text \<open>Blocks, by number, and whether the table marks them taken.\<close>

definition block_taken :: "mem \<Rightarrow> heap \<Rightarrow> nat \<Rightarrow> bool" where
  "block_taken m h i \<longleftrightarrow> heap_get_entry_type (m (entries (heap_tbl h) + of_nat i)) \<noteq> 0"

definition free_run :: "mem \<Rightarrow> heap \<Rightarrow> nat \<Rightarrow> nat \<Rightarrow> bool" where
  "free_run m h n i \<longleftrightarrow> i + n \<le> unat (total (heap_tbl h)) \<and> (\<forall>k \<in> {i..<i + n}. \<not> block_taken m h k)"

text \<open>
  The loop on natural numbers: \<open>b\<close> is where the current free run starts, \<open>b = i\<close> when
  there is none.
\<close>

function scan :: "(nat \<Rightarrow> bool) \<Rightarrow> nat \<Rightarrow> nat \<Rightarrow> nat \<Rightarrow> nat \<Rightarrow> nat" where
  "scan tk n N i b =
     (if i < N then
        if tk i then scan tk n N (Suc i) (Suc i)
        else if Suc i - b = n then b else scan tk n N (Suc i) b
      else b)"
  by pat_completeness auto
termination
  by (relation "measure (\<lambda>(tk, n, N, i, b). N - i)") auto

declare scan.simps [simp del]

lemma loop_scan:
  assumes N: "unat (total (heap_tbl h)) < 4294967295"
  shows "unat i \<le> unat (total (heap_tbl h)) \<Longrightarrow> b \<le> unat i \<Longrightarrow> bc = of_nat (unat i - b) \<Longrightarrow>
    bs = (if b = unat i then -1 else of_nat b) \<Longrightarrow>
    heap_get_start_block_loop m h n i bc bs
      = (let r = scan (block_taken m h) (unat n) (unat (total (heap_tbl h))) (unat i) b in
         if r = unat (total (heap_tbl h)) then -1 else of_nat r)"
proof (induction "unat (total (heap_tbl h)) - unat i" arbitrary: i b bc bs rule: less_induct)
  case less
  let ?N = "unat (total (heap_tbl h))"
  show ?case
  proof (cases "i < total (heap_tbl h)")
    case False
    with less.prems have "unat i = ?N" by (simp add: word_less_nat_alt)
    with False less.prems show ?thesis
      by (subst heap_get_start_block_loop.simps, subst scan.simps) auto
  next
    case True
    then have lt: "unat i < ?N" and i: "unat (i + 1) = Suc (unat i)"
      by (simp_all add: word_less_nat_alt unat_inc)
    have tk: "heap_get_entry_type (m (entries (heap_tbl h) + i)) \<noteq> 0 \<longleftrightarrow> block_taken m h (unat i)"
      by (simp add: block_taken_def)
    show ?thesis
    proof (cases "block_taken m h (unat i)")
      case tkn: True
      have "heap_get_start_block_loop m h n (i + 1) 0 (-1) =
        (let r = scan (block_taken m h) (unat n) ?N (Suc (unat i)) (Suc (unat i)) in
         if r = ?N then -1 else of_nat r)"
        using less.hyps [of "i + 1" "Suc (unat i)"] lt i by simp
      with True tkn tk lt show ?thesis
        by (subst heap_get_start_block_loop.simps, subst scan.simps) simp
    next
      case free: False
      have b: "b < 4294967295" using less.prems(2) lt N by linarith
      have "unat (of_nat b :: u32) = b" using b by simp
      moreover have "unat (-1 :: u32) = 4294967295"
        by (simp add: unsigned_minus_1_eq_mask mask_eq_exp_minus_1)
      ultimately have "(of_nat b :: u32) \<noteq> -1" using b by (metis less_irrefl)
      then have bs: "(if bs = -1 then i else bs) = of_nat b"
        using less.prems(4) by auto
      have bc: "bc + 1 = of_nat (Suc (unat i) - b)"
        using less.prems(2,3) by (simp add: Suc_diff_le)
      have "unat (of_nat (Suc (unat i) - b) :: u32) = Suc (unat i) - b"
        using lt N by simp
      then have eq: "bc + 1 = n \<longleftrightarrow> Suc (unat i) - b = unat n"
        unfolding bc by (metis of_nat_unat ucast_id)
      have "heap_get_start_block_loop m h n (i + 1) (bc + 1) (of_nat b) =
        (let r = scan (block_taken m h) (unat n) ?N (Suc (unat i)) b in
         if r = ?N then -1 else of_nat r)"
        unfolding i [symmetric] using less.prems(2) lt i bc [folded i] by (intro less.hyps) simp_all
      with True free tk lt bs eq less.prems(2) show ?thesis
        by (subst heap_get_start_block_loop.simps, subst scan.simps) (simp add: Let_def)
    qed
  qed
qed

lemma scan_bounds: "b \<le> i \<Longrightarrow> i \<le> N \<Longrightarrow> b \<le> scan tk n N i b \<and> scan tk n N i b \<le> N"
proof (induction tk n N i b rule: scan.induct)
  case (1 tk n N i b)
  then show ?case by (subst (1 2) scan.simps) auto
qed

lemma scan_free:
  "b \<le> i \<Longrightarrow> (\<And>k. b \<le> k \<Longrightarrow> k < i \<Longrightarrow> \<not> tk k) \<Longrightarrow>
     scan tk n N i b \<le> k \<Longrightarrow> k < scan tk n N i b + n \<Longrightarrow> k < N \<Longrightarrow> \<not> tk k"
proof (induction tk n N i b rule: scan.induct)
  case (1 tk n N i b)
  have eq: "scan tk n N i b = (if i < N then if tk i then scan tk n N (Suc i) (Suc i)
      else if Suc i - b = n then b else scan tk n N (Suc i) b else b)"
    by (subst scan.simps) simp
  show ?case
    using 1 unfolding eq by (auto split: if_splits simp: less_Suc_eq)
qed

lemma scan_first:
  "0 < n \<Longrightarrow> b \<le> i \<Longrightarrow> i - b < n \<Longrightarrow> b \<le> j \<Longrightarrow> j < scan tk n N i b \<Longrightarrow>
     j + n \<le> N \<Longrightarrow> \<exists>k \<in> {j..<j + n}. tk k"
proof (induction tk n N i b rule: scan.induct)
  case (1 tk n N i b)
  have eq: "scan tk n N i b = (if i < N then if tk i then scan tk n N (Suc i) (Suc i)
      else if Suc i - b = n then b else scan tk n N (Suc i) b else b)"
    by (subst scan.simps) simp
  show ?case
  proof (cases "i < N \<and> tk i")
    case True
    show ?thesis
    proof (cases "j \<le> i")
      case True
      with \<open>i < N \<and> tk i\<close> "1.prems" show ?thesis by (intro bexI [where x = i]) auto
    next
      case False
      with True "1.prems" "1.IH"(1) show ?thesis unfolding eq by auto
    qed
  next
    case False
    with "1.prems" "1.IH"(2) show ?thesis unfolding eq by (auto split: if_splits)
  qed
qed

lemma scan_rest_free:
  assumes "b \<le> i" "\<And>k. b \<le> k \<Longrightarrow> k < i \<Longrightarrow> \<not> tk k" "i \<le> N" "0 < n" "N < scan tk n N i b + n"
    "scan tk n N i b \<le> k" "k < N"
  shows "\<not> tk k"
  by (rule scan_free [OF assms(1,2,6)]) (use assms in auto)

lemma scan_rest_start:
  "b \<le> i \<Longrightarrow> i \<le> N \<Longrightarrow> i - b < n \<Longrightarrow> N < scan tk n N i b + n \<Longrightarrow>
     scan tk n N i b = b \<or> tk (scan tk n N i b - 1)"
proof (induction tk n N i b rule: scan.induct)
  case (1 tk n N i b)
  have eq: "scan tk n N i b = (if i < N then if tk i then scan tk n N (Suc i) (Suc i)
      else if Suc i - b = n then b else scan tk n N (Suc i) b else b)"
    by (subst scan.simps) simp
  consider "i < N" "tk i" | "i < N" "\<not> tk i" "Suc i - b = n" | "i < N" "\<not> tk i" "Suc i - b \<noteq> n" | "\<not> i < N"
    by blast
  then show ?case
  proof cases
    case 1
    then show ?thesis using "1.prems" "1.IH"(1) unfolding eq by auto
  next
    case 3
    then show ?thesis using "1.prems" "1.IH"(2) unfolding eq by auto
  qed (simp_all add: eq)
qed

text \<open>What the search returns, for heaps whose block numbers fit an \<^verbatim>\<open>int\<close>.\<close>

definition start_scan :: "mem \<Rightarrow> heap \<Rightarrow> u32 \<Rightarrow> nat" where
  "start_scan m h n = scan (block_taken m h) (unat n) (unat (total (heap_tbl h))) 0 0"

lemma get_start_block_scan:
  assumes "unat (total (heap_tbl h)) < 2147483648"
  shows "heap_get_start_block m h n =
    (if start_scan m h n = unat (total (heap_tbl h)) then -3 else of_nat (start_scan m h n))"
proof -
  let ?N = "unat (total (heap_tbl h))"
  have "heap_get_start_block_loop m h n 0 0 (-1) =
      (if start_scan m h n = ?N then -1 else of_nat (start_scan m h n))"
    using loop_scan [of h 0 0 0 "-1" m n] assms by (simp add: start_scan_def Let_def)
  moreover have "(of_nat (start_scan m h n) :: u32) \<noteq> -1"
  proof -
    have "start_scan m h n < 2147483648"
      using scan_bounds [of 0 0 ?N "block_taken m h" "unat n"] assms by (simp add: start_scan_def)
    then have lt: "unat (of_nat (start_scan m h n) :: u32) < 2147483648" by simp
    show ?thesis
    proof
      assume "(of_nat (start_scan m h n) :: u32) = -1"
      with lt show False by (simp add: unsigned_minus_1_eq_mask mask_eq_exp_minus_1)
    qed
  qed
  ultimately show ?thesis by (simp add: heap_get_start_block_def Let_def)
qed

lemma start_scan_fit:
  assumes "free_run m h (unat n) i" "n \<noteq> 0"
  shows "free_run m h (unat n) (start_scan m h n)"
    and "j < start_scan m h n \<Longrightarrow> \<not> free_run m h (unat n) j"
    and "start_scan m h n \<le> i"
proof -
  let ?N = "unat (total (heap_tbl h))" and ?r = "start_scan m h n"
  have n: "0 < unat n" using assms(2) by (simp add: unat_gt_0)
  show first: "j < ?r \<Longrightarrow> \<not> free_run m h (unat n) j" for j
    using scan_first [OF n, of 0 0 j "block_taken m h" ?N] n by (auto simp: start_scan_def free_run_def)
  show le: "?r \<le> i" using first [of i] assms(1) by (meson not_le)
  then have "?r + unat n \<le> ?N" using assms(1) by (simp add: free_run_def)
  then show "free_run m h (unat n) ?r"
    using scan_free [of 0 0 "block_taken m h" "unat n" ?N] by (auto simp: start_scan_def free_run_def)
qed

lemma start_scan_nofit:
  assumes "\<And>i. \<not> free_run m h (unat n) i" "n \<noteq> 0"
  defines "N \<equiv> unat (total (heap_tbl h))"
  shows "N < start_scan m h n + unat n"
    and "start_scan m h n \<le> k \<Longrightarrow> k < N \<Longrightarrow> \<not> block_taken m h k"
    and "start_scan m h n = N \<longleftrightarrow> N = 0 \<or> block_taken m h (N - 1)"
proof -
  let ?r = "start_scan m h n"
  have n: "0 < unat n" using assms(2) by (simp add: unat_gt_0)
  have fr: "?r \<le> k \<Longrightarrow> k < ?r + unat n \<Longrightarrow> k < N \<Longrightarrow> \<not> block_taken m h k" for k
    using scan_free [of 0 0 "block_taken m h" "unat n" N] by (simp add: start_scan_def N_def)
  show over: "N < ?r + unat n"
  proof (rule ccontr)
    assume "\<not> N < ?r + unat n"
    then have "free_run m h (unat n) ?r" using fr by (auto simp: free_run_def N_def)
    with assms(1) show False by blast
  qed
  show rest: "?r \<le> k \<Longrightarrow> k < N \<Longrightarrow> \<not> block_taken m h k" for k using fr over by simp
  have "?r \<le> N" using scan_bounds [of 0 0 N] by (simp add: start_scan_def N_def)
  moreover have "?r = 0 \<or> block_taken m h (?r - 1)"
    using scan_rest_start [of 0 0 N "unat n" "block_taken m h"] n over by (simp add: start_scan_def N_def)
  ultimately show "?r = N \<longleftrightarrow> N = 0 \<or> block_taken m h (N - 1)"
    using rest [of "N - 1"] by (cases "?r = N") auto
qed

section \<open>Marking\<close>

lemma entry_or_has_next [simp]: "entry_or 1 256 = 1" "entry_or 129 256 = 129" "entry_or 1 128 = 129"
  by (simp_all add: entry_or_def)

lemma has_next_lost [simp]: "ucast (e :: u8) AND (256 :: u32) = 0"
proof (rule bit_word_eqI)
  fix k assume "k < LENGTH(32)"
  have "bit (256 :: u32) k \<longleftrightarrow> k = 8"
    using bit_exp_iff [where 'a = u32, of 8 k] \<open>k < LENGTH(32)\<close> by auto
  then show "bit (ucast e AND (256 :: u32)) k \<longleftrightarrow> bit (0 :: u32) k"
    by (auto simp: bit_simps dest: bit_imp_le_length)
qed

lemma srange:
  fixes s :: u32
  assumes "unat s + n \<le> 2147483648" "0 < n"
  shows "map word_of_int [sint s..sint (s + of_nat n - 1)] = map (\<lambda>k. s + of_nat k) [0..<n]"
proof -
  obtain k where n: "n = Suc k" using assms(2) by (cases n) auto
  have "s + of_nat n - 1 = s + of_nat k" by (simp add: n)
  moreover have "unat (s + of_nat k) = unat s + k"
    using assms by (simp add: n unat_word_ariths)
  ultimately have e: "sint (s + of_nat n - 1) = int (unat s) + int (n - 1)"
    using assms by (simp add: n sint_small)
  have s: "sint s = int (unat s)" using assms by (simp add: sint_small)
  show ?thesis
    using assms unfolding e s by (intro nth_equalityI) simp_all
qed

lemma mark_blocks_fold:
  "n < 4294967296 \<Longrightarrow>
   fold (\<lambda>i (m, entry). (m(p + i := entry), 1)) (map (\<lambda>k. s + of_nat k) [0..<n]) (m, x)
     = (mem_fill m (p + s) n (\<lambda>k. if k = 0 then x else (1 :: u8)), if n = 0 then x else 1)"
  by (induction n) (simp_all add: mem_fill_Suc add.assoc del: fun_upd_apply)

lemma heap_mark_blocks_taken_fill:
  assumes "unat s + unat n \<le> 2147483648" "n \<noteq> 0"
  shows "heap_mark_blocks_taken m h s n =
    mem_fill m (entries (heap_tbl h) + s) (unat n) (\<lambda>k. if k = 0 then 0x81 else 0x01)"
proof -
  have r: "map word_of_int [sint s..sint (s + n - 1)] = map (\<lambda>k. s + of_nat k) [0..<unat n]"
    using srange [of s "unat n"] assms by (simp add: unat_gt_0)
  have e: "(if 1 <s n then entry_or (entry_or 1 128) 256 else entry_or 1 128) = 129" by simp
  have f: "(\<lambda>i (m, entry). (m(entries (heap_tbl h) + i := entry), if i \<noteq> s + n - 1 - 1 then entry_or 1 256 else 1))
    = (\<lambda>i (m, entry). (m(entries (heap_tbl h) + i := entry), 1 :: u8))"
    by (simp add: fun_eq_iff)
  show ?thesis
    unfolding heap_mark_blocks_taken_def Let_def e r f using mark_blocks_fold [of "unat n"] by simp
qed

lemma heap_mark_blocks_free_one:
  "heap_mark_blocks_free m h i =
     (if i <s total (heap_tbl h) then m(entries (heap_tbl h) + i := 0) else m)"
  by (subst heap_mark_blocks_free.simps) (simp add: Let_def)

section \<open>Allocation and release\<close>

definition taken_blocks :: "mem \<Rightarrow> heap \<Rightarrow> nat set" where
  "taken_blocks m h = {k. k < unat (total (heap_tbl h)) \<and> block_taken m h k}"

lemma entry_type_marked [simp]:
  "heap_get_entry_type 0x81 = 1" "heap_get_entry_type 1 = 1" "heap_get_entry_type 0 = 0"
  by (simp_all add: heap_get_entry_type_def)

lemma block_taken_fill:
  assumes "b + n \<le> 4294967296" "k < 4294967296" "b < 4294967296"
    "\<And>i. i < n \<Longrightarrow> heap_get_entry_type (f i) \<noteq> 0"
  shows "block_taken (mem_fill m (entries (heap_tbl h) + of_nat b) n f) h k
    \<longleftrightarrow> k \<in> {b..<b + n} \<or> block_taken m h k"
proof -
  have "unat (of_nat k - of_nat b :: u32) = (if b \<le> k then k - b else 4294967296 + k - b)"
    using assms(2,3) unat_sub_of_nat [of b "of_nat k"] by simp
  then show ?thesis
    using assms by (auto simp: block_taken_def mem_fill_def)
qed

lemma block_taken_free_upd:
  assumes "k < 4294967296" "b < 4294967296"
  shows "block_taken (m(entries (heap_tbl h) + of_nat b := 0)) h k \<longleftrightarrow> k \<noteq> b \<and> block_taken m h k"
  using assms by (auto simp: block_taken_def of_nat32_eq_iff)

lemma heap_malloc_blocks_fit:
  assumes "unat (total (heap_tbl h)) < 2147483648" "free_run m h (unat n) i" "n \<noteq> 0"
  defines "b \<equiv> start_scan m h n"
  shows "heap_malloc_blocks m h n = (heap_block_to_address h (of_nat b),
    mem_fill m (entries (heap_tbl h) + of_nat b) (unat n) (\<lambda>k. if k = 0 then 0x81 else 0x01))"
proof -
  have fit: "b + unat n \<le> unat (total (heap_tbl h))"
    using start_scan_fit(1) [OF assms(2,3)] by (simp add: b_def free_run_def)
  have n: "0 < unat n" using assms(3) by (simp add: unat_gt_0)
  have b: "unat (of_nat b :: u32) = b" using fit assms(1) by simp
  have "b \<noteq> unat (total (heap_tbl h))" using fit n by simp
  then have "heap_get_start_block m h n = of_nat b"
    using get_start_block_scan [OF assms(1)] by (simp add: b_def)
  moreover have "\<not> (of_nat b :: u32) <s 0"
    using fit assms(1) b by (simp add: sless_small)
  moreover have "heap_mark_blocks_taken m h (of_nat b) n =
      mem_fill m (entries (heap_tbl h) + of_nat b) (unat n) (\<lambda>k. if k = 0 then 0x81 else 0x01)"
    using fit assms(1,3) b by (intro heap_mark_blocks_taken_fill) simp_all
  ultimately show ?thesis by (simp add: heap_malloc_blocks_def Let_def)
qed

lemma heap_address_roundtrip:
  assumes "unat b < 524288"
  shows "heap_address_to_block h (heap_block_to_address h b) = b"
proof -
  have "unat (b * 4096) = unat b * 4096" using assms by (simp add: unat_word_ariths)
  then have "sint (b * 4096) = uint b * 4096" using assms by (simp add: sint_small)
  then have "sint (b * 4096) sdiv 4096 = uint b" by (auto simp: signed_divide_int_def sgn_mult uint_0_iff)
  then show ?thesis by (simp add: heap_address_to_block_def heap_block_to_address_def)
qed

lemma taken_blocks_malloc:
  assumes "unat (total (heap_tbl h)) < 2147483648" "free_run m h (unat n) i" "n \<noteq> 0"
  defines "b \<equiv> start_scan m h n"
  shows "{b..<b + unat n} \<inter> taken_blocks m h = {}"
    and "taken_blocks (snd (heap_malloc_blocks m h n)) h = taken_blocks m h \<union> {b..<b + unat n}"
proof -
  have fit: "free_run m h (unat n) b" using start_scan_fit(1) [OF assms(2,3)] by (simp add: b_def)
  then have le: "b + unat n \<le> unat (total (heap_tbl h))" by (simp add: free_run_def)
  show "{b..<b + unat n} \<inter> taken_blocks m h = {}"
    using fit by (auto simp: taken_blocks_def free_run_def)
  show "taken_blocks (snd (heap_malloc_blocks m h n)) h = taken_blocks m h \<union> {b..<b + unat n}"
    using le assms(1) heap_malloc_blocks_fit [OF assms(1-3)]
    by (auto simp: taken_blocks_def block_taken_fill b_def)
qed

lemma heap_free_block:
  assumes "unat (total (heap_tbl h)) \<le> 524288" "b < unat (total (heap_tbl h))"
  shows "heap_free m h (heap_block_to_address h (of_nat b)) = m(entries (heap_tbl h) + of_nat b := 0)"
proof -
  have b: "unat (of_nat b :: u32) = b" using assms by simp
  moreover have "(of_nat b :: u32) <s total (heap_tbl h)"
    using assms b by (simp add: sless_small)
  ultimately show ?thesis
    using assms by (simp add: heap_free_def heap_address_roundtrip heap_mark_blocks_free_one)
qed

lemma taken_blocks_free:
  assumes "unat (total (heap_tbl h)) \<le> 524288" "b < unat (total (heap_tbl h))"
  shows "taken_blocks (heap_free m h (heap_block_to_address h (of_nat b))) h = taken_blocks m h - {b}"
  using assms by (auto simp: heap_free_block taken_blocks_def block_taken_free_upd simp del: fun_upd_apply)

text \<open>
  Any request of at most 2 ^ 20 blocks, which is all \<open>heap_malloc\<close> can make: it is refused
  exactly when the search ends at the end of the table. Otherwise the blocks of the table from
  the start on were free and are marked; when the request does not fit, marks are also written
  behind the table.
\<close>

lemma heap_malloc_blocks_general:
  fixes m h n
  defines "N \<equiv> unat (total (heap_tbl h))" and "b \<equiv> start_scan m h n"
  assumes "N \<le> 524288" "n \<noteq> 0" "unat n \<le> 1048576"
  shows "b \<le> N"
    and "heap_get_start_block m h n <s 0 \<longleftrightarrow> b = N"
    and "b = N \<Longrightarrow> heap_malloc_blocks m h n = (0, m)"
    and "b < N \<Longrightarrow> fst (heap_malloc_blocks m h n) = heap_block_to_address h (of_nat b)"
    and "b < N \<Longrightarrow> {b..<min (b + unat n) N} \<inter> taken_blocks m h = {}"
    and "b < N \<Longrightarrow> taken_blocks (snd (heap_malloc_blocks m h n)) h = taken_blocks m h \<union> {b..<min (b + unat n) N}"
proof -
  have N: "unat (total (heap_tbl h)) < 2147483648" using assms(3) by (simp add: N_def)
  show le: "b \<le> N" using scan_bounds [of 0 0 N] by (simp add: b_def start_scan_def N_def)
  then have u: "unat (of_nat b :: u32) = b" using assms(3) by simp
  note scan = get_start_block_scan [OF N, of m n, folded N_def b_def]
  have "(-3 :: u32) <s 0" by (simp add: word_sless_alt word_sle_eq)
  moreover have "\<not> (of_nat b :: u32) <s 0" using u le assms(3) by (simp add: sless_small)
  ultimately show neg: "heap_get_start_block m h n <s 0 \<longleftrightarrow> b = N" using scan by simp
  show "b = N \<Longrightarrow> heap_malloc_blocks m h n = (0, m)" using neg by (simp add: heap_malloc_blocks_def)
  assume lt: "b < N"
  have "heap_mark_blocks_taken m h (of_nat b) n =
      mem_fill m (entries (heap_tbl h) + of_nat b) (unat n) (\<lambda>k. if k = 0 then 0x81 else 0x01)"
    using lt u assms(3-5) by (intro heap_mark_blocks_taken_fill) simp_all
  then have fill: "heap_malloc_blocks m h n = (heap_block_to_address h (of_nat b),
      mem_fill m (entries (heap_tbl h) + of_nat b) (unat n) (\<lambda>k. if k = 0 then 0x81 else 0x01))"
    using lt neg scan by (simp add: heap_malloc_blocks_def Let_def)
  then show "fst (heap_malloc_blocks m h n) = heap_block_to_address h (of_nat b)" by simp
  have "\<not> block_taken m h k" if "k \<in> {b..<min (b + unat n) N}" for k
    using that scan_free [of 0 0 "block_taken m h" "unat n" N k] by (simp add: b_def start_scan_def N_def)
  then show "{b..<min (b + unat n) N} \<inter> taken_blocks m h = {}" by (auto simp: taken_blocks_def)
  have "block_taken (snd (heap_malloc_blocks m h n)) h k \<longleftrightarrow> k \<in> {b..<b + unat n} \<or> block_taken m h k" if "k < N" for k
    using that lt assms(3,5) unfolding fill snd_conv by (intro block_taken_fill) auto
  then show "taken_blocks (snd (heap_malloc_blocks m h n)) h = taken_blocks m h \<union> {b..<min (b + unat n) N}"
    by (auto simp: taken_blocks_def N_def)
qed

section \<open>The contract of an allocator\<close>

text \<open>
  Live allocations, as pairs of a first block and a length, against the number of blocks of
  the table and a set of taken ones. An allocation may reach past the end of the table.
\<close>

definition live_ok :: "nat \<Rightarrow> nat set \<Rightarrow> (nat \<times> nat) set \<Rightarrow> bool" where
  "live_ok N T L \<longleftrightarrow> (\<forall>b n. (b, n) \<in> L \<longrightarrow> 0 < n \<and> b < N \<and> {b..<min (b + n) N} \<subseteq> T)
    \<and> (\<forall>b n c k. (b, n) \<in> L \<and> (c, k) \<in> L \<and> (b, n) \<noteq> (c, k) \<longrightarrow> {b..<b + n} \<inter> {c..<c + k} = {})"

lemma live_ok_empty [simp]: "live_ok N T {}"
  by (simp add: live_ok_def)

lemma ranges_meet_inside:
  fixes b n c k N :: nat
  assumes "b < N" "c < N" "{b..<min (b + n) N} \<inter> {c..<min (c + k) N} = {}"
  shows "{b..<b + n} \<inter> {c..<c + k} = {}"
proof (rule ccontr)
  assume "{b..<b + n} \<inter> {c..<c + k} \<noteq> {}"
  then obtain x where "x \<in> {b..<b + n}" "x \<in> {c..<c + k}" by blast
  then have "min x (N - 1) \<in> {b..<min (b + n) N} \<inter> {c..<min (c + k) N}" using assms(1,2) by auto
  with assms(3) show False by blast
qed

lemma live_ok_insert:
  "live_ok N T L \<Longrightarrow> 0 < n \<Longrightarrow> b < N \<Longrightarrow> {b..<min (b + n) N} \<inter> T = {} \<Longrightarrow>
    live_ok N (T \<union> {b..<min (b + n) N}) (insert (b, n) L)"
proof -
  assume L: "live_ok N T L" and n: "0 < n" "b < N" and new: "{b..<min (b + n) N} \<inter> T = {}"
  have old: "0 < k \<and> c < N \<and> {c..<min (c + k) N} \<subseteq> T" if "(c, k) \<in> L" for c k
    using L that by (simp add: live_ok_def)
  have apart: "{c..<c + k} \<inter> {b..<b + n} = {}" if "(c, k) \<in> L" for c k
    using new old [OF that] n(2) by (intro ranges_meet_inside [of c N b k n]) blast+
  have old2: "{c..<c + k} \<inter> {d..<d + l} = {}" if "(c, k) \<in> L" "(d, l) \<in> L" "(c, k) \<noteq> (d, l)" for c k d l
    using L that unfolding live_ok_def by blast
  show ?thesis
    unfolding live_ok_def
  proof (intro conjI allI impI)
    fix c k assume "(c, k) \<in> insert (b, n) L"
    then show "0 < k" "c < N" "{c..<min (c + k) N} \<subseteq> T \<union> {b..<min (b + n) N}" using n old by blast+
  next
    fix c k d l assume "(c, k) \<in> insert (b, n) L \<and> (d, l) \<in> insert (b, n) L \<and> (c, k) \<noteq> (d, l)"
    then consider "(c, k) = (b, n)" "(d, l) \<in> L" | "(c, k) \<in> L" "(d, l) = (b, n)"
      | "(c, k) \<in> L" "(d, l) \<in> L" "(c, k) \<noteq> (d, l)" by blast
    then show "{c..<c + k} \<inter> {d..<d + l} = {}"
    proof cases
      case 1
      then have "c = b" "k = n" by simp_all
      with apart [OF 1(2)] show ?thesis by blast
    next
      case 2
      then have "d = b" "l = n" by simp_all
      with apart [OF 2(1)] show ?thesis by blast
    next
      case 3
      then show ?thesis by (rule old2)
    qed
  qed
qed

lemma live_ok_remove:
  assumes "live_ok N T L" "(b, n) \<in> L"
  shows "live_ok N (T - {b}) (L - {(b, n)})"
proof -
  have b: "b \<in> {b..<b + n}" using assms by (auto simp: live_ok_def)
  have "b \<notin> {c..<c + k}" if "(c, k) \<in> L" "(c, k) \<noteq> (b, n)" for c k
    using assms that b unfolding live_ok_def by blast
  then have "b \<notin> {c..<min (c + k) N}" if "(c, k) \<in> L" "(c, k) \<noteq> (b, n)" for c k using that by fastforce
  with assms(1) show ?thesis unfolding live_ok_def by blast
qed

locale block_allocator =
  fixes alloc :: "'m \<Rightarrow> nat \<Rightarrow> (nat \<times> 'm) option"
    and release :: "'m \<Rightarrow> nat \<Rightarrow> 'm"
    and taken :: "'m \<Rightarrow> nat set"
    and blocks :: nat
  assumes alloc_taken: "alloc m n = Some (b, m') \<Longrightarrow>
      0 < n \<and> b < blocks \<and> {b..<min (b + n) blocks} \<inter> taken m = {}
        \<and> taken m' = taken m \<union> {b..<min (b + n) blocks}"
    and release_taken: "b \<in> taken m \<Longrightarrow> taken (release m b) = taken m - {b}"
begin

lemma alloc_live:
  assumes "alloc m n = Some (b, m')" and "live_ok blocks (taken m) L"
  shows "live_ok blocks (taken m') (insert (b, n) L)"
proof -
  note new = alloc_taken [OF assms(1)]
  have "taken m' = taken m \<union> {b..<min (b + n) blocks}" by (rule conjunct2 [OF conjunct2 [OF conjunct2 [OF new]]])
  moreover have "live_ok blocks (taken m \<union> {b..<min (b + n) blocks}) (insert (b, n) L)"
    by (rule live_ok_insert [OF assms(2) conjunct1 [OF new] conjunct1 [OF conjunct2 [OF new]]
        conjunct1 [OF conjunct2 [OF conjunct2 [OF new]]]])
  ultimately show ?thesis by (rule ssubst)
qed

lemma release_live:
  assumes "live_ok blocks (taken m) L" "(b, n) \<in> L"
  shows "live_ok blocks (taken (release m b)) (L - {(b, n)})"
proof -
  have "0 < n" "b < blocks" "{b..<min (b + n) blocks} \<subseteq> taken m" using assms unfolding live_ok_def by blast+
  moreover from this have "b \<in> {b..<min (b + n) blocks}" by simp
  ultimately have "b \<in> taken m" by blast
  then show ?thesis using release_taken live_ok_remove [OF assms] by simp
qed

lemma release_keeps_tail:
  assumes "alloc m n = Some (b, m')"
  shows "taken (release m' b) = taken m \<union> {b + 1..<min (b + n) blocks}"
proof -
  have "0 < n" "b < blocks" "{b..<min (b + n) blocks} \<inter> taken m = {}"
    "taken m' = taken m \<union> {b..<min (b + n) blocks}"
    using alloc_taken [OF assms] by auto
  moreover from this have b: "b \<in> {b..<min (b + n) blocks}" by simp
  ultimately have "taken (release m' b) = (taken m \<union> {b..<min (b + n) blocks}) - {b}" "b \<notin> taken m"
    using release_taken [of b m'] by blast+
  moreover have "{b..<min (b + n) blocks} - {b} = {b + 1..<min (b + n) blocks}" by auto
  ultimately show ?thesis by blast
qed

lemma release_single:
  assumes "alloc m 1 = Some (b, m')"
  shows "taken (release m' b) = taken m"
  using release_keeps_tail [OF assms] by simp

end

text \<open>
  The heap's allocator by block number: \<open>heap_malloc_blocks\<close> on every request \<open>heap_malloc\<close>
  can make of it, and \<open>heap_free\<close> on the address of a block.
\<close>

definition heap_alloc :: "heap \<Rightarrow> mem \<Rightarrow> nat \<Rightarrow> (nat \<times> mem) option" where
  "heap_alloc h m n =
     (if 0 < n \<and> n \<le> 1048576 \<and> \<not> heap_get_start_block m h (of_nat n) <s 0
      then case heap_malloc_blocks m h (of_nat n) of (a, m') \<Rightarrow>
        Some (unat (heap_address_to_block h a), m')
      else None)"

definition heap_release :: "heap \<Rightarrow> mem \<Rightarrow> nat \<Rightarrow> mem" where
  "heap_release h m b = heap_free m h (heap_block_to_address h (of_nat b))"

lemma heap_alloc_start:
  assumes "unat (total (heap_tbl h)) \<le> 524288" "n \<noteq> 0" "unat n \<le> 1048576"
    "start_scan m h n < unat (total (heap_tbl h))"
  shows "heap_alloc h m (unat n) = Some (start_scan m h n, snd (heap_malloc_blocks m h n))"
    and "heap_address_to_block h (fst (heap_malloc_blocks m h n)) = of_nat (start_scan m h n)"
proof -
  note gen = heap_malloc_blocks_general [OF assms(1-3), of m]
  have u: "unat (of_nat (start_scan m h n) :: u32) = start_scan m h n" using assms(1,4) by simp
  show block: "heap_address_to_block h (fst (heap_malloc_blocks m h n)) = of_nat (start_scan m h n)"
    using gen(4) [OF assms(4)] assms(1,4) u by (simp add: heap_address_roundtrip)
  have "0 < unat n" using assms(2) by (simp add: unat_gt_0)
  moreover have "\<not> heap_get_start_block m h n <s 0" using gen(2) assms(4) by simp
  ultimately show "heap_alloc h m (unat n) = Some (start_scan m h n, snd (heap_malloc_blocks m h n))"
    using assms(3) block u by (cases "heap_malloc_blocks m h n") (simp add: heap_alloc_def)
qed

lemma heap_alloc_malloc:
  assumes "unat (total (heap_tbl h)) \<le> 524288" "free_run m h (unat n) i" "n \<noteq> 0"
  shows "heap_alloc h m (unat n) = Some (start_scan m h n, snd (heap_malloc_blocks m h n))"
    and "start_scan m h n + unat n \<le> unat (total (heap_tbl h))"
proof -
  show le: "start_scan m h n + unat n \<le> unat (total (heap_tbl h))"
    using start_scan_fit(1) [OF assms(2,3)] by (simp add: free_run_def)
  have "0 < unat n" using assms(3) by (simp add: unat_gt_0)
  then show "heap_alloc h m (unat n) = Some (start_scan m h n, snd (heap_malloc_blocks m h n))"
    using le assms(1,3) by (intro heap_alloc_start(1)) simp_all
qed

lemma heap_block_allocator:
  assumes N: "unat (total (heap_tbl h)) \<le> 524288"
  shows "block_allocator (heap_alloc h) (heap_release h) (\<lambda>m. taken_blocks m h) (unat (total (heap_tbl h)))"
proof
  fix m n b m'
  assume a: "heap_alloc h m n = Some (b, m')"
  let ?n = "of_nat n :: u32"
  have n: "0 < n" "n \<le> 1048576" and ok: "\<not> heap_get_start_block m h ?n <s 0"
    using a by (auto simp: heap_alloc_def split: if_splits)
  have u: "unat ?n = n" using n by simp
  then have nz: "?n \<noteq> 0" and le: "unat ?n \<le> 1048576" using n(2) n(1) by (metis less_irrefl unsigned_0, simp)
  note gen = heap_malloc_blocks_general [OF N nz le, of m]
  have lt: "start_scan m h ?n < unat (total (heap_tbl h))" using gen(1,2) ok by simp
  have "b = start_scan m h ?n" "m' = snd (heap_malloc_blocks m h ?n)"
    using heap_alloc_start(1) [OF N nz le lt] a u by simp_all
  then show "0 < n \<and> b < unat (total (heap_tbl h))
      \<and> {b..<min (b + n) (unat (total (heap_tbl h)))} \<inter> taken_blocks m h = {}
      \<and> taken_blocks m' h = taken_blocks m h \<union> {b..<min (b + n) (unat (total (heap_tbl h)))}"
    using gen(5,6) [OF lt] lt n u by simp
next
  fix b m
  assume "b \<in> taken_blocks m h"
  then show "taken_blocks (heap_release h m b) h = taken_blocks m h - {b}"
    using taken_blocks_free [OF N] by (simp add: heap_release_def taken_blocks_def)
qed

section \<open>Runs of the allocator\<close>

text \<open>
  The steps a heap \<open>h\<close> and its clients make: ask for any number of bytes that is not rounded
  up to 0 (whether or not a run of free blocks is long enough for it, so also the requests the
  heap grants although they do not fit), be given the allocation or NULL, release a live
  allocation by its address, and write anywhere outside the table. The state is the memory and
  the set of live allocations.
\<close>

inductive heap_step :: "heap \<Rightarrow> mem \<times> (nat \<times> nat) set \<Rightarrow> mem \<times> (nat \<times> nat) set \<Rightarrow> bool" for h where
  malloc: "heap_align_value_to_upper sz \<noteq> 0 \<Longrightarrow> heap_malloc m h sz = (a, m') \<Longrightarrow>
    heap_step h (m, L) (m', if a = 0 then L
      else insert (unat (heap_address_to_block h a), unat (heap_align_value_to_upper sz div 4096)) L)"
| release: "(b, n) \<in> L \<Longrightarrow>
    heap_step h (m, L) (heap_free m h (heap_block_to_address h (of_nat b)), L - {(b, n)})"
| client_write: "(\<And>k. k < unat (total (heap_tbl h)) \<Longrightarrow>
      m' (entries (heap_tbl h) + of_nat k) = m (entries (heap_tbl h) + of_nat k)) \<Longrightarrow>
    heap_step h (m, L) (m', L)"

inductive heap_reach :: "heap \<Rightarrow> mem \<times> (nat \<times> nat) set \<Rightarrow> bool" for h where
  created: "heap_create m0 h0 ptr end_ptr tbl = (0, h, m) \<Longrightarrow> heap_reach h (m, {})"
| step: "heap_reach h s \<Longrightarrow> heap_step h s s' \<Longrightarrow> heap_reach h s'"

lemma taken_blocks_cong:
  "(\<And>k. k < unat (total (heap_tbl h)) \<Longrightarrow>
      m' (entries (heap_tbl h) + of_nat k) = m (entries (heap_tbl h) + of_nat k)) \<Longrightarrow>
    taken_blocks m' h = taken_blocks m h"
  by (auto simp: taken_blocks_def block_taken_def)

lemma live_ok_mono: "live_ok N T L \<Longrightarrow> T \<subseteq> T' \<Longrightarrow> live_ok N T' L"
  unfolding live_ok_def by blast

lemma blocks_of_size:
  fixes v :: u32
  assumes "heap_align_value_to_upper v \<noteq> 0"
  shows "heap_align_value_to_upper v div 4096 \<noteq> 0" "unat (heap_align_value_to_upper v div 4096) \<le> 1048576"
proof -
  let ?a = "heap_align_value_to_upper v"
  have "4096 dvd unat ?a" unfolding heap_align_value_to_upper_nat by (simp add: dvd_mod)
  moreover have "0 < unat ?a" using assms by (simp add: unat_gt_0)
  ultimately have "0 < unat (?a div 4096)" by (auto simp: unat_div elim: dvdE)
  then show "?a div 4096 \<noteq> 0" by auto
  have "unat ?a div 4096 \<le> 4294967295 div 4096" using unat32_less [of ?a] by (intro div_le_mono) linarith
  then show "unat (?a div 4096) \<le> 1048576" by (simp add: unat_div)
qed

lemma heap_step_live_ok:
  assumes "heap_step h s s'" "unat (total (heap_tbl h)) \<le> 524288"
    "live_ok (unat (total (heap_tbl h))) (taken_blocks (fst s) h) (snd s)"
  shows "live_ok (unat (total (heap_tbl h))) (taken_blocks (fst s') h) (snd s')"
  using assms(1,3)
proof cases
  case (malloc sz m a m' L)
  let ?n = "heap_align_value_to_upper sz div 4096" and ?N = "unat (total (heap_tbl h))"
  note n = blocks_of_size [OF malloc(3)]
  note gen = heap_malloc_blocks_general [OF assms(2) n, of m]
  have m': "heap_malloc_blocks m h ?n = (a, m')" using malloc(4) by (simp add: heap_malloc_def Let_def)
  show ?thesis
  proof (cases "start_scan m h ?n < ?N")
    case False
    then have "a = 0" "m' = m" using gen(1,3) m' by simp_all
    then show ?thesis using malloc assms(3) by simp
  next
    case lt: True
    note start = heap_alloc_start [OF assms(2) n lt]
    have "unat (heap_address_to_block h a) = start_scan m h ?n"
      using start(2) lt assms(2) unfolding m' fst_conv by simp
    then have "live_ok ?N (taken_blocks m' h) (insert (unat (heap_address_to_block h a), unat ?n) L)"
      using block_allocator.alloc_live [OF heap_block_allocator [OF assms(2)] start(1)] malloc assms(3) m' by simp
    moreover have "live_ok ?N (taken_blocks m' h) L"
      using live_ok_mono [of ?N "taken_blocks m h" L "taken_blocks m' h"] gen(6) [OF lt] malloc assms(3) m' by simp
    ultimately show ?thesis using malloc by simp
  qed
next
  case (release b n L m)
  then show ?thesis
    using block_allocator.release_live [OF heap_block_allocator [OF assms(2)], of m L b n] assms(3)
    by (simp add: heap_release_def)
next
  case (client_write m' m L)
  then show ?thesis using assms(3) taken_blocks_cong [of h m' m] by simp
qed

lemma heap_reach_live_ok:
  "heap_reach h s \<Longrightarrow> unat (total (heap_tbl h)) \<le> 524288 \<Longrightarrow>
    live_ok (unat (total (heap_tbl h))) (taken_blocks (fst s) h) (snd s)"
  by (induction rule: heap_reach.induct) (auto intro: heap_step_live_ok)

section \<open>Properties\<close>

text \<open>A four-block heap at 1 MB with its table at address 64, for the examples.\<close>

definition toy_heap :: heap where
  "toy_heap = \<lparr>heap_tbl = \<lparr>entries = 64, total = 4\<rparr>, saddr = 0x100000\<rparr>"

lemma toy_heap_sel [simp]: "entries (heap_tbl toy_heap) = 64" "total (heap_tbl toy_heap) = 4" "saddr toy_heap = 0x100000"
  by (simp_all add: toy_heap_def)

lemma toy_block_taken: "block_taken m toy_heap i \<longleftrightarrow> heap_get_entry_type (m (64 + of_nat i)) \<noteq> 0"
  by (simp add: block_taken_def)

text \<open>
  C17: When some run of \<open>n\<close> free blocks exists, \<open>heap_malloc_blocks\<close> returns the address of
  the first such run, marks exactly its blocks as taken (they were free before) and changes
  no byte outside the block table.
\<close>

theorem heap_malloc_blocks_first_fit:
  assumes "unat (total (heap_tbl h)) \<le> 524288" and "free_run m h (unat n) i" and "n \<noteq> 0"
  shows "\<exists>b m'. heap_malloc_blocks m h n = (heap_block_to_address h (of_nat b), m')
    \<and> free_run m h (unat n) b \<and> (\<forall>j < b. \<not> free_run m h (unat n) j)
    \<and> taken_blocks m' h = taken_blocks m h \<union> {b..<b + unat n}
    \<and> unchanged_outside m m' (entries (heap_tbl h)) (unat (total (heap_tbl h)))"
proof (intro exI conjI allI impI)
  let ?b = "start_scan m h n" and ?N = "unat (total (heap_tbl h))"
  have N: "?N < 2147483648" using assms(1) by simp
  note fit = start_scan_fit [OF assms(2,3)]
  show "heap_malloc_blocks m h n = (heap_block_to_address h (of_nat ?b), snd (heap_malloc_blocks m h n))"
    by (simp add: heap_malloc_blocks_fit [OF N assms(2,3)])
  show "free_run m h (unat n) ?b" by (rule fit(1))
  show "j < ?b \<Longrightarrow> \<not> free_run m h (unat n) j" for j by (rule fit(2))
  show "taken_blocks (snd (heap_malloc_blocks m h n)) h = taken_blocks m h \<union> {?b..<?b + unat n}"
    by (rule taken_blocks_malloc(2) [OF N assms(2,3)])
  show "unchanged_outside m (snd (heap_malloc_blocks m h n)) (entries (heap_tbl h)) ?N"
  proof (unfold unchanged_outside_def, intro allI impI)
  fix x assume x: "?N \<le> unat (x - entries (heap_tbl h))"
  have le: "?b + unat n \<le> ?N" using fit(1) by (simp add: free_run_def)
  then have "?b < 4294967296" using N by simp
  then have "unat n \<le> unat (x - (entries (heap_tbl h) + of_nat ?b))"
    using unat_sub_of_nat [of ?b "x - entries (heap_tbl h)"] x le by (simp add: diff_diff_eq)
  then show "snd (heap_malloc_blocks m h n) x = m x"
    by (simp add: heap_malloc_blocks_fit [OF N assms(2,3)] mem_simps)
  qed
qed

theorem heap_malloc_blocks_first_fit_witness:
  "free_run ((\<lambda>_. 0)(64 := 0x81)) toy_heap 2 1
    \<and> (\<exists>b m'. heap_malloc_blocks ((\<lambda>_. 0)(64 := 0x81)) toy_heap 2 = (heap_block_to_address toy_heap (of_nat b), m')
        \<and> taken_blocks m' toy_heap = taken_blocks ((\<lambda>_. 0)(64 := 0x81)) toy_heap \<union> {b..<b + 2})"
proof -
  let ?m = "(\<lambda>_. 0)(64 := 0x81) :: mem"
  have "{1..<1 + 2} = {1, 2 :: nat}" by auto
  then have r: "free_run ?m toy_heap (unat (2 :: u32)) 1"
    unfolding free_run_def by (simp add: toy_block_taken)
  show ?thesis
    using r heap_malloc_blocks_first_fit [of toy_heap ?m 2 1, OF _ r] by auto
qed

text \<open>
  C30: When no run of \<open>n\<close> free blocks exists but the table ends in free blocks,
  \<open>heap_malloc_blocks\<close> does not fail: it returns the address of that too short run and
  writes block marks past the end of the table.
\<close>

theorem heap_malloc_blocks_overcommits:
  fixes h m n
  defines "N \<equiv> unat (total (heap_tbl h))"
  assumes "N \<le> 524288" and "\<And>i. \<not> free_run m h (unat n) i" and "n \<noteq> 0" and "0 < N"
    and "\<not> block_taken m h (N - 1)" and "unat n \<le> 2146959360"
  shows "\<exists>b m'. heap_malloc_blocks m h n = (heap_block_to_address h (of_nat b), m')
    \<and> b < N \<and> N < b + unat n \<and> m' (entries (heap_tbl h) + of_nat N) = 1"
proof (intro exI conjI)
  let ?b = "start_scan m h n"
  note nofit = start_scan_nofit [OF assms(3,4), folded N_def]
  have "?b \<noteq> N" using nofit(3) assms(5,6) by simp
  then show b: "?b < N"
    using scan_bounds [of 0 0 N "block_taken m h" "unat n"] by (simp add: start_scan_def N_def)
  show over: "N < ?b + unat n" by (rule nofit(1))
  have u: "unat (of_nat ?b :: u32) = ?b" using b assms(2) by simp
  have "heap_get_start_block m h n = of_nat ?b"
    using get_start_block_scan [of h m n] b assms(2) by (simp add: N_def)
  moreover have "\<not> (of_nat ?b :: u32) <s 0" using b u assms(2) by (simp add: sless_small)
  moreover have "heap_mark_blocks_taken m h (of_nat ?b) n =
      mem_fill m (entries (heap_tbl h) + of_nat ?b) (unat n) (\<lambda>k. if k = 0 then 0x81 else 0x01)"
    using b u assms(2,4,7) by (intro heap_mark_blocks_taken_fill) simp_all
  ultimately show "heap_malloc_blocks m h n = (heap_block_to_address h (of_nat ?b),
      mem_fill m (entries (heap_tbl h) + of_nat ?b) (unat n) (\<lambda>k. if k = 0 then 0x81 else 0x01))"
    by (simp add: heap_malloc_blocks_def Let_def)
  have "entries (heap_tbl h) + of_nat N = entries (heap_tbl h) + of_nat ?b + of_nat (N - ?b)"
    using b by (simp add: of_nat_diff)
  moreover have "N - ?b < unat n" "N - ?b \<noteq> 0" using b over by simp_all
  ultimately show "mem_fill m (entries (heap_tbl h) + of_nat ?b) (unat n)
      (\<lambda>k. if k = 0 then 0x81 else 0x01) (entries (heap_tbl h) + of_nat N) = 1"
    using mem_fill_in [of "N - ?b" "unat n" m "entries (heap_tbl h) + of_nat ?b"] less_imp_le [OF unat32_less]
    by simp
qed

theorem heap_malloc_blocks_overcommits_witness:
  "\<exists>b m'. heap_malloc_blocks ((\<lambda>_. 0)(64 := 0x81)) toy_heap 5 = (heap_block_to_address toy_heap (of_nat b), m')
    \<and> b < 4 \<and> 4 < b + 5 \<and> m' 68 = 1"
proof -
  let ?m = "(\<lambda>_. 0)(64 := 0x81) :: mem"
  have "\<not> free_run ?m toy_heap (unat (5 :: u32)) i" for i by (simp add: free_run_def)
  from heap_malloc_blocks_overcommits [of toy_heap ?m 5, OF _ this] show ?thesis
    by (simp add: toy_block_taken)
qed

text \<open>
  C32: Releasing an allocation frees its first block only: the mark that chains the blocks of
  an allocation, \<^verbatim>\<open>HEAP_BLOCK_HAS_NEXT\<close> = 256, does not fit the one-byte table entry, so
  the other blocks of a multi-block allocation stay taken for ever.
\<close>

theorem heap_free_leaks_tail:
  assumes "unat (total (heap_tbl h)) \<le> 524288" and "free_run m h (unat n) i" and "n \<noteq> 0"
    and "heap_malloc_blocks m h n = (a, m')"
  shows "\<exists>b. a = heap_block_to_address h (of_nat b) \<and>
    taken_blocks (heap_free m' h a) h = taken_blocks m h \<union> {b + 1..<b + unat n}"
proof (intro exI conjI)
  show a: "a = heap_block_to_address h (of_nat (start_scan m h n))"
    using heap_malloc_blocks_fit [OF _ assms(2,3)] assms(1,4) by simp
  show "taken_blocks (heap_free m' h a) h = taken_blocks m h \<union> {start_scan m h n + 1..<start_scan m h n + unat n}"
    using heap_alloc_malloc(2) [OF assms(1-3)]
      block_allocator.release_keeps_tail [OF heap_block_allocator [OF assms(1)] heap_alloc_malloc(1) [OF assms(1-3)]]
    by (simp add: assms(4) heap_release_def a)
qed

theorem heap_free_leaks_tail_witness:
  "\<exists>b. taken_blocks (heap_free (snd (heap_malloc_blocks (\<lambda>_. 0) toy_heap 3)) toy_heap
      (fst (heap_malloc_blocks (\<lambda>_. 0) toy_heap 3))) toy_heap
    = taken_blocks (\<lambda>_. 0) toy_heap \<union> {b + 1..<b + 3}"
proof -
  have "free_run (\<lambda>_. 0) toy_heap (unat (3 :: u32)) 0"
    by (simp add: free_run_def toy_block_taken)
  from heap_free_leaks_tail [OF _ this _ surjective_pairing] show ?thesis by auto
qed

text \<open>
  C2: In every state a run of allocations of any size that is not rounded up to 0 (granted or
  refused, also the ones granted although they do not fit, as in the claim on overcommitting),
  releases and client writes outside the table reaches from a freshly created heap, a live
  allocation starts inside the table and its blocks in the table are marked as taken, no two
  live allocations share a block, and at most one of them reaches past the end of the table.
\<close>

theorem heap_reach_disjoint:
  fixes h
  defines "N \<equiv> unat (total (heap_tbl h))"
  assumes "heap_reach h (m, L)" and "N \<le> 524288" and "(b, n) \<in> L"
  shows "0 < n \<and> b < N \<and> {b..<min (b + n) N} \<subseteq> taken_blocks m h
    \<and> (\<forall>(c, k) \<in> L - {(b, n)}. {b..<b + n} \<inter> {c..<c + k} = {} \<and> (b + n \<le> N \<or> c + k \<le> N))"
proof -
  have ok: "live_ok N (taken_blocks m h) L"
    using heap_reach_live_ok [OF assms(2)] assms(3) by (simp add: N_def)
  then have sub: "0 < n \<and> b < N \<and> {b..<min (b + n) N} \<subseteq> taken_blocks m h"
    using assms(4) by (simp add: live_ok_def)
  have "{b..<b + n} \<inter> {c..<c + k} = {} \<and> (b + n \<le> N \<or> c + k \<le> N)" if "(c, k) \<in> L" "(c, k) \<noteq> (b, n)" for c k
  proof -
    have apart: "{b..<b + n} \<inter> {c..<c + k} = {}" using ok assms(4) that unfolding live_ok_def by blast
    have "c < N" using ok that by (simp add: live_ok_def)
    then have "N \<in> {b..<b + n} \<inter> {c..<c + k}" if "\<not> (b + n \<le> N \<or> c + k \<le> N)" using that sub by simp
    with apart show ?thesis by blast
  qed
  with sub show ?thesis by auto
qed

lemma toy_heap_created: "\<exists>m. heap_create (\<lambda>_. 0) toy_heap 0x100000 0x104000 (heap_tbl toy_heap) = (0, toy_heap, m)
    \<and> taken_blocks m toy_heap = {}"
  by (simp add: heap_create_def heap_validate_alignment_def heap_validate_table_def memset_fill Let_def
      taken_blocks_def block_taken_def mem_fill_def toy_heap_def)

text \<open>The second allocation of the example is of 5 blocks on a heap that has 3 left.\<close>

theorem heap_reach_disjoint_witness:
  "\<exists>m L b c. heap_reach toy_heap (m, L) \<and> (b, 1) \<in> L \<and> (c, 5) \<in> L
    \<and> {b..<b + 1} \<inter> {c..<c + 5} = {} \<and> b + 1 \<le> 4 \<and> 4 < c + (5 :: nat)"
proof -
  obtain m0 where m0: "heap_create (\<lambda>_. 0) toy_heap 0x100000 0x104000 (heap_tbl toy_heap) = (0, toy_heap, m0)"
    and t0: "taken_blocks m0 toy_heap = {}" using toy_heap_created by blast
  have N: "unat (total (heap_tbl toy_heap)) \<le> 524288" by simp
  have n: "heap_align_value_to_upper 1 div 4096 = 1" "heap_align_value_to_upper 20000 div 4096 = 5"
    by (simp_all add: heap_align_value_to_upper_def)
  have sz: "heap_align_value_to_upper 1 \<noteq> 0" "heap_align_value_to_upper 20000 \<noteq> 0" using n by auto
  have r1: "free_run m0 toy_heap (unat (1 :: u32)) 0"
    using t0 by (auto simp: free_run_def taken_blocks_def)
  obtain a1 m1 where 1: "heap_malloc m0 toy_heap 1 = (a1, m1)" by (rule prod.exhaust)
  then have b1: "heap_malloc_blocks m0 toy_heap 1 = (a1, m1)" by (simp add: heap_malloc_def n)
  have s0: "start_scan m0 toy_heap 1 = 0" using start_scan_fit(3) [OF r1] by simp
  have at: "a1 = heap_block_to_address toy_heap 0"
    using heap_malloc_blocks_general(4) [OF N, of 1 m0] b1 s0 by simp
  have t1: "taken_blocks m1 toy_heap = {0}"
    using heap_malloc_blocks_general(6) [OF N, of 1 m0] b1 s0 t0 by auto
  have nf: "\<not> free_run m1 toy_heap (unat (5 :: u32)) i" for i by (simp add: free_run_def)
  obtain a2 m2 where 2: "heap_malloc m1 toy_heap 20000 = (a2, m2)" by (rule prod.exhaust)
  then have b2: "heap_malloc_blocks m1 toy_heap 5 = (a2, m2)" by (simp add: heap_malloc_def n)
  let ?c = "start_scan m1 toy_heap 5"
  have "3 \<notin> taken_blocks m1 toy_heap" using t1 by simp
  then have "\<not> block_taken m1 toy_heap 3" by (simp add: taken_blocks_def)
  then have c: "?c < 4" "4 < ?c + 5"
    using start_scan_nofit(1,3) [OF nf] heap_malloc_blocks_general(1) [OF N, of 5 m1] by simp_all
  then have a2: "a2 = heap_block_to_address toy_heap (of_nat ?c)"
    using heap_malloc_blocks_general(4) [OF N, of 5 m1] b2 by simp
  have nz: "a1 \<noteq> 0" "a2 \<noteq> 0"
  proof -
    have "unat a2 = 0x100000 + ?c * 4096"
      using c by (simp add: a2 heap_block_to_address_def unat_word_ariths)
    then show "a2 \<noteq> 0" by auto
    show "a1 \<noteq> 0" by (simp add: at heap_block_to_address_def)
  qed
  have blk: "unat (heap_address_to_block toy_heap a1) = 0" "unat (heap_address_to_block toy_heap a2) = ?c"
    using c by (simp_all add: at a2 heap_address_roundtrip)
  have "heap_reach toy_heap (m1, {(0, 1)})"
    using heap_reach.step [OF heap_reach.created [OF m0] heap_step.malloc [OF sz(1) 1]] nz(1) n blk by simp
  from heap_reach.step [OF this heap_step.malloc [OF sz(2) 2]]
  have s2: "heap_reach toy_heap (m2, {(?c, 5), (0, 1)})" using nz(2) n blk by simp
  have "\<forall>(c, k) \<in> {(?c, 5), (0, 1)} - {(0, 1)}. {0..<0 + 1} \<inter> {c..<c + k} = {}
      \<and> (0 + 1 \<le> unat (total (heap_tbl toy_heap)) \<or> c + k \<le> unat (total (heap_tbl toy_heap)))"
    using heap_reach_disjoint [OF s2 N insertI2 [OF singletonI], THEN conjunct2, THEN conjunct2, THEN conjunct2] .
  note others = this
  have "(?c, 5 :: nat) \<in> {(?c, 5), (0, 1)} - {(0, 1)}" by simp
  from bspec [OF others this] have "{0..<0 + 1} \<inter> {?c..<?c + 5} = {}" unfolding prod.case by (rule conjunct1)
  moreover have "(0 :: nat) + 1 \<le> 4" by simp
  ultimately have "heap_reach toy_heap (m2, {(?c, 5), (0, 1)}) \<and> (0, 1) \<in> {(?c, 5), (0, 1)} \<and> (?c, 5) \<in> {(?c, 5), (0, 1)}
      \<and> {0..<0 + 1} \<inter> {?c..<?c + 5} = {} \<and> (0 :: nat) + 1 \<le> 4 \<and> 4 < ?c + 5"
    using s2 c(2) by simp
  then show ?thesis by (intro exI)
qed

text \<open>
  C40: \<open>heap_align_value_to_upper\<close> is the least multiple of the block size that is not below
  its argument, up to the last block of the address space; above that it wraps to 0.
\<close>

theorem heap_align_value_to_upper_least:
  "if unat v \<le> 4294963200
   then unat v \<le> unat (heap_align_value_to_upper v) \<and> 4096 dvd unat (heap_align_value_to_upper v)
     \<and> unat (heap_align_value_to_upper v) < unat v + 4096
   else heap_align_value_to_upper v = 0"
proof (cases "unat v \<le> 4294963200")
  case True
  define q where "q = (unat v + 4095) div 4096"
  have q: "4096 * q \<le> unat v + 4095" "unat v + 4095 < 4096 * q + 4096"
    using div_times_less_eq_dividend [of "unat v + 4095" 4096]
      dividend_less_div_times [of 4096 "unat v + 4095"] by (simp_all add: q_def)
  then have "q * 4096 < 4294967296" using True by linarith
  then have "unat (heap_align_value_to_upper v) = q * 4096"
    by (simp add: heap_align_value_to_upper_nat flip: q_def)
  with True q show ?thesis by simp
next
  case False
  have "(u + 4095) div 4096 = 1048576" if "\<not> u \<le> 4294963200" "u < 4294967296" for u :: nat
    using that by (intro div_nat_eqI) simp_all
  from this [OF False] have "(unat v + 4095) div 4096 = 1048576" by simp
  then have "unat (heap_align_value_to_upper v) = 0" by (simp add: heap_align_value_to_upper_nat)
  with False show ?thesis by (simp add: unat_eq_0)
qed

text \<open>
  \<open>heap_create\<close> succeeds exactly when both ends are block-aligned and the table has one
  entry per block; then the heap starts at \<open>ptr\<close> with every block free. Otherwise it
  reports \<open>-EINVARG\<close> and writes nothing.
\<close>

lemma heap_create_spec:
  "case heap_create m h ptr end_ptr tbl of (r, h', m') \<Rightarrow>
    if 4096 dvd unat ptr \<and> 4096 dvd unat end_ptr \<and> total tbl = (end_ptr - ptr) div 4096
    then r = 0 \<and> h' = \<lparr>heap_tbl = tbl, saddr = ptr\<rparr> \<and> taken_blocks m' h' = {}
      \<and> unchanged_outside m m' (entries tbl) (unat (total tbl))
    else r = -2 \<and> m' = m"
proof -
  have al: "heap_validate_alignment p \<longleftrightarrow> 4096 dvd unat p" for p
    by (simp add: heap_validate_alignment_def word_unat_eq_iff unat_mod_distrib dvd_eq_mod_eq_0)
  have "taken_blocks (mem_fill m (entries tbl) (unat (total tbl)) (\<lambda>_. 0)) \<lparr>heap_tbl = tbl, saddr = ptr\<rparr> = {}"
    using less_imp_le [OF unat32_less [of "total tbl"]] by (auto simp: taken_blocks_def block_taken_def mem_simps)
  moreover have "(0 :: u32) \<le>s 0" "(-2 :: u32) <s 0" by (simp_all add: word_sless_alt word_sle_eq)
  ultimately show ?thesis
    by (auto simp: heap_create_def al heap_validate_table_def memset_fill Let_def)
qed

end
