(* ===== verification/KHeap.thy ===== *)
theory KHeap
  imports Heap
begin

text \<open>
  \<^verbatim>\<open>src/mem/kheap.c\<close>, the kernel's own heap (25600 blocks from 16 MB on, its table at
  \<^verbatim>\<open>0x7E00\<close>), and the allocation functions of \<^verbatim>\<open>src/libc/stdlib.c\<close>, which take a heap.
\<close>

abbreviation (input) DEXTER_HEAP_SIZE_BYTES :: u32 where "DEXTER_HEAP_SIZE_BYTES \<equiv> 104857600"
abbreviation (input) DEXTER_HEAP_ADDRESS :: addr where "DEXTER_HEAP_ADDRESS \<equiv> 0x01000000"
abbreviation (input) DEXTER_HEAP_TABLE_ADDRESS :: addr where "DEXTER_HEAP_TABLE_ADDRESS \<equiv> 0x00007E00"

section \<open>The kernel heap\<close>

definition kernel_heap_table :: heap_table where
  "kernel_heap_table = \<lparr>entries = DEXTER_HEAP_TABLE_ADDRESS,
     total = DEXTER_HEAP_SIZE_BYTES div DEXTER_HEAP_BLOCK_SIZE\<rparr>"

text \<open>\<open>kernel_heap\<close> is the global once \<open>kheap_init\<close> has filled it in (\<open>kheap_init_spec\<close>).\<close>

definition kernel_heap :: heap where
  "kernel_heap = \<lparr>heap_tbl = kernel_heap_table, saddr = DEXTER_HEAP_ADDRESS\<rparr>"

definition kheap_init :: "mem \<Rightarrow> heap \<Rightarrow> (heap \<times> mem) run" where
  "kheap_init m h =
     (case heap_create m h DEXTER_HEAP_ADDRESS (DEXTER_HEAP_ADDRESS + DEXTER_HEAP_SIZE_BYTES) kernel_heap_table of
        (r, h', m') \<Rightarrow>
          if r <s 0 then Inl (Panic ''kheap_init: Heap creation failed.'') else Inr (h', m'))"

definition kmalloc :: "mem \<Rightarrow> u32 \<Rightarrow> addr \<times> mem" where
  "kmalloc m sz = heap_malloc m kernel_heap sz"

definition kfree :: "mem \<Rightarrow> addr \<Rightarrow> mem" where
  "kfree m ptr = heap_free m kernel_heap ptr"

definition kzalloc :: "mem \<Rightarrow> u32 \<Rightarrow> addr \<times> mem" where
  "kzalloc m sz =
     (case kmalloc m sz of (ptr, m') \<Rightarrow>
        if ptr = 0 then (0, m') else (ptr, snd (memset m' ptr 0 sz)))"

section \<open>Allocation in the standard library\<close>

definition malloc :: "mem \<Rightarrow> heap \<Rightarrow> u32 \<Rightarrow> addr \<times> mem" where
  "malloc m h sz =
     (if sz = 0 then (0, m)
      else
        let aligned_size = heap_align_value_to_upper sz;
            total_blocks = aligned_size div DEXTER_HEAP_BLOCK_SIZE
        in heap_malloc_blocks m h total_blocks)"

definition calloc :: "mem \<Rightarrow> heap \<Rightarrow> u32 \<Rightarrow> u32 \<Rightarrow> addr \<times> mem" where
  "calloc m h num sz =
     (let totalSize = num * sz in
      if sz \<noteq> 0 \<and> totalSize div sz \<noteq> num then (0, m)
      else case heap_malloc m h totalSize of (block, m') \<Rightarrow>
        if block \<noteq> 0 then (block, snd (memset m' block 0 totalSize)) else (block, m'))"

definition free :: "mem \<Rightarrow> heap \<Rightarrow> addr \<Rightarrow> mem" where
  "free m h ptr =
     (if ptr = 0 then m else heap_mark_blocks_free m h (heap_address_to_block h ptr))"

section \<open>Blocks of the kernel heap\<close>

lemma kernel_heap_sel [simp]:
  "heap_tbl kernel_heap = kernel_heap_table" "saddr kernel_heap = 0x1000000"
  "entries kernel_heap_table = 0x7E00" "total kernel_heap_table = 25600"
  by (simp_all add: kernel_heap_def kernel_heap_table_def)

interpretation kheap: block_allocator "heap_alloc kernel_heap" "heap_release kernel_heap"
    "\<lambda>m. taken_blocks m kernel_heap" 25600
  using heap_block_allocator [of kernel_heap] by simp

definition kblock :: "nat \<Rightarrow> addr" where
  "kblock b = heap_block_to_address kernel_heap (of_nat b)"

abbreviation kused :: "mem \<Rightarrow> nat set" where
  "kused m \<equiv> taken_blocks m kernel_heap"

lemma kused_less: "b \<in> kused m \<Longrightarrow> b < 25600"
  by (simp add: taken_blocks_def)

lemma unat_kblock_add:
  "b < 25600 \<Longrightarrow> i \<le> 104857600 \<Longrightarrow> unat (kblock b + of_nat i) = 16777216 + 4096 * b + i"
  by (simp add: kblock_def heap_block_to_address_def unat_word_ariths mult.commute)

lemma unat_kblock: "b < 25600 \<Longrightarrow> unat (kblock b) = 16777216 + 4096 * b"
  using unat_kblock_add [of b 0] by simp

lemma kblock_inj: "b < 25600 \<Longrightarrow> c < 25600 \<Longrightarrow> kblock b = kblock c \<longleftrightarrow> b = c"
  by (auto dest: arg_cong [where f = unat] simp: unat_kblock)

lemma kblock_nonzero: "b < 25600 \<Longrightarrow> kblock b \<noteq> 0"
  using unat_kblock [of b] by auto

text \<open>Bytes of different blocks differ, and none is a byte of the block table.\<close>

lemma kblock_apart:
  assumes "b < 25600" "c < 25600" "n \<le> 4096" "k \<le> 4096" "b \<noteq> c"
  shows "apart (kblock b) n (kblock c) k"
proof (unfold apart_def, intro allI impI notI)
  fix i j
  assume i: "i < n" and j: "j < k" and eq: "kblock b + of_nat i = kblock c + of_nat j"
  have "4096 * b + i = 4096 * c + j"
    using arg_cong [OF eq, of unat] unat_kblock_add [OF assms(1), of i] unat_kblock_add [OF assms(2), of j] i j assms(3,4)
    by simp
  then have "(4096 * b + i) div 4096 = (4096 * c + j) div 4096" by simp
  with i j assms show False by simp
qed

lemma kused_cong_outside:
  assumes "\<And>k. k < 25600 \<Longrightarrow> m' (0x7E00 + of_nat k) = m (0x7E00 + of_nat k)"
  shows "kused m' = kused m"
  using assms by (intro taken_blocks_cong) simp

lemma ktable_out_block:
  assumes "b < 25600" "b * 4096 + n \<le> 104857600" "k < 25600"
  shows "n \<le> unat (0x7E00 + of_nat k - kblock b)"
proof -
  have u: "unat (0x7E00 + of_nat k :: u32) = 32256 + k"
    using assms(3) by (simp add: unat_word_ariths)
  have w: "unat (w - v) = 4294967296 + unat w - unat v" if "unat w < unat v" for w v :: u32
    using that by (simp add: unat_sub_if')
  have "unat (0x7E00 + of_nat k - kblock b) = 4294967296 + (32256 + k) - (16777216 + 4096 * b)"
    using w [of "0x7E00 + of_nat k" "kblock b"] assms(1,3) unfolding u unat_kblock [OF assms(1)] by simp
  then show ?thesis using assms by linarith
qed

lemma kused_fill [simp]:
  "b < 25600 \<Longrightarrow> b * 4096 + n \<le> 104857600 \<Longrightarrow> kused (mem_fill m (kblock b) n f) = kused m"
  by (intro kused_cong_outside mem_fill_out ktable_out_block)

section \<open>Allocations of one block\<close>

text \<open>The least free block, the one a request of at most 4096 bytes gets.\<close>

definition kpage :: "mem \<Rightarrow> nat" where
  "kpage m = start_scan m kernel_heap 1"

definition kfull :: "mem \<Rightarrow> bool" where
  "kfull m \<longleftrightarrow> kused m = {..<25600}"

lemma kempty [simp]: "kused (\<lambda>_. 0) = {}" "{} \<noteq> {..<25600 :: nat}"
  using lessThan_iff [of 0 "25600 :: nat"] by (auto simp: taken_blocks_def block_taken_def simp del: lessThan_iff)

lemma free_run_1: "free_run m kernel_heap (Suc 0) i \<longleftrightarrow> i < 25600 \<and> i \<notin> kused m"
  by (auto simp: free_run_def taken_blocks_def)

lemma not_kfull: "\<not> kfull m \<longleftrightarrow> (\<exists>i < 25600. i \<notin> kused m)"
  unfolding kfull_def using kused_less [of _ m] by blast

lemma kpage_free:
  assumes "\<not> kfull m"
  shows "kpage m < 25600" "kpage m \<notin> kused m" "j < kpage m \<Longrightarrow> j \<in> kused m"
proof -
  obtain i where i: "free_run m kernel_heap (unat (1 :: u32)) i"
    using assms by (auto simp: not_kfull free_run_1)
  note fit = start_scan_fit [OF i]
  show "kpage m < 25600" "kpage m \<notin> kused m"
    using fit(1) by (simp_all add: kpage_def free_run_1)
  then show "j < kpage m \<Longrightarrow> j \<in> kused m"
    using fit(2) [of j] by (simp add: kpage_def free_run_1)
qed

lemma heap_align_page:
  assumes "0 < unat sz" "unat sz \<le> 4096"
  shows "heap_align_value_to_upper sz div 4096 = 1"
proof -
  have "(unat sz + 4095) div 4096 = 1" using assms by (intro div_nat_eqI) simp_all
  then have "unat (heap_align_value_to_upper sz) = 4096" by (simp add: heap_align_value_to_upper_nat)
  then have "heap_align_value_to_upper sz = 4096" by (simp add: word_unat_eq_iff)
  then show ?thesis by simp
qed

lemma malloc_block_page:
  "\<not> kfull m \<Longrightarrow> heap_malloc_blocks m kernel_heap 1 = (kblock (kpage m), m(0x7E00 + of_nat (kpage m) := 0x81))"
proof -
  assume "\<not> kfull m"
  then obtain i where i: "free_run m kernel_heap (unat (1 :: u32)) i"
    by (auto simp: not_kfull free_run_1)
  show ?thesis
    using heap_malloc_blocks_fit [OF _ i]
    by (simp add: kblock_def kpage_def mem_fill_Suc [of 0, simplified] numeral_2_eq_2 [symmetric])
qed

lemma malloc_block_full: "kfull m \<Longrightarrow> heap_malloc_blocks m kernel_heap 1 = (0, m)"
proof -
  assume full: "kfull m"
  then have "\<not> free_run m kernel_heap (unat (1 :: u32)) i" for i by (simp add: free_run_1 kfull_def)
  note nofit = start_scan_nofit [OF this, simplified]
  have "25599 \<in> kused m" using full by (simp add: kfull_def)
  then have "start_scan m kernel_heap 1 = 25600" using nofit(3) by (simp add: taken_blocks_def)
  then have "heap_get_start_block m kernel_heap 1 = -3" using get_start_block_scan [of kernel_heap m 1] by simp
  then show ?thesis by (simp add: heap_malloc_blocks_def word_sless_alt)
qed

lemma kmalloc_page:
  assumes "0 < unat sz" "unat sz \<le> 4096"
  shows "kmalloc m sz = (if kfull m then (0, m)
    else (kblock (kpage m), m(0x7E00 + of_nat (kpage m) := 0x81)))"
  using heap_align_page [OF assms]
  by (simp add: kmalloc_def heap_malloc_def Let_def malloc_block_page malloc_block_full)

lemma kzalloc_page:
  assumes "0 < unat sz" "unat sz \<le> 4096"
  shows "kzalloc m sz = (if kfull m then (0, m)
    else (kblock (kpage m),
      mem_fill (m(0x7E00 + of_nat (kpage m) := 0x81)) (kblock (kpage m)) (unat sz) (\<lambda>_. 0)))"
  using kmalloc_page [OF assms] kpage_free(1) [of m]
  by (simp add: kzalloc_def kblock_nonzero memset_fill)

lemma kused_upd [simp]:
  "b < 25600 \<Longrightarrow> kused (m(0x7E00 + of_nat b := v)) =
    (if heap_get_entry_type v \<noteq> 0 then insert b (kused m) else kused m - {b})"
  by (auto simp: taken_blocks_def block_taken_def of_nat32_eq_iff)

lemma kused_kzalloc:
  assumes "0 < unat sz" "unat sz \<le> 4096" "\<not> kfull m"
  shows "kused (snd (kzalloc m sz)) = insert (kpage m) (kused m)"
  using assms kpage_free(1) [OF assms(3)] by (simp add: kzalloc_page del: fun_upd_apply)

lemma kfree_block:
  "b < 25600 \<Longrightarrow> kfree m (kblock b) = m(0x7E00 + of_nat b := 0)"
  using heap_free_block [of kernel_heap b m] by (simp add: kfree_def kblock_def)

lemma kused_kfree: "b < 25600 \<Longrightarrow> kused (kfree m (kblock b)) = kused m - {b}"
  by (simp add: kfree_block del: fun_upd_apply)

text \<open>What an allocation of one block leaves alone: everything but its mark and its bytes.\<close>

lemma kzalloc_other:
  assumes "0 < unat sz" "unat sz \<le> 4096" "\<not> kfull m" "25600 \<le> unat (x - 0x7E00)"
    "unat sz \<le> unat (x - kblock (kpage m))"
  shows "snd (kzalloc m sz) x = m x"
proof -
  have "x \<noteq> 0x7E00 + of_nat (kpage m)"
    using assms(4) kpage_free(1) [OF assms(3)] by auto
  with assms show ?thesis by (simp add: kzalloc_page mem_simps)
qed

section \<open>Properties\<close>

text \<open>
  \<open>kheap_init\<close> never panics: from any memory it leaves the global \<open>kernel_heap\<close> with
  all 25600 blocks free, having written the block table only.
\<close>

lemma kheap_init_spec:
  "\<exists>m'. kheap_init m h = Inr (kernel_heap, m') \<and> kused m' = {} \<and> unchanged_outside m m' 0x7E00 25600"
proof -
  have z: "(0 :: u32) \<le>s 0" "\<not> (0 :: u32) <s 0" by simp_all
  have "kused (mem_fill m 0x7E00 25600 (\<lambda>_. 0)) = {}"
    by (auto simp: taken_blocks_def block_taken_def mem_fill_def)
  then show ?thesis
    by (simp add: kheap_init_def heap_create_def heap_validate_alignment_def heap_validate_table_def
      memset_fill Let_def kernel_heap_def [symmetric])
qed

text \<open>
  C34: \<open>kzalloc\<close> of up to a block returns the least free block, cleared, and marks it; with
  no block free it returns NULL and writes nothing.
\<close>

theorem kzalloc_spec:
  assumes "0 < unat sz" and "unat sz \<le> 4096"
  shows "case kzalloc m sz of (p, m') \<Rightarrow>
    if kused m = {..<25600} then p = 0 \<and> m' = m
    else \<exists>b. b < 25600 \<and> p = kblock b \<and> b \<notin> kused m \<and> {..<b} \<subseteq> kused m \<and>
      kused m' = insert b (kused m) \<and> bytes m' p (unat sz) = replicate (unat sz) 0"
proof (cases "kfull m")
  case True
  with assms show ?thesis by (simp add: kzalloc_page kfull_def)
next
  case False
  let ?b = "kpage m"
  have "bytes (snd (kzalloc m sz)) (kblock ?b) (unat sz) = replicate (unat sz) 0"
    using assms False by (simp add: kzalloc_page bytes_fill map_replicate_const)
  moreover have "{..<?b} \<subseteq> kused m" using kpage_free(3) [OF False] by blast
  moreover have "fst (kzalloc m sz) = kblock ?b" using assms False by (simp add: kzalloc_page)
  ultimately show ?thesis
    using kpage_free [OF False] kused_kzalloc [OF assms False] False
    by (auto simp: kfull_def split: prod.splits)
qed

theorem kzalloc_spec_witness:
  "\<exists>b m'. kzalloc (\<lambda>_. 0) 12 = (kblock b, m') \<and> b = 0 \<and> kused m' = {0} \<and> bytes m' (kblock b) 12 = replicate 12 0"
  using kzalloc_spec [of 12 "\<lambda>_. 0"] by (auto split: prod.splits simp: lessThan_empty_iff bot_nat_def)

text \<open>
  \<open>calloc\<close> refuses, with NULL and without a write, every request whose sz
  \<open>num * size\<close> does not fit 32 bits, and passes every other on to \<open>heap_malloc\<close>.
\<close>

lemma calloc_overflow:
  "calloc m h num sz =
    (if 4294967296 \<le> unat num * unat sz then (0, m)
     else case heap_malloc m h (of_nat (unat num * unat sz)) of (p, m') \<Rightarrow>
       (p, if p = 0 then m' else mem_fill m' p (unat num * unat sz) (\<lambda>_. 0)))"
proof -
  have w: "num * sz = of_nat (unat num * unat sz)" by simp
  have "sz \<noteq> 0 \<and> num * sz div sz \<noteq> num \<longleftrightarrow> 4294967296 \<le> unat num * unat sz"
  proof (cases "unat num * unat sz < 4294967296")
    case True
    then have "unat (num * sz) = unat num * unat sz" by (simp add: unat_word_ariths)
    then have "sz \<noteq> 0 \<Longrightarrow> unat (num * sz div sz) = unat num" by (simp add: unat_div unat_eq_0)
    with True show ?thesis by (metis not_le word_unat_eq_iff)
  next
    case False
    have "unat (num * sz div sz) = unat (num * sz) div unat sz" by (simp add: unat_div)
    also have "unat (num * sz) < unat num * unat sz"
      using False unat32_less [of "num * sz"] by linarith
    then have "unat (num * sz) div unat sz < unat num"
      by (metis div_less_iff_less_mult mult_is_0 not_less_zero gr0I)
    finally show ?thesis using False by auto
  qed
  moreover have "unat num * unat sz < 4294967296 \<Longrightarrow> unat (num * sz) = unat num * unat sz"
    by (simp add: unat_word_ariths)
  ultimately show ?thesis
    by (simp add: calloc_def Let_def memset_fill flip: w split: prod.splits)
qed

text \<open>
  Freeing an allocation of one block by \<open>kfree\<close> gives the block back: the set of used
  blocks is what it was.
\<close>

lemma kfree_kmalloc:
  assumes "0 < unat sz" and "unat sz \<le> 4096" and "kused m \<noteq> {..<25600}"
  shows "case kmalloc m sz of (p, m') \<Rightarrow> p \<noteq> 0 \<and> kused (kfree m' p) = kused m"
proof -
  have nf: "\<not> kfull m" using assms(3) by (simp add: kfull_def)
  then obtain i where "free_run m kernel_heap (unat (1 :: u32)) i" by (auto simp: not_kfull free_run_1)
  from heap_alloc_malloc(1) [OF _ this]
  have "heap_alloc kernel_heap m 1 = Some (kpage m, snd (heap_malloc_blocks m kernel_heap 1))"
    by (simp add: kpage_def)
  from kheap.release_single [OF this] show ?thesis
    using kpage_free(1) [OF nf] nf assms(1,2)
    by (simp add: kmalloc_page malloc_block_page heap_release_def kfree_def kblock_def kblock_nonzero [unfolded kblock_def])
qed

end
