(* ===== verification/Pages.thy ===== *)
theory Pages
  imports KHeap
begin

text \<open>
  Pages (blocks of 4096 bytes at addresses divisible by 4096) and arrays of 32-bit words
  inside them: what the page tables of \<^verbatim>\<open>src/mem/paging.c\<close> are made of.
\<close>

section \<open>Page addresses\<close>

definition page :: "addr \<Rightarrow> bool" where
  "page p \<longleftrightarrow> p mod 4096 = 0"

lemma page_nat: "page p \<longleftrightarrow> 4096 dvd unat p"
  by (simp add: page_def word_unat_eq_iff unat_mod32 dvd_eq_mod_eq_0)

lemma unat_page_add: "page p \<Longrightarrow> i < 4096 \<Longrightarrow> unat (p + of_nat i) = unat p + i"
proof -
  assume p: "page p" and i: "i < 4096"
  obtain k where k: "unat p = 4096 * k" using p by (auto simp: page_nat)
  then have "k < 1048576" using unat32_less [of p] by simp
  then have "unat p + i < 4294967296" using k i by simp
  then show ?thesis using i by (simp add: unat_word_ariths)
qed

lemma page_add: "page p \<Longrightarrow> page (p + 4096)"
  by (simp add: page_nat unat_word_ariths) (simp add: dvd_eq_mod_eq_0 mod_mod_cancel)

lemma page_kblock [simp]: "b < 25600 \<Longrightarrow> page (kblock b)"
  by (simp add: page_nat unat_kblock)

lemma page_apart:
  assumes "page p" "page q" "p \<noteq> q" "i + n \<le> 4096" "j + k \<le> 4096"
  shows "apart (p + of_nat i) n (q + of_nat j) k"
proof (unfold apart_def, intro allI impI notI)
  fix x y
  assume x: "x < n" and y: "y < k" and eq: "p + of_nat i + of_nat x = q + of_nat j + of_nat y"
  obtain a where a: "unat p = 4096 * a" using assms(1) by (auto simp: page_nat)
  obtain b where b: "unat q = 4096 * b" using assms(2) by (auto simp: page_nat)
  note ab = a b
  have "p + of_nat (i + x) = q + of_nat (j + y)" using eq by (simp add: add.assoc)
  then have "4096 * a + (i + x) = 4096 * b + (j + y)"
    using unat_page_add [OF assms(1), of "i + x"] unat_page_add [OF assms(2), of "j + y"] x y assms(4,5) ab
    by simp
  then have "(4096 * a + (i + x)) div 4096 = (4096 * b + (j + y)) div 4096" by simp
  then have "a = b" using x y assms(4,5) by simp
  with ab assms(3) show False by (metis word_unat_eq_iff)
qed

lemma page_apart_same:
  assumes "page p" "i + n \<le> 4096" "j + k \<le> 4096" "i + n \<le> j \<or> j + k \<le> i"
  shows "apart (p + of_nat i) n (p + of_nat j) k"
proof (unfold apart_def, intro allI impI notI)
  fix x y
  assume x: "x < n" and y: "y < k" and eq: "p + of_nat i + of_nat x = p + of_nat j + of_nat y"
  then have "p + of_nat (i + x) = p + of_nat (j + y)" by (simp add: add.assoc)
  then have "i + x = j + y"
    using unat_page_add [OF assms(1), of "i + x"] unat_page_add [OF assms(1), of "j + y"] x y assms(2,3)
    by simp
  with x y assms(4) show False by linarith
qed

text \<open>The part of a word that is a page address, and the flags below it.\<close>

lemma page_mask: "(0xfffff000 :: u32) = NOT (mask 12)"
  by (simp add: mask_eq_exp_minus_1)

lemma page_iff_take_bit: "page p \<longleftrightarrow> take_bit 12 p = 0"
  by (simp add: page_def take_bit_eq_mod)

lemma and_page_mask: "w AND 0xfffff000 = w - take_bit 12 (w :: u32)"
proof -
  have "w AND NOT (mask 12) = push_bit 12 (drop_bit 12 w)"
    by (rule bit_eqI) (auto simp: bit_simps)
  then show ?thesis using bits_ident [of 12 w] by (simp add: page_mask eq_diff_eq)
qed

lemma page_and [simp]: "page (w AND 0xfffff000)"
  unfolding page_iff_take_bit page_mask by (rule bit_eqI) (auto simp: bit_simps)

lemma page_or_flags:
  assumes "page p" "unat f < 4096"
  shows "(p OR f) AND 0xfffff000 = p"
proof -
  have p: "\<not> bit p n" if "n < 12" for n
  proof
    assume "bit p n"
    then have "bit (take_bit 12 p) n" using that by (simp add: bit_simps)
    then show False using assms(1) by (simp add: page_iff_take_bit)
  qed
  have "take_bit 12 f = f"
    using assms(2) by (simp add: word_unat_eq_iff unat_mod32 take_bit_eq_mod)
  then have f: "\<not> bit f n" if "\<not> n < 12" for n
    using that by (metis bit_take_bit_iff)
  show ?thesis unfolding page_mask
    by (rule bit_eqI) (use p f in \<open>auto simp: bit_simps dest: bit_imp_le_length\<close>)
qed

section \<open>Arrays of words in a page\<close>

abbreviation word_at :: "mem \<Rightarrow> addr \<Rightarrow> nat \<Rightarrow> u32" where
  "word_at m p i \<equiv> load32 m (p + of_nat (4 * i))"

definition store_words :: "mem \<Rightarrow> addr \<Rightarrow> nat \<Rightarrow> (nat \<Rightarrow> u32) \<Rightarrow> mem" where
  "store_words m p n f = fold (\<lambda>i m. store32 m (p + of_nat (4 * i)) (f i)) [0..<n] m"

lemma store_words_0 [simp]: "store_words m p 0 f = m"
  by (simp add: store_words_def)

lemma store_words_Suc: "store_words m p (Suc n) f = store32 (store_words m p n f) (p + of_nat (4 * n)) (f n)"
  by (simp add: store_words_def)

lemma word_at_store [mem_simps]:
  "page p \<Longrightarrow> i < 1024 \<Longrightarrow> j < 1024 \<Longrightarrow>
    word_at (store32 m (p + of_nat (4 * i)) v) p j = (if i = j then v else word_at m p j)"
  using load_store_other [OF page_apart_same [of p "4 * i" 4 "4 * j" 4], of m v]
  by (cases i j rule: linorder_cases) (auto simp: load_store_same simp del: of_nat_mult)

lemma word_at_store_other [mem_simps]:
  "page p \<Longrightarrow> page q \<Longrightarrow> p \<noteq> q \<Longrightarrow> i < 1024 \<Longrightarrow> j < 1024 \<Longrightarrow>
    word_at (store32 m (p + of_nat (4 * i)) v) q j = word_at m q j"
  using page_apart [of p q "4 * i" 4 "4 * j" 4] by (simp add: load_store_other del: of_nat_mult)

lemma word_at_store_words [mem_simps]:
  "page p \<Longrightarrow> n \<le> 1024 \<Longrightarrow> j < 1024 \<Longrightarrow>
    word_at (store_words m p n f) p j = (if j < n then f j else word_at m p j)"
  by (induction n) (auto simp: store_words_Suc word_at_store less_Suc_eq simp del: of_nat_mult)

lemma word_at_store_words_other [mem_simps]:
  "page p \<Longrightarrow> page q \<Longrightarrow> p \<noteq> q \<Longrightarrow> n \<le> 1024 \<Longrightarrow> j < 1024 \<Longrightarrow>
    word_at (store_words m p n f) q j = word_at m q j"
  by (induction n) (auto simp: store_words_Suc word_at_store_other simp del: of_nat_mult)

lemma word_at_cong:
  assumes "page q" "j < 1024" "\<And>i. i < 4096 \<Longrightarrow> m' (q + of_nat i) = m (q + of_nat i)"
  shows "word_at m' q j = word_at m q j"
proof (rule load32_cong)
  fix x assume x: "unat (x - (q + of_nat (4 * j))) < 4"
  define k where "k = unat (x - (q + of_nat (4 * j)))"
  have "x = q + of_nat (4 * j + k)" unfolding of_nat_add k_def by simp
  moreover have "4 * j + k < 4096" using x assms(2) by (simp add: k_def)
  ultimately show "m' x = m x" using assms(3) by (simp del: of_nat_add of_nat_mult)
qed

text \<open>Bytes outside the page keep their value.\<close>

lemma store_word_byte:
  assumes "page p" "i < 1024" "4096 \<le> unat (x - p)"
  shows "store32 m (p + of_nat (4 * i)) v x = m x"
proof (rule store32_out)
  show "4 \<le> unat (x - (p + of_nat (4 * i)))"
    using assms(2,3) unat_sub_of_nat [of "4 * i" "x - p"] unat32_less [of "x - p"]
    unfolding diff_diff_eq by (auto simp del: of_nat_mult unat32_less split: if_splits)
qed

lemma store_words_byte:
  "page p \<Longrightarrow> n \<le> 1024 \<Longrightarrow> 4096 \<le> unat (x - p) \<Longrightarrow> store_words m p n f x = m x"
  by (induction n) (simp_all add: store_words_Suc store_word_byte del: of_nat_mult)

section \<open>Pages of the kernel heap\<close>

lemma kused_store [simp]:
  assumes "b < 25600" "i < 1024"
  shows "kused (store32 m (kblock b + of_nat (4 * i)) v) = kused m"
proof (rule kused_cong_outside)
  fix k :: nat assume k: "k < 25600"
  show "store32 m (kblock b + of_nat (4 * i)) v (0x7E00 + of_nat k) = m (0x7E00 + of_nat k)"
    using assms k ktable_out_block [of b 4096 k] by (intro store_word_byte) simp_all
qed

lemma kused_store_words [simp]: "b < 25600 \<Longrightarrow> n \<le> 1024 \<Longrightarrow> kused (store_words m (kblock b) n f) = kused m"
  by (induction n) (simp_all add: store_words_Suc del: of_nat_mult)

text \<open>Allocating a page keeps what the other pages in use hold.\<close>

lemma kzalloc_keeps_page:
  assumes "0 < unat sz" "unat sz \<le> 4096" "\<not> kfull m" "b \<in> kused m" "i < 4096"
  shows "snd (kzalloc m sz) (kblock b + of_nat i) = m (kblock b + of_nat i)"
proof (rule kzalloc_other [OF assms(1-3)])
  have b: "b < 25600" using assms(4) by (rule kused_less)
  have u: "unat (kblock b + of_nat i) = 16777216 + 4096 * b + i"
    using unat_kblock_add [OF b, of i] assms(5) by simp
  then show "25600 \<le> unat (kblock b + of_nat i - 0x7E00)"
    using b by (simp add: unat_sub_if')
  have ne: "b \<noteq> kpage m" using kpage_free [OF assms(3)] assms(4) by auto
  then have "apart (kblock (kpage m)) (unat sz) (kblock b) 4096"
    using kblock_apart [of "kpage m" b "unat sz" 4096] kpage_free(1) [OF assms(3)] b assms(2) by simp
  then show "unat sz \<le> unat (kblock b + of_nat i - kblock (kpage m))"
    by (rule apart_out) (use assms(5) in simp)
qed

lemma kzalloc_keeps_word:
  "0 < unat sz \<Longrightarrow> unat sz \<le> 4096 \<Longrightarrow> \<not> kfull m \<Longrightarrow> b \<in> kused m \<Longrightarrow> j < 1024 \<Longrightarrow>
    word_at (snd (kzalloc m sz)) (kblock b) j = word_at m (kblock b) j"
  by (intro word_at_cong page_kblock kzalloc_keeps_page kused_less [of b m]) simp_all

text \<open>So does a write to the block table.\<close>

lemma ktable_write_word [mem_simps]:
  assumes "b < 25600" "c < 25600" "j < 1024"
  shows "word_at (m(0x7E00 + of_nat c := v)) (kblock b) j = word_at m (kblock b) j"
proof (rule word_at_cong)
  fix i :: nat assume i: "i < 4096"
  have "unat (kblock b + of_nat i) = 16777216 + 4096 * b + i"
    using unat_kblock_add [OF assms(1), of i] i by simp
  moreover have "unat (0x7E00 + of_nat c :: u32) = 32256 + c"
    using assms(2) by (simp add: unat_word_ariths)
  ultimately have "kblock b + of_nat i \<noteq> 0x7E00 + of_nat c"
    using assms(1,2) by (auto dest!: arg_cong [where f = unat])
  then show "(m(0x7E00 + of_nat c := v)) (kblock b + of_nat i) = m (kblock b + of_nat i)" by simp
qed (use assms in simp_all)

end
