(* ===== verification/KFrames.thy ===== *)
theory KFrames
  imports Pages
begin

text \<open>
  What the kernel's allocations leave alone. A byte is stable when it is neither in the block
  table nor in a free block of the kernel heap: static data, stacks, and every block in use.
  One memory extends another when it has at least the same blocks in use and the same stable
  bytes.
\<close>

definition kstable :: "mem \<Rightarrow> addr \<Rightarrow> bool" where
  "kstable m x \<longleftrightarrow> 25600 \<le> unat (x - 0x7E00)
     \<and> (\<forall>b < 25600. b \<notin> kused m \<longrightarrow> 4096 \<le> unat (x - kblock b))"

definition kext :: "mem \<Rightarrow> mem \<Rightarrow> bool" where
  "kext m m' \<longleftrightarrow> kused m \<subseteq> kused m' \<and> (\<forall>x. kstable m x \<longrightarrow> m' x = m x)"

lemma kstable_mono: "kused m \<subseteq> kused m' \<Longrightarrow> kstable m x \<Longrightarrow> kstable m' x"
  unfolding kstable_def by blast

lemma kextD: "kext m m' \<Longrightarrow> kstable m x \<Longrightarrow> m' x = m x" "kext m m' \<Longrightarrow> kused m \<subseteq> kused m'"
  by (simp_all add: kext_def)

lemma kext_stable: "kext m m' \<Longrightarrow> kstable m x \<Longrightarrow> kstable m' x"
  by (rule kstable_mono [OF kextD(2)])

lemma kext_refl [simp, intro]: "kext m m"
  by (simp add: kext_def)

lemma kext_trans: "kext m m' \<Longrightarrow> kext m' m'' \<Longrightarrow> kext m m''"
  unfolding kext_def using kstable_mono [of m m'] by (metis order_trans)

text \<open>The bytes of a block in use are stable.\<close>

lemma kblock_stable:
  assumes "b \<in> kused m" "i < 4096"
  shows "kstable m (kblock b + of_nat i)"
  unfolding kstable_def
proof (intro conjI allI impI)
  have b: "b < 25600" using assms(1) by (rule kused_less)
  have "unat (kblock b + of_nat i) = 16777216 + 4096 * b + i"
    using unat_kblock_add [OF b, of i] assms(2) by simp
  then show "25600 \<le> unat (kblock b + of_nat i - 0x7E00)" using b by (simp add: unat_sub_if')
  fix c assume c: "c < 25600" "c \<notin> kused m"
  then have "c \<noteq> b" using assms(1) by blast
  then show "4096 \<le> unat (kblock b + of_nat i - kblock c)"
    by (intro apart_out [OF kblock_apart [of c b 4096 4096]]) (use b c assms(2) in simp_all)
qed

lemma kext_kzalloc:
  assumes "0 < unat sz" "unat sz \<le> 4096"
  shows "kext m (snd (kzalloc m sz))"
proof (cases "kfull m")
  case True
  then show ?thesis using kzalloc_page [OF assms] by simp
next
  case False
  have "snd (kzalloc m sz) x = m x" if "kstable m x" for x
  proof (rule kzalloc_other [OF assms False])
    show "25600 \<le> unat (x - 0x7E00)" using that by (simp add: kstable_def)
    have "4096 \<le> unat (x - kblock (kpage m))" using that kpage_free [OF False] by (simp add: kstable_def)
    then show "unat sz \<le> unat (x - kblock (kpage m))" using assms(2) by linarith
  qed
  then show ?thesis using kused_kzalloc [OF assms False] by (auto simp: kext_def)
qed

text \<open>So are the old bytes when a block that was free is filled.\<close>

lemma kext_fill:
  assumes "kext m m'" "b < 25600" "b \<notin> kused m" "n \<le> 4096"
  shows "kext m (mem_fill m' (kblock b) n f)"
proof -
  have "mem_fill m' (kblock b) n f x = m x" if "kstable m x" for x
  proof -
    have "4096 \<le> unat (x - kblock b)" using that assms(2,3) by (simp add: kstable_def)
    then show ?thesis using assms(4) kextD(1) [OF assms(1) that] by (simp add: mem_fill_out)
  qed
  moreover have "kused (mem_fill m' (kblock b) n f) = kused m'"
    using assms(2,4) by (intro kused_fill) simp_all
  ultimately show ?thesis using kextD(2) [OF assms(1)] by (simp add: kext_def)
qed

lemma kext_free:
  assumes "kext m m'" "b < 25600" "b \<notin> kused m"
  shows "kext m (kfree m' (kblock b))"
proof -
  have "kfree m' (kblock b) x = m x" if "kstable m x" for x
  proof -
    have "x \<noteq> 0x7E00 + of_nat b" using that assms(2) by (auto simp: kstable_def)
    then show ?thesis using kextD(1) [OF assms(1) that] by (simp add: kfree_block [OF assms(2)])
  qed
  moreover have "kused (kfree m' (kblock b)) = kused m' - {b}" by (rule kused_kfree [OF assms(2)])
  ultimately show ?thesis using kextD(2) [OF assms(1)] assms(3) by (auto simp: kext_def)
qed

text \<open>Releasing a block writes to the block table only.\<close>

definition table_only :: "mem \<Rightarrow> mem \<Rightarrow> bool" where
  "table_only m m' \<longleftrightarrow> (\<forall>x. 25600 \<le> unat (x - 0x7E00) \<longrightarrow> m' x = m x)"

lemma table_only_trans: "table_only m m' \<Longrightarrow> table_only m' m'' \<Longrightarrow> table_only m m''"
  by (simp add: table_only_def)

lemma table_only_kfree: "b < 25600 \<Longrightarrow> table_only m (kfree m (kblock b))"
  by (auto simp: table_only_def kfree_block)

lemma not_kfull_card: "card (kused m) < 25600 \<Longrightarrow> \<not> kfull m"
  by (metis card_lessThan kfull_def less_irrefl)

lemma kpage_used: "0 < unat sz \<Longrightarrow> unat sz \<le> 4096 \<Longrightarrow> \<not> kfull m \<Longrightarrow> kzalloc m sz = (p, m') \<Longrightarrow>
    p = kblock (kpage m) \<and> kused m' = insert (kpage m) (kused m) \<and> kext m m' \<and> p \<noteq> 0"
  using kused_kzalloc [of sz m] kext_kzalloc [of sz m] kzalloc_page [of sz m] kpage_free(1) [of m]
  by (auto simp: kblock_nonzero)

text \<open>What an allocation of at most one block gives when a block is free.\<close>

lemma kzalloc_new:
  assumes "card (kused m) < 25600" "0 < unat sz" "unat sz \<le> 4096"
  shows "\<exists>b m'. kzalloc m sz = (kblock b, m') \<and> b < 25600 \<and> b \<notin> kused m \<and> kused m' = insert b (kused m)
    \<and> kext m m' \<and> card (kused m') = Suc (card (kused m)) \<and> kblock b \<noteq> 0
    \<and> (\<forall>i < unat sz. m' (kblock b + of_nat i) = 0)"
proof -
  have nf: "\<not> kfull m" using assms(1) by (rule not_kfull_card)
  note free = kpage_free [OF nf]
  obtain p m' where z: "kzalloc m sz = (p, m')" by (rule prod.exhaust)
  then have p: "p = kblock (kpage m)" "kused m' = insert (kpage m) (kused m)" "kext m m'" "p \<noteq> 0"
    using kpage_used [OF assms(2,3) nf z] by auto
  have "finite (kused m)" by (simp add: taken_blocks_def)
  then have "card (kused m') = Suc (card (kused m))" using p(2) free(2) by simp
  moreover have "m' (kblock (kpage m) + of_nat i) = 0" if "i < unat sz" for i
    using kzalloc_page [OF assms(2,3), of m] nf z that assms(3) by (simp add: mem_fill_in)
  ultimately show ?thesis using z p free(1,2) by blast
qed

text \<open>Terminated strings whose bytes are stable stay strings.\<close>

definition kstable_block :: "mem \<Rightarrow> addr \<Rightarrow> nat \<Rightarrow> bool" where
  "kstable_block m p n \<longleftrightarrow> (\<forall>i < n. kstable m (p + of_nat i))"

lemma kstable_block_ext: "kext m m' \<Longrightarrow> kstable_block m p n \<Longrightarrow> kstable_block m' p n"
  by (simp add: kstable_block_def kext_stable)

lemma kstable_block_le: "kstable_block m p n \<Longrightarrow> k \<le> n \<Longrightarrow> kstable_block m p k"
  by (simp add: kstable_block_def)

lemma kstable_block_tail: "kstable_block m p (Suc n) \<Longrightarrow> kstable_block m (p + 1) n"
  unfolding kstable_block_def
proof (intro allI impI)
  fix i assume "\<forall>i < Suc n. kstable m (p + of_nat i)" "i < n"
  then have "kstable m (p + of_nat (Suc i))" by blast
  then show "kstable m (p + 1 + of_nat i)" by (simp add: add.assoc)
qed

lemma cstr_ext:
  "kext m m' \<Longrightarrow> cstr m p bs \<Longrightarrow> kstable_block m p (Suc (length bs)) \<Longrightarrow> cstr m' p bs"
  by (rule cstr_frame) (simp_all add: kstable_block_def kextD(1))

lemma kblock_stable_block: "b \<in> kused m \<Longrightarrow> n \<le> 4096 \<Longrightarrow> kstable_block m (kblock b) n"
  by (simp add: kstable_block_def kblock_stable)

lemma kblock_off_table: "b < 25600 \<Longrightarrow> i < 4096 \<Longrightarrow> 25600 \<le> unat (kblock b + of_nat i - 0x7E00)"
  using unat_kblock_add [of b i] by (simp add: unat_sub_if')

section \<open>Outside the heap\<close>

text \<open>Bytes outside the kernel heap and its table.\<close>

definition off_heap :: "addr \<Rightarrow> nat \<Rightarrow> bool" where
  "off_heap p n \<longleftrightarrow> (\<forall>i < n. 25600 \<le> unat (p + of_nat i - 0x7E00) \<and> (\<forall>b < 25600. 4096 \<le> unat (p + of_nat i - kblock b)))"

lemma off_heap_apart: "off_heap p n \<Longrightarrow> b < 25600 \<Longrightarrow> n \<le> 4096 \<Longrightarrow> apart p n (kblock b) n"
  unfolding apart_def
proof (intro allI impI notI)
  fix i j assume "off_heap p n" "b < 25600" "n \<le> 4096" "i < n" "j < n" "p + of_nat i = kblock b + of_nat j"
  then have "4096 \<le> unat (kblock b + of_nat j - kblock b)" unfolding off_heap_def by metis
  then show False using \<open>n \<le> 4096\<close> \<open>j < n\<close> by simp
qed

text \<open>Low memory above the block table is such, and stable.\<close>

lemma low_off_block: "unat x < 16777216 \<Longrightarrow> b < 25600 \<Longrightarrow> 4096 \<le> unat (x - kblock b)"
  using unat_kblock_add [of b 0] by (simp add: unat_sub_if')

lemma low_off_table: "57856 \<le> unat x \<Longrightarrow> 25600 \<le> unat (x - 0x7E00 :: addr)"
  by (simp add: unat_sub_if')

lemma off_heap_low: "57856 \<le> unat p \<Longrightarrow> unat p + n \<le> 16777216 \<Longrightarrow> off_heap p n"
  unfolding off_heap_def
proof (intro allI impI conjI)
  fix i assume p: "57856 \<le> unat p" "unat p + n \<le> 16777216" "i < n"
  then have u: "unat (p + of_nat i) = unat p + i" by (simp add: unat_word_ariths)
  show "25600 \<le> unat (p + of_nat i - 0x7E00)" using u p by (intro low_off_table) simp
  show "4096 \<le> unat (p + of_nat i - kblock b)" if "b < 25600" for b
    using u p that by (intro low_off_block) simp_all
qed

lemma kused_off_heap:
  assumes "off_heap p n" "unchanged_outside m m' p n"
  shows "kused m' = kused m"
proof (rule kused_cong_outside)
  fix k :: nat assume "k < 25600"
  then have "\<not> unat (0x7E00 + of_nat k - p) < n"
    using assms(1) unfolding off_heap_def by (auto dest!: spec [of _ "unat (0x7E00 + of_nat k - p)"])
  then show "m' (0x7E00 + of_nat k) = m (0x7E00 + of_nat k)" using assms(2) by (simp add: unchanged_outside_def)
qed

lemma kstable_low:
  assumes "57856 \<le> unat x" "unat x < 16777216"
  shows "kstable m x"
  unfolding kstable_def
proof (intro conjI allI impI)
  show "25600 \<le> unat (x - 0x7E00)" using assms by (simp add: unat_sub_if')
  fix b assume b: "b < 25600" "b \<notin> kused m"
  show "4096 \<le> unat (x - kblock b)"
    using assms b(1) by (simp add: unat_sub_if' unat_kblock)
qed

lemma kstable_block_low: "57856 \<le> unat p \<Longrightarrow> unat p + n \<le> 16777216 \<Longrightarrow> kstable_block m p n"
  unfolding kstable_block_def by (auto intro!: kstable_low simp: unat_word_ariths)

end
