(* ===== verification/KRuns.thy ===== *)
theory KRuns
  imports KFrames
begin

text \<open>
  Allocations of several blocks from the kernel heap. The heap gives the first run of free
  blocks that is long enough; one exists as long as the blocks in use are too few to break up
  every run.
\<close>

section \<open>Runs of blocks\<close>

lemma kblock_offset:
  "kblock (b + q) = kblock b + of_nat (4096 * q)"
  by (simp add: kblock_def heap_block_to_address_def algebra_simps)

text \<open>A byte of a run is a byte of one of its blocks.\<close>

lemma kblock_run_byte: "kblock b + of_nat i = kblock (b + i div 4096) + of_nat (i mod 4096)"
proof -
  have "of_nat i = (of_nat (4096 * (i div 4096) + i mod 4096) :: u32)" by simp
  then show ?thesis unfolding kblock_offset by (simp only: of_nat_add add.assoc)
qed

text \<open>How many blocks a request takes.\<close>

definition kblocks :: "u32 \<Rightarrow> nat" where
  "kblocks sz = (unat sz + 4095) div 4096"

lemma kblocks_bytes: "unat sz \<le> 4096 * kblocks sz" "i < unat sz \<Longrightarrow> i div 4096 < kblocks sz"
proof -
  have "(unat sz + 4095) div 4096 * 4096 + (unat sz + 4095) mod 4096 = unat sz + 4095" by (rule div_mult_mod_eq)
  moreover have "(unat sz + 4095) mod 4096 < 4096" by simp
  ultimately show n: "unat sz \<le> 4096 * kblocks sz" unfolding kblocks_def by linarith
  show "i < unat sz \<Longrightarrow> i div 4096 < kblocks sz" using n by (simp add: div_less_iff_less_mult mult.commute)
qed

lemma kblocks_pos: "0 < unat sz \<Longrightarrow> 0 < kblocks sz"
  using kblocks_bytes(2) [of 0 sz] by simp

text \<open>What is off all blocks of a run is off its bytes.\<close>

lemma run_off:
  assumes "n \<le> 4096 * k" "\<And>c. c \<in> {b..<b + k} \<Longrightarrow> 4096 \<le> unat (x - kblock c)"
  shows "n \<le> unat (x - kblock b)"
proof (rule ccontr)
  define j where "j = unat (x - kblock b)"
  assume "\<not> n \<le> unat (x - kblock b)"
  then have j: "j < n" "x = kblock b + of_nat j" by (simp_all add: j_def)
  then have "b + j div 4096 \<in> {b..<b + k}" using assms(1) by (simp add: div_less_iff_less_mult mult.commute)
  from assms(2) [OF this] show False unfolding j(2) kblock_run_byte [of b j] by simp
qed

lemma run_off_blocks:
  assumes "b + k \<le> 25600" "n \<le> 4096 * k" "c < 25600" "c \<notin> {b..<b + k}" "j < 4096"
  shows "n \<le> unat (kblock c + of_nat j - kblock b)"
proof (rule run_off [OF assms(2)])
  fix d assume "d \<in> {b..<b + k}"
  then have "d < 25600" "c \<noteq> d" using assms(1,4) by auto
  then have "apart (kblock d) 4096 (kblock c) 4096" using assms(3) by (intro kblock_apart) simp_all
  then show "4096 \<le> unat (kblock c + of_nat j - kblock d)" using assms(5) by (rule apart_out)
qed

text \<open>Few enough blocks in use leave a run free somewhere.\<close>

lemma free_run_exists:
  assumes "finite U" "0 < k" "(card U + 1) * k \<le> n"
  shows "\<exists>b. b + k \<le> n \<and> {b..<b + k} \<inter> U = {}"
proof (rule ccontr)
  assume none: "\<nexists>b. b + k \<le> n \<and> {b..<b + k} \<inter> U = {}"
  have "\<exists>u. u \<in> U \<and> u div k = j" if "j \<le> card U" for j
  proof -
    have "j * k + k \<le> (card U + 1) * k" using mult_le_mono1 [OF that, of k] by simp
    then have "j * k + k \<le> n" using assms(3) by (rule order_trans)
    then obtain u where u: "u \<in> U" "j * k \<le> u" "u < j * k + k" using none by fastforce
    then have "u div k = j" by (intro div_nat_eqI) (simp_all add: mult.commute)
    with u(1) show ?thesis by blast
  qed
  then have "{..card U} \<subseteq> (\<lambda>u. u div k) ` U" by (auto simp: image_iff)
  then have "card {..card U} \<le> card U"
    by (rule order_trans [OF card_mono [OF finite_imageI [OF assms(1)]] card_image_le [OF assms(1)]])
  then show False by simp
qed

section \<open>Allocating a run\<close>

lemma kzalloc_fit:
  assumes "0 < unat sz" "unat sz \<le> 104857600" "free_run m kernel_heap (kblocks sz) i"
  defines "b \<equiv> start_scan m kernel_heap (of_nat (kblocks sz))"
  shows "kzalloc m sz = (kblock b,
      mem_fill (mem_fill m (0x7E00 + of_nat b) (kblocks sz) (\<lambda>k. if k = 0 then 0x81 else 0x01)) (kblock b) (unat sz) (\<lambda>_. 0))"
    and "b + kblocks sz \<le> 25600" "{b..<b + kblocks sz} \<inter> kused m = {}"
    and "kused (snd (kmalloc m sz)) = kused m \<union> {b..<b + kblocks sz}"
proof -
  let ?k = "kblocks sz"
  let ?n = "of_nat ?k :: u32"
  have k: "0 < ?k" "?k \<le> 25600" using kblocks_pos [OF assms(1)] div_le_mono [of "unat sz + 4095" 104861695 4096] assms(2)
    by (simp_all add: kblocks_def)
  then have u: "unat ?n = ?k" and nz: "?n \<noteq> 0" by (auto simp: word_unat_eq_iff)
  have "unat (heap_align_value_to_upper sz) = ?k * 4096"
    using k(2) by (simp add: heap_align_value_to_upper_nat kblocks_def)
  then have "unat (heap_align_value_to_upper sz div 4096) = ?k" by (simp add: unat_div)
  then have al: "heap_align_value_to_upper sz div 4096 = ?n" using u by (simp add: word_unat_eq_iff)
  have run: "free_run m kernel_heap (unat ?n) i" using assms(3) u by simp
  have lt: "unat (total (heap_tbl kernel_heap)) < 2147483648" by simp
  have fit: "free_run m kernel_heap ?k b" using start_scan_fit(1) [OF run nz] u by (simp add: b_def)
  then show le: "b + ?k \<le> 25600" by (simp add: free_run_def)
  note f = heap_malloc_blocks_fit [OF lt run nz] taken_blocks_malloc [OF lt run nz]
  have km: "kmalloc m sz = (kblock b, mem_fill m (0x7E00 + of_nat b) ?k (\<lambda>k. if k = 0 then 0x81 else 0x01))"
    using f(1) u al by (simp add: kmalloc_def heap_malloc_def Let_def kblock_def b_def)
  show "{b..<b + ?k} \<inter> kused m = {}" using f(2) u by (simp add: b_def)
  show "kused (snd (kmalloc m sz)) = kused m \<union> {b..<b + ?k}"
    using f(3) u al by (simp add: kmalloc_def heap_malloc_def b_def)
  have "kblock b \<noteq> 0" using le k(1) by (intro kblock_nonzero) simp
  with km show "kzalloc m sz = (kblock b,
      mem_fill (mem_fill m (0x7E00 + of_nat b) ?k (\<lambda>k. if k = 0 then 0x81 else 0x01)) (kblock b) (unat sz) (\<lambda>_. 0))"
    by (simp add: kzalloc_def memset_fill)
qed

text \<open>What an allocation of several blocks gives.\<close>

definition run_taken :: "mem \<Rightarrow> u32 \<Rightarrow> nat \<Rightarrow> mem \<Rightarrow> bool" where
  "run_taken m sz b m' \<longleftrightarrow> b + kblocks sz \<le> 25600 \<and> {b..<b + kblocks sz} \<inter> kused m = {}
     \<and> kused m' = kused m \<union> {b..<b + kblocks sz} \<and> card (kused m') = card (kused m) + kblocks sz
     \<and> kext m m' \<and> kblock b \<noteq> 0 \<and> (\<forall>i < unat sz. m' (kblock b + of_nat i) = 0)"

lemma kzalloc_run:
  assumes "0 < unat sz" "unat sz \<le> 104857600" "(card (kused m) + 1) * kblocks sz \<le> 25600"
  shows "\<exists>b m'. kzalloc m sz = (kblock b, m') \<and> run_taken m sz b m'"
proof -
  let ?k = "kblocks sz"
  have fin: "finite (kused m)" by (simp add: taken_blocks_def)
  have k: "0 < ?k" by (rule kblocks_pos [OF assms(1)])
  obtain i where i: "i + ?k \<le> 25600" "{i..<i + ?k} \<inter> kused m = {}"
    using free_run_exists [OF fin k assms(3)] by blast
  then have "free_run m kernel_heap ?k i" by (auto simp: free_run_def taken_blocks_def)
  note f = kzalloc_fit [OF assms(1,2) this]
  define b where "b = start_scan m kernel_heap (of_nat ?k)"
  define m1 where "m1 = mem_fill m (0x7E00 + of_nat b) ?k (\<lambda>k. if k = 0 then 0x81 else 0x01)"
  define m' where "m' = mem_fill m1 (kblock b) (unat sz) (\<lambda>_. 0)"
  have z: "kzalloc m sz = (kblock b, m')" using f(1) by (simp add: b_def m'_def m1_def)
  have b: "b + ?k \<le> 25600" "{b..<b + ?k} \<inter> kused m = {}" "kused (snd (kmalloc m sz)) = kused m \<union> {b..<b + ?k}"
    using f(2-4) by (simp_all add: b_def)
  have b0: "b < 25600" using b(1) k by simp
  then have nz: "kblock b \<noteq> 0" by (rule kblock_nonzero)
  have "fst (kzalloc m sz) = fst (kmalloc m sz)" by (simp add: kzalloc_def split: prod.splits)
  have "snd (kzalloc m sz) = mem_fill (snd (kmalloc m sz)) (kblock b) (unat sz) (\<lambda>_. 0)"
    using z nz by (auto simp: kzalloc_def memset_fill split: prod.splits if_splits)
  moreover have "b * 4096 + unat sz \<le> 104857600" using b(1) kblocks_bytes(1) [of sz] by simp
  ultimately have used: "kused m' = kused m \<union> {b..<b + ?k}" using z b(3) kused_fill [OF b0] by simp
  have "m' x = m x" if x: "kstable m x" for x
  proof -
    have tab: "25600 \<le> unat (x - 0x7E00)" and free: "\<And>c. c < 25600 \<Longrightarrow> c \<notin> kused m \<Longrightarrow> 4096 \<le> unat (x - kblock c)"
      using x by (simp_all add: kstable_def)
    have "unat sz \<le> unat (x - kblock b)"
    proof (rule run_off [OF kblocks_bytes(1)])
      fix c assume "c \<in> {b..<b + ?k}"
      then have "c < 25600" "c \<notin> kused m" using b(1,2) by (simp, blast)
      then show "4096 \<le> unat (x - kblock c)" by (rule free)
    qed
    moreover have "?k \<le> unat (x - (0x7E00 + of_nat b))"
    proof (rule ccontr)
      define u where "u = x - (0x7E00 + of_nat b)"
      assume "\<not> ?k \<le> unat (x - (0x7E00 + of_nat b))"
      then have u: "unat u + b < 25600" using b(1) by (simp add: u_def)
      have "x - 0x7E00 = u + of_nat b" by (simp add: u_def)
      moreover have "unat (u + of_nat b) = unat u + b" using u by (simp add: unat_word_ariths)
      ultimately show False using tab u by simp
    qed
    ultimately show ?thesis by (simp add: m'_def m1_def mem_fill_out)
  qed
  then have "kext m m'" by (simp add: kext_def used)
  moreover have "card (kused m') = card (kused m) + ?k"
    unfolding used using fin b(2) by (subst card_Un_disjoint) auto
  moreover have "m' (kblock b + of_nat i) = 0" if "i < unat sz" for i
    using that less_imp_le [OF unat32_less [of sz]] by (simp add: m'_def mem_fill_in)
  ultimately show ?thesis using z b(1,2) used nz unfolding run_taken_def by blast
qed

text \<open>A run filled again, and its bytes as long as its blocks are kept.\<close>

lemma kext_fill_run:
  assumes "kext m m'" "b + k \<le> 25600" "{b..<b + k} \<inter> kused m = {}" "n \<le> 4096 * k"
  shows "kext m (mem_fill m' (kblock b) n f)" "kused (mem_fill m' (kblock b) n f) = kused m'"
proof -
  show u: "kused (mem_fill m' (kblock b) n f) = kused m'"
  proof (cases "n = 0")
    case False
    then have "b < 25600" using assms(2,4) by simp
    then show ?thesis using assms(2,4) by (intro kused_fill) simp_all
  qed simp
  have "mem_fill m' (kblock b) n f x = m x" if x: "kstable m x" for x
  proof -
    have "n \<le> unat (x - kblock b)"
    proof (rule run_off [OF assms(4)])
      fix c assume "c \<in> {b..<b + k}"
      then have "c < 25600" "c \<notin> kused m" using assms(2,3) by (simp, blast)
      then show "4096 \<le> unat (x - kblock c)" using x by (simp add: kstable_def)
    qed
    then show ?thesis using kextD(1) [OF assms(1) x] by (simp add: mem_fill_out)
  qed
  then show "kext m (mem_fill m' (kblock b) n f)" using kextD(2) [OF assms(1)] u by (simp add: kext_def)
qed

end
