(* ===== verification/Tables.thy ===== *)
theory Tables
  imports Kernel_Prelude
begin

text \<open>
  The contract of a table: page tables, descriptor tables and handler tables all answer a
  lookup with what was last stored under the key. Keys may be restricted (an aligned address,
  an index in range), and so may the states.
\<close>

locale table =
  fixes ok :: "'s \<Rightarrow> bool"
    and key :: "'k \<Rightarrow> bool"
    and lookup :: "'s \<Rightarrow> 'k \<Rightarrow> 'v"
    and update :: "'s \<Rightarrow> 'k \<Rightarrow> 'v \<Rightarrow> 's"
  assumes update_ok: "ok s \<Longrightarrow> key k \<Longrightarrow> ok (update s k v)"
    and lookup_update: "ok s \<Longrightarrow> key k \<Longrightarrow> key l \<Longrightarrow>
      lookup (update s k v) l = (if l = k then v else lookup s l)"
begin

definition update_all :: "('k \<times> 'v) list \<Rightarrow> 's \<Rightarrow> 's" where
  "update_all kvs s = fold (\<lambda>(k, v) s. update s k v) kvs s"

lemma update_all_simps [simp]:
  "update_all [] s = s" "update_all ((k, v) # kvs) s = update_all kvs (update s k v)"
  by (simp_all add: update_all_def)

lemma update_all_ok: "ok s \<Longrightarrow> list_all (\<lambda>(k, v). key k) kvs \<Longrightarrow> ok (update_all kvs s)"
proof (induction kvs arbitrary: s)
  case (Cons kv kvs)
  then show ?case by (cases kv) (simp add: update_ok)
qed simp

text \<open>After a run of stores a lookup finds the last value stored under its key.\<close>

lemma lookup_update_all:
  "ok s \<Longrightarrow> list_all (\<lambda>(k, v). key k) kvs \<Longrightarrow> key l \<Longrightarrow>
    lookup (update_all kvs s) l = (case map_of (rev kvs) l of Some v \<Rightarrow> v | None \<Rightarrow> lookup s l)"
proof (induction kvs arbitrary: s)
  case (Cons kv kvs)
  obtain k v where kv: "kv = (k, v)" by (cases kv)
  have "ok (update s k v)" using Cons.prems kv by (simp add: update_ok)
  with Cons kv show ?case
    by (auto simp: map_add_def lookup_update split: option.splits)
qed simp

lemma lookup_update_distinct:
  assumes "ok s" "\<And>i. i < n \<Longrightarrow> key (f i)" "inj_on f {..<n}" "i < n"
  shows "lookup (update_all (map (\<lambda>i. (f i, g i)) [0..<n]) s) (f i) = g i"
proof -
  have "distinct (map fst (rev (map (\<lambda>i. (f i, g i)) [0..<n])))"
    using assms(3) by (simp add: rev_map comp_def distinct_map inj_on_def)
  then have "map_of (rev (map (\<lambda>i. (f i, g i)) [0..<n])) (f i) = Some (g i)"
    using assms(4) by (intro map_of_is_SomeI) auto
  moreover have "key (f i)" using assms(2,4) by simp
  ultimately show ?thesis
    using assms(1,2) by (subst lookup_update_all) (auto simp: list_all_iff)
qed

lemma lookup_update_all_other:
  assumes "ok s" "list_all (\<lambda>(k, v). key k) kvs" "key l" "l \<notin> fst ` set kvs"
  shows "lookup (update_all kvs s) l = lookup s l"
proof -
  have "map_of (rev kvs) l = None" using assms(4) by (simp add: map_of_eq_None_iff)
  then show ?thesis using assms(1-3) by (subst lookup_update_all) auto
qed

lemma update_lookup_again: "ok s \<Longrightarrow> key k \<Longrightarrow> lookup (update s k v) k = v"
  by (simp add: lookup_update)

end

text \<open>A list indexed in range is a table.\<close>

definition list_lookup :: "'v list \<Rightarrow> nat \<Rightarrow> 'v" where
  "list_lookup xs i = xs ! i"

interpretation list_table: table "\<lambda>xs. length xs = n" "\<lambda>i. i < n" list_lookup "\<lambda>xs i v. xs[i := v]" for n
  by unfold_locales (auto simp: list_lookup_def nth_list_update)

end
