(* ===== verification/Paging.thy ===== *)
theory Paging
  imports Pages Tables
begin

text \<open>
  \<^verbatim>\<open>src/mem/paging.c\<close>: two-level page tables. A chunk (\<^verbatim>\<open>struct paging_4gb_chunk\<close>) is one
  word, the address of a page directory of 1024 entries; each entry holds the address of a
  page table in its upper twenty bits. All of it lies in the byte memory.
\<close>

declare upt_rec_numeral [simp del]

section \<open>Operations\<close>

abbreviation (input) PAGING_TOTAL_ENTRIES_PER_TABLE :: u32 where "PAGING_TOTAL_ENTRIES_PER_TABLE \<equiv> 1024"
abbreviation (input) PAGING_PAGE_SIZE :: u32 where "PAGING_PAGE_SIZE \<equiv> 4096"
abbreviation (input) PAGING_ACCESS_FROM_ALL :: u8 where "PAGING_ACCESS_FROM_ALL \<equiv> 0b00000100"
abbreviation (input) PAGING_IS_WRITEABLE :: u8 where "PAGING_IS_WRITEABLE \<equiv> 0b00000010"
abbreviation (input) PAGING_IS_PRESENT :: u8 where "PAGING_IS_PRESENT \<equiv> 0b00000001"

text \<open>
  The loop over the directory's entries, from the list of the indexes to come; \<open>offset\<close> is
  the first address the next table maps. Nothing checks what \<open>kzalloc\<close> returns, so running
  out of memory is a write through NULL.
\<close>

fun paging_new_4gb_loop :: "nat list \<Rightarrow> addr \<Rightarrow> u8 \<Rightarrow> u32 \<Rightarrow> mem \<Rightarrow> mem run" where
  "paging_new_4gb_loop [] directory flags offset m = Inr m"
| "paging_new_4gb_loop (i # is) directory flags offset m =
     (case kzalloc m (4 * PAGING_TOTAL_ENTRIES_PER_TABLE) of (entry, m1) \<Rightarrow>
        if entry = 0 then Inl NullDeref
        else
          let m2 = store_words m1 entry 1024 (\<lambda>b. (offset + of_nat b * PAGING_PAGE_SIZE) OR ucast flags);
              offset' = offset + PAGING_TOTAL_ENTRIES_PER_TABLE * PAGING_PAGE_SIZE
          in if directory = 0 then Inl NullDeref
             else paging_new_4gb_loop is directory flags offset'
               (store32 m2 (directory + of_nat (4 * i)) (entry OR ucast flags OR ucast PAGING_IS_WRITEABLE)))"

definition paging_new_4gb :: "mem \<Rightarrow> u8 \<Rightarrow> (addr \<times> mem) run" where
  "paging_new_4gb m flags =
     (case kzalloc m (4 * PAGING_TOTAL_ENTRIES_PER_TABLE) of (directory, m1) \<Rightarrow>
        case paging_new_4gb_loop [0..<1024] directory flags 0 m1 of
          Inl f \<Rightarrow> Inl f
        | Inr m2 \<Rightarrow>
            (case kzalloc m2 4 of (chunk_4gb, m3) \<Rightarrow>
               if chunk_4gb = 0 then Inl NullDeref
               else Inr (chunk_4gb, store32 m3 chunk_4gb directory)))"

definition paging_4gb_chunk_get_directory :: "mem \<Rightarrow> addr \<Rightarrow> addr" where
  "paging_4gb_chunk_get_directory m chunk = load32 m chunk"

text \<open>
  The state of the memory management unit: the directory in CR3, loaded by the assembly
  routine \<^verbatim>\<open>paging_load_directory\<close>, and the static \<^verbatim>\<open>current_directory\<close>.
\<close>

record mmu =
  cr3 :: addr
  current_directory :: addr

definition paging_switch :: "mem \<Rightarrow> addr \<Rightarrow> mmu \<Rightarrow> mmu" where
  "paging_switch m directory u =
     u\<lparr>cr3 := load32 m directory, current_directory := load32 m directory\<rparr>"

definition paging_free_4gb :: "mem \<Rightarrow> addr \<Rightarrow> mem" where
  "paging_free_4gb m chunk =
     (let m1 = fold (\<lambda>i m. kfree m (load32 m (load32 m chunk + of_nat (4 * i)) AND 0xfffff000)) [0..<1024] m;
          m2 = kfree m1 (load32 m1 chunk)
      in kfree m2 chunk)"

definition paging_is_aligned :: "addr \<Rightarrow> bool" where
  "paging_is_aligned addr \<longleftrightarrow> addr mod PAGING_PAGE_SIZE = 0"

text \<open>The two out parameters are returned after the status; an error leaves them as they were.\<close>

definition paging_get_indexes :: "addr \<Rightarrow> u32 \<times> u32 \<Rightarrow> u32 \<times> u32 \<times> u32" where
  "paging_get_indexes virtual_address out =
     (if \<not> paging_is_aligned virtual_address then (- EINVARG, out)
      else (0, virtual_address div (PAGING_TOTAL_ENTRIES_PER_TABLE * PAGING_PAGE_SIZE),
        virtual_address mod (PAGING_TOTAL_ENTRIES_PER_TABLE * PAGING_PAGE_SIZE) div PAGING_PAGE_SIZE))"

definition paging_align_address :: "addr \<Rightarrow> addr" where
  "paging_align_address ptr =
     (if ptr mod PAGING_PAGE_SIZE \<noteq> 0 then ptr + PAGING_PAGE_SIZE - ptr mod PAGING_PAGE_SIZE else ptr)"

definition paging_get :: "mem \<Rightarrow> addr \<Rightarrow> addr \<Rightarrow> u32" where
  "paging_get m directory virt =
     (case paging_get_indexes virt (0, 0) of (r, directory_index, table_index) \<Rightarrow>
        let entry = load32 m (directory + 4 * directory_index);
            table = entry AND 0xfffff000
        in load32 m (table + 4 * table_index))"

definition paging_set :: "mem \<Rightarrow> addr \<Rightarrow> addr \<Rightarrow> u32 \<Rightarrow> u32 \<times> mem" where
  "paging_set m directory virt val =
     (if \<not> paging_is_aligned virt then (- EINVARG, m)
      else case paging_get_indexes virt (0, 0) of (r, directory_index, table_index) \<Rightarrow>
        if r <s 0 then (r, m)
        else
          let entry = load32 m (directory + 4 * directory_index);
              table = entry AND 0xfffff000
          in (0, store32 m (table + 4 * table_index) val))"

definition paging_map :: "mem \<Rightarrow> addr \<Rightarrow> addr \<Rightarrow> addr \<Rightarrow> u32 \<Rightarrow> u32 \<times> mem" where
  "paging_map m directory virt phys flags =
     (if virt mod PAGING_PAGE_SIZE \<noteq> 0 \<or> phys mod PAGING_PAGE_SIZE \<noteq> 0 then (- EINVARG, m)
      else paging_set m (load32 m directory) virt (phys OR flags))"

function paging_map_range_loop :: "mem \<Rightarrow> addr \<Rightarrow> addr \<Rightarrow> addr \<Rightarrow> u32 \<Rightarrow> u32 \<Rightarrow> u32 \<Rightarrow> u32 \<Rightarrow> u32 \<times> mem" where
  "paging_map_range_loop m directory virt phys count flags i r =
     (if i <s count then
        case paging_map m directory virt phys flags of (r, m') \<Rightarrow>
          if r <s 0 then (r, m')
          else paging_map_range_loop m' directory (virt + PAGING_PAGE_SIZE) (phys + PAGING_PAGE_SIZE)
            count flags (i + 1) r
      else (r, m))"
  by pat_completeness auto
termination
  by (relation "measure (\<lambda>(m, d, v, p, count, f, i, r). nat (sint count - sint i))")
    (auto simp: measure_simps)

declare paging_map_range_loop.simps [simp del]

definition paging_map_range :: "mem \<Rightarrow> addr \<Rightarrow> addr \<Rightarrow> addr \<Rightarrow> u32 \<Rightarrow> u32 \<Rightarrow> u32 \<times> mem" where
  "paging_map_range m directory virt phys count flags =
     paging_map_range_loop m directory virt phys count flags 0 0"

definition paging_map_to :: "mem \<Rightarrow> addr \<Rightarrow> addr \<Rightarrow> addr \<Rightarrow> addr \<Rightarrow> u32 \<Rightarrow> u32 \<times> mem" where
  "paging_map_to m directory virt phys phys_end flags =
     (if virt mod PAGING_PAGE_SIZE \<noteq> 0 then (- EINVARG, m)
      else if phys mod PAGING_PAGE_SIZE \<noteq> 0 then (- EINVARG, m)
      else if phys_end mod PAGING_PAGE_SIZE \<noteq> 0 then (- EINVARG, m)
      else if phys_end < phys then (- EINVARG, m)
      else
        let total_bytes = phys_end - phys; total_pages = total_bytes div PAGING_PAGE_SIZE
        in paging_map_range m directory virt phys total_pages flags)"


section \<open>Addresses as indexes\<close>

definition vdir :: "addr \<Rightarrow> nat" where "vdir va = unat va div 4194304"
definition vtab :: "addr \<Rightarrow> nat" where "vtab va = unat va mod 4194304 div 4096"

lemma vdir_less [simp]: "vdir va < 1024" and vtab_less [simp]: "vtab va < 1024"
  using unat32_less [of va] by (simp_all add: vdir_def vtab_def div_less_iff_less_mult)

lemma page_indexes:
  assumes "page va"
  shows "unat va = 4096 * (1024 * vdir va + vtab va)"
proof -
  obtain k where k: "unat va = 4096 * k" using assms by (auto simp: page_nat)
  have "4096 * k mod 4194304 = 4096 * (k mod 1024)"
    using mult_mod_right [of 4096 k 1024] by simp
  then have t: "vtab va = k mod 1024" by (simp add: vtab_def k)
  have "4096 * k div 4194304 = k div 1024"
    using div_mult_mult1 [of 4096 k 1024] by simp
  then have "vdir va = k div 1024" by (simp add: vdir_def k)
  with t show ?thesis unfolding k by (simp only: mult_div_mod_eq)
qed

lemma page_indexes_eq: "page va \<Longrightarrow> page wa \<Longrightarrow> vdir va = vdir wa \<Longrightarrow> vtab va = vtab wa \<Longrightarrow> va = wa"
  using page_indexes [of va] page_indexes [of wa] by (simp add: word_unat_eq_iff)

lemma paging_is_aligned_page [simp]: "paging_is_aligned va \<longleftrightarrow> page va"
  by (simp add: paging_is_aligned_def page_def)

lemma get_indexes_page:
  assumes "page va"
  shows "paging_get_indexes va out = (0, of_nat (vdir va), of_nat (vtab va))"
proof -
  have d: "vdir va < 4294967296" and t: "vtab va < 4294967296"
    using vdir_less [of va] vtab_less [of va] by linarith+
  have "unat (va div 4194304) = vdir va" by (simp add: unat_div vdir_def)
  then have "va div 4194304 = of_nat (vdir va)" by (metis of_nat_unat ucast_id)
  moreover have "unat (va mod 4194304 div 4096) = vtab va" by (simp add: unat_div unat_mod32 vtab_def)
  then have "va mod 4194304 div 4096 = of_nat (vtab va)" by (metis of_nat_unat ucast_id)
  ultimately show ?thesis using assms by (simp add: paging_get_indexes_def)
qed

section \<open>Lookup and update\<close>

definition ptab :: "mem \<Rightarrow> addr \<Rightarrow> nat \<Rightarrow> addr" where
  "ptab m d i = word_at m d i AND 0xfffff000"

lemma page_ptab [simp]: "page (ptab m d i)"
  by (simp add: ptab_def)

lemma paging_get_page: "page va \<Longrightarrow> paging_get m d va = word_at m (ptab m d (vdir va)) (vtab va)"
  by (simp add: paging_get_def get_indexes_page ptab_def)

lemma paging_set_page:
  "page va \<Longrightarrow> paging_set m d va v = (0, store32 m (ptab m d (vdir va) + of_nat (4 * vtab va)) v)"
  by (simp add: paging_set_def get_indexes_page ptab_def)

text \<open>
  A chunk describes an address space when the chunk, its directory and the 1024 tables are
  different pages.
\<close>

definition space_ok :: "mem \<Rightarrow> addr \<Rightarrow> bool" where
  "space_ok m c \<longleftrightarrow> (let d = load32 m c in page c \<and> page d \<and> c \<noteq> d \<and> inj_on (ptab m d) {..<1024}
     \<and> c \<notin> ptab m d ` {..<1024} \<and> d \<notin> ptab m d ` {..<1024})"

lemma word_at_0: "load32 m c = word_at m c 0"
  by simp

lemma space_set:
  fixes v
  assumes "space_ok m c" "page va"
  defines "m' \<equiv> snd (paging_set m (load32 m c) va v)"
  shows "load32 m' c = load32 m c" and "i < 1024 \<Longrightarrow> ptab m' (load32 m c) i = ptab m (load32 m c) i"
proof -
  let ?d = "load32 m c"
  let ?t = "ptab m ?d (vdir va)"
  have t: "?t \<in> ptab m ?d ` {..<1024}" by simp
  have m': "m' = store32 m (?t + of_nat (4 * vtab va)) v"
    using assms(2) by (simp add: m'_def paging_set_page)
  have ne: "?t \<noteq> c" "?t \<noteq> ?d" and pg: "page c" "page ?d"
    using assms(1) t unfolding space_ok_def Let_def by metis+
  show "load32 m' c = load32 m c"
    unfolding m' word_at_0 [of m' c] word_at_0 [of _ c]
    using pg ne by (intro word_at_store_other) simp_all
  have "i < 1024 \<Longrightarrow> word_at m' ?d i = word_at m ?d i"
    unfolding m' using pg ne by (intro word_at_store_other) simp_all
  then show "i < 1024 \<Longrightarrow> ptab m' ?d i = ptab m ?d i" by (simp add: ptab_def)
qed

lemma space_ok_set:
  assumes "space_ok m c" "page va"
  shows "space_ok (snd (paging_set m (load32 m c) va v)) c"
proof -
  note s = space_set [OF assms, where v = v]
  have "ptab (snd (paging_set m (load32 m c) va v)) (load32 m c) ` {..<1024} = ptab m (load32 m c) ` {..<1024}"
    using s(2) by (intro image_cong) simp_all
  moreover have "inj_on (ptab (snd (paging_set m (load32 m c) va v)) (load32 m c)) {..<1024} \<longleftrightarrow>
      inj_on (ptab m (load32 m c)) {..<1024}"
    using s(2) by (intro inj_on_cong) simp
  ultimately show ?thesis
    using assms(1) unfolding space_ok_def s(1) by (simp add: Let_def)
qed

lemma space_get_set:
  assumes "space_ok m c" "page va" "page wa"
  shows "paging_get (snd (paging_set m (load32 m c) va v)) (load32 m c) wa =
    (if wa = va then v else paging_get m (load32 m c) wa)"
proof -
  let ?d = "load32 m c" and ?m = "snd (paging_set m (load32 m c) va v)"
  let ?s = "store32 m (ptab m ?d (vdir va) + of_nat (4 * vtab va)) v"
  have "paging_get ?m ?d wa = word_at ?m (ptab m ?d (vdir wa)) (vtab wa)"
    using space_set(2) [OF assms(1,2)] assms(3) by (simp add: paging_get_page)
  moreover have m: "?m = ?s" using assms(2) by (simp add: paging_set_page)
  ultimately have g: "paging_get ?m ?d wa = word_at ?s (ptab m ?d (vdir wa)) (vtab wa)"
    by (simp only: m)
  show ?thesis
  proof (cases "vdir wa = vdir va")
    case True
    then have "wa = va \<longleftrightarrow> vtab va = vtab wa"
      using assms(2,3) page_indexes_eq [of wa va] by auto
    with True assms(3) show ?thesis
      unfolding g by (simp add: word_at_store paging_get_page del: of_nat_mult)
  next
    case False
    have "inj_on (ptab m ?d) {..<1024}" using assms(1) by (simp add: space_ok_def Let_def)
    then have "ptab m ?d (vdir va) \<noteq> ptab m ?d (vdir wa)"
      using False by (auto dest: inj_onD)
    with False assms(3) show ?thesis
      unfolding g by (auto simp: word_at_store_other paging_get_page simp del: of_nat_mult)
  qed
qed

definition space_get :: "addr \<Rightarrow> mem \<Rightarrow> addr \<Rightarrow> u32" where
  "space_get c m va = paging_get m (load32 m c) va"

definition space_put :: "addr \<Rightarrow> mem \<Rightarrow> addr \<Rightarrow> u32 \<Rightarrow> mem" where
  "space_put c m va v = snd (paging_set m (load32 m c) va v)"

interpretation space: table "\<lambda>m. space_ok m c" page "space_get c" "space_put c" for c
  by unfold_locales (simp_all add: space_get_def space_put_def space_ok_set space_set(1) space_get_set)

section \<open>Ranges\<close>

lemma paging_map_page:
  "page virt \<Longrightarrow> page phys \<Longrightarrow> paging_map m c virt phys flags = (0, space_put c m virt (phys OR flags))"
  by (simp add: paging_map_def space_put_def paging_set_page) (simp add: page_def)

lemma map_range_loop:
  "page virt \<Longrightarrow> page phys \<Longrightarrow> n = nat (sint count - sint i) \<Longrightarrow> \<not> r <s 0 \<Longrightarrow>
    paging_map_range_loop m c virt phys count flags i r = (if n = 0 then r else 0,
      space.update_all c (map (\<lambda>k. (virt + of_nat (4096 * k), (phys + of_nat (4096 * k)) OR flags)) [0..<n]) m)"
proof (induction n arbitrary: m virt phys i r)
  case 0
  then have "\<not> i <s count" by (simp add: word_sless_alt)
  then show ?case by (subst paging_map_range_loop.simps) simp
next
  case (Suc n)
  then have lt: "i <s count" by (simp add: word_sless_alt)
  then have n: "n = nat (sint count - sint (i + 1))" using Suc.prems(3) by (simp add: sint_inc)
  have shift: "map (\<lambda>k. (virt + of_nat (4096 * k), (phys + of_nat (4096 * k)) OR flags)) [0..<Suc n] =
      (virt, phys OR flags) # map (\<lambda>k. (virt + 4096 + of_nat (4096 * k), (phys + 4096 + of_nat (4096 * k)) OR flags)) [0..<n]"
    by (simp add: upt_conv_Cons map_Suc_upt [symmetric] del: upt_Suc) (simp add: algebra_simps)
  have "paging_map_range_loop (space_put c m virt (phys OR flags)) c (virt + 4096) (phys + 4096) count flags (i + 1) 0 =
    (0, space.update_all c (map (\<lambda>k. (virt + 4096 + of_nat (4096 * k), (phys + 4096 + of_nat (4096 * k)) OR flags)) [0..<n])
       (space_put c m virt (phys OR flags)))"
    using Suc.IH [of "virt + 4096" "phys + 4096" "i + 1" 0 "space_put c m virt (phys OR flags)"] Suc.prems(1,2) n
    by (auto simp: page_add)
  then show ?case
    using lt Suc.prems(1,2) unfolding shift
    by (subst paging_map_range_loop.simps) (simp add: paging_map_page)
qed

section \<open>A new address space\<close>

lemma finite_kused [simp]: "finite (kused m)"
  by (simp add: taken_blocks_def)

lemma kfull_card: "kfull m \<longleftrightarrow> 25600 \<le> card (kused m)"
proof
  assume "25600 \<le> card (kused m)"
  moreover have "kused m \<subseteq> {..<25600}" using kused_less by auto
  ultimately have "kused m = {..<25600}" by (intro card_seteq) simp_all
  then show "kfull m" by (simp add: kfull_def)
qed (simp add: kfull_def)

lemma unat_4096: "0 < unat (4096 :: u32)" "unat (4096 :: u32) \<le> 4096"
  by simp_all

definition table_flags :: "u8 \<Rightarrow> u32" where
  "table_flags flags = ucast flags OR ucast PAGING_IS_WRITEABLE"

lemma ptab_flags [simp]: "page p \<Longrightarrow> (p OR table_flags flags) AND 0xfffff000 = p"
proof (rule page_or_flags)
  have "table_flags flags = ucast (flags OR PAGING_IS_WRITEABLE)"
    by (simp add: table_flags_def unsigned_or_eq)
  then have "unat (table_flags flags) = unat (flags OR PAGING_IS_WRITEABLE)" by (simp only: unat_ucast8)
  also have "\<dots> < 256" using unsigned_less [of "flags OR PAGING_IS_WRITEABLE", where ?'a = nat] by simp
  finally show "unat (table_flags flags) < 4096" by simp
qed

text \<open>The first \<open>n\<close> tables are built, in the blocks \<open>tb\<close>, the directory in block \<open>d\<close>.\<close>

definition tables_ok :: "mem \<Rightarrow> nat \<Rightarrow> u8 \<Rightarrow> nat \<Rightarrow> (nat \<Rightarrow> nat) \<Rightarrow> bool" where
  "tables_ok m d flags n tb \<longleftrightarrow> insert d (tb ` {..<n}) \<subseteq> kused m \<and> inj_on tb {..<n} \<and> d \<notin> tb ` {..<n}
     \<and> (\<forall>j < n. word_at m (kblock d) j = kblock (tb j) OR table_flags flags)
     \<and> (\<forall>j < n. \<forall>k < 1024. word_at m (kblock (tb j)) k = of_nat (4096 * (1024 * j + k)) OR ucast flags)"

lemma tables_okD:
  assumes "tables_ok m d flags n tb"
  shows "d \<in> kused m" "j < n \<Longrightarrow> tb j \<in> kused m" "j < n \<Longrightarrow> tb j \<noteq> d"
    "j < n \<Longrightarrow> word_at m (kblock d) j = kblock (tb j) OR table_flags flags"
    "j < n \<Longrightarrow> k < 1024 \<Longrightarrow> word_at m (kblock (tb j)) k = of_nat (4096 * (1024 * j + k)) OR ucast flags"
  using assms by (auto simp: tables_ok_def)

lemma tables_ok_cong:
  assumes "tables_ok m d flags n tb" "n \<le> 1024"
    "\<And>b k. b \<in> kused m \<Longrightarrow> k < 1024 \<Longrightarrow> word_at m' (kblock b) k = word_at m (kblock b) k"
    "kused m \<subseteq> kused m'"
  shows "tables_ok m' d flags n tb"
  using assms unfolding tables_ok_def by (auto simp: subset_iff)

text \<open>What one round of the loop does to the memory.\<close>

definition add_table :: "mem \<Rightarrow> nat \<Rightarrow> u8 \<Rightarrow> nat \<Rightarrow> mem" where
  "add_table m d flags n = store32
     (store_words (snd (kzalloc m 4096)) (kblock (kpage m)) 1024
       (\<lambda>b. (of_nat (4194304 * n) + of_nat b * 4096) OR ucast flags))
     (kblock d + of_nat (4 * n)) (kblock (kpage m) OR table_flags flags)"

lemma add_table_ok:
  assumes T: "tables_ok m d flags n tb" and nf: "\<not> kfull m" and n: "n < 1024"
  shows "tables_ok (add_table m d flags n) d flags (Suc n) (tb(n := kpage m))"
    and "kused (add_table m d flags n) = insert (kpage m) (kused m)"
proof -
  let ?b = "kpage m" and ?m1 = "snd (kzalloc m 4096)" and ?m' = "add_table m d flags n"
  let ?f = "\<lambda>b. (of_nat (4194304 * n) + of_nat b * 4096) OR ucast flags :: u32"
  let ?m2 = "store_words ?m1 (kblock ?b) 1024 ?f"
  note free = kpage_free [OF nf]
  note used = tables_okD(1,2) [OF T]
  have d: "d < 25600" "d \<noteq> ?b" using used(1) free kused_less by auto
  have tb: "tb j < 25600" "tb j \<noteq> ?b" "tb j \<noteq> d" if "j < n" for j
    using used(2) [OF that] tables_okD(3) [OF T that] free kused_less by auto
  show used': "kused ?m' = insert ?b (kused m)"
    using d free n kused_kzalloc [OF unat_4096 nf] by (simp add: add_table_def del: of_nat_mult)
  have old: "word_at ?m2 (kblock c) k = word_at m (kblock c) k" if "c \<in> kused m" "k < 1024" for c k
  proof -
    have "c < 25600" "c \<noteq> ?b" using that free kused_less by auto
    then have "word_at ?m2 (kblock c) k = word_at ?m1 (kblock c) k"
      using free that kblock_inj [of ?b c] by (intro word_at_store_words_other) auto
    also have "\<dots> = word_at m (kblock c) k"
      using that nf by (intro kzalloc_keeps_word) simp_all
    finally show ?thesis .
  qed
  have dir: "word_at ?m' (kblock d) j = (if j = n then kblock ?b OR table_flags flags else word_at m (kblock d) j)"
    if "j \<le> n" for j
    using that n d used(1) old [of d j] by (simp add: add_table_def word_at_store del: of_nat_mult)
  have tab: "word_at ?m' (kblock c) k = word_at ?m2 (kblock c) k" if "c \<noteq> d" "c < 25600" "k < 1024" for c k
    unfolding add_table_def using that d n kblock_inj [of d c] by (intro word_at_store_other) auto
  have new: "word_at ?m' (kblock ?b) k = of_nat (4096 * (1024 * n + k)) OR ucast flags" if "k < 1024" for k
  proof -
    have "of_nat (4194304 * n) + of_nat k * 4096 = (of_nat (4096 * (1024 * n + k)) :: u32)"
      by (simp add: algebra_simps)
    with that d free tab [of ?b k] show ?thesis
      by (simp add: word_at_store_words del: of_nat_mult of_nat_add)
  qed
  have keep: "word_at ?m' (kblock (tb j)) k = word_at m (kblock (tb j)) k" if "j < n" "k < 1024" for j k
    using tab [of "tb j" k] old [of "tb j" k] tb [OF that(1)] used(2) [OF that(1)] that by simp
  show "tables_ok ?m' d flags (Suc n) (tb(n := ?b))"
    unfolding tables_ok_def
  proof (intro conjI allI impI)
    show "insert d ((tb(n := ?b)) ` {..<Suc n}) \<subseteq> kused ?m'"
      using used used' by (auto simp: lessThan_Suc)
    show "inj_on (tb(n := ?b)) {..<Suc n}"
    proof (rule inj_onI)
      have "inj_on tb {..<n}" using T by (simp add: tables_ok_def)
      then show "i = j" if "i \<in> {..<Suc n}" "j \<in> {..<Suc n}" "(tb(n := ?b)) i = (tb(n := ?b)) j" for i j
        using that tb(2) [of i] tb(2) [of j] by (auto simp: less_Suc_eq split: if_splits dest: inj_onD)
    qed
    show "d \<notin> (tb(n := ?b)) ` {..<Suc n}"
      using d(2) tb(3) by (auto simp: less_Suc_eq image_iff) metis
  next
    fix j assume "j < Suc n"
    then show "word_at ?m' (kblock d) j = kblock ((tb(n := ?b)) j) OR table_flags flags"
      using dir [of j] tables_okD(4) [OF T, of j] by (auto simp: less_Suc_eq)
  next
    fix j k :: nat assume "j < Suc n" "k < 1024"
    then show "word_at ?m' (kblock ((tb(n := ?b)) j)) k = of_nat (4096 * (1024 * j + k)) OR ucast flags"
      using new [of k] keep [of j k] tables_okD(5) [OF T, of j k] by (auto simp: less_Suc_eq simp del: of_nat_mult of_nat_add)
  qed
qed

text \<open>The loop builds all 1024 tables when that many blocks are free; otherwise it faults.\<close>

lemma new_loop_step:
  assumes "n < 1024" "d < 25600"
  shows "paging_new_4gb_loop [n..<1024] (kblock d) flags (of_nat (4194304 * n)) m =
    (if kfull m then Inl NullDeref
     else paging_new_4gb_loop [Suc n..<1024] (kblock d) flags (of_nat (4194304 * Suc n)) (add_table m d flags n))"
proof -
  have l: "[n..<1024] = n # [Suc n..<1024]" using assms(1) by (simp add: upt_conv_Cons)
  have o: "of_nat (4194304 * n) + 4194304 = (of_nat (4194304 * Suc n) :: u32)" by simp
  show ?thesis
  proof (cases "kfull m")
    case True
    then have "kzalloc m 4096 = (0, m)" using kzalloc_page [of 4096 m] by simp
    with True show ?thesis unfolding l by simp
  next
    case False
    then have k: "kzalloc m 4096 = (kblock (kpage m), snd (kzalloc m 4096))"
      using kzalloc_page [of 4096 m] by simp
    have "kblock (kpage m) \<noteq> 0" using False kpage_free(1) kblock_nonzero by simp
    with False show ?thesis
      unfolding l paging_new_4gb_loop.simps
      using assms(2) kblock_nonzero [of d] k o
      by (auto simp: add_table_def table_flags_def Let_def add.commute [of 4194304] simp del: of_nat_mult split: prod.splits)
  qed
qed

lemma new_loop:
  "n \<le> 1024 \<Longrightarrow> tables_ok m d flags n tb \<Longrightarrow>
   (if card (kused m) + (1024 - n) \<le> 25600 then
      \<exists>tb' m'. paging_new_4gb_loop [n..<1024] (kblock d) flags (of_nat (4194304 * n)) m = Inr m'
        \<and> tables_ok m' d flags 1024 tb' \<and> (\<forall>j < n. tb' j = tb j) \<and> kused m' = kused m \<union> tb' ` {n..<1024}
        \<and> tb' ` {n..<1024} \<inter> kused m = {} \<and> card (kused m') = card (kused m) + (1024 - n)
    else paging_new_4gb_loop [n..<1024] (kblock d) flags (of_nat (4194304 * n)) m = Inl NullDeref)"
proof (induction "1024 - n" arbitrary: n m tb)
  case 0
  then have "n = 1024" by simp
  with 0 have "tables_ok m d flags 1024 tb" "[n..<1024] = []" "{n..<1024} = {}" by simp_all
  moreover have "card (kused m) \<le> 25600"
    using card_mono [of "{..<25600}" "kused m"] kused_less [of _ m] by auto
  ultimately show ?case using \<open>n = 1024\<close> by auto
next
  case (Suc l)
  have n: "n < 1024" and l: "l = 1024 - Suc n" using Suc.hyps(2) by linarith+
  have d: "d < 25600" using tables_okD(1) [OF Suc.prems(2)] by (rule kused_less)
  note step = new_loop_step [OF n d, of flags m]
  show ?case
  proof (cases "kfull m")
    case True
    then have "\<not> card (kused m) + (1024 - n) \<le> 25600" using n unfolding kfull_card by linarith
    with True show ?thesis unfolding step by simp
  next
    case False
    let ?m = "add_table m d flags n"
    note T = add_table_ok [OF Suc.prems(2) False n]
    note IH = Suc.hyps(1) [OF l _ T(1)]
    have b: "kpage m \<notin> kused m" using kpage_free(2) [OF False] .
    then have c: "card (kused ?m) = Suc (card (kused m))" unfolding T(2) by simp
    show ?thesis
    proof (cases "card (kused m) + (1024 - n) \<le> 25600")
      case True
      then have "card (kused ?m) + (1024 - Suc n) \<le> 25600" using c n by simp
      with IH n obtain tb' m' where r: "paging_new_4gb_loop [Suc n..<1024] (kblock d) flags (of_nat (4194304 * Suc n)) ?m = Inr m'"
        "tables_ok m' d flags 1024 tb'" "\<forall>j < Suc n. tb' j = (tb(n := kpage m)) j"
        "kused m' = kused ?m \<union> tb' ` {Suc n..<1024}"
        "tb' ` {Suc n..<1024} \<inter> kused ?m = {}" "card (kused m') = card (kused ?m) + (1024 - Suc n)"
        by (auto simp del: of_nat_mult of_nat_Suc)
      have "{n..<1024} = insert n {Suc n..<1024}" using n by auto
      moreover have "tb' n = kpage m" using r(3) by simp
      ultimately have im: "tb' ` {n..<1024} = insert (kpage m) (tb' ` {Suc n..<1024})" by simp
      have "kused m' = kused m \<union> tb' ` {n..<1024}" "tb' ` {n..<1024} \<inter> kused m = {}"
        using r(4,5) b unfolding im T(2) by auto
      moreover have "\<forall>j < n. tb' j = tb j" using r(3) by (simp add: less_Suc_eq)
      moreover have "card (kused m') = card (kused m) + (1024 - n)" using r(6) c n by simp
      ultimately show ?thesis
        using r(1,2) False True unfolding step by auto
    next
      case over: False
      then have "\<not> card (kused ?m) + (1024 - Suc n) \<le> 25600" using c n by simp
      with IH n False over show ?thesis unfolding step by simp
    qed
  qed
qed

text \<open>The blocks an address space is made of: chunk, directory, tables.\<close>

definition chunk_blocks :: "mem \<Rightarrow> nat \<Rightarrow> nat \<Rightarrow> (nat \<Rightarrow> nat) \<Rightarrow> bool" where
  "chunk_blocks m cb d tb \<longleftrightarrow> cb < 25600 \<and> d < 25600 \<and> cb \<noteq> d \<and> load32 m (kblock cb) = kblock d
     \<and> (\<forall>i < 1024. tb i < 25600 \<and> ptab m (kblock d) i = kblock (tb i))
     \<and> inj_on tb {..<1024} \<and> d \<notin> tb ` {..<1024} \<and> cb \<notin> tb ` {..<1024}"

definition space_blocks :: "nat \<Rightarrow> nat \<Rightarrow> (nat \<Rightarrow> nat) \<Rightarrow> nat set" where
  "space_blocks cb d tb = insert cb (insert d (tb ` {..<1024}))"

lemma chunk_blocks_space_ok:
  assumes "chunk_blocks m cb d tb"
  shows "space_ok m (kblock cb)"
proof -
  have b: "cb < 25600" "d < 25600" "cb \<noteq> d" "load32 m (kblock cb) = kblock d"
    and t: "\<And>i. i < 1024 \<Longrightarrow> tb i < 25600" "\<And>i. i < 1024 \<Longrightarrow> ptab m (kblock d) i = kblock (tb i)"
    using assms by (auto simp: chunk_blocks_def)
  have inj: "i = j" if "i < 1024" "j < 1024" "kblock (tb i) = kblock (tb j)" for i j
  proof -
    have "tb i = tb j" using that t(1) kblock_inj by blast
    then show ?thesis using assms that by (auto simp: chunk_blocks_def dest: inj_onD)
  qed
  have "inj_on (ptab m (kblock d)) {..<1024}"
    by (rule inj_onI) (use inj t in simp)
  moreover have "kblock x \<notin> ptab m (kblock d) ` {..<1024}" if "x < 25600" "x \<notin> tb ` {..<1024}" for x
    using that t kblock_inj by (auto simp: image_iff)
  ultimately show ?thesis
    using assms b kblock_inj [of cb d] by (simp add: space_ok_def Let_def chunk_blocks_def)
qed

lemma chunk_blocks_put:
  assumes "chunk_blocks m cb d tb" "page va"
  shows "chunk_blocks (space_put (kblock cb) m va v) cb d tb"
    and "kused (space_put (kblock cb) m va v) = kused m"
proof -
  have d: "load32 m (kblock cb) = kblock d" using assms(1) by (simp add: chunk_blocks_def)
  note s = space_set [OF chunk_blocks_space_ok [OF assms(1)] assms(2), where v = v, unfolded d]
  show "chunk_blocks (space_put (kblock cb) m va v) cb d tb"
    using assms(1) s d by (simp add: chunk_blocks_def space_put_def)
  have t: "ptab m (kblock d) (vdir va) = kblock (tb (vdir va))" "tb (vdir va) < 25600"
    using assms(1) by (simp_all add: chunk_blocks_def)
  then show "kused (space_put (kblock cb) m va v) = kused m"
    using assms(2) by (simp add: space_put_def d paging_set_page del: of_nat_mult)
qed

lemma chunk_blocks_put_all:
  "chunk_blocks m cb d tb \<Longrightarrow> list_all (\<lambda>(k, v). page k) kvs \<Longrightarrow>
    chunk_blocks (space.update_all (kblock cb) kvs m) cb d tb
    \<and> kused (space.update_all (kblock cb) kvs m) = kused m"
proof (induction kvs arbitrary: m)
  case (Cons kv kvs)
  then show ?case by (cases kv) (simp add: chunk_blocks_put)
qed simp

lemma new_4gb:
  "if card (kused m) + 1026 \<le> 25600 then
     \<exists>cb d tb m'. paging_new_4gb m flags = Inr (kblock cb, m') \<and> chunk_blocks m' cb d tb
       \<and> kused m' = kused m \<union> space_blocks cb d tb \<and> space_blocks cb d tb \<inter> kused m = {}
       \<and> (\<forall>j < 1024. \<forall>k < 1024. word_at m' (kblock (tb j)) k = of_nat (4096 * (1024 * j + k)) OR ucast flags)
   else paging_new_4gb m flags = Inl NullDeref"
proof (cases "kfull m")
  case True
  then have "\<not> card (kused m) + 1026 \<le> 25600" unfolding kfull_card by linarith
  moreover have "kzalloc m 4096 = (0, m)" using True kzalloc_page [of 4096 m] by simp
  moreover have "[0..<1024] = 0 # [Suc 0..<1024]" by (rule upt_conv_Cons) simp
  ultimately show ?thesis by (simp add: paging_new_4gb_def)
next
  case False
  let ?d = "kpage m"
  obtain m1 where k: "kzalloc m 4096 = (kblock ?d, m1)" using False kzalloc_page [of 4096 m] by simp
  note free = kpage_free [OF False]
  have u1: "kused m1 = insert ?d (kused m)" using kused_kzalloc [OF unat_4096 False] k by simp
  have "tables_ok m1 ?d flags 0 (\<lambda>_. 0)" by (simp add: tables_ok_def u1)
  note loop = new_loop [OF _ this, simplified]
  have c1: "card (kused m1) = Suc (card (kused m))" using free(2) u1 by simp
  show ?thesis
  proof (cases "card (kused m1) + 1024 \<le> 25600")
    case over: False
    then show ?thesis using loop c1 k by (simp add: paging_new_4gb_def)
  next
    case True
    with loop obtain tb m2 where m2: "paging_new_4gb_loop [0..<1024] (kblock ?d) flags 0 m1 = Inr m2"
      "tables_ok m2 ?d flags 1024 tb" "kused m2 = kused m1 \<union> tb ` {0..<1024}"
      "tb ` {0..<1024} \<inter> kused m1 = {}" "card (kused m2) = card (kused m1) + 1024"
      by auto
    show ?thesis
    proof (cases "kfull m2")
      case full: True
      then have "\<not> card (kused m) + 1026 \<le> 25600" using m2(5) c1 unfolding kfull_card by linarith
      moreover have "kzalloc m2 4 = (0, m2)" using full kzalloc_page [of 4 m2] by simp
      ultimately show ?thesis using k m2(1) by (simp add: paging_new_4gb_def)
    next
      case nf: False
      let ?c = "kpage m2"
      obtain m3 where k2: "kzalloc m2 4 = (kblock ?c, m3)" using nf kzalloc_page [of 4 m2] by simp
      have m3: "m3 = snd (kzalloc m2 4)" using k2 by simp
      let ?m4 = "store32 m3 (kblock ?c) (kblock ?d)"
      note free2 = kpage_free [OF nf]
      note T = tables_okD [OF m2(2)]
      have fits: "card (kused m) + 1026 \<le> 25600" using nf m2(5) c1 unfolding kfull_card by linarith
      have r: "paging_new_4gb m flags = Inr (kblock ?c, ?m4)"
        using k k2 nf m2(1) kblock_nonzero [OF free2(1)] by (simp add: paging_new_4gb_def)
      have keep: "word_at ?m4 (kblock b) j = word_at m2 (kblock b) j" if "b \<in> kused m2" "j < 1024" for b j
      proof -
        have "b < 25600" "b \<noteq> ?c" using that(1) free2(2) kused_less by auto
        then have "word_at ?m4 (kblock b) j = word_at m3 (kblock b) j"
          using word_at_store_other [of "kblock ?c" "kblock b" 0 j m3] free2(1) that(2) kblock_inj [of ?c b] by simp
        also have "\<dots> = word_at m2 (kblock b) j"
          unfolding m3 using that nf by (intro kzalloc_keeps_word) simp_all
        finally show ?thesis .
      qed
      have tb: "tb j \<in> kused m2" "tb j < 25600" "tb j \<noteq> ?c" "tb j \<noteq> ?d" if "j < 1024" for j
        using T(2,3) [OF that] free2(2) kused_less by auto
      have d: "?d < 25600" "?d \<noteq> ?c" "?d \<in> kused m2" using free(1) T(1) free2(2) by auto
      have "chunk_blocks ?m4 ?c ?d tb"
        unfolding chunk_blocks_def
      proof (intro conjI allI impI)
        show "load32 ?m4 (kblock ?c) = kblock ?d" by (simp add: load_store_same)
        show "inj_on tb {..<1024}" using m2(2) by (simp add: tables_ok_def)
        show "?d \<notin> tb ` {..<1024}" "?c \<notin> tb ` {..<1024}" using tb by (auto simp: image_iff) metis+
        fix i :: nat assume i: "i < 1024"
        show "ptab ?m4 (kblock ?d) i = kblock (tb i)"
          using keep [OF d(3) i] T(4) [OF i] tb(2) [OF i] by (simp add: ptab_def)
      qed (use d free2(1) tb in auto)
      moreover have "kused ?m4 = kused m \<union> space_blocks ?c ?d tb"
        using kused_store [of ?c 0 m3 "kblock ?d"] free2(1) kused_kzalloc [of 4 m2, OF _ _ nf, folded m3] m2(3) u1
        by (auto simp: space_blocks_def atLeast0LessThan)
      moreover have "space_blocks ?c ?d tb \<inter> kused m = {}"
        using free(2) free2(2) m2(3,4) u1 by (auto simp: space_blocks_def atLeast0LessThan)
      moreover have "word_at ?m4 (kblock (tb j)) k = of_nat (4096 * (1024 * j + k)) OR ucast flags"
        if "j < 1024" "k < 1024" for j k
        using keep [OF tb(1) [OF that(1)] that(2)] T(5) [OF that] by simp
      ultimately have "\<exists>cb d tb m'. paging_new_4gb m flags = Inr (kblock cb, m') \<and> chunk_blocks m' cb d tb
        \<and> kused m' = kused m \<union> space_blocks cb d tb \<and> space_blocks cb d tb \<inter> kused m = {}
        \<and> (\<forall>j < 1024. \<forall>k < 1024. word_at m' (kblock (tb j)) k = of_nat (4096 * (1024 * j + k)) OR ucast flags)"
        using r by blast
      with fits show ?thesis by (simp only: if_True)
    qed
  qed
qed

text \<open>Releasing an address space gives its 1026 blocks back.\<close>

lemma free_tables:
  assumes "chunk_blocks m cb d tb" "n \<le> 1024"
  defines "mn \<equiv> fold (\<lambda>i m. kfree m (load32 m (load32 m (kblock cb) + of_nat (4 * i)) AND 0xfffff000)) [0..<n] m"
  shows "kused mn = kused m - tb ` {..<n} \<and> load32 mn (kblock cb) = kblock d
    \<and> (\<forall>i < 1024. ptab mn (kblock d) i = kblock (tb i))"
  using assms(2) unfolding mn_def
proof (induction n)
  case 0
  then show ?case using assms(1) by (simp add: chunk_blocks_def)
next
  case (Suc n)
  let ?m = "fold (\<lambda>i m. kfree m (load32 m (load32 m (kblock cb) + of_nat (4 * i)) AND 0xfffff000)) [0..<n] m"
  have IH: "kused ?m = kused m - tb ` {..<n}" "load32 ?m (kblock cb) = kblock d"
    "\<And>i. i < 1024 \<Longrightarrow> ptab ?m (kblock d) i = kblock (tb i)"
    using Suc by simp_all
  have b: "cb < 25600" "d < 25600" "tb n < 25600"
    using assms(1) Suc.prems by (auto simp: chunk_blocks_def)
  have e: "load32 ?m (kblock d + of_nat (4 * n)) AND 0xfffff000 = kblock (tb n)"
    using IH(3) [of n] Suc.prems by (simp add: ptab_def)
  have f: "kfree ?m (kblock (tb n)) = ?m(0x7E00 + of_nat (tb n) := 0)" by (rule kfree_block [OF b(3)])
  have step: "fold (\<lambda>i m. kfree m (load32 m (load32 m (kblock cb) + of_nat (4 * i)) AND 0xfffff000)) [0..<Suc n] m
      = kfree ?m (kblock (tb n))"
    using IH(2) e by simp
  have "kused (kfree ?m (kblock (tb n))) = kused m - tb ` {..<Suc n}"
    using IH(1) b by (auto simp: kused_kfree lessThan_Suc)
  moreover have "load32 (kfree ?m (kblock (tb n))) (kblock cb) = kblock d"
    using ktable_write_word [of cb "tb n" 0 ?m 0] b IH(2) unfolding f by simp
  moreover have "ptab (kfree ?m (kblock (tb n))) (kblock d) i = kblock (tb i)" if "i < 1024" for i
    using IH(3) [OF that] that b unfolding f by (simp add: ptab_def ktable_write_word del: fun_upd_apply of_nat_mult)
  ultimately show ?case unfolding step by blast
qed

lemma free_4gb:
  assumes "chunk_blocks m cb d tb"
  shows "kused (paging_free_4gb m (kblock cb)) = kused m - space_blocks cb d tb"
  using free_tables [OF assms order_refl] assms
  by (auto simp: paging_free_4gb_def Let_def kused_kfree space_blocks_def chunk_blocks_def)

lemma new_4gb_space_ok:
  assumes "paging_new_4gb m flags = Inr (c, m')"
  shows "space_ok m' c"
proof -
  have "card (kused m) + 1026 \<le> 25600" using new_4gb [of m flags] assms by (auto split: if_splits)
  then show ?thesis using new_4gb [of m flags] assms chunk_blocks_space_ok by auto
qed

text \<open>Tables filled by \<open>paging_new_4gb\<close> map every page to itself.\<close>

lemma chunk_identity:
  assumes cb: "chunk_blocks m cb d tb"
    and w: "\<And>j k. j < 1024 \<Longrightarrow> k < 1024 \<Longrightarrow> word_at m (kblock (tb j)) k = of_nat (4096 * (1024 * j + k)) OR ucast flags"
    and va: "page va"
  shows "paging_get m (load32 m (kblock cb)) va = va OR ucast (flags :: u8)"
proof -
  have "load32 m (kblock cb) = kblock d" "ptab m (kblock d) (vdir va) = kblock (tb (vdir va))"
    using cb by (simp_all add: chunk_blocks_def)
  moreover have "of_nat (4096 * (1024 * vdir va + vtab va)) = va"
    using page_indexes [OF va] by (metis of_nat_unat ucast_id)
  ultimately show ?thesis
    using w [of "vdir va" "vtab va"] va by (simp add: paging_get_page del: of_nat_mult of_nat_add)
qed

text \<open>A mapped range is a list of updates of the table.\<close>

lemma map_range_updates:
  assumes "page virt" "page phys" "unat count \<le> 1048576"
  shows "\<exists>kvs. paging_map_range m c virt phys count flags = (0, space.update_all c kvs m) \<and> list_all (\<lambda>(k, v). page k) kvs
    \<and> (space_ok m c \<longrightarrow>
         (\<forall>k < unat count. space_get c (space.update_all c kvs m) (virt + of_nat (4096 * k)) = (phys + of_nat (4096 * k)) OR flags)
         \<and> (\<forall>wa. page wa \<and> wa \<notin> (\<lambda>k. virt + of_nat (4096 * k)) ` {..<unat count} \<longrightarrow>
              space_get c (space.update_all c kvs m) wa = space_get c m wa))"
proof -
  let ?n = "unat count" and ?f = "\<lambda>k. virt + of_nat (4096 * k) :: addr"
  let ?kvs = "map (\<lambda>k. (?f k, (phys + of_nat (4096 * k)) OR flags)) [0..<?n]"
  let ?m = "space.update_all c ?kvs m"
  have n: "?n = nat (sint count - sint 0)" using assms(3) by (simp add: sint_small)
  have pg: "page (?f k)" for k
  proof (induction k)
    case (Suc k)
    have "?f (Suc k) = ?f k + 4096" by simp
    with Suc show ?case by (simp only: page_add)
  qed (use assms(1) in simp)
  have keys: "list_all (\<lambda>(k, v). page k) ?kvs" using pg by (simp add: list_all_iff)
  have inj: "inj_on ?f {..<?n}"
  proof (rule inj_onI)
    fix i j assume ij: "i \<in> {..<?n}" "j \<in> {..<?n}" "?f i = ?f j"
    then have "4096 * i < 4294967296" "4096 * j < 4294967296" using assms(3) by simp_all
    with ij(3) have "4096 * i = 4096 * j" by (metis add_left_cancel of_nat32_eq_iff)
    then show "i = j" by simp
  qed
  have "paging_map_range m c virt phys count flags = (0, ?m)"
    using map_range_loop [OF assms(1,2) n, of 0 m c flags]
    by (auto simp: paging_map_range_def)
  moreover have "space_get c ?m (?f k) = (phys + of_nat (4096 * k)) OR flags" if "space_ok m c" "k < ?n" for k
    using space.lookup_update_distinct [OF that(1) pg inj that(2)] .
  moreover have "space_get c ?m wa = space_get c m wa" if "space_ok m c" "page wa" "wa \<notin> ?f ` {..<?n}" for wa
    using that(3) by (intro space.lookup_update_all_other [OF that(1) keys that(2)]) (auto simp: image_iff)
  ultimately show ?thesis using keys by blast
qed

section \<open>Properties\<close>

text \<open>
  C18: The address space \<open>paging_new_4gb\<close> builds is well formed and maps every page to
  itself, with the flags it was given.
\<close>

theorem paging_new_4gb_identity:
  assumes "paging_new_4gb m flags = Inr (c, m')"
  shows "space_ok m' c \<and> (\<forall>va. page va \<longrightarrow> paging_get m' (load32 m' c) va = va OR ucast flags)"
proof -
  have "card (kused m) + 1026 \<le> 25600" using new_4gb [of m flags] assms by (auto split: if_splits)
  then obtain cb d tb where c: "c = kblock cb" and cb: "chunk_blocks m' cb d tb"
    and w: "\<And>j k. j < 1024 \<Longrightarrow> k < 1024 \<Longrightarrow> word_at m' (kblock (tb j)) k = of_nat (4096 * (1024 * j + k)) OR ucast flags"
    using new_4gb [of m flags] assms by (auto simp del: of_nat_mult of_nat_add)
  have "paging_get m' (load32 m' c) va = va OR ucast flags" if "page va" for va
    unfolding c using cb w that by (rule chunk_identity)
  then show ?thesis using chunk_blocks_space_ok [OF cb] c by blast
qed

lemma kempty_new_4gb: "\<exists>c m'. paging_new_4gb (\<lambda>_. 0) flags = Inr (c, m')"
  using new_4gb [of "\<lambda>_. 0" flags] by auto

theorem paging_new_4gb_identity_witness:
  "\<exists>c m'. paging_new_4gb (\<lambda>_. 0) 5 = Inr (c, m') \<and> paging_get m' (load32 m' c) 0x400000 = 0x400005"
proof -
  obtain c m' where r: "paging_new_4gb (\<lambda>_. 0) 5 = Inr (c, m')" using kempty_new_4gb by blast
  then show ?thesis
    using paging_new_4gb_identity [OF r] by (auto simp: page_def dest: spec [of _ "0x400000"])
qed

text \<open>
  C20: Building an address space takes exactly 1026 free blocks; with fewer, the code writes
  through the NULL that \<open>kzalloc\<close> returned. \<open>paging_free_4gb\<close> gives all of them back.
\<close>

theorem paging_new_4gb_memory:
  "case paging_new_4gb m flags of
     Inl f \<Rightarrow> f = NullDeref \<and> 25600 < card (kused m) + 1026
   | Inr (c, m') \<Rightarrow> kused m \<subseteq> kused m' \<and> card (kused m') = card (kused m) + 1026
       \<and> kused (paging_free_4gb m' c) = kused m"
proof (cases "card (kused m) + 1026 \<le> 25600")
  case True
  then obtain cb d tb m' where r: "paging_new_4gb m flags = Inr (kblock cb, m')" "chunk_blocks m' cb d tb"
    "kused m' = kused m \<union> space_blocks cb d tb" "space_blocks cb d tb \<inter> kused m = {}"
    using new_4gb [of m flags] by auto
  have "card (space_blocks cb d tb) = 1026"
    using r(2) by (simp add: space_blocks_def chunk_blocks_def card_image)
  moreover have "card (kused m \<union> space_blocks cb d tb) = card (kused m) + card (space_blocks cb d tb)"
    using r(4) by (intro card_Un_disjoint) (auto simp: space_blocks_def)
  ultimately have "card (kused m') = card (kused m) + 1026" using r(3) by simp
  moreover have "kused (paging_free_4gb m' (kblock cb)) = kused m"
    using free_4gb [OF r(2)] r(3,4) by auto
  ultimately show ?thesis using r(1,3) by simp
next
  case False
  then show ?thesis using new_4gb [of m flags] by simp
qed

text \<open>
  C19: In a well-formed address space \<open>paging_set\<close> on an aligned address succeeds, changes
  what \<open>paging_get\<close> answers for that page and for no other, and keeps the space well formed;
  on an unaligned address it reports \<open>-EINVARG\<close> and writes nothing.
\<close>

theorem paging_set_get:
  assumes "space_ok m c" and "page wa"
  shows "case paging_set m (load32 m c) va v of (r, m') \<Rightarrow>
    if 4096 dvd unat va
    then r = 0 \<and> space_ok m' c \<and> load32 m' c = load32 m c \<and>
      paging_get m' (load32 m' c) wa = (if wa = va then v else paging_get m (load32 m c) wa)
    else r = -2 \<and> m' = m"
proof (cases "page va")
  case True
  then have r: "fst (paging_set m (load32 m c) va v) = 0" by (simp add: paging_set_page)
  have "space_ok (space_put c m va v) c" by (rule space.update_ok [OF assms(1) True])
  moreover have "space_get c (space_put c m va v) wa = (if wa = va then v else space_get c m wa)"
    by (rule space.lookup_update [OF assms(1) True assms(2)])
  moreover have "load32 (space_put c m va v) c = load32 m c"
    using space_set(1) [OF assms(1) True, of v] by (simp add: space_put_def)
  ultimately show ?thesis
    using r True by (auto simp: space_get_def space_put_def page_nat split: prod.splits)
qed (simp add: paging_set_def page_nat)

theorem paging_set_get_witness:
  "\<exists>c m'. space_ok m' c \<and>
     paging_get (snd (paging_set m' (load32 m' c) 0x1000 0x9003)) (load32 m' c) 0x1000 = 0x9003"
proof -
  obtain c m' where r: "paging_new_4gb (\<lambda>_. 0) 5 = Inr (c, m')" using kempty_new_4gb by blast
  then have ok: "space_ok m' c" by (rule new_4gb_space_ok)
  have "page 0x1000" by (simp add: page_def)
  from paging_set_get [OF ok this, of "0x1000" "0x9003"] show ?thesis
    using ok by (intro exI [of _ c] exI [of _ m']) (auto split: prod.splits)
qed

text \<open>
  C9: \<open>paging_map_range\<close> maps \<open>count\<close> consecutive pages to \<open>count\<close> consecutive frames and
  leaves every other page's entry alone.
\<close>

theorem paging_map_range_maps:
  assumes "space_ok m c" and "page virt" and "page phys" and "unat count \<le> 1048576"
  shows "\<exists>m'. paging_map_range m c virt phys count flags = (0, m') \<and> space_ok m' c
    \<and> (\<forall>k < unat count. space_get c m' (virt + of_nat (4096 * k)) = (phys + of_nat (4096 * k)) OR flags)
    \<and> (\<forall>wa. page wa \<and> wa \<notin> (\<lambda>k. virt + of_nat (4096 * k)) ` {..<unat count} \<longrightarrow>
          space_get c m' wa = space_get c m wa)"
  using map_range_updates [OF assms(2-4), of m c flags] space.update_all_ok [OF assms(1)] assms(1) by metis

theorem paging_map_range_maps_witness:
  "\<exists>c m m'. paging_map_range m c 0x400000 0x1200000 3 7 = (0, m') \<and>
     space_get c m' 0x402000 = 0x1202007 \<and> space_get c m' 0x403000 = space_get c m 0x403000"
proof -
  obtain c m where r: "paging_new_4gb (\<lambda>_. 0) 5 = Inr (c, m)" using kempty_new_4gb by blast
  then have ok: "space_ok m c" by (rule new_4gb_space_ok)
  have pg: "page 0x400000" "page 0x1200000" "page 0x403000" by (simp_all add: page_def)
  have "{..<unat (3 :: u32)} = {0, 1, 2}" by auto
  with paging_map_range_maps [OF ok pg(1,2), of 3 7] pg(3) show ?thesis
    by (auto dest!: spec [of _ "2 :: nat"] spec [of _ "0x403000 :: u32"])
qed

end
