(* ===== verification/Gdt.thy ===== *)
theory Gdt
  imports KHeap
begin

text \<open>
  \<^verbatim>\<open>src/sys/gdt.c\<close>: the eight-byte segment descriptors of the processor, encoded from the
  structured form, and the table \<^verbatim>\<open>kernel.c\<close> loads.
\<close>

section \<open>Operations\<close>

record gdt_structured =
  base :: u32
  limit :: u32
  type_bits :: u8

definition encodeGdtEntry :: "mem \<Rightarrow> addr \<Rightarrow> gdt_structured \<Rightarrow> mem run" where
  "encodeGdtEntry m target source =
     (if limit source > 65536 \<and> limit source AND 0xFFF \<noteq> 0xFFF
      then Inl (Panic ''encodeGdtEntry: Invalid argument'')
      else
        let big = limit source > 65536;
            lim = (if big then drop_bit 12 (limit source) else limit source);
            m = m(target + 6 := (if big then 0xC0 else 0x40));
            m = m(target + 0 := ucast (lim AND 0xFF));
            m = m(target + 1 := ucast (drop_bit 8 lim AND 0xFF));
            m = m(target + 6 := m (target + 6) OR ucast (drop_bit 16 lim AND 0x0F));
            m = m(target + 2 := ucast (base source AND 0xFF));
            m = m(target + 3 := ucast (drop_bit 8 (base source) AND 0xFF));
            m = m(target + 4 := ucast (drop_bit 16 (base source) AND 0xFF));
            m = m(target + 7 := ucast (drop_bit 24 (base source) AND 0xFF))
        in Inr (m(target + 5 := type_bits source)))"

text \<open>\<^verbatim>\<open>struct gdt\<close> has eight bytes, so entry \<open>i\<close> starts \<open>8 * i\<close> bytes into the table.\<close>

fun gdt_structured_to_gdt_loop :: "mem \<Rightarrow> addr \<Rightarrow> gdt_structured list \<Rightarrow> mem run" where
  "gdt_structured_to_gdt_loop m gdt [] = Inr m"
| "gdt_structured_to_gdt_loop m gdt (s # ss) =
     (case encodeGdtEntry m gdt s of
        Inl f \<Rightarrow> Inl f
      | Inr m' \<Rightarrow> gdt_structured_to_gdt_loop m' (gdt + 8) ss)"

text \<open>A table longer than the array it is read from would be read out of bounds.\<close>

definition gdt_structured_to_gdt :: "mem \<Rightarrow> addr \<Rightarrow> gdt_structured list \<Rightarrow> nat \<Rightarrow> mem run" where
  "gdt_structured_to_gdt m gdt structured_gdt total_entires =
     (if total_entires \<le> length structured_gdt
      then gdt_structured_to_gdt_loop m gdt (take total_entires structured_gdt)
      else Inl OutOfBounds)"

text \<open>The six segments of \<^verbatim>\<open>kernel.c\<close>; \<open>tss\<close> is the address of the 100-byte task state segment.\<close>

definition kernel_gdt_structured :: "addr \<Rightarrow> gdt_structured list" where
  "kernel_gdt_structured tss =
     [\<lparr>base = 0, limit = 0, type_bits = 0\<rparr>,
      \<lparr>base = 0, limit = 0xFFFFFFFF, type_bits = 0x9a\<rparr>,
      \<lparr>base = 0, limit = 0xFFFFFFFF, type_bits = 0x92\<rparr>,
      \<lparr>base = 0, limit = 0xFFFFFFFF, type_bits = 0xF8\<rparr>,
      \<lparr>base = 0, limit = 0xFFFFFFFF, type_bits = 0xF2\<rparr>,
      \<lparr>base = tss, limit = 100, type_bits = 0xE9\<rparr>]"

definition setup_gdt :: "mem \<Rightarrow> addr \<Rightarrow> addr \<Rightarrow> mem run" where
  "setup_gdt m gdt_real tss =
     gdt_structured_to_gdt (snd (memset m gdt_real 0 48)) gdt_real (kernel_gdt_structured tss) 6"

section \<open>How the processor reads a descriptor\<close>

text \<open>
  The fields of a descriptor as the processor assembles them; the limit counts 4096-byte units
  (all of the last one included) when the granularity bit is set.
\<close>

definition gdt_limit20 :: "mem \<Rightarrow> addr \<Rightarrow> u32" where
  "gdt_limit20 m t = ucast (m t) OR push_bit 8 (ucast (m (t + 1))) OR push_bit 16 (ucast (m (t + 6) AND 0x0F))"

definition gdt_decode :: "mem \<Rightarrow> addr \<Rightarrow> gdt_structured" where
  "gdt_decode m t =
     \<lparr>base = ucast (m (t + 2)) OR push_bit 8 (ucast (m (t + 3))) OR push_bit 16 (ucast (m (t + 4)))
        OR push_bit 24 (ucast (m (t + 7))),
      limit = (if bit (m (t + 6)) 7 then push_bit 12 (gdt_limit20 m t) OR 0xFFF else gdt_limit20 m t),
      type_bits = m (t + 5)\<rparr>"

lemma low_masks: "w AND 0xFF = take_bit 8 (w :: u32)" "w AND 0x0F = take_bit 4 (w :: u32)"
  "b AND 0x0F = take_bit 4 (b :: u8)"
  by (simp_all add: take_bit_eq_mask mask_eq_exp_minus_1)

lemma limit_split:
  fixes l :: u32 and c :: u8
  assumes "take_bit 20 l = l" "take_bit 4 c = 0"
  shows "ucast (ucast (l AND 0xFF) :: u8) OR push_bit 8 (ucast (ucast (drop_bit 8 l AND 0xFF) :: u8))
    OR push_bit 16 (ucast ((c OR ucast (drop_bit 16 l AND 0x0F)) AND 0x0F)) = l"
proof (rule bit_word_eqI)
  fix n assume "n < LENGTH(32)"
  then have n: "n < 32" by simp
  have hi: "bit l n \<Longrightarrow> n < 20" using assms(1) by (metis bit_take_bit_iff)
  have c: "\<not> bit c k" if "k < 4" for k
    using assms(2) that by (metis bit_0_eq bit_take_bit_iff bot_apply bot_bool_def)
  consider "n < 8" | "8 \<le> n" "n < 16" | "16 \<le> n" "n < 20" | "20 \<le> n" by linarith
  then show "bit (ucast (ucast (l AND 0xFF) :: u8) OR push_bit 8 (ucast (ucast (drop_bit 8 l AND 0xFF) :: u8))
    OR push_bit 16 (ucast ((c OR ucast (drop_bit 16 l AND 0x0F)) AND 0x0F)) :: u32) n = bit l n"
    unfolding low_masks using n hi c by cases (auto simp: bit_simps)
qed

lemma base_split:
  fixes b :: u32
  shows "ucast (ucast (b AND 0xFF) :: u8) OR push_bit 8 (ucast (ucast (drop_bit 8 b AND 0xFF) :: u8))
    OR push_bit 16 (ucast (ucast (drop_bit 16 b AND 0xFF) :: u8))
    OR push_bit 24 (ucast (ucast (drop_bit 24 b AND 0xFF) :: u8)) = b"
proof (rule bit_word_eqI)
  fix n assume "n < LENGTH(32)"
  then have n: "n < 32" by simp
  consider "n < 8" | "8 \<le> n" "n < 16" | "16 \<le> n" "n < 24" | "24 \<le> n" by linarith
  then show "bit (ucast (ucast (b AND 0xFF) :: u8) OR push_bit 8 (ucast (ucast (drop_bit 8 b AND 0xFF) :: u8))
    OR push_bit 16 (ucast (ucast (drop_bit 16 b AND 0xFF) :: u8))
    OR push_bit 24 (ucast (ucast (drop_bit 24 b AND 0xFF) :: u8)) :: u32) n = bit b n"
    unfolding low_masks using n by cases (auto simp: bit_simps)
qed

text \<open>The granularity bit survives the limit's upper bits.\<close>

lemma granularity: "bit (c OR ucast (w AND 0x0F) :: u8) 7 \<longleftrightarrow> bit c 7" for w :: u32
  unfolding low_masks by (simp add: bit_simps)

lemma bit7: "bit (0xC0 :: u8) 7" "\<not> bit (0x40 :: u8) 7"
  by (simp_all add: bit_iff_odd)

lemma limit_big:
  fixes l :: u32
  assumes "l AND 0xFFF = 0xFFF"
  shows "push_bit 12 (drop_bit 12 l) OR 0xFFF = l"
proof (rule bit_word_eqI)
  have m: "(0xFFF :: u32) = mask 12" by (simp add: mask_eq_exp_minus_1)
  fix n assume "n < LENGTH(32)"
  have "bit (l AND mask 12) n \<longleftrightarrow> bit (mask 12 :: u32) n" using assms by (simp add: m)
  then show "bit (push_bit 12 (drop_bit 12 l) OR 0xFFF) n = bit l n"
    using \<open>n < LENGTH(32)\<close> unfolding m by (auto simp: bit_simps)
qed

lemma take20:
  fixes l :: u32
  shows "l \<le> 65536 \<Longrightarrow> take_bit 20 l = l" and "take_bit 20 (drop_bit 12 l) = drop_bit 12 l"
proof -
  assume "l \<le> 65536"
  then have "unat l \<le> 65536" by (simp add: word_le_nat_alt)
  then show "take_bit 20 l = l" by (simp add: word_unat_eq_iff take_bit_eq_mod unat_mod32)
next
  show "take_bit 20 (drop_bit 12 l) = drop_bit 12 l"
    by (rule bit_word_eqI) (auto simp: bit_simps dest: bit_imp_le_length)
qed

lemma target_bytes:
  fixes t :: addr
  shows "i < 8 \<Longrightarrow> j < 8 \<Longrightarrow> t + of_nat i = t + of_nat j \<longleftrightarrow> i = j"
  using of_nat32_eq_iff [of i j] by simp

text \<open>An entry that is encoded at all is read back by the processor as it was given.\<close>

lemma decode_encode:
  assumes "encodeGdtEntry m t s = Inr m'"
  shows "gdt_decode m' t = s" and "8 \<le> unat (x - t) \<Longrightarrow> m' x = m x"
proof -
  show "8 \<le> unat (x - t) \<Longrightarrow> m' x = m x"
    using assms by (auto simp: encodeGdtEntry_def Let_def split: if_splits)
  have ok: "\<not> (limit s > 65536 \<and> limit s AND 0xFFF \<noteq> 0xFFF)"
    using assms by (simp add: encodeGdtEntry_def split: if_splits)
  define c :: u8 where "c = (if limit s > 65536 then 0xC0 else 0x40)"
  define l where "l = (if limit s > 65536 then drop_bit 12 (limit s) else limit s)"
  have b: "m' t = ucast (l AND 0xFF)" "m' (t + 1) = ucast (drop_bit 8 l AND 0xFF)"
    "m' (t + 6) = c OR ucast (drop_bit 16 l AND 0x0F)" "m' (t + 5) = type_bits s"
    "m' (t + 2) = ucast (base s AND 0xFF)" "m' (t + 3) = ucast (drop_bit 8 (base s) AND 0xFF)"
    "m' (t + 4) = ucast (drop_bit 16 (base s) AND 0xFF)" "m' (t + 7) = ucast (drop_bit 24 (base s) AND 0xFF)"
    using assms ok by (auto simp: encodeGdtEntry_def Let_def c_def l_def split: if_splits)
  have "take_bit 20 l = l" using take20(1) [of "limit s"] take20(2) by (auto simp: l_def)
  moreover have "take_bit 4 c = 0" by (simp add: c_def take_bit_eq_mask mask_eq_exp_minus_1)
  ultimately have l20: "gdt_limit20 m' t = l" unfolding gdt_limit20_def b by (rule limit_split)
  have "limit (gdt_decode m' t) = limit s"
    using ok limit_big [of "limit s"] l20
    by (auto simp: gdt_decode_def b granularity c_def l_def bit7)
  moreover have "base (gdt_decode m' t) = base s"
    using base_split [of "base s"] by (simp add: gdt_decode_def b)
  ultimately show "gdt_decode m' t = s" by (simp add: gdt_decode_def b)
qed

lemma gdt_decode_cong:
  assumes "\<And>i. i < 8 \<Longrightarrow> m' (t + of_nat i) = m (t + of_nat i)"
  shows "gdt_decode m' t = gdt_decode m t"
  using assms [of 0] assms [of 1] assms [of 2] assms [of 3] assms [of 4] assms [of 5] assms [of 6] assms [of 7]
  by (simp add: gdt_decode_def gdt_limit20_def)

text \<open>The test of the code, and what the limit field of a descriptor can hold at all.\<close>

definition encodable :: "gdt_structured \<Rightarrow> bool" where
  "encodable s \<longleftrightarrow> limit s \<le> 65536 \<or> limit s AND 0xFFF = 0xFFF"

definition representable :: "u32 \<Rightarrow> bool" where
  "representable l \<longleftrightarrow> l < 0x100000 \<or> l AND 0xFFF = 0xFFF"

lemma encode_total: "encodable s \<longleftrightarrow> (\<exists>m'. encodeGdtEntry m t s = Inr m')"
  by (auto simp: encodable_def encodeGdtEntry_def Let_def)

lemma to_gdt_loop:
  "8 * length ss < 4294967296 \<Longrightarrow> list_all encodable ss \<Longrightarrow>
    \<exists>m'. gdt_structured_to_gdt_loop m g ss = Inr m'
      \<and> (\<forall>i < length ss. gdt_decode m' (g + of_nat (8 * i)) = ss ! i)
      \<and> unchanged_outside m m' g (8 * length ss)"
proof (induction ss arbitrary: m g)
  case Nil
  then show ?case by (simp add: unchanged_outside_def)
next
  case (Cons s ss)
  obtain m1 where m1: "encodeGdtEntry m g s = Inr m1"
    using Cons.prems(2) encode_total [of s m g] by auto
  have "8 * length ss < 4294967296" "list_all encodable ss" using Cons.prems by auto
  from Cons.IH [OF this, of m1 "g + 8"] obtain m' where
    m': "gdt_structured_to_gdt_loop m1 (g + 8) ss = Inr m'"
      "\<And>i. i < length ss \<Longrightarrow> gdt_decode m' (g + 8 + of_nat (8 * i)) = ss ! i"
      "unchanged_outside m1 m' (g + 8) (8 * length ss)" by blast
  have u: "unat (x - (g + 8)) = (if 8 \<le> unat (x - g) then unat (x - g) - 8 else 4294967288 + unat (x - g))" for x
    using unat_sub_of_nat [of 8 "x - g"] by (simp add: diff_diff_eq)
  have out: "m' x = m1 x" if "8 * length ss \<le> unat (x - (g + 8))" for x
    using m'(3) that by (simp add: unchanged_outside_def)
  have "gdt_decode m' g = gdt_decode m1 g"
  proof (rule gdt_decode_cong)
    fix i :: nat assume "i < 8"
    then have "unat (of_nat i - 8 :: u32) = 4294967288 + i"
      using unat_sub_of_nat [of 8 "of_nat i"] by simp
    then show "m' (g + of_nat i) = m1 (g + of_nat i)"
      using Cons.prems(1) by (intro out) simp
  qed
  then have first: "gdt_decode m' g = s" using decode_encode(1) [OF m1] by simp
  have "gdt_decode m' (g + of_nat (8 * i)) = (s # ss) ! i" if "i < length (s # ss)" for i
  proof (cases i)
    case (Suc j)
    then have "gdt_decode m' (g + of_nat (8 * i)) = gdt_decode m' (g + 8 + of_nat (8 * j))"
      by (simp add: add.assoc)
    with m'(2) [of j] that Suc show ?thesis by simp
  qed (simp add: first)
  moreover have "unchanged_outside m m' g (8 * length (s # ss))"
    unfolding unchanged_outside_def
  proof (intro allI impI)
    fix x assume x: "8 * length (s # ss) \<le> unat (x - g)"
    then have "m' x = m1 x" by (intro out) (simp add: u)
    also have "\<dots> = m x" using x by (intro decode_encode(2) [OF m1]) simp
    finally show "m' x = m x" .
  qed
  ultimately show ?case using m1 m'(1) by auto
qed

section \<open>Properties\<close>

text \<open>
  The other direction: a descriptor's 20-bit field counts bytes or whole 4096-byte units, so it
  holds the limits below 0x100000 and those that end in twelve set bits.
\<close>

lemma limit20_less: "gdt_limit20 m t < 0x100000"
proof -
  have "take_bit 20 (gdt_limit20 m t) = gdt_limit20 m t"
    by (rule bit_word_eqI) (auto simp: gdt_limit20_def low_masks bit_simps dest: bit_imp_le_length)
  then have "gdt_limit20 m t = gdt_limit20 m t mod 2 ^ 20" by (simp add: take_bit_eq_mod)
  then have "unat (gdt_limit20 m t) = unat (gdt_limit20 m t) mod 1048576" using unat_mod32 [of "gdt_limit20 m t" "2 ^ 20"] by simp
  moreover have "unat (gdt_limit20 m t) mod 1048576 < 1048576" by simp
  ultimately show ?thesis by (simp add: word_less_nat_alt)
qed

lemma decoded_limit: "representable (limit (gdt_decode m t))"
proof (cases "bit (m (t + 6)) 7")
  case True
  have m: "(0xFFF :: u32) = mask 12" by (simp add: mask_eq_exp_minus_1)
  have "(push_bit 12 (gdt_limit20 m t) OR mask 12) AND mask 12 = mask 12"
    by (rule bit_word_eqI) (auto simp: bit_simps)
  then show ?thesis using True by (simp add: representable_def gdt_decode_def m)
next
  case False
  then show ?thesis using limit20_less by (simp add: representable_def gdt_decode_def)
qed

lemma descriptor_bytes:
  fixes t :: addr and l b :: u32 and ty :: u8
  assumes "take_bit 20 l = l"
  defines "m \<equiv> (\<lambda>_. 0 :: u8)(t := ucast (l AND 0xFF), t + 1 := ucast (drop_bit 8 l AND 0xFF),
      t + 2 := ucast (b AND 0xFF), t + 3 := ucast (drop_bit 8 b AND 0xFF), t + 4 := ucast (drop_bit 16 b AND 0xFF),
      t + 5 := ty, t + 6 := 0x40 OR ucast (drop_bit 16 l AND 0x0F), t + 7 := ucast (drop_bit 24 b AND 0xFF))"
  shows "gdt_decode m t = \<lparr>base = b, limit = l, type_bits = ty\<rparr>"
proof -
  have bytes: "m t = ucast (l AND 0xFF)" "m (t + 1) = ucast (drop_bit 8 l AND 0xFF)"
    "m (t + 6) = 0x40 OR ucast (drop_bit 16 l AND 0x0F)" "m (t + 5) = ty"
    "m (t + 2) = ucast (b AND 0xFF)" "m (t + 3) = ucast (drop_bit 8 b AND 0xFF)"
    "m (t + 4) = ucast (drop_bit 16 b AND 0xFF)" "m (t + 7) = ucast (drop_bit 24 b AND 0xFF)"
    by (simp_all add: m_def)
  have "take_bit 4 (0x40 :: u8) = 0" by (simp add: take_bit_eq_mask mask_eq_exp_minus_1)
  then have "gdt_limit20 m t = l" unfolding gdt_limit20_def bytes by (rule limit_split [OF assms(1)])
  then show ?thesis using base_split [of b] by (simp add: gdt_decode_def bytes granularity bit7)
qed

lemma decode_onto:
  assumes "representable (limit s)"
  shows "\<exists>m. gdt_decode m t = s"
proof (cases "limit s < 0x100000")
  case True
  then have "unat (limit s) < 2 ^ 20" by (simp add: word_less_nat_alt)
  then have "take_bit 20 (limit s) = limit s" by (simp add: word_unat_eq_iff take_bit_eq_mod unat_mod32)
  from descriptor_bytes [OF this, of t "base s" "type_bits s"] show ?thesis by (cases s) (simp, blast)
next
  case False
  then have "encodable s" using assms by (simp add: representable_def encodable_def)
  then obtain m' where "encodeGdtEntry (\<lambda>_. 0) t s = Inr m'" using encode_total [of s "\<lambda>_. 0" t] by blast
  then show ?thesis using decode_encode(1) by blast
qed

text \<open>
  C33: A segment whose limit is at most 65536 or ends in twelve set bits is encoded without
  loss: the processor reads back its base, limit and type, and no byte outside the descriptor
  changes. Every other segment is refused with a panic, although the processor could hold more:
  some descriptor has a given limit exactly when it is below 0x100000 or ends in twelve set
  bits, so the limits from 65537 to 0xFFFFF without those bits are refused for nothing.
\<close>

theorem encodeGdtEntry_roundtrip:
  "(case encodeGdtEntry m target s of
      Inr m' \<Rightarrow> gdt_decode m' target = s \<and> unchanged_outside m m' target 8
    | Inl f \<Rightarrow> f = Panic ''encodeGdtEntry: Invalid argument'')
   \<and> ((\<exists>m'. encodeGdtEntry m target s = Inr m') \<longleftrightarrow> limit s \<le> 65536 \<or> limit s AND 0xFFF = 0xFFF)
   \<and> ((\<exists>m'. gdt_decode m' target = s) \<longleftrightarrow> limit s < 0x100000 \<or> limit s AND 0xFFF = 0xFFF)"
proof (intro conjI)
  show "case encodeGdtEntry m target s of
      Inr m' \<Rightarrow> gdt_decode m' target = s \<and> unchanged_outside m m' target 8
    | Inl f \<Rightarrow> f = Panic ''encodeGdtEntry: Invalid argument''"
  proof (cases "encodeGdtEntry m target s")
    case (Inl f)
    then show ?thesis by (auto simp: encodeGdtEntry_def Let_def split: if_splits)
  next
    case (Inr m')
    then show ?thesis using decode_encode [OF Inr] by (auto simp: unchanged_outside_def)
  qed
  show "(\<exists>m'. encodeGdtEntry m target s = Inr m') \<longleftrightarrow> limit s \<le> 65536 \<or> limit s AND 0xFFF = 0xFFF"
    using encode_total [of s m target] by (simp add: encodable_def)
  show "(\<exists>m'. gdt_decode m' target = s) \<longleftrightarrow> limit s < 0x100000 \<or> limit s AND 0xFFF = 0xFFF"
    using decoded_limit [of _ target] decode_onto [of s target] by (auto simp: representable_def)
qed

text \<open>
  Setting up the descriptor table never panics: the processor reads the six segments of
  the kernel back from it, and nothing outside its 48 bytes changes.
\<close>

lemma setup_gdt_table:
  "\<exists>m'. setup_gdt m gdt_real tss = Inr m' \<and> unchanged_outside m m' gdt_real 48
    \<and> map (\<lambda>i. gdt_decode m' (gdt_real + of_nat (8 * i))) [0..<6] = kernel_gdt_structured tss"
proof -
  let ?ss = "kernel_gdt_structured tss" and ?m = "snd (memset m gdt_real 0 48)"
  have l: "length ?ss = 6" "list_all encodable ?ss"
    by (simp_all add: kernel_gdt_structured_def encodable_def)
  obtain m' where m': "gdt_structured_to_gdt_loop ?m gdt_real ?ss = Inr m'"
    "\<And>i. i < 6 \<Longrightarrow> gdt_decode m' (gdt_real + of_nat (8 * i)) = ?ss ! i"
    "unchanged_outside ?m m' gdt_real 48"
    using to_gdt_loop [of ?ss ?m gdt_real] l by auto
  have "map (\<lambda>i. gdt_decode m' (gdt_real + of_nat (8 * i))) [0..<6] = ?ss"
    by (rule nth_equalityI) (simp_all add: l m'(2) del: of_nat_mult upt_rec_numeral)
  moreover have "unchanged_outside m m' gdt_real 48"
    using m'(3) by (simp add: unchanged_outside_def memset_fill mem_simps)
  moreover have "setup_gdt m gdt_real tss = Inr m'"
    using m'(1) l by (simp add: setup_gdt_def gdt_structured_to_gdt_def)
  ultimately show ?thesis by blast
qed

end
