(* ===== verification/Prog.thy ===== *)
theory Prog
  imports Kernel_Prelude
begin

text \<open>
  Outcomes of C code: a value, a fault, or no end at all. A program is \<open>None\<close> when it runs
  for ever, so that loops nothing bounds can be defined and their termination be proved.
\<close>

type_synonym 'a prog = "'a run option"

definition ret :: "'a \<Rightarrow> 'a prog" where
  "ret x = Some (Inr x)"

definition faulty :: "fault \<Rightarrow> 'a prog" where
  "faulty f = Some (Inl f)"

definition prog_bind :: "'a prog \<Rightarrow> ('a \<Rightarrow> 'b prog) \<Rightarrow> 'b prog" where
  "prog_bind p f = (case p of None \<Rightarrow> None | Some (Inl e) \<Rightarrow> Some (Inl e) | Some (Inr x) \<Rightarrow> f x)"

text \<open>Total code that may fault, and fault-free code that may not end, as programs.\<close>

definition of_run :: "'a run \<Rightarrow> 'a prog" where
  "of_run r = Some r"

definition of_option :: "'a option \<Rightarrow> 'a prog" where
  "of_option r = map_option Inr r"

lemma prog_bind_simps [simp]:
  "prog_bind (ret x) f = f x" "prog_bind (faulty e) f = faulty e" "prog_bind None f = None"
  "prog_bind (of_run (Inr x)) f = f x" "prog_bind (of_run (Inl e)) f = faulty e"
  "prog_bind (of_option (Some x)) f = f x" "prog_bind (of_option None) f = None"
  by (simp_all add: prog_bind_def ret_def faulty_def of_run_def of_option_def)

lemma ret_inject [simp]: "ret x = ret y \<longleftrightarrow> x = y" "faulty e = faulty e' \<longleftrightarrow> e = e'"
  "ret x \<noteq> faulty e" "faulty e \<noteq> ret x" "ret x \<noteq> None" "faulty e \<noteq> None" "None \<noteq> ret x" "None \<noteq> faulty e"
  by (simp_all add: ret_def faulty_def)

lemma of_run_simps [simp]: "of_run (Inr x) = ret x" "of_run (Inl e) = faulty e"
  "of_option (Some x) = ret x" "of_option None = None"
  by (simp_all add: of_run_def ret_def faulty_def of_option_def)

lemma of_run_ret [simp]: "of_run x = ret y \<longleftrightarrow> x = Inr y" "of_option z = ret y \<longleftrightarrow> z = Some y"
  by (simp_all add: of_run_def of_option_def ret_def)

lemma prog_bind_assoc: "prog_bind (prog_bind p f) g = prog_bind p (\<lambda>x. prog_bind (f x) g)"
  by (auto simp: prog_bind_def split: option.splits sum.splits)

lemma prog_bind_ret_iff: "prog_bind p f = ret y \<longleftrightarrow> (\<exists>x. p = ret x \<and> f x = ret y)"
  by (auto simp: prog_bind_def ret_def split: option.splits sum.splits)

text \<open>What holds of a result, if there is one.\<close>

definition returns :: "'a prog \<Rightarrow> ('a \<Rightarrow> bool) \<Rightarrow> bool" where
  "returns p Q \<longleftrightarrow> (\<forall>x. p = ret x \<longrightarrow> Q x)"

lemma returns_simps [simp]:
  "returns (ret x) Q \<longleftrightarrow> Q x" "returns (faulty e) Q" "returns None Q"
  "returns (of_option z) Q \<longleftrightarrow> (\<forall>x. z = Some x \<longrightarrow> Q x)"
  "returns (of_run y) Q \<longleftrightarrow> (\<forall>x. y = Inr x \<longrightarrow> Q x)"
  by (auto simp: returns_def)

lemma returns_bind: "returns (prog_bind p f) Q \<longleftrightarrow> returns p (\<lambda>x. returns (f x) Q)"
  by (auto simp: returns_def prog_bind_ret_iff)

lemma returns_mono: "returns p Q \<Longrightarrow> (\<And>x. Q x \<Longrightarrow> R x) \<Longrightarrow> returns p R"
  by (auto simp: returns_def)

lemma returnsD: "returns p Q \<Longrightarrow> p = ret x \<Longrightarrow> Q x"
  by (simp add: returns_def)

lemma prog_bind_mono [partial_function_mono]:
  assumes "monotone (fun_ord option_ord) option_ord B"
    and "\<And>y. monotone (fun_ord option_ord) option_ord (C y)"
  shows "monotone (fun_ord option_ord) option_ord (\<lambda>f. prog_bind (B f) (\<lambda>y. C y f))"
proof -
  have "prog_bind (B f) (\<lambda>y. C y f) =
      Option.bind (B f) (\<lambda>r. case r of Inl e \<Rightarrow> Some (Inl e) | Inr x \<Rightarrow> C x f)" for f
    by (simp add: prog_bind_def split: option.split)
  moreover have "monotone (fun_ord option_ord) option_ord
      (\<lambda>f. Option.bind (B f) (\<lambda>r. case r of Inl e \<Rightarrow> Some (Inl e) | Inr x \<Rightarrow> C x f))"
  proof (rule bind_mono [OF assms(1)])
    fix r
    show "monotone (fun_ord option_ord) option_ord (\<lambda>f. case r of Inl e \<Rightarrow> Some (Inl e) | Inr x \<Rightarrow> C x f)"
      using assms(2) by (cases r) (auto intro: option.const_mono)
  qed
  ultimately show ?thesis by simp
qed

end
