(* ===== verification/PathParser.thy ===== *)
theory PathParser
  imports KFrames Prog
begin

text \<open>
  \<^verbatim>\<open>src/fs/pparser.c\<close>: paths such as \<^verbatim>\<open>0:/dir/file.txt\<close> are parsed into a root and a linked
  list of parts, all allocated from the kernel heap. The names lie in the byte memory; the
  records \<^verbatim>\<open>struct path_root\<close> and \<^verbatim>\<open>struct path_part\<close> are kept in a store of their own type,
  by address.
\<close>

section \<open>State\<close>

record path_root =
  drive_no :: u32
  first_part :: addr

record path_part =
  part_name :: addr
  next_part :: addr

record path_heap =
  kmem :: mem
  roots :: "addr \<Rightarrow> path_root"
  parts :: "addr \<Rightarrow> path_part"

abbreviation (input) DEXTER_MAX_PATH :: u32 where "DEXTER_MAX_PATH \<equiv> 108"

section \<open>Operations\<close>

text \<open>
  \<^verbatim>\<open>memcmp(&filename[1], ":/", 2)\<close> is 0 exactly when the two bytes are those of the literal
  (lemma \<open>memcmp_zero_iff\<close>).
\<close>

definition pathparser_path_valid_format :: "mem \<Rightarrow> addr \<Rightarrow> bool" where
  "pathparser_path_valid_format m filename \<longleftrightarrow>
     (let len = strnlen m filename DEXTER_MAX_PATH in
      3 \<le>s len \<and> isdigit (m filename) \<and> bytes m (filename + 1) 2 = [0x3a, 0x2f])"

definition pathparser_get_drive_by_path :: "mem \<Rightarrow> addr \<Rightarrow> u32 \<times> addr" where
  "pathparser_get_drive_by_path m path =
     (if \<not> pathparser_path_valid_format m path then (- EBADPATH, path)
      else (tonumericdigit (m path), path + 3))"

text \<open>What \<open>kzalloc\<close> returns is not checked: NULL is written through.\<close>

definition pathparser_create_root :: "u32 \<Rightarrow> 'a path_heap_scheme \<Rightarrow> (addr \<times> 'a path_heap_scheme) prog" where
  "pathparser_create_root drive_number s =
     (case kzalloc (kmem s) 8 of (path_r, m) \<Rightarrow>
        if path_r = 0 then faulty NullDeref
        else ret (path_r, s\<lparr>kmem := m,
          roots := (roots s)(path_r := \<lparr>drive_no = drive_number, first_part = 0\<rparr>)\<rparr>))"

partial_function (option) get_path_part_loop ::
  "mem \<Rightarrow> addr \<Rightarrow> addr \<Rightarrow> u32 \<Rightarrow> (u32 \<times> addr \<times> mem) prog" where
  "get_path_part_loop m result_path_part path i =
     (if m path \<noteq> 0x2f \<and> m path \<noteq> 0 then
        if result_path_part = 0 then faulty NullDeref
        else get_path_part_loop (m(result_path_part + i := m path)) result_path_part (path + 1) (i + 1)
      else ret (i, path, m))"

definition pathparser_get_path_part :: "mem \<Rightarrow> addr \<Rightarrow> (addr \<times> addr \<times> mem) prog" where
  "pathparser_get_path_part m path =
     (case kzalloc m DEXTER_MAX_PATH of (result_path_part, m) \<Rightarrow>
        prog_bind (get_path_part_loop m result_path_part path 0) (\<lambda>(i, path, m).
          let path = (if m path = 0x2f then path + 1 else path) in
          if i = 0 then ret (0, path, kfree m result_path_part)
          else ret (result_path_part, path, m)))"

definition pathparser_parse_path_part ::
  "addr \<Rightarrow> addr \<Rightarrow> 'a path_heap_scheme \<Rightarrow> (addr \<times> addr \<times> 'a path_heap_scheme) prog" where
  "pathparser_parse_path_part last_part path s =
     prog_bind (pathparser_get_path_part (kmem s) path) (\<lambda>(path_part_str, path, m).
       if path_part_str = 0 then ret (0, path, s\<lparr>kmem := m\<rparr>)
       else
         (case kzalloc m 8 of (p, m) \<Rightarrow>
            if p = 0 then faulty NullDeref
            else
              let ps = (parts s)(p := \<lparr>part_name = path_part_str, next_part = 0\<rparr>);
                  ps = (if last_part \<noteq> 0 then ps(last_part := (ps last_part)\<lparr>next_part := p\<rparr>) else ps)
              in ret (p, path, s\<lparr>kmem := m, parts := ps\<rparr>)))"

partial_function (option) pathparser_parse_loop :: "addr \<Rightarrow> addr \<Rightarrow> 'a path_heap_scheme \<Rightarrow> 'a path_heap_scheme prog" where
  "pathparser_parse_loop p path s =
     (if p \<noteq> 0 then
        prog_bind (pathparser_parse_path_part p path s) (\<lambda>(p', path', s').
          pathparser_parse_loop p' path' s')
      else ret s)"

text \<open>The second parameter of the C function, \<^verbatim>\<open>current_directory_path\<close>, is never used.\<close>

definition pathparser_parse :: "addr \<Rightarrow> 'a path_heap_scheme \<Rightarrow> (addr \<times> 'a path_heap_scheme) prog" where
  "pathparser_parse path s =
     prog_bind (of_option (strlen (kmem s) path)) (\<lambda>len.
       if DEXTER_MAX_PATH <s len then ret (0, s)
       else
         case pathparser_get_drive_by_path (kmem s) path of (res, tmp_path) \<Rightarrow>
           if res <s 0 then ret (0, s)
           else
             prog_bind (pathparser_create_root res s) (\<lambda>(path_root, s).
               if path_root = 0 then ret (path_root, s)
               else
                 prog_bind (pathparser_parse_path_part 0 tmp_path s) (\<lambda>(fp, tmp_path, s).
                   if fp = 0 then ret (path_root, s)
                   else
                     let s = s\<lparr>roots := (roots s)(path_root := (roots s path_root)\<lparr>first_part := fp\<rparr>)\<rparr> in
                     prog_bind (pathparser_parse_path_part fp tmp_path s) (\<lambda>(p, tmp_path, s).
                       prog_bind (pathparser_parse_loop p tmp_path s) (\<lambda>s. ret (path_root, s))))))"

partial_function (option) pathparser_free_loop :: "addr \<Rightarrow> 'a path_heap_scheme \<Rightarrow> 'a path_heap_scheme option" where
  "pathparser_free_loop p s =
     (if p \<noteq> 0 then
        let next_p = next_part (parts s p); m = kfree (kmem s) (part_name (parts s p))
        in pathparser_free_loop next_p (s\<lparr>kmem := kfree m p\<rparr>)
      else Some s)"

definition pathparser_free :: "addr \<Rightarrow> 'a path_heap_scheme \<Rightarrow> 'a path_heap_scheme prog" where
  "pathparser_free root s =
     prog_bind (of_option (pathparser_free_loop (first_part (roots s root)) s))
       (\<lambda>s. ret (s\<lparr>kmem := kfree (kmem s) root\<rparr>))"

section \<open>Names\<close>

text \<open>
  What the parser takes from the text after the drive: the names up to the first empty one.
\<close>

function components :: "u8 list \<Rightarrow> u8 list list" where
  "components bs =
     (let w = takeWhile (\<lambda>c. c \<noteq> 0x2f) bs in
      if w = [] then [] else w # components (drop (Suc (length w)) bs))"
  by pat_completeness auto
termination
  by (relation "measure length") (auto simp: takeWhile_eq_Nil_iff)

declare components.simps [simp del]

definition dir_name :: "u8 list \<Rightarrow> bool" where
  "dir_name w \<longleftrightarrow> w \<noteq> [] \<and> 0x2f \<notin> set w \<and> 0 \<notin> set w"

fun print_names :: "u8 list list \<Rightarrow> u8 list" where
  "print_names [] = []"
| "print_names [w] = w"
| "print_names (w # ws) = w @ 0x2f # print_names ws"

lemma components_print: "list_all dir_name ws \<Longrightarrow> components (print_names ws) = ws"
proof (induction ws rule: print_names.induct)
  case (2 w)
  then have "takeWhile (\<lambda>c. c \<noteq> 0x2f) w = w" "w \<noteq> []" by (auto simp: dir_name_def takeWhile_eq_all_conv)
  then show ?case by (subst components.simps) (simp add: Let_def components.simps [of "[]"] del: takeWhile_eq_all_conv)
next
  case (3 w v ws)
  then have "\<forall>c \<in> set w. c \<noteq> 0x2f" by (auto simp: dir_name_def)
  then have "takeWhile (\<lambda>c. c \<noteq> 0x2f) (w @ 0x2f # print_names (v # ws)) = w"
    by (simp add: takeWhile_append2)
  then show ?case using 3 by (subst components.simps) (simp add: dir_name_def Let_def)
qed (simp add: components.simps)

section \<open>One name\<close>

lemma get_path_part_loop_copies:
  assumes "b < 25600"
  shows "cstr m path (w @ rest) \<Longrightarrow> 0x2f \<notin> set w \<Longrightarrow> rest = [] \<or> hd rest = 0x2f \<Longrightarrow>
    (\<And>j. j \<le> length (w @ rest) \<Longrightarrow> 4096 \<le> unat (path + of_nat j - kblock b)) \<Longrightarrow> unat i + length w \<le> 4096 \<Longrightarrow>
    get_path_part_loop m (kblock b) path i =
      ret (i + of_nat (length w), path + of_nat (length w), mem_fill m (kblock b + i) (length w) (\<lambda>k. w ! k))"
proof (induction w arbitrary: m path i)
  case Nil
  then have "m path = 0x2f \<or> m path = 0" by (cases rest) auto
  then show ?case by (subst get_path_part_loop.simps) auto
next
  case (Cons c w)
  let ?m = "m(kblock b + i := m path)"
  have ui: "unat (i + 1) = Suc (unat i)" using Cons.prems(5) by (simp add: unat_word_ariths)
  have out: "4096 \<le> unat (path + 1 + of_nat j - kblock b)" if "j \<le> length (w @ rest)" for j
    using Cons.prems(4) [of "Suc j"] that by (simp add: add.assoc)
  have keep: "?m (path + 1 + of_nat j) = m (path + 1 + of_nat j)" if "j \<le> length (w @ rest)" for j
  proof -
    have "unat i < 4096" using Cons.prems(5) by simp
    moreover have "path + 1 + of_nat j - kblock b = i" if "path + 1 + of_nat j = kblock b + i"
      using that by simp
    ultimately have "path + 1 + of_nat j \<noteq> kblock b + i"
      using out [OF that] by (metis not_le)
    then show ?thesis by simp
  qed
  have "cstr ?m (path + 1) (w @ rest)"
    by (rule cstr_frame [of m]) (use Cons.prems(1) keep in simp_all)
  then have "get_path_part_loop ?m (kblock b) (path + 1) (i + 1) =
      ret (i + 1 + of_nat (length w), path + 1 + of_nat (length w),
        mem_fill ?m (kblock b + (i + 1)) (length w) (\<lambda>k. w ! k))"
  proof (rule Cons.IH)
    show "0x2f \<notin> set w" "rest = [] \<or> hd rest = 0x2f" using Cons.prems(2,3) by simp_all
    show "unat (i + 1) + length w \<le> 4096" using Cons.prems(5) ui by simp
  qed (rule out)
  moreover have "mem_fill ?m (kblock b + (i + 1)) (length w) (\<lambda>k. w ! k) =
      mem_fill m (kblock b + i) (length (c # w)) (\<lambda>k. (c # w) ! k)"
  proof -
    have "length w < 4294967296" "m path = c" using Cons.prems(1,5) by simp_all
    from mem_fill_Cons [OF this(1), of m "kblock b + i" "\<lambda>k. (c # w) ! k"] this(2)
    show ?thesis by (simp add: add.assoc)
  qed
  moreover have "m path = c" "c \<noteq> 0x2f" "c \<noteq> 0" using Cons.prems(1,2) by auto
  ultimately show ?case
    using kblock_nonzero [OF assms] by (subst get_path_part_loop.simps) (simp add: add.assoc)
qed

text \<open>The name taken by one call, the text that is left, and where it starts.\<close>

definition first_name :: "u8 list \<Rightarrow> u8 list" where
  "first_name bs = takeWhile (\<lambda>c. c \<noteq> 0x2f) bs"

definition rest_names :: "u8 list \<Rightarrow> u8 list" where
  "rest_names bs = drop (Suc (length (first_name bs))) bs"

definition rest_at :: "addr \<Rightarrow> u8 list \<Rightarrow> addr" where
  "rest_at path bs = path + of_nat (length bs - length (rest_names bs))"

lemma components_first: "components bs = (if first_name bs = [] then [] else first_name bs # components (rest_names bs))"
  by (subst components.simps) (simp add: first_name_def rest_names_def Let_def)

lemma first_name_split:
  obtains "bs = first_name bs" "rest_names bs = []"
  | "bs = first_name bs @ 0x2f # rest_names bs"
proof (cases "dropWhile (\<lambda>c. c \<noteq> 0x2f) bs")
  case Nil
  then have "bs = first_name bs" unfolding first_name_def by (metis append_Nil2 takeWhile_dropWhile_id)
  with that(1) show ?thesis by (metis drop_eq_Nil le_SucI order_refl rest_names_def)
next
  case (Cons c r)
  then have "c = 0x2f" using hd_dropWhile [of "\<lambda>c. c \<noteq> 0x2f" bs] by simp
  then have "bs = first_name bs @ 0x2f # r" unfolding first_name_def using Cons by (metis takeWhile_dropWhile_id)
  moreover from this have "rest_names bs = r" unfolding rest_names_def by (metis append_eq_conv_conj drop_Suc_Cons add_Suc_right append.assoc append_Cons append_Nil length_append_singleton)
  ultimately show ?thesis using that(2) by simp
qed

lemma cstr_append: "cstr m p (xs @ ys) \<Longrightarrow> cstr m (p + of_nat (length xs)) ys"
  by (induction xs arbitrary: p) (auto simp flip: add.assoc)

lemma cstr_drop:
  assumes "cstr m p bs" "k \<le> length bs"
  shows "cstr m (p + of_nat k) (drop k bs)"
  using cstr_append [of m p "take k bs" "drop k bs"] assms by simp

lemma kstable_block_drop:
  assumes "kstable_block m p (Suc n)" "k \<le> n"
  shows "kstable_block m (p + of_nat k) (Suc (n - k))"
  unfolding kstable_block_def
proof (intro allI impI)
  fix i assume "i < Suc (n - k)"
  then have "k + i < Suc n" using assms(2) by simp
  then have "kstable m (p + of_nat (k + i))" using assms(1) unfolding kstable_block_def by blast
  then show "kstable m (p + of_nat k + of_nat i)" by (simp add: add.assoc)
qed

lemma length_rest_le: "length (rest_names bs) \<le> length bs"
  by (simp add: rest_names_def)

lemma rest_names_drop: "rest_names bs = drop (length bs - length (rest_names bs)) bs"
  by (simp add: rest_names_def) (metis drop_all length_drop nat_le_linear diff_diff_cancel diff_is_0_eq drop_eq_Nil)

lemma rest_string:
  assumes "cstr m path bs" "kstable_block m path (Suc (length bs))"
  shows "cstr m (rest_at path bs) (rest_names bs)"
    and "kstable_block m (rest_at path bs) (Suc (length (rest_names bs)))"
proof -
  show "cstr m (rest_at path bs) (rest_names bs)"
    using cstr_drop [OF assms(1), of "length bs - length (rest_names bs)"]
    by (simp add: rest_at_def flip: rest_names_drop)
  show "kstable_block m (rest_at path bs) (Suc (length (rest_names bs)))"
    using kstable_block_drop [OF assms(2), of "length bs - length (rest_names bs)"] length_rest_le [of bs]
    by (simp add: rest_at_def)
qed

text \<open>
  A name in its buffer of \<^verbatim>\<open>DEXTER_MAX_PATH\<close> bytes: the rest of the buffer is zero.
\<close>

definition name_at :: "mem \<Rightarrow> nat \<Rightarrow> u8 list \<Rightarrow> bool" where
  "name_at m b w \<longleftrightarrow> 0 \<notin> set w \<and> length w < 108
     \<and> (\<forall>i < 108. m (kblock b + of_nat i) = (if i < length w then w ! i else 0))"

lemma name_at_cstr: "name_at m b w \<Longrightarrow> cstr m (kblock b) w"
  by (simp add: name_at_def cstr_def)

lemma name_at_ext: "kext m m' \<Longrightarrow> b \<in> kused m \<Longrightarrow> name_at m b w \<Longrightarrow> name_at m' b w"
  by (simp add: name_at_def kextD(1) kblock_stable)

lemma get_path_part_spec:
  assumes "cstr m path bs" "kstable_block m path (Suc (length bs))" "length bs < 108" "\<not> kfull m"
  shows "\<exists>m'. pathparser_get_path_part m path =
      ret (if first_name bs = [] then 0 else kblock (kpage m), rest_at path bs, m')
    \<and> kext m m' \<and> kused m' = (if first_name bs = [] then kused m else insert (kpage m) (kused m))
    \<and> (first_name bs \<noteq> [] \<longrightarrow> name_at m' (kpage m) (first_name bs))"
proof -
  let ?b = "kpage m" and ?w = "first_name bs"
  note free = kpage_free [OF assms(4)]
  obtain p m1 where z: "kzalloc m 108 = (p, m1)" by (rule prod.exhaust)
  then have p: "p = kblock ?b" "kused m1 = insert ?b (kused m)" "kext m m1" "p \<noteq> 0"
    using kpage_used [OF _ _ assms(4) z] by auto
  have m1: "m1 = mem_fill (m(0x7E00 + of_nat ?b := 0x81)) (kblock ?b) 108 (\<lambda>_. 0)"
    using kzalloc_page [of 108 m] assms(4) z by simp
  define m2 where "m2 = mem_fill m1 (kblock ?b) (length ?w) (\<lambda>k. ?w ! k)"
  have str: "cstr m1 path bs" by (rule cstr_ext [OF p(3) assms(1,2)])
  have len: "length ?w \<le> length bs" unfolding first_name_def by (rule length_takeWhile_le)
  have ns: "0x2f \<notin> set ?w" unfolding first_name_def by (auto dest: set_takeWhileD)
  have "0 \<notin> set bs" using assms(1) by (simp add: cstr_def)
  then have nz: "0 \<notin> set ?w" unfolding first_name_def by (auto dest: set_takeWhileD)
  have away: "4096 \<le> unat (path + of_nat j - kblock ?b)" if "j \<le> length bs" for j
    using assms(2) that free(1,2) by (simp add: kstable_block_def kstable_def)
  have m2path: "m2 (path + of_nat j) = m1 (path + of_nat j)" if "j \<le> length bs" for j
    unfolding m2_def using away [OF that] len assms(3) by (intro mem_fill_out) linarith
  obtain rest where bs: "bs = ?w @ rest" and rest: "rest = [] \<and> rest_names bs = [] \<or> rest = 0x2f # rest_names bs"
    by (rule first_name_split [of bs]) auto
  have loop: "get_path_part_loop m1 (kblock ?b) path 0 = ret (of_nat (length ?w), path + of_nat (length ?w), m2)"
  proof -
    have "get_path_part_loop m1 (kblock ?b) path 0 = ret (0 + of_nat (length ?w), path + of_nat (length ?w),
        mem_fill m1 (kblock ?b + 0) (length ?w) (\<lambda>k. ?w ! k))"
    proof (rule get_path_part_loop_copies [OF free(1) _ ns])
      show "cstr m1 path (?w @ rest)" using str bs by simp
      show "rest = [] \<or> hd rest = 0x2f" using rest by auto
      show "j \<le> length (?w @ rest) \<Longrightarrow> 4096 \<le> unat (path + of_nat j - kblock ?b)" for j
        using away [of j] bs by simp
    qed (use len assms(3) in simp)
    then show ?thesis by (simp add: m2_def)
  qed
  have "m2 (path + of_nat (length ?w)) = m1 (path + of_nat (length ?w))" using len by (rule m2path)
  moreover have "cstr m1 (path + of_nat (length ?w)) rest"
    using str bs by (metis cstr_append)
  ultimately have "m2 (path + of_nat (length ?w)) = (if rest = [] then 0 else 0x2f)"
    using rest by auto
  then have path': "(if m2 (path + of_nat (length ?w)) = 0x2f then path + of_nat (length ?w) + 1
      else path + of_nat (length ?w)) = rest_at path bs"
    using rest arg_cong [OF bs, of length] by (auto simp: rest_at_def add.assoc)
  have ext: "kext m m2" unfolding m2_def
    using p(3) free(1,2) len assms(3) by (intro kext_fill) simp_all
  have used: "kused m2 = insert ?b (kused m)" unfolding m2_def
    using p(2) free(1) len assms(3) by simp
  have wz: "(of_nat (length ?w) :: u32) = 0 \<longleftrightarrow> ?w = []"
    using len assms(3) of_nat32_eq_iff [of "length ?w" 0] by simp
  show ?thesis
  proof (cases "?w = []")
    case True
    then have "(if m2 path = 0x2f then path + 1 else path) = rest_at path bs"
      using path' by (simp split: if_splits)
    with True have "pathparser_get_path_part m path = ret (0, rest_at path bs, kfree m2 (kblock ?b))"
      using z p(1) loop by (simp add: pathparser_get_path_part_def)
    moreover have "kext m (kfree m2 (kblock ?b))" using ext free(1,2) by (rule kext_free)
    moreover have "kused (kfree m2 (kblock ?b)) = kused m" using used free(1,2) by (simp add: kused_kfree)
    ultimately show ?thesis using True by simp
  next
    case False
    have "m2 (kblock ?b + of_nat i) = (if i < length ?w then ?w ! i else 0)" if "i < 108" for i
    proof (cases "i < length ?w")
      case False
      then have "m2 (kblock ?b + of_nat i) = m1 (kblock ?b + of_nat i)"
        unfolding m2_def using that by (intro mem_fill_out) simp
      also have "\<dots> = 0" unfolding m1 using that by (subst mem_fill_in) simp_all
      finally show ?thesis using False by simp
    qed (use len assms(3) in \<open>simp add: m2_def mem_fill_in\<close>)
    then have "name_at m2 ?b ?w" using nz len assms(3) by (simp add: name_at_def)
    moreover have "pathparser_get_path_part m path = ret (kblock ?b, rest_at path bs, m2)"
      using z p(1) loop path' False wz by (simp add: pathparser_get_path_part_def)
    ultimately show ?thesis using False ext used by simp
  qed
qed

section \<open>The list of parts\<close>

text \<open>
  A list of parts: each node is a pair of blocks, one for the name and one for the record.
\<close>

fun path_nodes :: "(addr \<Rightarrow> path_part) \<Rightarrow> addr \<Rightarrow> (nat \<times> nat) list \<Rightarrow> bool" where
  "path_nodes ps p [] \<longleftrightarrow> p = 0"
| "path_nodes ps p ((nb, pb) # ns) \<longleftrightarrow> p = kblock pb \<and> nb < 25600 \<and> pb < 25600
     \<and> part_name (ps p) = kblock nb \<and> path_nodes ps (next_part (ps p)) ns"

definition path_names :: "mem \<Rightarrow> (nat \<times> nat) list \<Rightarrow> u8 list list \<Rightarrow> bool" where
  "path_names m ns ws \<longleftrightarrow> list_all2 (\<lambda>(nb, pb) w. name_at m nb w) ns ws"

fun node_blocks :: "(nat \<times> nat) list \<Rightarrow> nat list" where
  "node_blocks [] = []"
| "node_blocks ((nb, pb) # ns) = nb # pb # node_blocks ns"

lemma parse_part_none:
  assumes "cstr (kmem s) path bs" "kstable_block (kmem s) path (Suc (length bs))" "length bs < 108"
    "card (kused (kmem s)) < 25600" "first_name bs = []"
  shows "\<exists>m. pathparser_parse_path_part lp path s = ret (0, rest_at path bs, s\<lparr>kmem := m\<rparr>)
    \<and> kext (kmem s) m \<and> kused m = kused (kmem s)"
  using get_path_part_spec [OF assms(1-3) not_kfull_card [OF assms(4)]] assms(5)
  by (auto simp: pathparser_parse_path_part_def)

lemma parse_part_some:
  assumes "cstr (kmem s) path bs" "kstable_block (kmem s) path (Suc (length bs))" "length bs < 108"
    "card (kused (kmem s)) + 2 \<le> 25600" "first_name bs \<noteq> []"
  shows "\<exists>nb pb m. pathparser_parse_path_part lp path s = ret (kblock pb, rest_at path bs,
        s\<lparr>kmem := m, parts :=
          (let ps = (parts s)(kblock pb := \<lparr>part_name = kblock nb, next_part = 0\<rparr>) in
           if lp \<noteq> 0 then ps(lp := (ps lp)\<lparr>next_part := kblock pb\<rparr>) else ps)\<rparr>)
    \<and> kext (kmem s) m \<and> kused m = insert nb (insert pb (kused (kmem s))) \<and> card (kused m) = card (kused (kmem s)) + 2
    \<and> nb \<notin> kused (kmem s) \<and> pb \<notin> kused (kmem s) \<and> nb \<noteq> pb \<and> nb < 25600 \<and> pb < 25600
    \<and> name_at m nb (first_name bs)"
proof -
  let ?m = "kmem s" and ?nb = "kpage (kmem s)"
  have nf: "\<not> kfull ?m" by (rule not_kfull_card) (use assms(4) in simp)
  note free = kpage_free [OF nf]
  obtain m1 where m1: "pathparser_get_path_part ?m path = ret (kblock ?nb, rest_at path bs, m1)"
    "kext ?m m1" "kused m1 = insert ?nb (kused ?m)" "name_at m1 ?nb (first_name bs)"
    using get_path_part_spec [OF assms(1-3) nf] assms(5) by auto
  have fin: "finite (kused ?m)" by (simp add: taken_blocks_def)
  have c1: "card (kused m1) = Suc (card (kused ?m))" using m1(3) free(2) fin by simp
  have nf1: "\<not> kfull m1" by (rule not_kfull_card) (use assms(4) c1 in simp)
  note free1 = kpage_free [OF nf1]
  obtain p m2 where z: "kzalloc m1 8 = (p, m2)" by (rule prod.exhaust)
  then have p: "p = kblock (kpage m1)" "kused m2 = insert (kpage m1) (kused m1)" "kext m1 m2" "p \<noteq> 0"
    using kpage_used [OF _ _ nf1 z] by auto
  have str: "name_at m2 ?nb (first_name bs)"
    using m1(3,4) by (intro name_at_ext [OF p(3)]) simp_all
  have c2: "card (kused m2) = card (kused ?m) + 2"
    using p(2) free1(2) c1 fin m1(3) by simp
  show ?thesis
    by (intro exI [of _ ?nb] exI [of _ "kpage m1"] exI [of _ m2] conjI kext_trans [OF m1(2) p(3)] str c2)
      (use m1 p z free free1 kblock_nonzero [OF free(1)] in \<open>auto simp: pathparser_parse_path_part_def Let_def\<close>)
qed

lemma path_nodes_upd:
  "path_nodes ps p ns \<Longrightarrow> b \<notin> set (node_blocks ns) \<Longrightarrow> b < 25600 \<Longrightarrow> path_nodes (ps(kblock b := v)) p ns"
  by (induction ps p ns rule: path_nodes.induct) (auto simp: kblock_inj)

lemma first_name_length: "length (first_name bs) \<le> length bs"
  unfolding first_name_def by (rule length_takeWhile_le)

text \<open>The loop of the parser appends all remaining names to the list's last node.\<close>

lemma parse_loop:
  "cstr (kmem s) path bs \<Longrightarrow> kstable_block (kmem s) path (Suc (length bs)) \<Longrightarrow> length bs < 108 \<Longrightarrow>
   card (kused (kmem s)) + 2 * length (components bs) + 1 \<le> 25600 \<Longrightarrow> lb \<in> kused (kmem s) \<Longrightarrow>
   next_part (parts s (kblock lb)) = 0 \<Longrightarrow>
   \<exists>s' ns. pathparser_parse_loop (kblock lb) path s = ret s' \<and> roots s' = roots s
     \<and> path_nodes (parts s') (next_part (parts s' (kblock lb))) ns \<and> path_names (kmem s') ns (components bs)
     \<and> part_name (parts s' (kblock lb)) = part_name (parts s (kblock lb))
     \<and> (\<forall>b \<in> kused (kmem s) - {lb}. parts s' (kblock b) = parts s (kblock b))
     \<and> kext (kmem s) (kmem s') \<and> kused (kmem s') = kused (kmem s) \<union> set (node_blocks ns)
     \<and> distinct (node_blocks ns) \<and> set (node_blocks ns) \<inter> kused (kmem s) = {}"
proof (induction bs arbitrary: s path lb rule: components.induct)
  case (1 bs)
  have lb: "lb < 25600" "kblock lb \<noteq> 0" using 1(6) kused_less kblock_nonzero by auto
  show ?case
  proof (cases "first_name bs = []")
    case True
    then have none: "components bs = []" using components_first [of bs] by simp
    have "card (kused (kmem s)) < 25600" using 1(5) by simp
    from parse_part_none [OF 1(2-4) this True] obtain m where
      m: "pathparser_parse_path_part (kblock lb) path s = ret (0, rest_at path bs, s\<lparr>kmem := m\<rparr>)"
        "kext (kmem s) m" "kused m = kused (kmem s)" by blast
    have "pathparser_parse_loop (kblock lb) path s = ret (s\<lparr>kmem := m\<rparr>)"
      using m(1) lb by (subst pathparser_parse_loop.simps, simp) (subst pathparser_parse_loop.simps, simp)
    with m(2,3) 1(7) none show ?thesis
      by (intro exI [of _ "s\<lparr>kmem := m\<rparr>"] exI [of _ "[]"]) (simp add: path_names_def)
  next
    case False
    let ?r = "rest_names bs"
    have comps: "components bs = first_name bs # components ?r" using components_first [of bs] False by simp
    have "card (kused (kmem s)) + 2 \<le> 25600" using 1(5) comps by simp
    from parse_part_some [OF 1(2-4) this False, of "kblock lb"] obtain nb pb m where
      p: "pathparser_parse_path_part (kblock lb) path s = ret (kblock pb, rest_at path bs,
          s\<lparr>kmem := m, parts := (parts s)(kblock pb := \<lparr>part_name = kblock nb, next_part = 0\<rparr>,
            kblock lb := ((parts s)(kblock pb := \<lparr>part_name = kblock nb, next_part = 0\<rparr>)) (kblock lb)
              \<lparr>next_part := kblock pb\<rparr>)\<rparr>)"
      and m: "kext (kmem s) m" "kused m = insert nb (insert pb (kused (kmem s)))"
        "card (kused m) = card (kused (kmem s)) + 2"
        "nb \<notin> kused (kmem s)" "pb \<notin> kused (kmem s)" "nb \<noteq> pb" "nb < 25600" "pb < 25600"
        "name_at m nb (first_name bs)"
      using lb(2) by (auto simp: Let_def)
    define s1 where "s1 = s\<lparr>kmem := m, parts := (parts s)(kblock pb := \<lparr>part_name = kblock nb, next_part = 0\<rparr>,
            kblock lb := (parts s (kblock lb))\<lparr>next_part := kblock pb\<rparr>)\<rparr>"
    have lbpb: "lb \<noteq> pb" "kblock lb \<noteq> kblock pb" using 1(6) m(5,8) lb kblock_inj [of lb pb] by auto
    have p1: "pathparser_parse_path_part (kblock lb) path s = ret (kblock pb, rest_at path bs, s1)"
      using p lbpb by (simp add: s1_def)
    have s1: "kmem s1 = m" "roots s1 = roots s" "next_part (parts s1 (kblock pb)) = 0"
      "part_name (parts s1 (kblock pb)) = kblock nb" "next_part (parts s1 (kblock lb)) = kblock pb"
      "part_name (parts s1 (kblock lb)) = part_name (parts s (kblock lb))"
      using lbpb by (simp_all add: s1_def)
    have s1o: "parts s1 (kblock b) = parts s (kblock b)" if "b \<in> kused (kmem s) - {lb}" for b
    proof -
      have "b < 25600" "b \<noteq> pb" "b \<noteq> lb" using that m(5) kused_less by auto
      then show ?thesis using m(8) lb(1) by (simp add: s1_def kblock_inj)
    qed
    have tw: "takeWhile (\<lambda>c. c \<noteq> 0x2f) bs \<noteq> []" using False by (simp add: first_name_def)
    have rs: "cstr m (rest_at path bs) ?r" "kstable_block m (rest_at path bs) (Suc (length ?r))"
      using rest_string [OF 1(2,3)] cstr_ext [OF m(1)] kstable_block_ext [OF m(1)] by auto
    have "length ?r < 108" using 1(4) length_rest_le [of bs] by simp
    moreover have "card (kused (kmem s1)) + 2 * length (components ?r) + 1 \<le> 25600"
      using 1(5) comps m(3) s1(1) by simp
    moreover have "pb \<in> kused (kmem s1)" using m(2) s1(1) by simp
    ultimately obtain s' ns where IH: "pathparser_parse_loop (kblock pb) (rest_at path bs) s1 = ret s'"
      "roots s' = roots s1" "path_nodes (parts s') (next_part (parts s' (kblock pb))) ns"
      "path_names (kmem s') ns (components ?r)" "part_name (parts s' (kblock pb)) = part_name (parts s1 (kblock pb))"
      "\<forall>b \<in> kused (kmem s1) - {pb}. parts s' (kblock b) = parts s1 (kblock b)"
      "kext (kmem s1) (kmem s')" "kused (kmem s') = kused (kmem s1) \<union> set (node_blocks ns)"
      "distinct (node_blocks ns)" "set (node_blocks ns) \<inter> kused (kmem s1) = {}"
      using "1.IH" [OF refl tw, of s1 "rest_at path bs" pb, folded first_name_def, folded rest_names_def] rs s1(1,3)
      by auto
    have "pathparser_parse_loop (kblock lb) path s = ret s'"
      using p1 IH(1) lb(2) by (subst pathparser_parse_loop.simps) simp
    moreover have pl: "parts s' (kblock lb) = parts s1 (kblock lb)"
      using IH(6) 1(6) m(2) s1(1) lbpb(1) by auto
    moreover have "path_nodes (parts s') (next_part (parts s' (kblock lb))) ((nb, pb) # ns)"
      using IH(3,5) pl s1(4,5) m(7,8) by simp
    moreover have "path_names (kmem s') ((nb, pb) # ns) (components bs)"
    proof -
      have "name_at (kmem s') nb (first_name bs)"
        using m(2) by (intro name_at_ext [OF IH(7) [unfolded s1(1)] _ m(9)]) simp
      with IH(4) show ?thesis by (simp add: path_names_def comps)
    qed
    moreover have "\<forall>b \<in> kused (kmem s) - {lb}. parts s' (kblock b) = parts s (kblock b)"
    proof
      fix b assume b: "b \<in> kused (kmem s) - {lb}"
      then have "b \<in> kused (kmem s1) - {pb}" using m(2,5) s1(1) by auto
      with IH(6) have "parts s' (kblock b) = parts s1 (kblock b)" by blast
      with s1o [OF b] show "parts s' (kblock b) = parts s (kblock b)" by simp
    qed
    moreover have "kext (kmem s) (kmem s')" using kext_trans [OF m(1)] IH(7) s1(1) by simp
    moreover have "kused (kmem s') = kused (kmem s) \<union> set (node_blocks ((nb, pb) # ns))"
      using IH(8) m(2) s1(1) by auto
    moreover have "distinct (node_blocks ((nb, pb) # ns))" "set (node_blocks ((nb, pb) # ns)) \<inter> kused (kmem s) = {}"
      using IH(9,10) m(2,4,5,6) s1(1) by auto
    ultimately show ?thesis using IH(2) s1(2,5,6) by (intro exI [of _ s'] exI [of _ "(nb, pb) # ns"]) simp
  qed
qed

section \<open>Whole paths\<close>

text \<open>A path the parser accepts: a decimal digit, \<^verbatim>\<open>:/\<close>, and at most 108 bytes in all.\<close>

definition valid_path :: "u8 list \<Rightarrow> bool" where
  "valid_path bs \<longleftrightarrow> length bs \<le> 108 \<and> 3 \<le> length bs \<and> isdigit (bs ! 0) \<and> bs ! 1 = 0x3a \<and> bs ! 2 = 0x2f"

lemma valid_path_format:
  assumes "cstr m p bs" "length bs \<le> 108"
  shows "pathparser_path_valid_format m p \<longleftrightarrow> valid_path bs"
proof -
  have "sint (strnlen m p 108) = int (length bs)"
    using strnlen_cstr [OF assms(1), of 108] assms(2) by (simp add: word_sle_eq)
  then have len: "3 \<le>s strnlen m p 108 \<longleftrightarrow> 3 \<le> length bs" by (simp add: word_sle_eq)
  have "m p = bs ! 0 \<and> bytes m (p + 1) 2 = [bs ! 1, bs ! 2]" if l: "3 \<le> length bs"
  proof -
    obtain a b c r where "bs = a # b # c # r"
      using l by (cases bs; cases "tl bs"; cases "tl (tl bs)") auto
    then show ?thesis using assms(1) by (simp add: numeral_2_eq_2 bytes_Suc add.assoc)
  qed
  then show ?thesis
    using assms(2) len by (auto simp: pathparser_path_valid_format_def valid_path_def Let_def)
qed

lemma drive_digit_value:
  assumes "isdigit d"
  shows "tonumericdigit d = of_nat (unat d - 48)" "unat d - 48 < 10"
proof -
  have s: "48 \<le> sint d" "sint d \<le> 57" using assms by (simp_all add: isdigit_def word_sle_eq)
  have "uint d = take_bit 8 (sint d)" using uint_sint [of d] by simp
  also have "\<dots> = sint d" by (rule take_bit_int_eq_self) (use s in simp_all)
  finally have u: "sint d = int (unat d)" by simp
  have "48 \<le> unat d" "unat d \<le> 57" using s u by linarith+
  then show "unat d - 48 < 10" by simp
  have "tonumericdigit d = word_of_int (sint d) - 48" by (simp only: tonumericdigit_def scast_eq)
  also have "\<dots> = of_nat (unat d) - of_nat 48" by (simp only: u of_int_of_nat_eq of_nat_numeral)
  also have "\<dots> = of_nat (unat d - 48)" using \<open>48 \<le> unat d\<close> by (simp only: of_nat_diff)
  finally show "tonumericdigit d = of_nat (unat d - 48)" .
qed

lemma strlen_signed:
  assumes "cstr m p bs" "length bs < 2147483648"
  shows "strlen m p = Some (of_nat (length bs))" "108 <s (of_nat (length bs) :: u32) \<longleftrightarrow> 108 < length bs"
  using assms by (simp_all add: strlen_cstr sless_small)

lemma parse_after_root:
  fixes s :: "'a path_heap_scheme"
  assumes "valid_path bs" "cstr (kmem s) path bs"
  shows "pathparser_parse path s =
    prog_bind (pathparser_create_root (of_nat (unat (bs ! 0) - 48)) s) (\<lambda>(path_root, s).
      if path_root = 0 then ret (path_root, s)
      else
        prog_bind (pathparser_parse_path_part 0 (path + 3) s) (\<lambda>(fp, tmp_path, s).
          if fp = 0 then ret (path_root, s)
          else prog_bind (pathparser_parse_loop fp tmp_path
              (s\<lparr>roots := (roots s)(path_root := (roots s path_root)\<lparr>first_part := fp\<rparr>)\<rparr>))
            (\<lambda>s. ret (path_root, s))))"
proof -
  have len: "length bs \<le> 108" and d: "isdigit (bs ! 0)" and m: "kmem s path = bs ! 0"
    using assms by (auto simp: valid_path_def cstr_def dest: spec [of _ 0])
  note digit = drive_digit_value [OF d]
  have "\<not> (of_nat (unat (bs ! 0) - 48) :: u32) <s 0" using digit(2) by (simp add: sless_small)
  moreover have "pathparser_get_drive_by_path (kmem s) path = (of_nat (unat (bs ! 0) - 48), path + 3)"
    using valid_path_format [OF assms(2) len] assms(1) digit(1) m by (simp add: pathparser_get_drive_by_path_def)
  moreover have "strlen (kmem s) path = Some (of_nat (length bs))" "\<not> 108 <s (of_nat (length bs) :: u32)"
    using strlen_signed [OF assms(2)] len by simp_all
  moreover have "pathparser_parse_loop fp tp s =
      prog_bind (pathparser_parse_path_part fp tp s) (\<lambda>(p, tp, s). pathparser_parse_loop p tp s)"
    if "fp \<noteq> 0" for fp tp and s :: "'a path_heap_scheme"
    using that by (subst pathparser_parse_loop.simps) simp
  ultimately show ?thesis
    by (simp add: pathparser_parse_def prog_bind_assoc Let_def split_def cong: if_cong)
qed

text \<open>Other strings are refused.\<close>

lemma parse_reject:
  assumes "cstr (kmem s) path bs" and "\<not> valid_path bs" and "length bs < 2147483648"
  shows "pathparser_parse path s = ret (0, s)"
proof (cases "108 < length bs")
  case True
  then show ?thesis using strlen_signed [OF assms(1,3)] by (simp add: pathparser_parse_def)
next
  case False
  then have "\<not> pathparser_path_valid_format (kmem s) path"
    using valid_path_format [OF assms(1)] assms(2) by simp
  moreover have "(- 4 :: u32) <s 0" by (simp add: word_sless_alt)
  ultimately show ?thesis
    using strlen_signed [OF assms(1,3)] False by (simp add: pathparser_parse_def pathparser_get_drive_by_path_def)
qed

text \<open>The whole parse of a valid path.\<close>

lemma parse_valid:
  assumes "cstr (kmem s) path bs" and "valid_path bs" and "kstable_block (kmem s) path (Suc (length bs))"
    and "card (kused (kmem s)) + 2 * length (components (drop 3 bs)) + 2 \<le> 25600"
  shows "\<exists>rb s' ns. pathparser_parse path s = ret (kblock rb, s')
    \<and> drive_no (roots s' (kblock rb)) = of_nat (unat (bs ! 0) - 48)
    \<and> path_nodes (parts s') (first_part (roots s' (kblock rb))) ns
    \<and> path_names (kmem s') ns (components (drop 3 bs))
    \<and> distinct (rb # node_blocks ns) \<and> rb < 25600
    \<and> set (rb # node_blocks ns) \<inter> kused (kmem s) = {}
    \<and> kused (kmem s') = kused (kmem s) \<union> set (rb # node_blocks ns) \<and> kext (kmem s) (kmem s')"
proof -
  have len: "length bs \<le> 108" "3 \<le> length bs" using assms(2) by (simp_all add: valid_path_def)
  let ?m = "kmem s" and ?rb = "kpage (kmem s)" and ?bs = "drop 3 bs"
  let ?root = "\<lparr>drive_no = of_nat (unat (bs ! 0) - 48), first_part = 0\<rparr>"
  have fin: "finite (kused ?m)" by (simp add: taken_blocks_def)
  have nf: "\<not> kfull ?m" by (rule not_kfull_card) (use assms(4) in simp)
  note free = kpage_free [OF nf]
  obtain p m1 where z: "kzalloc ?m 8 = (p, m1)" by (rule prod.exhaust)
  then have p: "p = kblock ?rb" "kused m1 = insert ?rb (kused ?m)" "kext ?m m1" "p \<noteq> 0"
    using kpage_used [OF _ _ nf z] by auto
  define s1 where "s1 = s\<lparr>kmem := m1, roots := (roots s)(kblock ?rb := ?root)\<rparr>"
  have s1: "kmem s1 = m1" "roots s1 (kblock ?rb) = ?root" by (simp_all add: s1_def)
  have root: "pathparser_create_root (of_nat (unat (bs ! 0) - 48)) s = ret (kblock ?rb, s1)" "kblock ?rb \<noteq> 0"
    using z p by (simp_all add: pathparser_create_root_def s1_def)
  have c1: "card (kused m1) = Suc (card (kused ?m))" using p(2) free(2) fin by simp
  have str: "cstr m1 (path + 3) ?bs" "kstable_block m1 (path + 3) (Suc (length ?bs))" "length ?bs < 108"
    using cstr_ext [OF p(3) assms(1,3)] kstable_block_ext [OF p(3) assms(3)] cstr_drop [of m1 path bs 3]
      kstable_block_drop [of m1 path "length bs" 3] len by simp_all
  note parse = parse_after_root [OF assms(2,1), unfolded root prog_bind_simps prod.case if_not_P [OF root(2)]]
  show ?thesis
  proof (cases "first_name ?bs = []")
    case True
    then have none: "components ?bs = []" using components_first [of ?bs] by simp
    have "card (kused (kmem s1)) < 25600" using assms(4) c1 s1(1) by simp
    from parse_part_none [OF str [folded s1(1)] this True] obtain m where
      m: "pathparser_parse_path_part 0 (path + 3) s1 = ret (0, rest_at (path + 3) ?bs, s1\<lparr>kmem := m\<rparr>)"
        "kext m1 m" "kused m = kused m1" using s1(1) by auto
    then have "pathparser_parse path s = ret (kblock ?rb, s1\<lparr>kmem := m\<rparr>)" using parse by simp
    then show ?thesis
      using m(2,3) p(2,3) free(1,2) s1 none kext_trans [OF p(3) m(2)]
      by (intro exI [of _ ?rb] exI [of _ "s1\<lparr>kmem := m\<rparr>"] exI [of _ "[]"]) (simp add: path_names_def)
  next
    case False
    let ?r = "rest_names ?bs"
    have comps: "components ?bs = first_name ?bs # components ?r" using components_first [of ?bs] False by simp
    have "card (kused (kmem s1)) + 2 \<le> 25600" using assms(4) c1 s1(1) comps by simp
    from parse_part_some [OF str [folded s1(1)] this False, of 0] obtain nb pb m where
      m: "pathparser_parse_path_part 0 (path + 3) s1 = ret (kblock pb, rest_at (path + 3) ?bs,
          s1\<lparr>kmem := m, parts := (parts s1)(kblock pb := \<lparr>part_name = kblock nb, next_part = 0\<rparr>)\<rparr>)"
        "kext m1 m" "kused m = insert nb (insert pb (kused m1))" "card (kused m) = card (kused m1) + 2"
        "nb \<notin> kused m1" "pb \<notin> kused m1" "nb \<noteq> pb" "nb < 25600" "pb < 25600" "name_at m nb (first_name ?bs)"
      using s1(1) by (auto simp: Let_def)
    define s2 where "s2 = s1\<lparr>kmem := m, parts := (parts s1)(kblock pb := \<lparr>part_name = kblock nb, next_part = 0\<rparr>),
        roots := (roots s1)(kblock ?rb := ?root\<lparr>first_part := kblock pb\<rparr>)\<rparr>"
    have s2: "kmem s2 = m" "next_part (parts s2 (kblock pb)) = 0" "part_name (parts s2 (kblock pb)) = kblock nb"
      "roots s2 (kblock ?rb) = ?root\<lparr>first_part := kblock pb\<rparr>" by (simp_all add: s2_def)
    have rs: "cstr m (rest_at (path + 3) ?bs) ?r" "kstable_block m (rest_at (path + 3) ?bs) (Suc (length ?r))"
      using rest_string [OF str(1,2)] cstr_ext [OF m(2)] kstable_block_ext [OF m(2)] by auto
    have "length ?r < 108" using str(3) length_rest_le [of ?bs] by simp
    moreover have "card (kused (kmem s2)) + 2 * length (components ?r) + 1 \<le> 25600"
      using assms(4) c1 m(4) s2(1) comps by simp
    moreover have "pb \<in> kused (kmem s2)" using m(3) s2(1) by simp
    ultimately obtain s' ns where IH: "pathparser_parse_loop (kblock pb) (rest_at (path + 3) ?bs) s2 = ret s'"
      "roots s' = roots s2" "path_nodes (parts s') (next_part (parts s' (kblock pb))) ns"
      "path_names (kmem s') ns (components ?r)" "part_name (parts s' (kblock pb)) = part_name (parts s2 (kblock pb))"
      "kext (kmem s2) (kmem s')" "kused (kmem s') = kused (kmem s2) \<union> set (node_blocks ns)"
      "distinct (node_blocks ns)" "set (node_blocks ns) \<inter> kused (kmem s2) = {}"
      using parse_loop [of s2 "rest_at (path + 3) ?bs" ?r pb] rs s2(1,2) by auto
    have "s1\<lparr>kmem := m, parts := (parts s1)(kblock pb := \<lparr>part_name = kblock nb, next_part = 0\<rparr>),
        roots := (roots s1)(kblock ?rb := (roots s1 (kblock ?rb))\<lparr>first_part := kblock pb\<rparr>)\<rparr> = s2"
      by (simp add: s2_def s1(2))
    then have "pathparser_parse path s = ret (kblock ?rb, s')"
      using parse m(1) IH(1) kblock_nonzero [OF m(9)] by simp
    moreover have "path_names (kmem s') ((nb, pb) # ns) (components ?bs)"
    proof -
      have "name_at (kmem s') nb (first_name ?bs)"
        using m(3) by (intro name_at_ext [OF IH(6) [unfolded s2(1)] _ m(10)]) simp
      with IH(4) show ?thesis by (simp add: path_names_def comps)
    qed
    moreover have "path_nodes (parts s') (first_part (roots s' (kblock ?rb))) ((nb, pb) # ns)"
      using IH(2,3,5) s2(3,4) m(8,9) by simp
    moreover have "kext ?m (kmem s')" using kext_trans [OF kext_trans [OF p(3) m(2)]] IH(6) s2(1) by simp
    moreover have "kused (kmem s') = kused ?m \<union> set (?rb # node_blocks ((nb, pb) # ns))"
      using IH(7) m(3) s2(1) p(2) by auto
    moreover have "distinct (?rb # node_blocks ((nb, pb) # ns))"
      "set (?rb # node_blocks ((nb, pb) # ns)) \<inter> kused ?m = {}"
      using IH(8,9) m(3,5,6,7) s2(1) p(2) free(2) by auto
    moreover have "drive_no (roots s' (kblock ?rb)) = of_nat (unat (bs ! 0) - 48)" using IH(2) s2(4) by simp
    ultimately show ?thesis using free(1) by blast
  qed
qed

text \<open>Nothing in the state but the three stores of the parser changes.\<close>

lemma parse_part_more:
  "pathparser_parse_path_part lp path s = ret (p, path', s') \<Longrightarrow> path_heap.more s' = path_heap.more s"
  unfolding pathparser_parse_path_part_def
  by (auto simp: prog_bind_ret_iff Let_def split: if_splits prod.splits)

lemma parse_loop_more:
  assumes "pathparser_parse_loop p path s = ret s'"
  shows "path_heap.more s' = path_heap.more s"
proof -
  have "r = Inr s' \<longrightarrow> path_heap.more s' = path_heap.more s" if "pathparser_parse_loop p path s = Some r" for r
  proof (rule pathparser_parse_loop.raw_induct [OF _ that])
    fix f p path and s :: "'a path_heap_scheme" and r
    assume IH: "\<And>p path s r. f p path s = Some r \<Longrightarrow> r = Inr s' \<longrightarrow> path_heap.more s' = path_heap.more s"
      and run: "(if p \<noteq> 0 then prog_bind (pathparser_parse_path_part p path s) (\<lambda>(p', path', s'). f p' path' s')
        else ret s) = Some r"
    show "r = Inr s' \<longrightarrow> path_heap.more s' = path_heap.more s"
    proof
      assume r: "r = Inr s'"
      with run have "s' = s \<or> (\<exists>p' path' s1. pathparser_parse_path_part p path s = ret (p', path', s1)
          \<and> f p' path' s1 = Some (Inr s'))"
        by (auto simp: prog_bind_ret_iff ret_def [symmetric] split: if_splits)
      then show "path_heap.more s' = path_heap.more s" using IH parse_part_more by metis
    qed
  qed
  with assms show ?thesis by (simp add: ret_def)
qed

lemma pathparser_parse_more:
  assumes "pathparser_parse path s = ret (p, s')"
  shows "path_heap.more s' = path_heap.more s"
proof -
  define same where "same s' \<longleftrightarrow> path_heap.more s' = path_heap.more s" for s'
  have part: "same s1 \<Longrightarrow> returns (pathparser_parse_path_part lp tp s1) (\<lambda>(p, tp, s'). same s')" for lp tp s1
    using parse_part_more unfolding same_def by (fastforce simp: returns_def)
  have loop: "same s1 \<Longrightarrow> returns (pathparser_parse_loop lp tp s1) same" for lp tp s1
    using parse_loop_more unfolding same_def by (fastforce simp: returns_def)
  have create: "returns (pathparser_create_root d s) (\<lambda>(p, s'). same s')" for d
    by (simp add: pathparser_create_root_def same_def split: prod.split)
  have upd: "same s1 \<Longrightarrow> same (s1\<lparr>roots := r\<rparr>)" for s1 r by (simp add: same_def)
  have "same s" by (simp add: same_def)
  then have "returns (pathparser_parse path s) (\<lambda>(p, s'). same s')"
    unfolding pathparser_parse_def returns_bind
    by (auto simp: returns_bind Let_def split: prod.split intro!: returns_mono [OF create] returns_mono [OF part] upd loop)
  with assms show ?thesis by (auto simp: same_def dest: returnsD)
qed

lemma length_node_blocks: "length (node_blocks ns) = 2 * length ns"
  by (induction ns rule: node_blocks.induct) simp_all

text \<open>Releasing a list gives back the blocks of its nodes.\<close>

lemma free_loop:
  "path_nodes (parts s) p ns \<Longrightarrow>
    \<exists>s'. pathparser_free_loop p s = Some s' \<and> kused (kmem s') = kused (kmem s) - set (node_blocks ns)
      \<and> roots s' = roots s \<and> parts s' = parts s"
proof (induction ns arbitrary: p s)
  case Nil
  then show ?case by (subst pathparser_free_loop.simps) simp
next
  case (Cons n ns)
  obtain nb pb where n: "n = (nb, pb)" by (cases n)
  let ?s = "s\<lparr>kmem := kfree (kfree (kmem s) (kblock nb)) (kblock pb)\<rparr>"
  have p: "p = kblock pb" "part_name (parts s p) = kblock nb" "nb < 25600" "pb < 25600"
    "path_nodes (parts ?s) (next_part (parts s p)) ns" using Cons.prems n by auto
  from Cons.IH [OF p(5)] obtain s' where s': "pathparser_free_loop (next_part (parts s p)) ?s = Some s'"
    "kused (kmem s') = kused (kmem ?s) - set (node_blocks ns)" "roots s' = roots s" "parts s' = parts s" by auto
  have "pathparser_free_loop p s = Some s'"
    using p(1,2) s'(1) kblock_nonzero [OF p(4)] by (subst pathparser_free_loop.simps) (simp add: Let_def)
  moreover have "kused (kmem s') = kused (kmem s) - set (node_blocks (n # ns))"
    using s'(2) p(3,4) n by (auto simp: kused_kfree)
  ultimately show ?case using s'(3,4) by auto
qed

lemma free_nodes:
  assumes "path_nodes (parts s) (first_part (roots s (kblock rb))) ns" "rb < 25600"
  shows "\<exists>s'. pathparser_free (kblock rb) s = ret s' \<and>
    kused (kmem s') = kused (kmem s) - set (rb # node_blocks ns)"
  using free_loop [OF assms(1)] assms(2) by (auto simp: pathparser_free_def kused_kfree)

text \<open>A string in low memory, for the examples.\<close>

definition path_example :: "u8 list \<Rightarrow> path_heap" where
  "path_example bs = \<lparr>kmem = mem_fill (\<lambda>_. 0) 0x100000 (Suc (length bs)) (\<lambda>i. (bs @ [0]) ! i),
     roots = \<lambda>_. \<lparr>drive_no = 0, first_part = 0\<rparr>, parts = \<lambda>_. \<lparr>part_name = 0, next_part = 0\<rparr>\<rparr>"

lemma path_example:
  assumes "0 \<notin> set bs" "length bs \<le> 108"
  shows "cstr (kmem (path_example bs)) 0x100000 bs" "kused (kmem (path_example bs)) = {}"
    "kstable_block (kmem (path_example bs)) 0x100000 (Suc (length bs))"
proof -
  show "cstr (kmem (path_example bs)) 0x100000 bs"
    using assms by (simp add: path_example_def cstr_fill)
  have "kused (kmem (path_example bs)) = kused (\<lambda>_. 0)"
  proof (rule kused_cong_outside)
    fix k :: nat assume "k < 25600"
    then have "unat (0x7E00 + of_nat k - 0x100000 :: u32) \<ge> 109"
      by (simp add: unat_sub_if' unat_word_ariths)
    then show "kmem (path_example bs) (0x7E00 + of_nat k) = 0"
      using assms(2) by (simp add: path_example_def mem_fill_out)
  qed
  then show "kused (kmem (path_example bs)) = {}" by simp
  show "kstable_block (kmem (path_example bs)) 0x100000 (Suc (length bs))"
    using assms(2) by (intro kstable_block_low) simp_all
qed

section \<open>Properties\<close>

text \<open>
  C13: A valid path is parsed into a root with its drive number and a linked list of exactly
  its names, up to the first empty one; the new nodes take blocks that were free, and nothing
  else in memory changes.
\<close>

theorem pathparser_parse_names:
  assumes "cstr (kmem s) path bs" and "valid_path bs" and "kstable_block (kmem s) path (Suc (length bs))"
    and "card (kused (kmem s)) + 2 * length (components (drop 3 bs)) + 2 \<le> 25600"
  shows "\<exists>rb s' ns. pathparser_parse path s = ret (kblock rb, s')
    \<and> drive_no (roots s' (kblock rb)) = of_nat (unat (bs ! 0) - 48)
    \<and> path_nodes (parts s') (first_part (roots s' (kblock rb))) ns
    \<and> path_names (kmem s') ns (components (drop 3 bs))
    \<and> distinct (rb # node_blocks ns) \<and> rb < 25600
    \<and> set (rb # node_blocks ns) \<inter> kused (kmem s) = {}
    \<and> kused (kmem s') = kused (kmem s) \<union> set (rb # node_blocks ns) \<and> kext (kmem s) (kmem s')"
  by (rule parse_valid [OF assms])

theorem pathparser_parse_names_witness:
  "\<exists>rb s' ns. pathparser_parse 0x100000 (path_example [0x30, 0x3a, 0x2f, 0x61, 0x2f, 0x62]) = ret (kblock rb, s')
    \<and> drive_no (roots s' (kblock rb)) = 0 \<and> path_names (kmem s') ns [[0x61], [0x62]]"
proof -
  let ?bs = "[0x30, 0x3a, 0x2f, 0x61, 0x2f, 0x62] :: u8 list"
  have "components [0x61, 0x2f, 0x62] = [[0x61], [0x62]]"
    using components_print [of "[[0x61], [0x62]]"] by (simp add: dir_name_def)
  moreover have "valid_path ?bs" by (simp add: valid_path_def isdigit_def)
  ultimately show ?thesis
    using pathparser_parse_names [of "path_example ?bs" "0x100000" ?bs] path_example [of ?bs] by auto
qed

text \<open>
  Every string that is not a drive digit, \<^verbatim>\<open>:/\<close> and at most 108 bytes in all is
  refused: the parser returns NULL and changes nothing.
\<close>

lemma pathparser_parse_rejects:
  assumes "cstr (kmem s) path bs" and "\<not> valid_path bs" and "length bs < 2147483648"
  shows "pathparser_parse path s = ret (0, s)"
  by (rule parse_reject [OF assms])

text \<open>
  C26: Parsing the text of a path gives back its drive and its names, and releasing the result
  gives back every block the parse took.
\<close>

theorem pathparser_print_parse_free:
  assumes "list_all dir_name ws" and "isdigit d"
    and "cstr (kmem s) path (d # 0x3a # 0x2f # print_names ws)" and "length (print_names ws) \<le> 105"
    and "kstable_block (kmem s) path (Suc (length (d # 0x3a # 0x2f # print_names ws)))"
    and "card (kused (kmem s)) + 2 * length ws + 2 \<le> 25600"
  shows "\<exists>root s' ns s''. pathparser_parse path s = ret (root, s')
    \<and> drive_no (roots s' root) = of_nat (unat d - 48)
    \<and> path_nodes (parts s') (first_part (roots s' root)) ns \<and> path_names (kmem s') ns ws
    \<and> pathparser_free root s' = ret s'' \<and> kused (kmem s'') = kused (kmem s)"
proof -
  let ?bs = "d # 0x3a # 0x2f # print_names ws"
  have "valid_path ?bs" using assms(2,4) by (simp add: valid_path_def)
  moreover have "components (drop 3 ?bs) = ws" using components_print [OF assms(1)] by simp
  ultimately obtain rb s' ns where p: "pathparser_parse path s = ret (kblock rb, s')"
    "drive_no (roots s' (kblock rb)) = of_nat (unat d - 48)"
    "path_nodes (parts s') (first_part (roots s' (kblock rb))) ns" "path_names (kmem s') ns ws" "rb < 25600"
    "set (rb # node_blocks ns) \<inter> kused (kmem s) = {}" "kused (kmem s') = kused (kmem s) \<union> set (rb # node_blocks ns)"
    using parse_valid [OF assms(3) _ assms(5)] assms(6) by auto
  obtain s'' where "pathparser_free (kblock rb) s' = ret s''"
    "kused (kmem s'') = kused (kmem s') - set (rb # node_blocks ns)"
    using free_nodes [OF p(3,5)] by blast
  moreover from this(2) have "kused (kmem s'') = kused (kmem s)" using p(6,7) by auto
  ultimately show ?thesis using p(1-4) by blast
qed

theorem pathparser_print_parse_free_witness:
  "\<exists>root s' s''. pathparser_parse 0x100000 (path_example [0x31, 0x3a, 0x2f, 0x61, 0x2f, 0x62]) = ret (root, s')
    \<and> drive_no (roots s' root) = 1 \<and> pathparser_free root s' = ret s'' \<and> kused (kmem s'') = {}"
proof -
  let ?bs = "[0x31, 0x3a, 0x2f, 0x61, 0x2f, 0x62] :: u8 list"
  have "print_names [[0x61], [0x62]] = [0x61, 0x2f, 0x62 :: u8]" by simp
  then show ?thesis
    using pathparser_print_parse_free [of "[[0x61], [0x62]]" "0x31" "path_example ?bs" "0x100000"]
      path_example [of ?bs] by (auto simp: dir_name_def isdigit_def)
qed

end
