(* ===== verification/Disk.thy ===== *)
theory Disk
  imports PathParser
begin

text \<open>
  \<^verbatim>\<open>src/fs/disk.c\<close> and \<^verbatim>\<open>src/fs/streamer.c\<close>: reading sectors from the ATA drive through its
  ports, and byte streams on top of it. The hardware is a parameter: what a port answers is
  any function of the port and of everything the kernel did to the ports before. Loops that
  wait for the hardware may not end.
\<close>

section \<open>Ports\<close>

datatype io_event = Out u16 u8 | InB u16 | InW u16

type_synonym hardware = "io_event list \<Rightarrow> u16 \<Rightarrow> u16"

text \<open>The assembly routines \<^verbatim>\<open>outb\<close>, \<^verbatim>\<open>insb\<close> and \<^verbatim>\<open>insw\<close>; the log has the latest event first.\<close>

definition outb :: "u16 \<Rightarrow> u8 \<Rightarrow> io_event list \<Rightarrow> io_event list" where
  "outb port v log = Out port v # log"

definition insb :: "hardware \<Rightarrow> u16 \<Rightarrow> io_event list \<Rightarrow> u8 \<times> io_event list" where
  "insb hw port log = (ucast (hw log port), InB port # log)"

definition insw :: "hardware \<Rightarrow> u16 \<Rightarrow> io_event list \<Rightarrow> u16 \<times> io_event list" where
  "insw hw port log = (hw log port, InW port # log)"

section \<open>The drive\<close>

partial_function (option) disk_wait :: "hardware \<Rightarrow> io_event list \<Rightarrow> io_event list option" where
  "disk_wait hw log =
     (case insb hw 0x1F7 log of (c, log) \<Rightarrow>
        if c AND 0x08 = 0 then disk_wait hw log else Some log)"

text \<open>One sector: 256 words into memory, low byte first.\<close>

definition disk_copy_word :: "hardware \<Rightarrow> addr \<Rightarrow> io_event list \<times> mem \<Rightarrow> io_event list \<times> mem" where
  "disk_copy_word hw ptr = (\<lambda>(log, m).
     case insw hw 0x1F0 log of (w, log) \<Rightarrow> (log, m(ptr := ucast w, ptr + 1 := ucast (drop_bit 8 w))))"

definition disk_copy_sector :: "hardware \<Rightarrow> addr \<Rightarrow> io_event list \<times> mem \<Rightarrow> io_event list \<times> mem" where
  "disk_copy_sector hw ptr = fold (\<lambda>i. disk_copy_word hw (ptr + of_nat (2 * i))) [0..<256]"

partial_function (option) disk_read_blocks ::
  "hardware \<Rightarrow> u32 \<Rightarrow> u32 \<Rightarrow> addr \<Rightarrow> io_event list \<Rightarrow> mem \<Rightarrow> (io_event list \<times> mem) option" where
  "disk_read_blocks hw tot b ptr log m =
     (if b <s tot then
        (case disk_wait hw log of
           None \<Rightarrow> None
         | Some log \<Rightarrow>
             (case disk_copy_sector hw ptr (log, m) of (log, m) \<Rightarrow>
                disk_read_blocks hw tot (b + 1) (ptr + 512) log m))
      else Some (log, m))"

text \<open>
  The shifts are of an \<^verbatim>\<open>int\<close>; only the low byte of each result reaches a port, which is the
  same for the logical shift.
\<close>

definition ata_command :: "u32 \<Rightarrow> u32 \<Rightarrow> io_event list \<Rightarrow> io_event list" where
  "ata_command lba tot log =
     outb 0x1F7 0x20 (outb 0x1F5 (ucast (drop_bit 16 lba)) (outb 0x1F4 (ucast (drop_bit 8 lba))
       (outb 0x1F3 (ucast (lba AND 0xff)) (outb 0x1F2 (ucast tot)
         (outb 0x1F6 (ucast (drop_bit 24 lba OR 0xE0)) log)))))"

definition disk_read_sector ::
  "hardware \<Rightarrow> u32 \<Rightarrow> u32 \<Rightarrow> addr \<Rightarrow> io_event list \<Rightarrow> mem \<Rightarrow> (u32 \<times> io_event list \<times> mem) option" where
  "disk_read_sector hw lba tot buf log m =
     (case disk_read_blocks hw tot 0 buf (ata_command lba tot log) m of
        None \<Rightarrow> None
      | Some (log, m) \<Rightarrow> Some (0, log, m))"

text \<open>The kernel knows one disk, the global \<^verbatim>\<open>disk\<close>; a pointer to a disk is NULL or \<^verbatim>\<open>&disk\<close>.\<close>

datatype disk_ptr = NoDisk | TheDisk

record disk =
  disk_type :: u32
  sector_size :: u32
  disk_id :: u32
  filesystem :: addr
  fs_private :: addr

abbreviation (input) DEXTER_DISK_TYPE_REAL :: u32 where "DEXTER_DISK_TYPE_REAL \<equiv> 0"
abbreviation (input) DEXTER_SECTOR_SIZE :: u32 where "DEXTER_SECTOR_SIZE \<equiv> 512"

definition disk_get :: "u32 \<Rightarrow> disk_ptr" where
  "disk_get index = (if index \<noteq> 0 then NoDisk else TheDisk)"

definition disk_read_block ::
  "hardware \<Rightarrow> disk_ptr \<Rightarrow> u32 \<Rightarrow> u32 \<Rightarrow> addr \<Rightarrow> io_event list \<Rightarrow> mem \<Rightarrow> (u32 \<times> io_event list \<times> mem) option" where
  "disk_read_block hw idisk lba tot buf log m =
     (if idisk \<noteq> TheDisk then Some (- EIO, log, m) else disk_read_sector hw lba tot buf log m)"

section \<open>Streams\<close>

record disk_stream =
  pos :: u32
  stream_disk :: disk_ptr

record dev_state = path_heap +
  io_log :: "io_event list"
  the_disk :: disk
  streams :: "addr \<Rightarrow> disk_stream"

definition diskstreamer_new :: "u32 \<Rightarrow> 'a dev_state_scheme \<Rightarrow> (addr \<times> 'a dev_state_scheme) prog" where
  "diskstreamer_new dsk s =
     (case disk_get dsk of
        NoDisk \<Rightarrow> ret (0, s)
      | TheDisk \<Rightarrow>
          (case kzalloc (kmem s) 8 of (streamer, m) \<Rightarrow>
             if streamer = 0 then faulty NullDeref
             else ret (streamer, s\<lparr>kmem := m,
               streams := (streams s)(streamer := \<lparr>pos = 0, stream_disk = TheDisk\<rparr>)\<rparr>)))"

definition diskstreamer_seek :: "addr \<Rightarrow> u32 \<Rightarrow> 'a dev_state_scheme \<Rightarrow> (u32 \<times> 'a dev_state_scheme) prog" where
  "diskstreamer_seek stream p s =
     (if stream = 0 then faulty NullDeref
      else ret (0, s\<lparr>streams := (streams s)(stream := (streams s stream)\<lparr>pos := p\<rparr>)\<rparr>))"

text \<open>
  The copy out of the sector buffer, a local array of 512 bytes: reading past its end is
  undefined.
\<close>

fun copy_from_buffer :: "mem \<Rightarrow> u32 \<Rightarrow> addr \<Rightarrow> nat list \<Rightarrow> mem \<Rightarrow> mem run" where
  "copy_from_buffer buf offset out [] m = Inr m"
| "copy_from_buffer buf offset out (i # is) m =
     (if unat (offset + of_nat i) < 512
      then copy_from_buffer buf offset out is (m(out + of_nat i := buf (offset + of_nat i)))
      else Inl OutOfBounds)"

text \<open>The local buffer is a memory of its own, at address 0; it is read only where the sector was.\<close>

partial_function (option) diskstreamer_read ::
  "hardware \<Rightarrow> addr \<Rightarrow> addr \<Rightarrow> u32 \<Rightarrow> 'a dev_state_scheme \<Rightarrow> (u32 \<times> 'a dev_state_scheme) prog" where
  "diskstreamer_read hw stream out tot s =
     (if stream = 0 then faulty NullDeref
      else
        let sector = word_of_int (sint (pos (streams s stream)) sdiv 512);
            offset = word_of_int (sint (pos (streams s stream)) smod 512)
        in prog_bind (of_option (disk_read_block hw (stream_disk (streams s stream)) sector 1 0 (io_log s) (\<lambda>_. 0)))
             (\<lambda>(res, log, buf).
                let s = s\<lparr>io_log := log\<rparr> in
                if res <s 0 then ret (res, s)
                else
                  let total_to_read = (if DEXTER_SECTOR_SIZE <s tot then DEXTER_SECTOR_SIZE else tot) in
                  prog_bind (of_run (copy_from_buffer buf offset out [0..<nat (sint total_to_read)] (kmem s))) (\<lambda>m.
                    let s = s\<lparr>kmem := m, streams := (streams s)(stream :=
                          (streams s stream)\<lparr>pos := pos (streams s stream) + total_to_read\<rparr>)\<rparr> in
                    if DEXTER_SECTOR_SIZE <s tot
                    then diskstreamer_read hw stream (out + total_to_read) (tot - DEXTER_SECTOR_SIZE) s
                    else ret (res, s))))"

definition diskstreamer_close :: "addr \<Rightarrow> 'a dev_state_scheme \<Rightarrow> 'a dev_state_scheme" where
  "diskstreamer_close stream s = s\<lparr>kmem := kfree (kmem s) stream\<rparr>"

section \<open>What the drive does\<close>

text \<open>
  The documented behaviour of an ATA drive in programmed I/O. \<open>pio_state hw cmd es\<close> follows a
  transfer: \<open>cmd\<close> is the log up to the read command, \<open>es\<close> what was done since, the latest
  event first; the result says whether the next word may be read, and how many words have
  been. A word may be read after a status register with BSY clear and DRQ set, up to the end
  of the sector, where the drive has to be waited for again. A word read at any other moment
  takes the drive out of the protocol, and nothing is known of it from then on.
\<close>

definition status_drq :: "u16 \<Rightarrow> bool" where
  "status_drq w \<longleftrightarrow> (ucast w :: u8) AND 0x08 \<noteq> 0"

definition status_bsy :: "u16 \<Rightarrow> bool" where
  "status_bsy w \<longleftrightarrow> (ucast w :: u8) AND 0x80 \<noteq> 0"

fun pio_state :: "hardware \<Rightarrow> io_event list \<Rightarrow> io_event list \<Rightarrow> (bool \<times> nat) option" where
  "pio_state hw cmd [] = Some (False, 0)"
| "pio_state hw cmd (e # es) =
     (case pio_state hw cmd es of
        None \<Rightarrow> None
      | Some (ready, n) \<Rightarrow>
          if e = InB 0x1F7 then
            (let w = hw (es @ cmd) 0x1F7 in Some (ready \<or> status_drq w \<and> \<not> status_bsy w, n))
          else if e = InW 0x1F0 \<and> ready then Some (Suc n mod 256 \<noteq> 0, Suc n)
          else None)"

definition disk_word :: "(nat \<Rightarrow> u8) \<Rightarrow> nat \<Rightarrow> u16" where
  "disk_word img k = ucast (img (2 * k)) OR push_bit 8 (ucast (img (2 * k + 1)))"

text \<open>
  \<open>img\<close> is the content of the drive, which has all the sectors a 28-bit address reaches. After
  a read command for \<open>tot\<close> sectors from \<open>lba\<close> on, and as long as the kernel keeps to the
  protocol and words are left: a word that may be read is the next word of the sectors; when
  none may be read, polling the status sets DRQ after finitely many reads; and DRQ is never
  shown together with BSY.
\<close>

definition ata_drive :: "hardware \<Rightarrow> (nat \<Rightarrow> u8) \<Rightarrow> bool" where
  "ata_drive hw img \<longleftrightarrow> (\<forall>lba tot log es ready n.
     unat lba + unat tot \<le> 268435456 \<and> 0 < unat tot \<and> unat tot < 256
       \<and> pio_state hw (ata_command lba tot log) es = Some (ready, n) \<and> n < 256 * unat tot \<longrightarrow>
     (ready \<longrightarrow> hw (es @ ata_command lba tot log) 0x1F0 = disk_word img (256 * unat lba + n))
     \<and> (\<not> ready \<longrightarrow> (\<exists>k. status_drq (hw (replicate k (InB 0x1F7) @ es @ ata_command lba tot log) 0x1F7)))
     \<and> (let w = hw (es @ ata_command lba tot log) 0x1F7 in status_drq w \<longrightarrow> \<not> status_bsy w))"

lemma disk_word_bytes [simp]:
  "ucast (disk_word img k) = img (2 * k)" "ucast (drop_bit 8 (disk_word img k)) = img (2 * k + 1)"
  by (rule bit_word_eqI; auto simp: disk_word_def bit_simps dest: bit_imp_le_length)+

text \<open>Waiting ends, and it ends with a word ready.\<close>

lemma disk_wait_unfold:
  "disk_wait hw log = (if status_drq (hw log 0x1F7) then Some (InB 0x1F7 # log) else disk_wait hw (InB 0x1F7 # log))"
  by (subst disk_wait.simps) (simp add: insb_def status_drq_def)

lemma disk_wait_ready:
  assumes "\<And>es r. pio_state hw cmd es = Some (r, n) \<Longrightarrow> status_drq (hw (es @ cmd) 0x1F7) \<Longrightarrow> \<not> status_bsy (hw (es @ cmd) 0x1F7)"
  shows "status_drq (hw (replicate k (InB 0x1F7) @ es @ cmd) 0x1F7) \<Longrightarrow> pio_state hw cmd es = Some (r, n) \<Longrightarrow>
    \<exists>j. disk_wait hw (es @ cmd) = Some (replicate j (InB 0x1F7) @ es @ cmd)
      \<and> pio_state hw cmd (replicate j (InB 0x1F7) @ es) = Some (True, n)"
proof (induction k arbitrary: es r)
  case 0
  then show ?case using assms [of es r]
    by (intro exI [of _ 1]) (simp add: disk_wait_unfold [of hw "es @ cmd"])
next
  case (Suc k)
  show ?case
  proof (cases "status_drq (hw (es @ cmd) 0x1F7)")
    case False
    have "status_drq (hw (replicate k (InB 0x1F7) @ (InB 0x1F7 # es) @ cmd) 0x1F7)"
      using Suc.prems(1) by (simp add: replicate_app_Cons_same)
    moreover have "pio_state hw cmd (InB 0x1F7 # es) = Some (r, n)" using Suc.prems(2) False by simp
    ultimately obtain j where "disk_wait hw (InB 0x1F7 # es @ cmd) = Some (replicate j (InB 0x1F7) @ (InB 0x1F7 # es) @ cmd)"
      "pio_state hw cmd (replicate j (InB 0x1F7) @ InB 0x1F7 # es) = Some (True, n)"
      using Suc.IH [of "InB 0x1F7 # es" r] by auto
    with False show ?thesis
      by (intro exI [of _ "Suc j"]) (simp add: disk_wait_unfold [of hw "es @ cmd"] replicate_app_Cons_same)
  next
    case True
    then show ?thesis using assms [of es r] Suc.prems(2)
      by (intro exI [of _ 1]) (simp add: disk_wait_unfold [of hw "es @ cmd"])
  qed
qed

text \<open>A drive that never sets DRQ is waited for for ever: the error bit is not looked at.\<close>

lemma disk_wait_ends:
  assumes "disk_wait hw log = Some r"
  shows "\<exists>k. status_drq (hw (replicate k (InB 0x1F7) @ log) 0x1F7)"
proof (rule disk_wait.raw_induct [OF _ assms])
  fix f hw log r
  assume IH: "\<And>hw log r. f hw log = Some r \<Longrightarrow> \<exists>k. status_drq (hw (replicate k (InB 0x1F7) @ log) 0x1F7)"
    and *: "(case insb hw 0x1F7 log of (c, log) \<Rightarrow> if c AND 0x08 = 0 then f hw log else Some log) = Some r"
  show "\<exists>k. status_drq (hw (replicate k (InB 0x1F7) @ log) 0x1F7)"
  proof (cases "status_drq (hw log 0x1F7)")
    case False
    then obtain k where "status_drq (hw (replicate k (InB 0x1F7) @ InB 0x1F7 # log) 0x1F7)"
      using IH [of hw "InB 0x1F7 # log" r] * by (auto simp: insb_def status_drq_def)
    then show ?thesis by (intro exI [of _ "Suc k"]) (simp add: replicate_app_Cons_same)
  qed (intro exI [of _ 0], simp)
qed

corollary disk_wait_hangs:
  "(\<And>log. \<not> status_drq (hw log 0x1F7)) \<Longrightarrow> disk_wait hw log = None"
  using disk_wait_ends by (cases "disk_wait hw log") blast+

lemma pio_words:
  "pio_state hw cmd es = Some (True, 256 * b) \<Longrightarrow> n \<le> 256 \<Longrightarrow>
    pio_state hw cmd (replicate n (InW 0x1F0) @ es) = Some (n < 256, 256 * b + n)"
proof (induction n)
  case (Suc n)
  then have "pio_state hw cmd (replicate n (InW 0x1F0) @ es) = Some (True, 256 * b + n)" by simp
  moreover have "Suc (256 * b + n) mod 256 = Suc n mod 256" by (metis add_Suc_right mod_mult_self4)
  moreover have "0 < Suc n mod 256 \<longleftrightarrow> Suc n < 256" using Suc.prems(2) by (cases "Suc n = 256") simp_all
  ultimately show ?case by simp
qed simp

text \<open>Reading one sector, and any number of them.\<close>

lemma copy_sector:
  assumes "ata_drive hw img" "unat lba + unat tot \<le> 268435456" "0 < unat tot" "unat tot < 256"
    "pio_state hw (ata_command lba tot log) es = Some (True, 256 * b)" "b < unat tot"
  shows "n \<le> 256 \<Longrightarrow>
    fold (\<lambda>i. disk_copy_word hw (ptr + of_nat (2 * i))) [0..<n] (es @ ata_command lba tot log, m) =
      (replicate n (InW 0x1F0) @ es @ ata_command lba tot log,
       mem_fill m ptr (2 * n) (\<lambda>i. img (512 * (unat lba + b) + i)))"
proof (induction n)
  case (Suc n)
  have w: "hw (replicate n (InW 0x1F0) @ es @ ata_command lba tot log) 0x1F0
      = disk_word img (256 * unat lba + (256 * b + n))"
  proof -
    have "pio_state hw (ata_command lba tot log) (replicate n (InW 0x1F0) @ es) = Some (True, 256 * b + n)"
      using pio_words [OF assms(5), of n] Suc.prems by simp
    moreover have "256 * b + n < 256 * unat tot" using assms(6) Suc.prems by linarith
    ultimately show ?thesis using assms(1-4) unfolding ata_drive_def append_assoc [symmetric] by blast
  qed
  have e: "2 * Suc n = Suc (Suc (2 * n))" by simp
  have b: "2 * (256 * unat lba + (256 * b + n)) = 512 * (unat lba + b) + 2 * n" by simp
  have IH: "fold (\<lambda>i. disk_copy_word hw (ptr + of_nat (2 * i))) [0..<n] (es @ ata_command lba tot log, m) =
      (replicate n (InW 0x1F0) @ es @ ata_command lba tot log,
       mem_fill m ptr (2 * n) (\<lambda>i. img (512 * (unat lba + b) + i)))"
    by (rule Suc.IH) (use Suc.prems in simp_all)
  have "fold (\<lambda>i. disk_copy_word hw (ptr + of_nat (2 * i))) [0..<Suc n] (es @ ata_command lba tot log, m) =
      disk_copy_word hw (ptr + of_nat (2 * n)) (replicate n (InW 0x1F0) @ es @ ata_command lba tot log,
       mem_fill m ptr (2 * n) (\<lambda>i. img (512 * (unat lba + b) + i)))"
    using IH by simp
  also have "\<dots> = (InW 0x1F0 # replicate n (InW 0x1F0) @ es @ ata_command lba tot log,
      (mem_fill m ptr (2 * n) (\<lambda>i. img (512 * (unat lba + b) + i)))
        (ptr + of_nat (2 * n) := img (512 * (unat lba + b) + 2 * n),
         ptr + of_nat (2 * n) + 1 := img (512 * (unat lba + b) + 2 * n + 1)))"
    by (simp only: disk_copy_word_def insw_def prod.case w disk_word_bytes b)
  also have "\<dots> = (replicate (Suc n) (InW 0x1F0) @ es @ ata_command lba tot log,
       mem_fill m ptr (2 * Suc n) (\<lambda>i. img (512 * (unat lba + b) + i)))"
    unfolding e using Suc.prems by (simp add: mem_fill_Suc add.assoc add.commute [of 1] del: fun_upd_apply)
  finally show ?case .
qed simp

lemma wait_sector:
  assumes "ata_drive hw img" "unat lba + unat tot \<le> 268435456" "0 < unat tot" "unat tot < 256"
    "pio_state hw (ata_command lba tot log) es = Some (False, 256 * b)" "b < unat tot"
  obtains j where "disk_wait hw (es @ ata_command lba tot log) = Some (replicate j (InB 0x1F7) @ es @ ata_command lba tot log)"
    "pio_state hw (ata_command lba tot log) (replicate j (InB 0x1F7) @ es) = Some (True, 256 * b)"
proof -
  have words: "256 * b < 256 * unat tot" using assms(6) by simp
  obtain k where "status_drq (hw (replicate k (InB 0x1F7) @ es @ ata_command lba tot log) 0x1F7)"
    using assms(1-5) words unfolding ata_drive_def by blast
  moreover have "\<not> status_bsy (hw (es @ ata_command lba tot log) 0x1F7)"
    if "pio_state hw (ata_command lba tot log) es = Some (r, 256 * b)" "status_drq (hw (es @ ata_command lba tot log) 0x1F7)" for es r
    using assms(1-4) words that unfolding ata_drive_def Let_def by blast
  ultimately show thesis using disk_wait_ready [of hw "ata_command lba tot log" "256 * b", OF _ _ assms(5)] that by blast
qed

lemma read_blocks:
  assumes "ata_drive hw img" "unat lba + unat tot \<le> 268435456" "0 < unat tot" "unat tot < 256"
  shows "pio_state hw (ata_command lba tot log) es = Some (False, 256 * unat b) \<Longrightarrow> unat b \<le> unat tot \<Longrightarrow>
    \<exists>log'. disk_read_blocks hw tot b ptr (es @ ata_command lba tot log) m =
      Some (log', mem_fill m ptr (512 * (unat tot - unat b)) (\<lambda>i. img (512 * (unat lba + unat b) + i)))"
proof (induction "unat tot - unat b" arbitrary: es b ptr m)
  case 0
  then have "\<not> b <s tot" using assms(4) by (simp add: sless_small)
  then show ?case using 0 by (subst disk_read_blocks.simps) simp
next
  case (Suc n)
  have lt: "b <s tot" "b < tot" "unat b < unat tot"
    using Suc.hyps(2) Suc.prems(2) assms(4) by (simp_all add: sless_small word_less_nat_alt)
  have b1: "unat (b + 1) = Suc (unat b)" by (rule unat_inc [OF lt(2)])
  obtain j where
    wait: "disk_wait hw (es @ ata_command lba tot log) = Some (replicate j (InB 0x1F7) @ es @ ata_command lba tot log)"
    and st: "pio_state hw (ata_command lba tot log) (replicate j (InB 0x1F7) @ es) = Some (True, 256 * unat b)"
    by (rule wait_sector [OF assms Suc.prems(1) lt(3)])
  let ?es = "replicate j (InB 0x1F7) @ es"
  let ?es' = "replicate 256 (InW 0x1F0) @ ?es"
  let ?m = "mem_fill m ptr 512 (\<lambda>i. img (512 * (unat lba + unat b) + i))"
  have copy: "disk_copy_sector hw ptr (?es @ ata_command lba tot log, m) = (?es' @ ata_command lba tot log, ?m)"
    using copy_sector [OF assms st lt(3), where n = 256 and ptr = ptr and m = m] by (simp add: disk_copy_sector_def)
  have "pio_state hw (ata_command lba tot log) ?es' = Some (False, 256 * unat (b + 1))"
    using pio_words [OF st, of 256] b1 by simp
  moreover have "n = unat tot - unat (b + 1)" "unat (b + 1) \<le> unat tot"
    using Suc.hyps(2) b1 by simp_all
  ultimately obtain log' where IH: "disk_read_blocks hw tot (b + 1) (ptr + 512) (?es' @ ata_command lba tot log) ?m =
      Some (log', mem_fill ?m (ptr + 512) (512 * (unat tot - unat (b + 1))) (\<lambda>i. img (512 * (unat lba + unat (b + 1)) + i)))"
    using Suc.hyps(1) by blast
  have sub: "512 * (unat tot - unat (b + 1)) = 512 * (unat tot - unat b) - 512" using b1 by simp
  have f: "(\<lambda>i. if i < 512 then img (512 * (unat lba + unat b) + i)
        else img (512 * (unat lba + unat (b + 1)) + (i - 512)))
      = (\<lambda>i. img (512 * (unat lba + unat b) + i))"
  proof
    fix i
    have "512 * (unat lba + unat (b + 1)) + (i - 512) = 512 * (unat lba + unat b) + i" if "\<not> i < 512"
      using that b1 by simp
    then show "(if i < 512 then img (512 * (unat lba + unat b) + i)
        else img (512 * (unat lba + unat (b + 1)) + (i - 512))) = img (512 * (unat lba + unat b) + i)"
      by (auto dest: arg_cong [where f = img])
  qed
  have "mem_fill ?m (ptr + 512) (512 * (unat tot - unat (b + 1))) (\<lambda>i. img (512 * (unat lba + unat (b + 1)) + i))
      = mem_fill m ptr (512 * (unat tot - unat b)) (\<lambda>i. img (512 * (unat lba + unat b) + i))"
    using mem_fill_append [of 512 "512 * (unat tot - unat b)" m ptr "\<lambda>i. img (512 * (unat lba + unat b) + i)"
        "\<lambda>i. img (512 * (unat lba + unat (b + 1)) + i)"] Suc.hyps(2) assms(4)
    by (simp add: sub f)
  with IH wait copy lt(1) show ?case
    by (subst disk_read_blocks.simps) simp
qed

lemma disk_read_sector_img:
  assumes "ata_drive hw img" "unat lba + unat tot \<le> 268435456" "0 < unat tot" "unat tot < 256"
  shows "\<exists>log'. disk_read_sector hw lba tot buf log m =
    Some (0, log', mem_fill m buf (512 * unat tot) (\<lambda>i. img (512 * unat lba + i)))"
  using read_blocks [OF assms, where es = "[]" and b = 0 and ptr = buf and m = m and log = log] by (auto simp: disk_read_sector_def)

text \<open>The copy out of the buffer, and a read through a stream.\<close>

lemma copy_from_buffer_upt:
  "unat off < 512 \<Longrightarrow> k + n \<le> 2147483648 \<Longrightarrow>
    copy_from_buffer buf off out [k..<k + n] m =
      (if n = 0 \<or> unat off + k + n \<le> 512
       then Inr (mem_fill m (out + of_nat k) n (\<lambda>i. buf (off + of_nat (k + i)))) else Inl OutOfBounds)"
proof (induction n arbitrary: k m)
  case (Suc n)
  have l: "[k..<k + Suc n] = k # [Suc k..<Suc k + n]" by (simp add: upt_conv_Cons del: upt_Suc)
  have u: "unat (off + of_nat k) = unat off + k" using Suc.prems by (simp add: unat_word_ariths)
  have f: "mem_fill (m(out + of_nat k := buf (off + of_nat k))) (out + of_nat (Suc k)) n (\<lambda>i. buf (off + of_nat (Suc k + i)))
      = mem_fill m (out + of_nat k) (Suc n) (\<lambda>i. buf (off + of_nat (k + i)))"
    using mem_fill_Cons [of n m "out + of_nat k" "\<lambda>i. buf (off + of_nat (k + i))"] Suc.prems(2)
    by (simp add: add.assoc add.commute [of 1] del: fun_upd_apply)
  have IH: "copy_from_buffer buf off out [Suc k..<Suc k + n] m' =
      (if n = 0 \<or> unat off + Suc k + n \<le> 512
       then Inr (mem_fill m' (out + of_nat (Suc k)) n (\<lambda>i. buf (off + of_nat (Suc k + i)))) else Inl OutOfBounds)" for m'
    using Suc.prems by (intro Suc.IH) simp_all
  show ?case unfolding l copy_from_buffer.simps IH u f using Suc.prems(1) by auto
qed simp

lemma int_sdiv_smod: "int n sdiv 512 = int (n div 512)" "int n smod 512 = int (n mod 512)"
  by (cases n; simp add: signed_divide_int_def signed_modulo_int_def sgn_if zdiv_int zmod_int minus_mult_div_eq_mod)+

lemma sector_of_pos:
  fixes p :: u32
  assumes "unat p < 2147483648"
  shows "word_of_int (sint p sdiv 512) = (of_nat (unat p div 512) :: u32)"
    and "word_of_int (sint p smod 512) = (of_nat (unat p mod 512) :: u32)"
  unfolding sint_small [OF assms] int_sdiv_smod by (simp_all only: of_int_of_nat_eq)

text \<open>
  What a read through a stream does: all of it when the bytes asked for lie in one sector or
  the position is at the start of one; otherwise it runs past the end of the sector buffer.
\<close>

lemma stream_read:
  assumes "ata_drive hw img" "stream \<noteq> 0"
  shows "stream_disk (streams s stream) = TheDisk \<Longrightarrow> unat (pos (streams s stream)) + unat tot < 2147483648 \<Longrightarrow>
    (if unat (pos (streams s stream)) mod 512 = 0 \<or> unat (pos (streams s stream)) mod 512 + unat tot \<le> 512
     then \<exists>log. diskstreamer_read hw stream out tot s = ret (0, s\<lparr>io_log := log,
        kmem := mem_fill (kmem s) out (unat tot) (\<lambda>i. img (unat (pos (streams s stream)) + i)),
        streams := (streams s)(stream := (streams s stream)\<lparr>pos := pos (streams s stream) + tot\<rparr>)\<rparr>)
     else diskstreamer_read hw stream out tot s = faulty OutOfBounds)"
proof (induction "unat tot" arbitrary: tot s out rule: less_induct)
  case less
  let ?st = "streams s stream"
  let ?p = "unat (pos ?st)" and ?n = "unat tot"
  let ?sec = "of_nat (?p div 512) :: u32" and ?off = "of_nat (?p mod 512) :: u32"
  have p: "?p < 2147483648" "?p div 512 < 4294967296" "?p mod 512 < 512" using less.prems(2) by simp_all
  have sec: "unat ?sec = ?p div 512" "unat ?off = ?p mod 512" using p by simp_all
  have "unat ?sec + unat (1 :: u32) \<le> 268435456" unfolding sec using p(1) by simp
  from disk_read_sector_img [OF assms(1) this, of 0 "io_log s" "\<lambda>_. 0"] obtain log where
    rd: "disk_read_block hw TheDisk ?sec 1 0 (io_log s) (\<lambda>_. 0) =
      Some (0, log, mem_fill (\<lambda>_. 0) 0 512 (\<lambda>i. img (512 * (?p div 512) + i)))"
    using sec(1) by (auto simp: disk_read_block_def)
  let ?buf = "mem_fill (\<lambda>_. 0) 0 512 (\<lambda>i. img (512 * (?p div 512) + i)) :: mem"
  have buf: "?buf (?off + of_nat i) = img (?p + i)" if "?p mod 512 + i < 512" for i
  proof -
    have "?buf (0 + of_nat (?p mod 512 + i)) = img (512 * (?p div 512) + (?p mod 512 + i))"
      by (rule mem_fill_in) (use that in simp_all)
    then show ?thesis by (simp flip: add.assoc)
  qed
  have big: "(512 :: u32) <s tot \<longleftrightarrow> 512 < ?n" using less.prems(2) by (simp add: sless_small)
  define k where "k = (if 512 < ?n then 512 else ?n)"
  have "?n < 2147483648" using less.prems(2) by linarith
  then have "sint tot = int ?n" by (rule sint_small)
  then have k: "nat (sint (if 512 <s tot then 512 else tot)) = k"
    unfolding k_def big by (cases "512 < ?n") (simp_all only: if_True if_False nat_int, simp)
  have tk: "(if 512 <s tot then 512 else tot) = of_nat k" unfolding k_def big by simp
  have copy: "copy_from_buffer ?buf ?off out [0..<k] (kmem s) =
      (if k = 0 \<or> ?p mod 512 + k \<le> 512 then Inr (mem_fill (kmem s) out k (\<lambda>i. img (?p + i))) else Inl OutOfBounds)"
  proof -
    have "mem_fill (kmem s) out k (\<lambda>i. ?buf (?off + of_nat i)) = mem_fill (kmem s) out k (\<lambda>i. img (?p + i))"
      if "?p mod 512 + k \<le> 512"
      using that buf by (intro mem_fill_cong) simp
    then show ?thesis
      using copy_from_buffer_upt [of ?off 0 k ?buf out "kmem s"] sec(2) by (auto simp: k_def)
  qed
  define s1 where "s1 = s\<lparr>io_log := log, kmem := mem_fill (kmem s) out k (\<lambda>i. img (?p + i)),
      streams := (streams s)(stream := ?st\<lparr>pos := pos ?st + of_nat k\<rparr>)\<rparr>"
  have unfold: "diskstreamer_read hw stream out tot s =
      (if k = 0 \<or> ?p mod 512 + k \<le> 512 then
         if 512 < ?n then diskstreamer_read hw stream (out + 512) (tot - 512) s1 else ret (0, s1)
       else faulty OutOfBounds)"
  proof -
    have k': "nat (sint (of_nat k :: u32)) = k" using k unfolding tk .
    have "of_nat k = (512 :: u32)" "k \<noteq> 0" if "512 <s tot"
      using that tk big by (simp_all add: k_def)
    moreover have "of_nat k = tot" "nat (sint tot) = k" if "\<not> 512 <s tot"
      using that tk k' by simp_all
    ultimately show ?thesis
      using assms(2) less.prems(1) rd copy sector_of_pos [OF p(1)] k'
      by (subst diskstreamer_read.simps, cases "512 <s tot") (simp_all add: Let_def tk s1_def flip: big)
  qed
  show ?case
  proof (cases "512 < ?n")
    case False
    then have "k = ?n" "of_nat k = tot" by (simp_all add: k_def)
    moreover have "k = 0 \<or> ?p mod 512 + k \<le> 512 \<longleftrightarrow> ?p mod 512 = 0 \<or> ?p mod 512 + ?n \<le> 512"
      using False p(3) by (auto simp: k_def)
    ultimately show ?thesis using unfold False by (auto simp: s1_def)
  next
    case True
    then have k512: "k = 512" by (simp add: k_def)
    show ?thesis
    proof (cases "?p mod 512 = 0")
      case False
      then have "\<not> (k = 0 \<or> ?p mod 512 + k \<le> 512)" "\<not> ?p mod 512 + ?n \<le> 512"
        using k512 True by simp_all
      then show ?thesis using unfold False by simp
    next
      case aligned: True
      have n: "unat (tot - 512) = ?n - 512" using True by (simp add: unat_sub word_le_nat_alt)
      have p1: "unat (pos (streams s1 stream)) = ?p + 512" "pos (streams s1 stream) = pos ?st + 512"
        using less.prems(2) True by (simp_all add: s1_def k512 unat_word_ariths)
      have "(?p + 512) mod 512 = 0" using aligned by simp
      then obtain log' where IH: "diskstreamer_read hw stream (out + 512) (tot - 512) s1 = ret (0, s1\<lparr>io_log := log',
          kmem := mem_fill (kmem s1) (out + 512) (?n - 512) (\<lambda>i. img (?p + 512 + i)),
          streams := (streams s1)(stream := (streams s1 stream)\<lparr>pos := pos (streams s1 stream) + (tot - 512)\<rparr>)\<rparr>)"
        using less.hyps [of "tot - 512" s1 "out + 512"] n p1(1) less.prems True by (auto simp: s1_def)
      have f: "(\<lambda>i. if i < 512 then img (?p + i) else img (?p + 512 + (i - 512))) = (\<lambda>i. img (?p + i))"
        by (auto simp: fun_eq_iff)
      have m: "mem_fill (kmem s1) (out + 512) (?n - 512) (\<lambda>i. img (?p + 512 + i)) =
          mem_fill (kmem s) out ?n (\<lambda>i. img (?p + i))"
        using mem_fill_append [of 512 ?n "kmem s" out "\<lambda>i. img (?p + i)" "\<lambda>i. img (?p + 512 + i)"] True
        by (simp add: s1_def k512 f)
      show ?thesis using unfold IH m aligned True k512 p1(2) by (auto simp: s1_def)
    qed
  qed
qed

section \<open>A drive for the examples\<close>

text \<open>
  It takes the sector number and the progress from the log, is busy at the first poll of a
  sector and ready at the second, and answers all ones to a word read too early.
\<close>

definition words_read :: "io_event list \<Rightarrow> nat" where
  "words_read es = length (filter (\<lambda>e. e = InW 0x1F0) es)"

definition pio_event :: "io_event \<Rightarrow> bool" where
  "pio_event e \<longleftrightarrow> e = InB 0x1F7 \<or> e = InW 0x1F0"

definition polls :: "io_event list \<Rightarrow> nat" where
  "polls es = length (takeWhile (\<lambda>e. e = InB 0x1F7) es)"

definition ideal_drive :: "(nat \<Rightarrow> u8) \<Rightarrow> hardware" where
  "ideal_drive img log port =
     (let es = takeWhile pio_event log in
      if port = 0x1F7 then
        (if words_read es mod 256 \<noteq> 0 \<or> 1 \<le> polls es then 0x08 else 0x80)
      else if words_read es mod 256 = 0 \<and> polls es < 2 then 0xFFFF
      else case map (\<lambda>e. case e of Out p v \<Rightarrow> unat v | _ \<Rightarrow> 0) (take 6 (dropWhile pio_event log)) of
        [_, a, b, c, t, d] \<Rightarrow> disk_word img (256 * (c + 256 * b + 65536 * a + 16777216 * (d mod 16)) + words_read es)
      | _ \<Rightarrow> 0)"

lemma lba_bytes:
  fixes lba :: u32
  assumes "unat lba < 268435456"
  shows "unat (ucast (lba AND 0xff) :: u8) + 256 * unat (ucast (drop_bit 8 lba) :: u8)
    + 65536 * unat (ucast (drop_bit 16 lba) :: u8) + 16777216 * (unat (ucast (drop_bit 24 lba OR 0xE0) :: u8) mod 16) = unat lba"
proof -
  have u: "unat (ucast (w :: u32) :: u8) = unat w mod 256" for w
    by (simp add: unsigned_ucast_eq take_bit_eq_mod)
  have a: "(lba AND 0xff) = take_bit 8 lba" by (simp add: take_bit_eq_mask mask_eq_exp_minus_1)
  have e: "take_bit 4 (ucast (drop_bit 24 lba OR 0xE0) :: u8) = take_bit 4 (ucast (drop_bit 24 lba))"
  proof (rule bit_word_eqI)
    fix n assume "n < LENGTH(8)"
    have "\<not> bit (0xE0 :: u32) n" if "n < 4"
      using that by (simp add: bit_iff_odd less_Suc_eq numeral_eq_Suc) auto
    then show "bit (take_bit 4 (ucast (drop_bit 24 lba OR 0xE0) :: u8)) n = bit (take_bit 4 (ucast (drop_bit 24 lba) :: u8)) n"
      by (auto simp: bit_simps)
  qed
  have "unat (take_bit 4 (w :: u8)) = unat w mod 16" for w
    by (simp add: take_bit_eq_mod unat_mod_distrib)
  then have d: "unat (ucast (drop_bit 24 lba OR 0xE0) :: u8) mod 16 = unat (ucast (drop_bit 24 lba) :: u8) mod 16"
    using arg_cong [OF e, of unat] by simp
  define L where "L = unat lba"
  have "unat (ucast (lba AND 0xff) :: u8) = L mod 256" unfolding a u
    by (simp add: take_bit_eq_mod unat_mod_distrib L_def)
  moreover have "unat (ucast (drop_bit 8 lba) :: u8) = L div 256 mod 256" "unat (ucast (drop_bit 16 lba) :: u8) = L div 65536 mod 256"
    "unat (ucast (drop_bit 24 lba) :: u8) = L div 16777216 mod 256"
    unfolding u by (simp_all add: drop_bit_eq_div unat_div L_def)
  moreover have "L div 16777216 < 16" using assms by (simp add: L_def div_less_iff_less_mult)
  moreover have "L mod 256 + 256 * (L div 256 mod 256) + 65536 * (L div 65536 mod 256) + 16777216 * (L div 16777216) = L"
  proof -
    define a b c where "a = L div 256" and "b = a div 256" and "c = b div 256"
    have dd: "L div 65536 = b" "L div 16777216 = c"
      using div_mult2_eq [of L 256 256] div_mult2_eq [of L 65536 256] by (simp_all add: a_def b_def c_def)
    define x y z where "x = L mod 256" and "y = a mod 256" and "z = b mod 256"
    have "L = 256 * a + x" "a = 256 * b + y" "b = 256 * c + z"
      by (simp_all only: a_def b_def c_def x_def y_def z_def mult_div_mod_eq)
    then show ?thesis unfolding dd a_def [symmetric] x_def [symmetric] y_def [symmetric] z_def [symmetric]
      by linarith
  qed
  ultimately show ?thesis unfolding d by (simp add: L_def)
qed

lemma command_events:
  assumes "list_all pio_event es"
  shows "takeWhile pio_event (es @ ata_command lba tot log) = es"
    and "dropWhile pio_event (es @ ata_command lba tot log) = ata_command lba tot log"
proof -
  have es: "\<forall>e \<in> set es. pio_event e" using assms by (simp add: list_all_iff)
  then show "takeWhile pio_event (es @ ata_command lba tot log) = es"
    "dropWhile pio_event (es @ ata_command lba tot log) = ata_command lba tot log"
    by (simp_all add: ata_command_def outb_def pio_event_def takeWhile_append2 dropWhile_append2)
qed

lemma ideal_status:
  assumes "list_all pio_event es"
  shows "ideal_drive img (es @ ata_command lba tot log) 0x1F7 =
    (if words_read es mod 256 \<noteq> 0 \<or> 1 \<le> polls es then 0x08 else 0x80)"
  by (simp add: ideal_drive_def command_events [OF assms])

lemma status_simps [simp]:
  "status_drq 0x08" "\<not> status_bsy 0x08" "\<not> status_drq 0x80"
  by (simp_all add: status_drq_def status_bsy_def)

lemma ideal_state:
  "pio_state (ideal_drive img) (ata_command lba tot log) es = Some (r, n) \<Longrightarrow>
    list_all pio_event es \<and> n = words_read es
      \<and> (r \<longrightarrow> words_read es mod 256 \<noteq> 0 \<or> 2 \<le> polls es)"
proof (induction es arbitrary: r n)
  case (Cons e es)
  then obtain q k where q: "pio_state (ideal_drive img) (ata_command lba tot log) es = Some (q, k)"
    by (cases "pio_state (ideal_drive img) (ata_command lba tot log) es") auto
  note IH = Cons.IH [OF q]
  show ?case
    using Cons.prems q IH ideal_status [OF conjunct1 [OF IH], of img lba tot log]
    by (auto simp: pio_event_def words_read_def polls_def Let_def split: if_splits)
qed (simp add: words_read_def)

lemma ideal_word:
  assumes "unat lba + unat tot \<le> 268435456" "0 < unat tot" "list_all pio_event es"
    "words_read es mod 256 \<noteq> 0 \<or> 2 \<le> polls es"
  shows "ideal_drive img (es @ ata_command lba tot log) 0x1F0 = disk_word img (256 * unat lba + words_read es)"
proof -
  have "256 * unat (ucast (lba AND 255) :: u8) + 65536 * unat (ucast (drop_bit 8 lba) :: u8)
    + 16777216 * unat (ucast (drop_bit 16 lba) :: u8)
    + 4294967296 * (unat (ucast (drop_bit 24 lba OR 224) :: u8) mod 16) = 256 * unat lba"
    using lba_bytes [of lba] assms(1,2) by linarith
  then show ?thesis using assms(4)
    by (auto simp: ideal_drive_def command_events [OF assms(3)]) (simp_all add: ata_command_def outb_def)
qed

lemma ideal_drive: "ata_drive (ideal_drive img) img"
  unfolding ata_drive_def
proof (intro allI impI, elim conjE)
  fix lba tot :: u32 and log es r n
  assume a: "unat lba + unat tot \<le> 268435456" "0 < unat tot"
    and st: "pio_state (ideal_drive img) (ata_command lba tot log) es = Some (r, n)"
  note inv = ideal_state [OF st]
  then have es: "list_all pio_event es" by blast
  let ?log = "es @ ata_command lba tot log"
  have poll: "status_drq (ideal_drive img (replicate 1 (InB 0x1F7) @ ?log) 0x1F7)"
    using ideal_status [of "InB 0x1F7 # es" img lba tot log] es by (simp add: pio_event_def polls_def)
  show "(r \<longrightarrow> ideal_drive img ?log 0x1F0 = disk_word img (256 * unat lba + n))
    \<and> (\<not> r \<longrightarrow> (\<exists>k. status_drq (ideal_drive img (replicate k (InB 0x1F7) @ ?log) 0x1F7)))
    \<and> (let w = ideal_drive img ?log 0x1F7 in status_drq w \<longrightarrow> \<not> status_bsy w)"
    using inv ideal_word [OF a es, of img log] exI [where x = 1 and P = "\<lambda>k. status_drq (ideal_drive img (replicate k (InB 0x1F7) @ ?log) 0x1F7)", OF poll] ideal_status [OF es, of img lba tot log]
    unfolding Let_def by (simp split: if_splits)
qed

definition dev_example :: "(nat \<Rightarrow> u8) \<Rightarrow> dev_state" where
  "dev_example img = \<lparr>kmem = \<lambda>_. 0, roots = \<lambda>_. \<lparr>drive_no = 0, first_part = 0\<rparr>,
     parts = \<lambda>_. \<lparr>part_name = 0, next_part = 0\<rparr>, io_log = [],
     the_disk = \<lparr>disk_type = 0, sector_size = 512, disk_id = 0, filesystem = 0, fs_private = 0\<rparr>,
     streams = \<lambda>_. \<lparr>pos = 0x200, stream_disk = TheDisk\<rparr>\<rparr>"

section \<open>Properties\<close>

text \<open>
  C27: On a drive that follows the documented protocol, and gives the words of a sector only
  once its status showed them ready, \<open>disk_read_sector\<close> ends and leaves exactly the bytes of
  the sectors asked for in the buffer, for less than 256 sectors below the end of the 28-bit
  sector numbers.
\<close>

theorem disk_read_sector_reads:
  assumes "ata_drive hw img" and "unat lba + unat tot \<le> 268435456" and "0 < unat tot" and "unat tot < 256"
  shows "\<exists>log'. disk_read_sector hw lba tot buf log m =
    Some (0, log', mem_fill m buf (512 * unat tot) (\<lambda>i. img (512 * unat lba + i)))"
  using disk_read_sector_img [OF assms] .

theorem disk_read_sector_reads_witness:
  "\<exists>log' m. disk_read_sector (ideal_drive (\<lambda>k. of_nat (k div 512))) 7 2 0x9000 [] (\<lambda>_. 0) = Some (0, log', m)
    \<and> m 0x9000 = 7 \<and> m 0x9200 = 8"
  using disk_read_sector_reads [OF ideal_drive, of 7 2 "\<lambda>k. of_nat (k div 512)" "0x9000" "[]" "\<lambda>_. 0"]
  by (auto simp: mem_fill_def)

text \<open>
  C14: A read through a stream gives the bytes of the drive from the stream's position on and
  advances the position, exactly when the bytes lie in one sector or the position is at the
  start of a sector; any other read runs past the end of its 512-byte buffer.
\<close>

theorem diskstreamer_read_spec:
  assumes "ata_drive hw img" and "stream \<noteq> 0" and "stream_disk (streams s stream) = TheDisk"
    and "unat (pos (streams s stream)) + unat tot < 2147483648"
  shows "let p = unat (pos (streams s stream)) in
    if p mod 512 = 0 \<or> p mod 512 + unat tot \<le> 512
    then \<exists>s'. diskstreamer_read hw stream out tot s = ret (0, s')
      \<and> kmem s' = mem_fill (kmem s) out (unat tot) (\<lambda>i. img (p + i))
      \<and> unat (pos (streams s' stream)) = p + unat tot
    else diskstreamer_read hw stream out tot s = faulty OutOfBounds"
proof -
  have "unat (pos (streams s stream) + tot) = unat (pos (streams s stream)) + unat tot"
    using assms(4) by (simp add: unat_word_ariths)
  then show ?thesis
    using stream_read [OF assms(1-4), of out] by (auto simp: Let_def)
qed

theorem diskstreamer_read_spec_witness:
  "\<exists>s'. diskstreamer_read (ideal_drive of_nat) 0x1000000 0x9000 700 (dev_example of_nat) = ret (0, s')
    \<and> kmem s' 0x9001 = 1 \<and> unat (pos (streams s' 0x1000000)) = 1212"
  using diskstreamer_read_spec [OF ideal_drive, of "0x1000000" "dev_example of_nat" 700 of_nat "0x9000"]
  by (auto simp: dev_example_def mem_fill_def)

end
