(* ===== verification/File.thy ===== *)
theory File
  imports Disk
begin

text \<open>
  \<^verbatim>\<open>src/fs/file.c\<close> and the start of the disk in \<^verbatim>\<open>src/fs/disk.c\<close>: the table of
  filesystem drivers, the table of open files, and the calls \<open>fopen\<close>, \<open>fread\<close>, \<open>fseek\<close>,
  \<open>fstat\<close>, \<open>fclose\<close> that go through the driver of the disk. A driver, the function pointers
  of \<^verbatim>\<open>struct filesystem\<close>, is a record of operations on the state; \<open>drv\<close> gives the driver at
  an address.
\<close>

section \<open>State\<close>

record file_descriptor =
  fd_index :: u32
  fd_filesystem :: addr
  fd_private :: addr
  fd_disk :: disk_ptr

record file_state = dev_state +
  filesystems :: "addr list"
  file_descriptors :: "addr list"
  descs :: "addr \<Rightarrow> file_descriptor"

record 's fs_driver =
  drv_resolve :: "disk_ptr \<Rightarrow> 's \<Rightarrow> (u32 \<times> 's) prog"
  drv_open :: "disk_ptr \<Rightarrow> addr \<Rightarrow> u32 \<Rightarrow> 's \<Rightarrow> (addr \<times> 's) prog"
  drv_read :: "disk_ptr \<Rightarrow> addr \<Rightarrow> u32 \<Rightarrow> u32 \<Rightarrow> addr \<Rightarrow> 's \<Rightarrow> (u32 \<times> 's) prog"
  drv_seek :: "addr \<Rightarrow> u32 \<Rightarrow> u32 \<Rightarrow> 's \<Rightarrow> (u32 \<times> 's) prog"
  drv_stat :: "disk_ptr \<Rightarrow> addr \<Rightarrow> addr \<Rightarrow> 's \<Rightarrow> (u32 \<times> 's) prog"
  drv_close :: "addr \<Rightarrow> 's \<Rightarrow> (u32 \<times> 's) prog"

type_synonym 's drivers = "addr \<Rightarrow> 's fs_driver option"

abbreviation (input) DEXTER_MAX_FILESYSTEMS :: nat where "DEXTER_MAX_FILESYSTEMS \<equiv> 12"
abbreviation (input) DEXTER_MAX_FILE_DESCRIPTORS :: nat where "DEXTER_MAX_FILE_DESCRIPTORS \<equiv> 512"

abbreviation (input) FILE_MODE_READ :: u32 where "FILE_MODE_READ \<equiv> 0"
abbreviation (input) FILE_MODE_WRITE :: u32 where "FILE_MODE_WRITE \<equiv> 1"
abbreviation (input) FILE_MODE_APPEND :: u32 where "FILE_MODE_APPEND \<equiv> 2"
abbreviation (input) FILE_MODE_INVALID :: u32 where "FILE_MODE_INVALID \<equiv> 3"

definition with_driver :: "'s drivers \<Rightarrow> addr \<Rightarrow> ('s fs_driver \<Rightarrow> 'b prog) \<Rightarrow> 'b prog" where
  "with_driver drv fs k = (case drv fs of None \<Rightarrow> faulty NullDeref | Some d \<Rightarrow> k d)"

section \<open>Filesystems\<close>

text \<open>The pointer to a slot is the slot's number.\<close>

definition fs_get_free_filesystem :: "'a file_state_scheme \<Rightarrow> nat option" where
  "fs_get_free_filesystem s = find (\<lambda>i. filesystems s ! i = 0) [0..<DEXTER_MAX_FILESYSTEMS]"

text \<open>With no free slot the kernel hangs.\<close>

definition fs_insert_filesystem :: "addr \<Rightarrow> 'a file_state_scheme \<Rightarrow> 'a file_state_scheme prog" where
  "fs_insert_filesystem fs s =
     (case fs_get_free_filesystem s of
        None \<Rightarrow> None
      | Some i \<Rightarrow> ret (s\<lparr>filesystems := (filesystems s)[i := fs]\<rparr>))"

fun fs_resolve_loop ::
  "'a file_state_scheme drivers \<Rightarrow> disk_ptr \<Rightarrow> nat list \<Rightarrow> 'a file_state_scheme \<Rightarrow> (addr \<times> 'a file_state_scheme) prog" where
  "fs_resolve_loop drv dsk [] s = ret (0, s)"
| "fs_resolve_loop drv dsk (i # is) s =
     (if filesystems s ! i = 0 then fs_resolve_loop drv dsk is s
      else with_driver drv (filesystems s ! i) (\<lambda>d.
        prog_bind (drv_resolve d dsk s) (\<lambda>(r, s).
          if r = 0 then ret (filesystems s ! i, s) else fs_resolve_loop drv dsk is s)))"

definition fs_resolve ::
  "'a file_state_scheme drivers \<Rightarrow> disk_ptr \<Rightarrow> 'a file_state_scheme \<Rightarrow> (addr \<times> 'a file_state_scheme) prog" where
  "fs_resolve drv dsk s = fs_resolve_loop drv dsk [0..<DEXTER_MAX_FILESYSTEMS] s"

definition disk_search_and_init ::
  "'a file_state_scheme drivers \<Rightarrow> 'a file_state_scheme \<Rightarrow> 'a file_state_scheme prog" where
  "disk_search_and_init drv s =
     (let s = s\<lparr>the_disk := \<lparr>disk_type = 0, sector_size = 0, disk_id = 0, filesystem = 0, fs_private = 0\<rparr>\<rparr>;
          s = s\<lparr>the_disk := (the_disk s)\<lparr>disk_type := DEXTER_DISK_TYPE_REAL,
                sector_size := DEXTER_SECTOR_SIZE, disk_id := 0\<rparr>\<rparr>
      in prog_bind (fs_resolve drv TheDisk s) (\<lambda>(fs, s).
           ret (s\<lparr>the_disk := (the_disk s)\<lparr>filesystem := fs\<rparr>\<rparr>)))"

section \<open>File descriptors\<close>

text \<open>The result of \<open>kzalloc\<close> is not checked: NULL is written through.\<close>

definition file_new_descriptor :: "'a file_state_scheme \<Rightarrow> (u32 \<times> addr \<times> 'a file_state_scheme) prog" where
  "file_new_descriptor s =
     (case find (\<lambda>i. file_descriptors s ! i = 0) [0..<DEXTER_MAX_FILE_DESCRIPTORS] of
        None \<Rightarrow> ret (- ENOMEM, 0, s)
      | Some i \<Rightarrow>
          (case kzalloc (kmem s) 16 of (desc, m) \<Rightarrow>
             if desc = 0 then faulty NullDeref
             else ret (0, desc, s\<lparr>kmem := m,
               descs := (descs s)(desc := \<lparr>fd_index = of_nat (i + 1), fd_filesystem = 0, fd_private = 0, fd_disk = NoDisk\<rparr>),
               file_descriptors := (file_descriptors s)[i := desc]\<rparr>)))"

definition file_get_descriptor :: "u32 \<Rightarrow> 'a file_state_scheme \<Rightarrow> addr" where
  "file_get_descriptor fd s =
     (if fd \<le>s 0 \<or> of_nat DEXTER_MAX_FILE_DESCRIPTORS \<le>s fd then 0
      else let index = fd - 1 in file_descriptors s ! unat index)"

definition file_free_descriptor :: "addr \<Rightarrow> 'a file_state_scheme \<Rightarrow> 'a file_state_scheme prog" where
  "file_free_descriptor desc s =
     (let i = fd_index (descs s desc) - 1 in
      if unat i < DEXTER_MAX_FILE_DESCRIPTORS
      then ret (s\<lparr>file_descriptors := (file_descriptors s)[unat i := 0], kmem := kfree (kmem s) desc\<rparr>)
      else faulty OutOfBounds)"

section \<open>Calls\<close>

text \<open>
  \<^verbatim>\<open>strncmp(str, "r", 1)\<close> is 0 exactly when the first byte is the letter
  (lemma \<open>strncmp_one\<close>).
\<close>

definition file_get_mode_by_string :: "mem \<Rightarrow> addr \<Rightarrow> u32" where
  "file_get_mode_by_string m str =
     (if m str = 0x72 then FILE_MODE_READ
      else if m str = 0x77 then FILE_MODE_WRITE
      else if m str = 0x61 then FILE_MODE_APPEND
      else FILE_MODE_INVALID)"

definition fread ::
  "'a file_state_scheme drivers \<Rightarrow> addr \<Rightarrow> u32 \<Rightarrow> u32 \<Rightarrow> u32 \<Rightarrow> 'a file_state_scheme \<Rightarrow> (u32 \<times> 'a file_state_scheme) prog" where
  "fread drv ptr sz nmemb fd s =
     (if sz = 0 \<or> nmemb = 0 \<or> fd <s 1 then ret (- EINVARG, s)
      else
        let desc = file_get_descriptor fd s in
        if desc = 0 then ret (- EINVARG, s)
        else with_driver drv (fd_filesystem (descs s desc)) (\<lambda>d.
          drv_read d (fd_disk (descs s desc)) (fd_private (descs s desc)) sz nmemb ptr s))"

definition fclose ::
  "'a file_state_scheme drivers \<Rightarrow> u32 \<Rightarrow> 'a file_state_scheme \<Rightarrow> (u32 \<times> 'a file_state_scheme) prog" where
  "fclose drv fd s =
     (let desc = file_get_descriptor fd s in
      if desc = 0 then ret (- EIO, s)
      else with_driver drv (fd_filesystem (descs s desc)) (\<lambda>d.
        prog_bind (drv_close d (fd_private (descs s desc)) s) (\<lambda>(r, s).
          if r = 0 then prog_bind (file_free_descriptor desc s) (\<lambda>s. ret (r, s)) else ret (r, s))))"

definition fstat ::
  "'a file_state_scheme drivers \<Rightarrow> u32 \<Rightarrow> addr \<Rightarrow> 'a file_state_scheme \<Rightarrow> (u32 \<times> 'a file_state_scheme) prog" where
  "fstat drv fd stat s =
     (let desc = file_get_descriptor fd s in
      if desc = 0 then ret (- EIO, s)
      else with_driver drv (fd_filesystem (descs s desc)) (\<lambda>d.
        drv_stat d (fd_disk (descs s desc)) (fd_private (descs s desc)) stat s))"

text \<open>\<open>fseek\<close> tests the number, not the descriptor it found: a NULL descriptor is read.\<close>

definition fseek ::
  "'a file_state_scheme drivers \<Rightarrow> u32 \<Rightarrow> u32 \<Rightarrow> u32 \<Rightarrow> 'a file_state_scheme \<Rightarrow> (u32 \<times> 'a file_state_scheme) prog" where
  "fseek drv fd offset whence s =
     (let desc = file_get_descriptor fd s in
      if fd = 0 then ret (- EIO, s)
      else if desc = 0 then faulty NullDeref
      else with_driver drv (fd_filesystem (descs s desc)) (\<lambda>d.
        drv_seek d (fd_private (descs s desc)) offset whence s))"

text \<open>\<open>fopen\<close> up to the label \<^verbatim>\<open>out\<close>, and with it.\<close>

definition fopen_desc ::
  "'a file_state_scheme drivers \<Rightarrow> addr \<Rightarrow> u32 \<Rightarrow> disk_ptr \<Rightarrow> 'a file_state_scheme \<Rightarrow> (u32 \<times> 'a file_state_scheme) prog" where
  "fopen_desc drv first mode dsk s =
     (let fs = filesystem (the_disk s) in
      with_driver drv fs (\<lambda>d.
        prog_bind (drv_open d dsk first mode s) (\<lambda>(priv, s).
          if priv <s 0 then ret (priv, s)
          else
            prog_bind (file_new_descriptor s) (\<lambda>(r, desc, s).
              if r <s 0 then ret (r, s)
              else
                let s = s\<lparr>descs := (descs s)(desc := (descs s desc)\<lparr>fd_filesystem := filesystem (the_disk s),
                      fd_private := priv, fd_disk := dsk\<rparr>)\<rparr>
                in ret (fd_index (descs s desc), s)))))"

definition fopen_body ::
  "'a file_state_scheme drivers \<Rightarrow> addr \<Rightarrow> addr \<Rightarrow> 'a file_state_scheme \<Rightarrow> (u32 \<times> 'a file_state_scheme) prog" where
  "fopen_body drv filename mode_str s =
     prog_bind (pathparser_parse filename s) (\<lambda>(root_path, s).
       if root_path = 0 then ret (- EINVARG, s)
       else if first_part (roots s root_path) = 0 then ret (- EINVARG, s)
       else
         case disk_get (drive_no (roots s root_path)) of
           NoDisk \<Rightarrow> ret (- EIO, s)
         | TheDisk \<Rightarrow>
             if filesystem (the_disk s) = 0 then ret (- EIO, s)
             else
               let mode = file_get_mode_by_string (kmem s) mode_str in
               if mode = FILE_MODE_INVALID then ret (- EINVARG, s)
               else fopen_desc drv (first_part (roots s root_path)) mode TheDisk s)"

definition fopen ::
  "'a file_state_scheme drivers \<Rightarrow> addr \<Rightarrow> addr \<Rightarrow> 'a file_state_scheme \<Rightarrow> (u32 \<times> 'a file_state_scheme) prog" where
  "fopen drv filename mode_str s =
     prog_bind (fopen_body drv filename mode_str s) (\<lambda>(r, s).
       ret (if r <s 0 then 0 else r, s))"

end
