(* ===== verification/FileTable.thy ===== *)
theory FileTable
  imports File
begin

text \<open>
  What the calls of \<^verbatim>\<open>src/fs/file.c\<close> need of a driver, as a contract, and what they promise
  on top of it: the table of open files stays well formed, no two open files share a block of
  the heap, and descriptors behave like a map from numbers to the driver's handles.
\<close>

section \<open>Blocks\<close>

definition block_no :: "addr \<Rightarrow> nat" where
  "block_no p = (unat p - 16777216) div 4096"

lemma block_no_kblock [simp]: "b < 25600 \<Longrightarrow> block_no (kblock b) = b"
  by (simp add: block_no_def unat_kblock)

text \<open>Blocks in use before and after, with the same bytes.\<close>

definition keep_blocks :: "nat set \<Rightarrow> mem \<Rightarrow> mem \<Rightarrow> bool" where
  "keep_blocks K m m' \<longleftrightarrow> K \<subseteq> kused m' \<and> (\<forall>b \<in> K. \<forall>j < 4096. m' (kblock b + of_nat j) = m (kblock b + of_nat j))"

lemma keep_blocks_kext: "kext m m' \<Longrightarrow> K \<subseteq> kused m \<Longrightarrow> keep_blocks K m m'"
  unfolding keep_blocks_def by (auto dest: kextD(2) intro!: kextD(1) kblock_stable)

lemma keep_blocks_trans: "keep_blocks K m m' \<Longrightarrow> keep_blocks K m' m'' \<Longrightarrow> keep_blocks K m m''"
  by (simp add: keep_blocks_def)

lemma keep_blocks_free:
  assumes "b < 25600" "b \<notin> K" "K \<subseteq> kused m"
  shows "keep_blocks K m (kfree m (kblock b))"
proof -
  have "kfree m (kblock b) (kblock c + of_nat j) = m (kblock c + of_nat j)" if "c \<in> K" "j < 4096" for c j
  proof -
    have "c < 25600" using that(1) assms(3) kused_less by blast
    then have "unat (kblock c + of_nat j) = 16777216 + 4096 * c + j" using that(2) by (simp add: unat_kblock_add)
    moreover have "unat (0x7E00 + of_nat b :: u32) = 32256 + b" using assms(1) by (simp add: unat_word_ariths)
    ultimately have "unat (kblock c + of_nat j) \<noteq> unat (0x7E00 + of_nat b :: u32)" using assms(1) by linarith
    then have "kblock c + of_nat j \<noteq> 0x7E00 + of_nat b" by metis
    then show ?thesis by (simp add: kfree_block [OF assms(1)])
  qed
  then show ?thesis using assms by (auto simp: keep_blocks_def kused_kfree)
qed

text \<open>A buffer that touches neither the block table nor the blocks of a set.\<close>

definition clear_of :: "nat set \<Rightarrow> addr \<Rightarrow> nat \<Rightarrow> bool" where
  "clear_of K out k \<longleftrightarrow> (\<forall>i < k. 25600 \<le> unat (out + of_nat i - 0x7E00) \<and> (\<forall>b \<in> K. 4096 \<le> unat (out + of_nat i - kblock b)))"

lemma unchanged_outside_at:
  assumes "unchanged_outside m m' out k" "m' x \<noteq> m x"
  shows "\<exists>i < k. x = out + of_nat i"
proof -
  have "unat (x - out) < k" using assms unfolding unchanged_outside_def by (meson not_le)
  then show ?thesis by (intro exI [of _ "unat (x - out)"]) simp
qed

lemma clear_of_keep:
  assumes "unchanged_outside m m' out k" "clear_of K out k" "K \<subseteq> kused m"
  shows "kused m' = kused m" "keep_blocks K m m'"
proof -
  show u: "kused m' = kused m"
  proof (rule kused_cong_outside)
    fix b :: nat assume b: "b < 25600"
    show "m' (0x7E00 + of_nat b) = m (0x7E00 + of_nat b)"
    proof (rule ccontr)
      assume "m' (0x7E00 + of_nat b) \<noteq> m (0x7E00 + of_nat b)"
      from unchanged_outside_at [OF assms(1) this] obtain i where i: "i < k" "0x7E00 + of_nat b = out + of_nat i" by blast
      then have "unat (out + of_nat i - 0x7E00) = b" using b by (simp flip: i(2))
      with assms(2) i(1) b show False unfolding clear_of_def by (metis not_le)
    qed
  qed
  have "m' (kblock b + of_nat j) = m (kblock b + of_nat j)" if "b \<in> K" "j < 4096" for b j
  proof (rule ccontr)
    assume "m' (kblock b + of_nat j) \<noteq> m (kblock b + of_nat j)"
    from unchanged_outside_at [OF assms(1) this] obtain i where i: "i < k" "kblock b + of_nat j = out + of_nat i" by blast
    then have "unat (out + of_nat i - kblock b) = j" using that(2) by (simp flip: i(2))
    with assms(2) i(1) that show False unfolding clear_of_def by (metis not_le)
  qed
  with u assms(3) show "keep_blocks K m m'" by (auto simp: keep_blocks_def)
qed

section \<open>The contract of a driver\<close>

text \<open>What belongs to the file layer and the path parser.\<close>

definition file_part :: "'a file_state_scheme \<Rightarrow> disk \<times> addr list \<times> addr list \<times> (addr \<Rightarrow> file_descriptor)
    \<times> (addr \<Rightarrow> path_root) \<times> (addr \<Rightarrow> path_part)" where
  "file_part s = (the_disk s, filesystems s, file_descriptors s, descs s, roots s, parts s)"

text \<open>A part of a path whose name is one of those allowed and lies in a block in use.\<close>

definition part_at :: "(u8 list \<Rightarrow> bool) \<Rightarrow> 'a file_state_scheme \<Rightarrow> addr \<Rightarrow> bool" where
  "part_at named s p \<longleftrightarrow>
     (\<exists>nb w. part_name (parts s p) = kblock nb \<and> nb \<in> kused (kmem s) \<and> name_at (kmem s) nb w \<and> named w)"

section \<open>Well-formed tables of open files\<close>

text \<open>
  The table is judged against a driver: its address, when it is ready, the blocks it keeps for
  the volume, its handles and the blocks they own.
\<close>

definition slot_blocks :: "('a file_state_scheme \<Rightarrow> addr \<Rightarrow> nat set) \<Rightarrow> 'a file_state_scheme \<Rightarrow> addr \<Rightarrow> nat set" where
  "slot_blocks own s p = insert (block_no p) (own s (fd_private (descs s p)))"

definition slot_ok :: "addr \<Rightarrow> nat set \<Rightarrow> ('a file_state_scheme \<Rightarrow> addr \<Rightarrow> bool) \<Rightarrow>
    ('a file_state_scheme \<Rightarrow> addr \<Rightarrow> nat set) \<Rightarrow> 'a file_state_scheme \<Rightarrow> nat \<Rightarrow> addr \<Rightarrow> bool" where
  "slot_ok fs base handle own s i p \<longleftrightarrow>
     (\<exists>b. p = kblock b \<and> b \<in> kused (kmem s) \<and> b \<notin> base \<and> b \<notin> own s (fd_private (descs s p)))
     \<and> fd_index (descs s p) = of_nat (i + 1) \<and> fd_filesystem (descs s p) = fs \<and> fd_disk (descs s p) = TheDisk
     \<and> handle s (fd_private (descs s p)) \<and> own s (fd_private (descs s p)) \<inter> base = {}"

definition files_ok :: "addr \<Rightarrow> ('a file_state_scheme \<Rightarrow> bool) \<Rightarrow> nat set \<Rightarrow> ('a file_state_scheme \<Rightarrow> addr \<Rightarrow> bool) \<Rightarrow>
    ('a file_state_scheme \<Rightarrow> addr \<Rightarrow> nat set) \<Rightarrow> 'a file_state_scheme \<Rightarrow> bool" where
  "files_ok fs ready base handle own s \<longleftrightarrow> ready s \<and> filesystem (the_disk s) = fs \<and> fs \<noteq> 0 \<and> length (file_descriptors s) = 512
     \<and> (\<forall>i < 512. file_descriptors s ! i \<noteq> 0 \<longrightarrow> slot_ok fs base handle own s i (file_descriptors s ! i))
     \<and> (\<forall>i < 512. \<forall>j < 512. i \<noteq> j \<and> file_descriptors s ! i \<noteq> 0 \<and> file_descriptors s ! j \<noteq> 0 \<longrightarrow>
          slot_blocks own s (file_descriptors s ! i) \<inter> slot_blocks own s (file_descriptors s ! j) = {})"

text \<open>The abstract table: which handle a number stands for.\<close>

definition open_files :: "'a file_state_scheme \<Rightarrow> nat \<rightharpoonup> addr" where
  "open_files s i = (if i < 512 \<and> file_descriptors s ! i \<noteq> 0
     then Some (fd_private (descs s (file_descriptors s ! i))) else None)"

text \<open>The slot a descriptor number stands for; number 512 is refused.\<close>

definition fd_slot :: "u32 \<Rightarrow> nat option" where
  "fd_slot fd = (if 0 <s fd \<and> fd <s 512 then Some (unat fd - 1) else None)"

lemma fd_slot_Some: "fd_slot fd = Some i \<longleftrightarrow> unat fd = Suc i \<and> i < 511"
proof (cases "unat fd < 2147483648")
  case True
  then show ?thesis by (auto simp: fd_slot_def sless_small)
next
  case False
  then have "\<not> 0 <s fd" using unat_of_sint [of fd] nat_sint_less [of fd] by (auto simp: word_sless_alt)
  then show ?thesis using False by (simp add: fd_slot_def)
qed

lemma file_get_descriptor_slot:
  "file_get_descriptor fd s = (case fd_slot fd of None \<Rightarrow> 0 | Some i \<Rightarrow> file_descriptors s ! i)"
proof (cases "fd_slot fd")
  case None
  then show ?thesis by (auto simp: fd_slot_def file_get_descriptor_def word_sless_alt word_sle_eq split: if_splits)
next
  case (Some i)
  then have u: "unat fd = Suc i" "i < 511" by (simp_all add: fd_slot_Some)
  then have "fd \<noteq> 0" by auto
  then have "unat (fd - 1) = i" using u by (simp add: unat_dec)
  moreover have "\<not> fd \<le>s 0" "\<not> 512 \<le>s fd" using u by (simp_all add: word_sle_eq sint_small)
  ultimately show ?thesis using Some by (simp add: file_get_descriptor_def)
qed

section \<open>Calls and their specification\<close>

datatype file_call = Open addr addr | Close u32 | Read addr u32 u32 u32 | Seek u32 u32 u32 | Stat u32 addr

fun run_call :: "'a file_state_scheme drivers \<Rightarrow> file_call \<Rightarrow> 'a file_state_scheme \<Rightarrow> (u32 \<times> 'a file_state_scheme) prog" where
  "run_call drv (Open filename mode_str) s = fopen drv filename mode_str s"
| "run_call drv (Close fd) s = fclose drv fd s"
| "run_call drv (Read ptr sz nmemb fd) s = fread drv ptr sz nmemb fd s"
| "run_call drv (Seek fd offset whence) s = fseek drv fd offset whence s"
| "run_call drv (Stat fd stat) s = fstat drv fd stat s"

text \<open>
  The blocks of the open files: their descriptors and what the driver holds for them.
\<close>

definition file_blocks :: "('a file_state_scheme \<Rightarrow> addr \<Rightarrow> nat set) \<Rightarrow> 'a file_state_scheme \<Rightarrow> nat set" where
  "file_blocks own s = (\<Union>i \<in> {i. i < 512 \<and> file_descriptors s ! i \<noteq> 0}. slot_blocks own s (file_descriptors s ! i))"

text \<open>
  What a caller has to see to: names are strings outside the free part of the heap, enough of
  which is left to open them, and of those the driver speaks of; buffers stay clear of the
  block table and of the blocks in \<open>keep\<close>, which are the volume's and those of the open files.
\<close>

fun call_ok :: "nat set \<Rightarrow> nat \<Rightarrow> (u8 list \<Rightarrow> bool) \<Rightarrow> 'a file_state_scheme \<Rightarrow> file_call \<Rightarrow> bool" where
  "call_ok keep room named s (Open filename mode_str) \<longleftrightarrow> (\<exists>bs. cstr (kmem s) filename bs \<and> length bs < 2147483648
     \<and> kstable_block (kmem s) filename (Suc (length bs))
     \<and> card (kused (kmem s)) + 2 * length (components (drop 3 bs)) + room + 2 \<le> 25600
     \<and> list_all named (take 1 (components (drop 3 bs))))"
| "call_ok keep room named s (Read ptr sz nmemb fd) \<longleftrightarrow>
     unat sz * unat nmemb < 4294967296 \<and> clear_of keep ptr (unat sz * unat nmemb)"
| "call_ok keep room named s (Stat fd stat) \<longleftrightarrow> clear_of keep stat 8"
| "call_ok keep room named s _ \<longleftrightarrow> True"

text \<open>The abstract file table: a partial map from slots to handles, and what a call may do to it.\<close>

definition least_free :: "(nat \<rightharpoonup> addr) \<Rightarrow> nat \<Rightarrow> bool" where
  "least_free f i \<longleftrightarrow> i < 512 \<and> f i = None \<and> (\<forall>j < i. f j \<noteq> None)"

fun table_spec :: "file_call \<Rightarrow> (nat \<rightharpoonup> addr) \<Rightarrow> u32 \<Rightarrow> (nat \<rightharpoonup> addr) \<Rightarrow> bool" where
  "table_spec (Open filename mode_str) f r f' \<longleftrightarrow>
     r = 0 \<and> f' = f \<or> (\<exists>i h. least_free f i \<and> r = of_nat (i + 1) \<and> f' = f(i \<mapsto> h))"
| "table_spec (Close fd) f r f' \<longleftrightarrow>
     (case fd_slot fd of
        Some i \<Rightarrow> if f i \<noteq> None then r = 0 \<and> f' = f(i := None) else r = - EIO \<and> f' = f
      | None \<Rightarrow> r = - EIO \<and> f' = f)"
| "table_spec _ f r f' \<longleftrightarrow> f' = f"

inductive file_reach :: "'a file_state_scheme drivers \<Rightarrow> ('a file_state_scheme \<Rightarrow> nat set) \<Rightarrow> nat \<Rightarrow>
    (u8 list \<Rightarrow> bool) \<Rightarrow> 'a file_state_scheme \<Rightarrow> 'a file_state_scheme \<Rightarrow> bool"
  for drv keep room named s0 where
  start: "file_reach drv keep room named s0 s0"
| call: "file_reach drv keep room named s0 s \<Longrightarrow> call_ok (keep s) room named s c \<Longrightarrow> run_call drv c s = ret (r, s') \<Longrightarrow>
    file_reach drv keep room named s0 s'"

lemma open_files_Some: "i < 512 \<Longrightarrow> open_files s i \<noteq> None \<longleftrightarrow> file_descriptors s ! i \<noteq> 0"
  by (simp add: open_files_def)

lemma find_least_free: "find (\<lambda>i. file_descriptors s ! i = 0) [0..<512] = Some i \<Longrightarrow> least_free (open_files s) i"
  by (auto simp: least_free_def open_files_def find_Some_iff)

section \<open>Opening, step by step\<close>

text \<open>After the driver has opened the file: the least free slot gets a new descriptor.\<close>

lemma fopen_desc_run:
  assumes "drv (filesystem (the_disk s)) = Some d" "drv_open d dsk p mode s = ret (h, s2)" "\<not> h <s 0"
    "find (\<lambda>i. file_descriptors s2 ! i = 0) [0..<512] = Some i" "kzalloc (kmem s2) 16 = (kblock b, m)" "b < 25600"
  shows "fopen_desc drv p mode dsk s = ret (of_nat (i + 1), s2\<lparr>kmem := m, file_descriptors := (file_descriptors s2)[i := kblock b],
      descs := (descs s2)(kblock b := \<lparr>fd_index = of_nat (i + 1), fd_filesystem = filesystem (the_disk s2), fd_private = h, fd_disk = dsk\<rparr>)\<rparr>)"
proof -
  have "kblock b \<noteq> 0" using assms(6) by (rule kblock_nonzero)
  then have "file_new_descriptor s2 = ret (0, kblock b, s2\<lparr>kmem := m,
      descs := (descs s2)(kblock b := \<lparr>fd_index = of_nat (i + 1), fd_filesystem = 0, fd_private = 0, fd_disk = NoDisk\<rparr>),
      file_descriptors := (file_descriptors s2)[i := kblock b]\<rparr>)"
    using assms(4,5) by (simp add: file_new_descriptor_def)
  then show ?thesis
    using assms(1-3) by (simp add: fopen_desc_def with_driver_def)
qed

lemma fopen_desc_failed:
  assumes "drv (filesystem (the_disk s)) = Some d" "drv_open d dsk p mode s = ret (h, s2)" "h <s 0"
  shows "fopen_desc drv p mode dsk s = ret (h, s2)"
  using assms by (simp add: fopen_desc_def with_driver_def)

text \<open>After the path has been parsed.\<close>

lemma fopen_parsed:
  assumes "pathparser_parse filename s = ret (kblock rb, s1)" "rb < 25600" "filesystem (the_disk s1) \<noteq> 0"
  shows "fopen drv filename mode_str s =
    (let fp = first_part (roots s1 (kblock rb)); mode = file_get_mode_by_string (kmem s1) mode_str in
     if fp = 0 \<or> disk_get (drive_no (roots s1 (kblock rb))) = NoDisk \<or> mode = FILE_MODE_INVALID then ret (0, s1)
     else prog_bind (fopen_desc drv fp mode TheDisk s1) (\<lambda>(r, s). ret (if r <s 0 then 0 else r, s)))"
proof -
  have "kblock rb \<noteq> 0" using assms(2) by (rule kblock_nonzero)
  moreover have "(- 1 :: u32) <s 0" "(- 2 :: u32) <s 0" by (simp_all add: word_sless_alt)
  ultimately show ?thesis
    using assms(1,3) by (cases "first_part (roots s1 (kblock rb)) = 0"; cases "disk_get (drive_no (roots s1 (kblock rb)))")
      (simp_all add: fopen_def fopen_body_def Let_def)
qed

locale fs_contract =
  fixes drv :: "'a file_state_scheme drivers"
    and fs :: addr
    and d :: "'a file_state_scheme fs_driver"
    and ready :: "'a file_state_scheme \<Rightarrow> bool"
    and base :: "nat set"
    and handle :: "'a file_state_scheme \<Rightarrow> addr \<Rightarrow> bool"
    and own :: "'a file_state_scheme \<Rightarrow> addr \<Rightarrow> nat set"
    and room :: nat
    and named :: "u8 list \<Rightarrow> bool"
  assumes driver: "drv fs = Some d"
    and ready_base: "ready s \<Longrightarrow> base \<subseteq> kused (kmem s)"
    and handle_own: "handle s h \<Longrightarrow> own s h \<subseteq> kused (kmem s)"
    and ready_frame: "ready s \<Longrightarrow> keep_blocks base (kmem s) m \<Longrightarrow>
      ready (s\<lparr>kmem := m, roots := rs, parts := ps, file_descriptors := f, descs := ds\<rparr>)"
    and handle_frame: "handle s h \<Longrightarrow> own s h \<subseteq> kused m \<Longrightarrow>
      handle (s\<lparr>kmem := m, roots := rs, parts := ps, file_descriptors := f, descs := ds\<rparr>) h
      \<and> own (s\<lparr>kmem := m, roots := rs, parts := ps, file_descriptors := f, descs := ds\<rparr>) h = own s h"
    and open_file: "ready s \<Longrightarrow> part_at named s p \<Longrightarrow> card (kused (kmem s)) + room \<le> 25600 \<Longrightarrow>
      \<exists>h s'. drv_open d TheDisk p mode s = ret (h, s') \<and> file_part s' = file_part s \<and> kext (kmem s) (kmem s')
        \<and> card (kused (kmem s')) \<le> card (kused (kmem s)) + room \<and> ready s'
        \<and> (\<forall>h'. handle s h' \<longrightarrow> handle s' h' \<and> own s' h' = own s h')
        \<and> (\<not> h <s 0 \<longrightarrow> handle s' h \<and> own s' h \<inter> kused (kmem s) = {})"
    and close_file: "ready s \<Longrightarrow> handle s h \<Longrightarrow> own s h \<inter> base = {} \<Longrightarrow>
      \<exists>s'. drv_close d h s = ret (0, s') \<and> file_part s' = file_part s \<and> kused (kmem s') = kused (kmem s) - own s h \<and> ready s'
        \<and> (\<forall>h'. handle s h' \<and> own s h' \<inter> own s h = {} \<longrightarrow> handle s' h' \<and> own s' h' = own s h')"
    and seek_file: "ready s \<Longrightarrow> handle s h \<Longrightarrow>
      \<exists>r s'. drv_seek d h offset whence s = ret (r, s') \<and> file_part s' = file_part s \<and> kused (kmem s') = kused (kmem s) \<and> ready s'
        \<and> (\<forall>h'. handle s h' \<longrightarrow> handle s' h' \<and> own s' h' = own s h')"
    and stat_file: "ready s \<Longrightarrow> handle s h \<Longrightarrow> clear_of base st 8 \<Longrightarrow>
      \<exists>r s'. drv_stat d TheDisk h st s = ret (r, s') \<and> file_part s' = file_part s \<and> kused (kmem s') = kused (kmem s) \<and> ready s'
        \<and> (\<forall>h'. handle s h' \<longrightarrow> handle s' h' \<and> own s' h' = own s h')"
    and read_file: "ready s \<Longrightarrow> handle s h \<Longrightarrow> unat sz * unat n < 4294967296 \<Longrightarrow> clear_of base out (unat sz * unat n) \<Longrightarrow>
      drv_read d TheDisk h sz n out s = ret (r, s') \<Longrightarrow>
      file_part s' = file_part s \<and> kused (kmem s') = kused (kmem s) \<and> ready s'
        \<and> (\<forall>h'. handle s h' \<longrightarrow> handle s' h' \<and> own s' h' = own s h')"
begin

abbreviation ok where "ok \<equiv> files_ok fs ready base handle own"
abbreviation sok where "sok \<equiv> slot_ok fs base handle own"

lemma okD:
  assumes "ok s"
  shows "ready s" "filesystem (the_disk s) = fs" "fs \<noteq> 0" "length (file_descriptors s) = 512"
    "i < 512 \<Longrightarrow> file_descriptors s ! i \<noteq> 0 \<Longrightarrow> sok s i (file_descriptors s ! i)"
    "i < 512 \<Longrightarrow> j < 512 \<Longrightarrow> i \<noteq> j \<Longrightarrow> file_descriptors s ! i \<noteq> 0 \<Longrightarrow> file_descriptors s ! j \<noteq> 0 \<Longrightarrow>
      slot_blocks own s (file_descriptors s ! i) \<inter> slot_blocks own s (file_descriptors s ! j) = {}"
  using assms by (simp_all add: files_ok_def)

lemma okI:
  assumes "ready s" "filesystem (the_disk s) = fs" "fs \<noteq> 0" "length (file_descriptors s) = 512"
    "\<And>i. i < 512 \<Longrightarrow> file_descriptors s ! i \<noteq> 0 \<Longrightarrow> sok s i (file_descriptors s ! i)"
    "\<And>i j. i < 512 \<Longrightarrow> j < 512 \<Longrightarrow> i \<noteq> j \<Longrightarrow> file_descriptors s ! i \<noteq> 0 \<Longrightarrow> file_descriptors s ! j \<noteq> 0 \<Longrightarrow>
      slot_blocks own s (file_descriptors s ! i) \<inter> slot_blocks own s (file_descriptors s ! j) = {}"
  shows "ok s"
  unfolding files_ok_def using assms by blast

lemma slot_used: "sok s i p \<Longrightarrow> slot_blocks own s p \<subseteq> kused (kmem s) - base"
  using handle_own [of s "fd_private (descs s p)"] kused_less
  by (auto simp: slot_ok_def slot_blocks_def)

lemma slot_block: "sok s i p \<Longrightarrow> p = kblock (block_no p) \<and> block_no p \<in> kused (kmem s) \<and> block_no p < 25600"
  using kused_less by (auto simp: slot_ok_def)

text \<open>What the driver keeps of its handles; a slot depends on its descriptor and its handle only.\<close>

definition kept :: "'a file_state_scheme \<Rightarrow> 'a file_state_scheme \<Rightarrow> bool" where
  "kept s s' \<longleftrightarrow> (\<forall>h. handle s h \<longrightarrow> handle s' h \<and> own s' h = own s h)"

lemma slot_same:
  assumes "sok s i p" "descs s' p = descs s p" "handle s' (fd_private (descs s p))"
    "own s' (fd_private (descs s p)) = own s (fd_private (descs s p))" "block_no p \<in> kused (kmem s')"
  shows "sok s' i p" "slot_blocks own s' p = slot_blocks own s p"
  using assms kused_less by (auto simp: slot_ok_def slot_blocks_def)

lemma slot_keep:
  assumes "sok s i p" "descs s' p = descs s p" "kept s s'" "kused (kmem s) \<subseteq> kused (kmem s')"
  shows "sok s' i p" "slot_blocks own s' p = slot_blocks own s p"
proof -
  have "handle s (fd_private (descs s p))" using assms(1) by (simp add: slot_ok_def)
  then have "handle s' (fd_private (descs s p))" "own s' (fd_private (descs s p)) = own s (fd_private (descs s p))"
    using assms(3) by (simp_all add: kept_def)
  moreover have "block_no p \<in> kused (kmem s')" using slot_block [OF assms(1)] assms(4) by blast
  ultimately show "sok s' i p" "slot_blocks own s' p = slot_blocks own s p"
    using slot_same [OF assms(1,2)] by blast+
qed

lemma ok_keep:
  assumes "ok s" "ready s'" "kept s s'" "kused (kmem s) \<subseteq> kused (kmem s')"
    "the_disk s' = the_disk s" "file_descriptors s' = file_descriptors s" "descs s' = descs s"
  shows "ok s'" "open_files s' = open_files s"
proof -
  note o = okD [OF assms(1)]
  note k = slot_keep [OF o(5) _ assms(3,4), unfolded assms(7), OF _ _ refl]
  show "ok s'"
    by (rule okI) (use assms(2) o(2,3,4,6) k assms(5,6) in \<open>simp_all\<close>)
  show "open_files s' = open_files s" using assms(6,7) by (simp add: open_files_def fun_eq_iff)
qed

lemma ok_part:
  assumes "ok s" "file_part s' = file_part s" "ready s'" "kept s s'" "kused (kmem s) \<subseteq> kused (kmem s')"
  shows "ok s'" "open_files s' = open_files s"
  using ok_keep [OF assms(1,3,4,5)] assms(2) by (simp_all add: file_part_def)

lemma ok_frame:
  assumes "ok s" "kext (kmem s) m"
  shows "ok (s\<lparr>kmem := m, roots := rs, parts := ps\<rparr>)"
    "kept s (s\<lparr>kmem := m, roots := rs, parts := ps\<rparr>)"
    "open_files (s\<lparr>kmem := m, roots := rs, parts := ps\<rparr>) = open_files s"
proof -
  let ?s = "s\<lparr>kmem := m, roots := rs, parts := ps\<rparr>"
  have r: "ready s" using assms(1) by (rule okD)
  have "keep_blocks base (kmem s) m" using assms(2) ready_base [OF r] by (rule keep_blocks_kext)
  then have r': "ready ?s"
    using ready_frame [OF r, where rs = rs and ps = ps and f = "file_descriptors s" and ds = "descs s"] by simp
  have "handle ?s h \<and> own ?s h = own s h" if "handle s h" for h
    using handle_frame [OF that, where m = m and rs = rs and ps = ps and f = "file_descriptors s" and ds = "descs s"]
      handle_own [OF that] kextD(2) [OF assms(2)] by simp
  then show k: "kept s ?s" by (simp add: kept_def)
  show "ok ?s" "open_files ?s = open_files s"
    using ok_keep [OF assms(1) r' k] kextD(2) [OF assms(2)] by simp_all
qed

section \<open>A new slot\<close>

lemma ok_add:
  assumes "ok s" "handle s h" "own s h \<inter> base = {}"
    "\<And>j. j < 512 \<Longrightarrow> file_descriptors s ! j \<noteq> 0 \<Longrightarrow> slot_blocks own s (file_descriptors s ! j) \<inter> own s h = {}"
    "i < 512" "file_descriptors s ! i = 0" "b < 25600" "b \<notin> kused (kmem s)" "kused m = insert b (kused (kmem s))"
    "kext (kmem s) m"
  defines "s' \<equiv> s\<lparr>kmem := m, file_descriptors := (file_descriptors s)[i := kblock b],
      descs := (descs s)(kblock b := \<lparr>fd_index = of_nat (i + 1), fd_filesystem = fs, fd_private = h, fd_disk = TheDisk\<rparr>)\<rparr>"
  shows "ok s'" "open_files s' = (open_files s)(i \<mapsto> h)"
proof -
  note o = okD [OF assms(1)]
  let ?f = "(file_descriptors s)[i := kblock b]"
  let ?ds = "(descs s)(kblock b := \<lparr>fd_index = of_nat (i + 1), fd_filesystem = fs, fd_private = h, fd_disk = TheDisk\<rparr>)"
  have r: "ready s'"
    using ready_frame [OF o(1) keep_blocks_kext [OF assms(10) ready_base [OF o(1)]],
        where rs = "roots s" and ps = "parts s" and f = ?f and ds = ?ds] by (simp add: s'_def)
  have "handle s' h' \<and> own s' h' = own s h'" if "handle s h'" for h'
    using handle_frame [OF that, where m = m and rs = "roots s" and ps = "parts s" and f = ?f and ds = ?ds]
      handle_own [OF that] kextD(2) [OF assms(10)] by (simp add: s'_def)
  then have k: "kept s s'" by (simp add: kept_def)
  have nz: "kblock b \<noteq> 0" using assms(7) by (rule kblock_nonzero)
  have h: "handle s' h" "own s' h = own s h" using k assms(2) by (simp_all add: kept_def)
  have hb: "own s h \<subseteq> kused (kmem s)" using assms(2) by (rule handle_own)
  have new: "sok s' i (kblock b)" "slot_blocks own s' (kblock b) = insert b (own s h)"
  proof -
    have d: "descs s' (kblock b) = \<lparr>fd_index = of_nat (i + 1), fd_filesystem = fs, fd_private = h, fd_disk = TheDisk\<rparr>"
      by (simp add: s'_def)
    have "b \<notin> base" "b \<notin> own s h" using assms(8) ready_base [OF o(1)] hb by blast+
    then show "sok s' i (kblock b)" using d h assms(3,9) by (auto simp: slot_ok_def s'_def)
    show "slot_blocks own s' (kblock b) = insert b (own s h)" using d h assms(7) by (simp add: slot_blocks_def)
  qed
  have old: "sok s' j (file_descriptors s ! j)" "slot_blocks own s' (file_descriptors s ! j) = slot_blocks own s (file_descriptors s ! j)"
      "b \<notin> slot_blocks own s (file_descriptors s ! j)" "descs s' (file_descriptors s ! j) = descs s (file_descriptors s ! j)"
    if "j < 512" "file_descriptors s ! j \<noteq> 0" for j
  proof -
    note sj = o(5) [OF that]
    have "block_no (file_descriptors s ! j) \<noteq> b" using slot_block [OF sj] assms(8) by blast
    then have "file_descriptors s ! j \<noteq> kblock b" using assms(7) by auto
    then show d: "descs s' (file_descriptors s ! j) = descs s (file_descriptors s ! j)" by (simp add: s'_def)
    show "sok s' j (file_descriptors s ! j)" "slot_blocks own s' (file_descriptors s ! j) = slot_blocks own s (file_descriptors s ! j)"
      using slot_keep [OF sj d k] assms(9) by (auto simp: s'_def)
    show "b \<notin> slot_blocks own s (file_descriptors s ! j)" using slot_used [OF sj] assms(8) by blast
  qed
  have fd: "file_descriptors s' ! j = (if j = i then kblock b else file_descriptors s ! j)" if "j < 512" for j
    using that o(4) by (simp add: s'_def nth_list_update)
  show "ok s'"
  proof (rule okI [OF r])
    show "filesystem (the_disk s') = fs" "fs \<noteq> 0" "length (file_descriptors s') = 512" using o(2,3,4) by (simp_all add: s'_def)
    show "sok s' j (file_descriptors s' ! j)" if "j < 512" "file_descriptors s' ! j \<noteq> 0" for j
      using that new(1) old(1) fd by (cases "j = i") simp_all
    show "slot_blocks own s' (file_descriptors s' ! j) \<inter> slot_blocks own s' (file_descriptors s' ! l) = {}"
      if "j < 512" "l < 512" "j \<noteq> l" "file_descriptors s' ! j \<noteq> 0" "file_descriptors s' ! l \<noteq> 0" for j l
      using that fd o(6) [of j l] assms(4) [of j] assms(4) [of l] new(2) old(2,3) by (cases "j = i"; cases "l = i") auto
  qed
  show "open_files s' = (open_files s)(i \<mapsto> h)"
  proof
    fix j
    have "fd_private (descs s' (kblock b)) = h" by (simp add: s'_def)
    then show "open_files s' j = ((open_files s)(i \<mapsto> h)) j"
      using fd [of j] nz old(4) [of j] assms(5) by (cases "j = i") (auto simp: open_files_def)
  qed
qed


section \<open>A released slot\<close>

lemma ok_remove:
  assumes "ok s" "i < 512" "file_descriptors s ! i = p" "p \<noteq> 0" "file_part s1 = file_part s"
    "kused (kmem s1) = kused (kmem s) - own s (fd_private (descs s p))" "ready s1"
    "\<And>h'. handle s h' \<Longrightarrow> own s h' \<inter> own s (fd_private (descs s p)) = {} \<Longrightarrow> handle s1 h' \<and> own s1 h' = own s h'"
  defines "s' \<equiv> s1\<lparr>kmem := kfree (kmem s1) p, file_descriptors := (file_descriptors s)[i := 0]\<rparr>"
  shows "ok s'" "open_files s' = (open_files s)(i := None)" "kused (kmem s') = kused (kmem s) - slot_blocks own s p"
proof -
  note o = okD [OF assms(1)]
  have si: "sok s i p" using o(5) [OF assms(2)] assms(3,4) by simp
  let ?b = "block_no p"
  have b: "p = kblock ?b" "?b \<in> kused (kmem s)" "?b < 25600" using slot_block [OF si] by blast+
  have sb: "slot_blocks own s p = insert ?b (own s (fd_private (descs s p)))" by (simp add: slot_blocks_def)
  have p1: "descs s1 = descs s" "file_descriptors s1 = file_descriptors s" "the_disk s1 = the_disk s"
    using assms(5) by (simp_all add: file_part_def)
  have used: "kused (kmem s') = kused (kmem s1) - {?b}"
    using kused_kfree [OF b(3), of "kmem s1"] b(1) by (simp add: s'_def)
  then show u: "kused (kmem s') = kused (kmem s) - slot_blocks own s p" unfolding sb assms(6) by blast
  have base: "base \<subseteq> kused (kmem s1)" by (rule ready_base [OF assms(7)])
  have nb: "?b \<notin> base" using slot_used [OF si] sb by blast
  have "keep_blocks base (kmem s1) (kfree (kmem s1) p)"
    using keep_blocks_free [OF b(3) nb base] b(1) by simp
  then have r: "ready s'"
    using ready_frame [OF assms(7), where rs = "roots s1" and ps = "parts s1" and f = "(file_descriptors s)[i := 0]" and ds = "descs s1"]
    by (simp add: s'_def)
  have keep: "handle s' h \<and> own s' h = own s h"
    if "handle s h" "own s h \<inter> own s (fd_private (descs s p)) = {}" "?b \<notin> own s h" for h
  proof -
    have 1: "handle s1 h" "own s1 h = own s h" using assms(8) that(1,2) by simp_all
    have "own s1 h \<subseteq> kused (kfree (kmem s1) p)"
      using handle_own [OF 1(1)] that(3) 1(2) used by (auto simp: s'_def)
    from handle_frame [OF 1(1) this, where rs = "roots s1" and ps = "parts s1" and f = "(file_descriptors s)[i := 0]" and ds = "descs s1"] 1(2)
    show ?thesis by (simp add: s'_def)
  qed
  have d': "descs s' = descs s" using p1 by (simp add: s'_def)
  have old: "sok s' j (file_descriptors s ! j)" "slot_blocks own s' (file_descriptors s ! j) = slot_blocks own s (file_descriptors s ! j)"
    if "j < 512" "j \<noteq> i" "file_descriptors s ! j \<noteq> 0" for j
  proof -
    let ?q = "file_descriptors s ! j"
    note sj = o(5) [OF that(1,3)]
    have dis: "slot_blocks own s ?q \<inter> slot_blocks own s p = {}" using o(6) [OF that(1) assms(2) that(2,3)] assms(3,4) by simp
    have "handle s (fd_private (descs s ?q))" using sj by (simp add: slot_ok_def)
    moreover have "own s (fd_private (descs s ?q)) \<inter> own s (fd_private (descs s p)) = {}" "?b \<notin> own s (fd_private (descs s ?q))"
      using dis by (auto simp: slot_blocks_def)
    ultimately have k: "handle s' (fd_private (descs s ?q))" "own s' (fd_private (descs s ?q)) = own s (fd_private (descs s ?q))"
      using keep by blast+
    have "block_no ?q \<in> slot_blocks own s ?q" by (simp add: slot_blocks_def)
    then have "block_no ?q \<in> kused (kmem s')" unfolding u using slot_block [OF sj] dis by blast
    with slot_same [OF sj _ k] show "sok s' j ?q" "slot_blocks own s' ?q = slot_blocks own s ?q" using d' by simp_all
  qed
  have fd: "file_descriptors s' ! j = (if j = i then 0 else file_descriptors s ! j)" if "j < 512" for j
    using that o(4) by (simp add: s'_def nth_list_update)
  show "ok s'"
  proof (rule okI [OF r])
    show "filesystem (the_disk s') = fs" "fs \<noteq> 0" "length (file_descriptors s') = 512" using o(2,3,4) p1 by (simp_all add: s'_def)
    show "sok s' j (file_descriptors s' ! j)" if "j < 512" "file_descriptors s' ! j \<noteq> 0" for j
      using that old(1) fd by (cases "j = i") simp_all
    show "slot_blocks own s' (file_descriptors s' ! j) \<inter> slot_blocks own s' (file_descriptors s' ! l) = {}"
      if "j < 512" "l < 512" "j \<noteq> l" "file_descriptors s' ! j \<noteq> 0" "file_descriptors s' ! l \<noteq> 0" for j l
      using that fd o(6) [of j l] old(2) by (cases "j = i"; cases "l = i") auto
  qed
  show "open_files s' = (open_files s)(i := None)"
    using fd d' by (auto simp: open_files_def fun_eq_iff)
qed

section \<open>The calls\<close>

lemma fclose_open:
  assumes "ok s" "fd_slot fd = Some i" "file_descriptors s ! i \<noteq> 0"
  shows "\<exists>s'. fclose drv fd s = ret (0, s') \<and> ok s' \<and> open_files s' = (open_files s)(i := None)
    \<and> kused (kmem s') = kused (kmem s) - slot_blocks own s (file_descriptors s ! i)
    \<and> file_descriptors s' = (file_descriptors s)[i := 0]"
proof -
  let ?p = "file_descriptors s ! i" and ?h = "fd_private (descs s (file_descriptors s ! i))"
  note o = okD [OF assms(1)]
  have i: "i < 511" using assms(2) by (simp add: fd_slot_Some)
  have si: "sok s i ?p" using o(5) [OF _ assms(3)] i by simp
  have h: "handle s ?h" "own s ?h \<inter> base = {}" and x: "fd_index (descs s ?p) = of_nat (i + 1)" "fd_filesystem (descs s ?p) = fs"
    using si by (simp_all add: slot_ok_def)
  obtain s1 where c: "drv_close d ?h s = ret (0, s1)" "file_part s1 = file_part s" "kused (kmem s1) = kused (kmem s) - own s ?h" "ready s1"
    "\<And>h'. handle s h' \<Longrightarrow> own s h' \<inter> own s ?h = {} \<Longrightarrow> handle s1 h' \<and> own s1 h' = own s h'"
    using close_file [OF o(1) h] by blast
  have "i < 512" using i by simp
  note rem = ok_remove [OF assms(1) this refl assms(3) c(2,3,4,5)]
  have p1: "descs s1 = descs s" "file_descriptors s1 = file_descriptors s" using c(2) by (simp_all add: file_part_def)
  define s' where "s' = s1\<lparr>kmem := kfree (kmem s1) ?p, file_descriptors := (file_descriptors s)[i := 0]\<rparr>"
  have "file_free_descriptor ?p s1 = ret s'"
    using x(1) i p1 unfolding s'_def by (simp add: file_free_descriptor_def)
  then have "fclose drv fd s = ret (0, s')"
    using assms(2,3) driver x(2) c(1) by (simp add: fclose_def file_get_descriptor_slot with_driver_def)
  moreover have "file_descriptors s' = (file_descriptors s)[i := 0]" by (simp add: s'_def)
  ultimately show ?thesis using rem [folded s'_def] by blast
qed

lemma fclose_other:
  assumes "fd_slot fd = None \<or> fd_slot fd = Some i \<and> file_descriptors s ! i = 0"
  shows "fclose drv fd s = ret (- EIO, s)"
  using assms by (auto simp: fclose_def file_get_descriptor_slot)


lemma fopen_desc_ok:
  assumes "ok s" "part_at named s p" "card (kused (kmem s)) + room + 1 \<le> 25600"
  shows "\<exists>r s'. fopen_desc drv p mode TheDisk s = ret (r, s') \<and> ok s' \<and> kused (kmem s) \<subseteq> kused (kmem s')
    \<and> (r <s 0 \<and> open_files s' = open_files s
      \<or> (\<exists>h i. find (\<lambda>i. file_descriptors s ! i = 0) [0..<512] = Some i \<and> r = of_nat (i + 1)
           \<and> open_files s' = (open_files s)(i \<mapsto> h)))"
proof -
  note o = okD [OF assms(1)]
  obtain h s2 where op: "drv_open d TheDisk p mode s = ret (h, s2)" "file_part s2 = file_part s" "kext (kmem s) (kmem s2)"
    "card (kused (kmem s2)) \<le> card (kused (kmem s)) + room" "ready s2" "kept s s2"
    and h: "\<not> h <s 0 \<Longrightarrow> handle s2 h \<and> own s2 h \<inter> kused (kmem s) = {}"
    using open_file [OF o(1) assms(2), of mode] assms(3) unfolding kept_def by auto
  have p2: "the_disk s2 = the_disk s" "file_descriptors s2 = file_descriptors s" "descs s2 = descs s"
    using op(2) by (simp_all add: file_part_def)
  have sub: "kused (kmem s) \<subseteq> kused (kmem s2)" using op(3) by (rule kextD(2))
  note ok2 = ok_part [OF assms(1) op(2,5,6) sub]
  show ?thesis
  proof (cases "h <s 0")
    case True
    then have "fopen_desc drv p mode TheDisk s = ret (h, s2)"
      using fopen_desc_failed [of drv s d] op(1) o(2) driver by simp
    with ok2 sub True show ?thesis by blast
  next
    case False
    show ?thesis
    proof (cases "find (\<lambda>i. file_descriptors s ! i = 0) [0..<512]")
      case None
      then have "file_new_descriptor s2 = ret (- ENOMEM, 0, s2)" by (simp add: file_new_descriptor_def p2)
      moreover have "(- 3 :: u32) <s 0" by (simp add: word_sless_alt)
      ultimately have "fopen_desc drv p mode TheDisk s = ret (- ENOMEM, s2)"
        using op(1) o(2) driver False by (simp add: fopen_desc_def with_driver_def)
      with ok2 sub \<open>(- 3 :: u32) <s 0\<close> show ?thesis by blast
    next
      case (Some i)
      then have i: "i < 512" "file_descriptors s2 ! i = 0" by (auto simp: find_Some_iff p2)
      have "card (kused (kmem s2)) < 25600" using op(4) assms(3) by simp
      from kzalloc_new [OF this, of 16] obtain b m where
        b: "kzalloc (kmem s2) 16 = (kblock b, m)" "b < 25600" "b \<notin> kused (kmem s2)" "kused m = insert b (kused (kmem s2))"
          "kext (kmem s2) m" "kblock b \<noteq> 0" by auto
      define s3 where "s3 = s2\<lparr>kmem := m, file_descriptors := (file_descriptors s2)[i := kblock b],
        descs := (descs s2)(kblock b := \<lparr>fd_index = of_nat (i + 1), fd_filesystem = fs, fd_private = h, fd_disk = TheDisk\<rparr>)\<rparr>"
      have h2: "handle s2 h" "own s2 h \<inter> base = {}" using h [OF False] ready_base [OF o(1)] by blast+
      have "slot_blocks own s2 (file_descriptors s2 ! j) \<inter> own s2 h = {}" if "j < 512" "file_descriptors s2 ! j \<noteq> 0" for j
      proof -
        have sj: "sok s j (file_descriptors s ! j)" using o(5) that p2 by simp
        have "slot_blocks own s2 (file_descriptors s ! j) = slot_blocks own s (file_descriptors s ! j)"
          by (rule slot_keep(2) [OF sj _ op(6) sub]) (simp add: p2)
        then show ?thesis using slot_used [OF sj] h [OF False] p2 by auto
      qed
      note add = ok_add [OF ok2(1) h2 this i b(2-5), folded s3_def]
      have "fopen_desc drv p mode TheDisk s = ret (of_nat (i + 1), s3)"
        using fopen_desc_run [of drv s d TheDisk p mode h s2 i b m] op(1) o(2) driver False Some b(1,2) p2
        by (simp add: s3_def)
      moreover have "kused (kmem s) \<subseteq> kused (kmem s3)" using sub b(4) by (auto simp: s3_def)
      ultimately show ?thesis using add ok2(2) Some by auto
    qed
  qed
qed

text \<open>Whatever the name and the mode, the table stays well formed; a descriptor returned is the least free one.\<close>

lemma fopen_ok:
  assumes "ok s" "cstr (kmem s) filename bs" "length bs < 2147483648" "kstable_block (kmem s) filename (Suc (length bs))"
    "card (kused (kmem s)) + 2 * length (components (drop 3 bs)) + room + 2 \<le> 25600"
    "list_all named (take 1 (components (drop 3 bs)))"
  shows "\<exists>r s'. fopen drv filename mode_str s = ret (r, s') \<and> ok s' \<and> kused (kmem s) \<subseteq> kused (kmem s')
    \<and> (r = 0 \<and> open_files s' = open_files s
      \<or> (\<exists>h i. find (\<lambda>i. file_descriptors s ! i = 0) [0..<512] = Some i \<and> r = of_nat (i + 1)
           \<and> open_files s' = (open_files s)(i \<mapsto> h)))"
proof (cases "valid_path bs")
  case False
  then have "pathparser_parse filename s = ret (0, s)" using parse_reject [OF assms(2) False assms(3)] by simp
  then have "fopen drv filename mode_str s = ret (0, s)"
    by (simp add: fopen_def fopen_body_def word_sless_alt)
  with assms(1) show ?thesis by blast
next
  case True
  let ?ws = "components (drop 3 bs)"
  have "card (kused (kmem s)) + 2 * length ?ws + 2 \<le> 25600" using assms(5) by simp
  from parse_valid [OF assms(2) True assms(4) this] obtain rb s1 ns where
    p: "pathparser_parse filename s = ret (kblock rb, s1)" "rb < 25600"
      "path_nodes (parts s1) (first_part (roots s1 (kblock rb))) ns" "path_names (kmem s1) ns ?ws"
      "kused (kmem s1) = kused (kmem s) \<union> set (rb # node_blocks ns)" "kext (kmem s) (kmem s1)"
      "distinct (rb # node_blocks ns)" "set (rb # node_blocks ns) \<inter> kused (kmem s) = {}" by blast
  have "path_heap.more s1 = path_heap.more s" using p(1) by (rule pathparser_parse_more)
  then have s1: "s1 = s\<lparr>kmem := kmem s1, roots := roots s1, parts := parts s1\<rparr>" by (cases s; cases s1) simp
  note fr = ok_frame [OF assms(1) p(6), where rs = "roots s1" and ps = "parts s1", folded s1]
  have sub: "kused (kmem s) \<subseteq> kused (kmem s1)" using p(6) by (rule kextD(2))
  let ?fp = "first_part (roots s1 (kblock rb))"
  have fail: "\<exists>r s'. fopen drv filename mode_str s = ret (r, s') \<and> ok s' \<and> kused (kmem s) \<subseteq> kused (kmem s')
    \<and> (r = 0 \<and> open_files s' = open_files s
      \<or> (\<exists>h i. find (\<lambda>i. file_descriptors s ! i = 0) [0..<512] = Some i \<and> r = of_nat (i + 1)
           \<and> open_files s' = (open_files s)(i \<mapsto> h)))"
    if "fopen drv filename mode_str s = ret (0, s1)"
    using that fr sub by blast
  have fs1: "filesystem (the_disk s1) \<noteq> 0" using okD(2,3) [OF fr(1)] by simp
  note run = fopen_parsed [OF p(1,2) fs1, of drv mode_str]
  show ?thesis
  proof (cases "?fp = 0 \<or> disk_get (drive_no (roots s1 (kblock rb))) = NoDisk
      \<or> file_get_mode_by_string (kmem s1) mode_str = FILE_MODE_INVALID")
    case True
    then have "fopen drv filename mode_str s = ret (0, s1)" unfolding run by (simp add: Let_def)
    then show ?thesis by (rule fail)
  next
    case False
    let ?mode = "file_get_mode_by_string (kmem s1) mode_str"
    have run: "fopen drv filename mode_str s = prog_bind (fopen_desc drv ?fp ?mode TheDisk s1) (\<lambda>(r, s). ret (if r <s 0 then 0 else r, s))"
      using False unfolding run by (simp add: Let_def)
    obtain nb pb ns' where ns: "ns = (nb, pb) # ns'" using p(3) False by (cases ns) auto
    obtain w ws where ws: "?ws = w # ws" "name_at (kmem s1) nb w" using p(4) unfolding ns path_names_def by (cases ?ws) auto
    have "part_name (parts s1 ?fp) = kblock nb" using p(3) unfolding ns path_nodes.simps by blast
    moreover have "nb \<in> kused (kmem s1)" using p(5) ns by simp
    moreover have "named w" using assms(6) ws(1) by simp
    ultimately have "part_at named s1 ?fp" unfolding part_at_def using ws(2) by blast
    moreover have "card (kused (kmem s1)) + room + 1 \<le> 25600"
    proof -
      have "length ns = length ?ws" using p(4) unfolding path_names_def by (rule list_all2_lengthD)
      then have "card (set (rb # node_blocks ns)) = 2 * length ?ws + 1"
        using distinct_card [OF p(7)] by (simp add: length_node_blocks)
      moreover have "finite (kused (kmem s))" by (simp add: taken_blocks_def)
      ultimately have "card (kused (kmem s1)) = card (kused (kmem s)) + (2 * length ?ws + 1)"
        unfolding p(5) using p(8) by (subst card_Un_disjoint) auto
      with assms(5) show ?thesis by simp
    qed
    ultimately obtain r s' where d: "fopen_desc drv ?fp ?mode TheDisk s1 = ret (r, s')" "ok s'" "kused (kmem s1) \<subseteq> kused (kmem s')"
      "r <s 0 \<and> open_files s' = open_files s1
      \<or> (\<exists>h i. find (\<lambda>i. file_descriptors s1 ! i = 0) [0..<512] = Some i \<and> r = of_nat (i + 1)
           \<and> open_files s' = (open_files s1)(i \<mapsto> h))"
      using fopen_desc_ok [OF fr(1), of ?fp ?mode] by blast
    have fd: "file_descriptors s1 = file_descriptors s" by (subst s1) simp
    have sub': "kused (kmem s) \<subseteq> kused (kmem s')" using sub d(3) by blast
    from d(4) show ?thesis
    proof
      assume "r <s 0 \<and> open_files s' = open_files s1"
      then show ?thesis using run d(1,2) sub' fr(3) by auto
    next
      assume "\<exists>h i. find (\<lambda>i. file_descriptors s1 ! i = 0) [0..<512] = Some i \<and> r = of_nat (i + 1)
           \<and> open_files s' = (open_files s1)(i \<mapsto> h)"
      then obtain h i where i: "find (\<lambda>i. file_descriptors s ! i = 0) [0..<512] = Some i" "r = of_nat (i + 1)"
        "open_files s' = (open_files s)(i \<mapsto> h)" unfolding fd fr(3) by blast
      then have "i < 512" by (auto simp: find_Some_iff)
      then have "\<not> (of_nat (i + 1) :: u32) <s 0" by (simp add: sless_small del: of_nat_add of_nat_Suc)
      then have "fopen drv filename mode_str s = ret (of_nat (i + 1), s')" using run d(1) i(2) by simp
      with d(2) sub' i show ?thesis by blast
    qed
  qed
qed

lemma fseek_ok:
  assumes "ok s" "fd_slot fd = Some i" "file_descriptors s ! i \<noteq> 0"
  shows "\<exists>r s'. fseek drv fd offset whence s = ret (r, s') \<and> ok s' \<and> open_files s' = open_files s \<and> kused (kmem s') = kused (kmem s)"
proof -
  note o = okD [OF assms(1)]
  have si: "sok s i (file_descriptors s ! i)" using o(5) [OF _ assms(3)] assms(2) by (simp add: fd_slot_Some)
  then have h: "handle s (fd_private (descs s (file_descriptors s ! i)))" and x: "fd_filesystem (descs s (file_descriptors s ! i)) = fs"
    by (simp_all add: slot_ok_def)
  from seek_file [OF o(1) h, of offset whence] obtain r s' where
    c: "drv_seek d (fd_private (descs s (file_descriptors s ! i))) offset whence s = ret (r, s')" "file_part s' = file_part s"
      "kused (kmem s') = kused (kmem s)" "ready s'" "kept s s'" unfolding kept_def by blast
  have "fd \<noteq> 0" using assms(2) by (auto simp: fd_slot_Some)
  then have "fseek drv fd offset whence s = ret (r, s')"
    using assms(2,3) driver x c(1) by (simp add: fseek_def file_get_descriptor_slot with_driver_def)
  with ok_part [OF assms(1) c(2,4,5)] c(3) show ?thesis by auto
qed

lemma fstat_ok:
  assumes "ok s" "fd_slot fd = Some i" "file_descriptors s ! i \<noteq> 0" "clear_of base st 8"
  shows "\<exists>r s'. fstat drv fd st s = ret (r, s') \<and> ok s' \<and> open_files s' = open_files s \<and> kused (kmem s') = kused (kmem s)"
proof -
  note o = okD [OF assms(1)]
  have si: "sok s i (file_descriptors s ! i)" using o(5) [OF _ assms(3)] assms(2) by (simp add: fd_slot_Some)
  then have h: "handle s (fd_private (descs s (file_descriptors s ! i)))"
    and x: "fd_filesystem (descs s (file_descriptors s ! i)) = fs" "fd_disk (descs s (file_descriptors s ! i)) = TheDisk"
    by (simp_all add: slot_ok_def)
  from stat_file [OF o(1) h assms(4)] obtain r s' where
    c: "drv_stat d TheDisk (fd_private (descs s (file_descriptors s ! i))) st s = ret (r, s')" "file_part s' = file_part s"
      "kused (kmem s') = kused (kmem s)" "ready s'" "kept s s'" unfolding kept_def by blast
  have "fstat drv fd st s = ret (r, s')"
    using assms(2,3) driver x c(1) by (simp add: fstat_def file_get_descriptor_slot with_driver_def)
  with ok_part [OF assms(1) c(2,4,5)] c(3) show ?thesis by auto
qed

lemma fread_ok:
  assumes "ok s" "unat sz * unat n < 4294967296" "clear_of base out (unat sz * unat n)" "fread drv out sz n fd s = ret (r, s')"
  shows "ok s' \<and> open_files s' = open_files s \<and> kused (kmem s') = kused (kmem s)"
proof (cases "sz = 0 \<or> n = 0 \<or> fd <s 1 \<or> file_get_descriptor fd s = 0")
  case True
  then have "s' = s" using assms(4) by (auto simp: fread_def Let_def split: if_splits)
  with assms(1) show ?thesis by simp
next
  case False
  then obtain i where i: "fd_slot fd = Some i" "file_descriptors s ! i \<noteq> 0"
    by (auto simp: file_get_descriptor_slot split: option.splits)
  note o = okD [OF assms(1)]
  have si: "sok s i (file_descriptors s ! i)" using o(5) [OF _ i(2)] i(1) by (simp add: fd_slot_Some)
  then have h: "handle s (fd_private (descs s (file_descriptors s ! i)))"
    and x: "fd_filesystem (descs s (file_descriptors s ! i)) = fs" "fd_disk (descs s (file_descriptors s ! i)) = TheDisk"
    by (simp_all add: slot_ok_def)
  have "drv_read d TheDisk (fd_private (descs s (file_descriptors s ! i))) sz n out s = ret (r, s')"
    using assms(4) False i driver x by (simp add: fread_def file_get_descriptor_slot with_driver_def)
  from read_file [OF o(1) h assms(2,3) this]
  have c: "file_part s' = file_part s" "kused (kmem s') = kused (kmem s)" "ready s'" "kept s s'" unfolding kept_def by blast+
  with ok_part [OF assms(1) c(1,3,4)] c(2) show ?thesis by auto
qed

section \<open>The table of files refines the map\<close>

lemma call_refines:
  assumes "ok s" "call_ok keep room named s c" "base \<subseteq> keep" "run_call drv c s = ret (r, s')"
  shows "ok s'" "table_spec c (open_files s) r (open_files s')"
proof -
  have clear: "clear_of keep p k \<Longrightarrow> clear_of base p k" for p k using assms(3) unfolding clear_of_def by blast
  have "ok s' \<and> table_spec c (open_files s) r (open_files s')"
  proof (cases c)
    case (Open filename mode_str)
    then obtain bs where bs: "cstr (kmem s) filename bs" "length bs < 2147483648" "kstable_block (kmem s) filename (Suc (length bs))"
      "card (kused (kmem s)) + 2 * length (components (drop 3 bs)) + room + 2 \<le> 25600"
      "list_all named (take 1 (components (drop 3 bs)))" using assms(2) by auto
    from fopen_ok [OF assms(1) bs, of mode_str] show ?thesis
      using assms(4) Open find_least_free [of s] by auto
  next
    case (Close fd)
    show ?thesis
    proof (cases "\<exists>i. fd_slot fd = Some i \<and> file_descriptors s ! i \<noteq> 0")
      case True
      then obtain i where i: "fd_slot fd = Some i" "file_descriptors s ! i \<noteq> 0" by blast
      then have "open_files s i \<noteq> None" by (simp add: open_files_def fd_slot_Some)
      then show ?thesis using fclose_open [OF assms(1) i] assms(4) Close i(1) by auto
    next
      case False
      then have "fclose drv fd s = ret (- EIO, s)" by (cases "fd_slot fd") (auto intro: fclose_other)
      moreover have "open_files s i = None" if "fd_slot fd = Some i" for i using False that by (simp add: open_files_def)
      ultimately show ?thesis using assms(1,4) Close by (auto split: option.split)
    qed
  next
    case (Read ptr sz nmemb fd)
    then show ?thesis using fread_ok [OF assms(1), of sz nmemb ptr fd r s'] assms(2,4) clear by simp
  next
    case (Seek fd offset whence)
    show ?thesis
    proof (cases "\<exists>i. fd_slot fd = Some i \<and> file_descriptors s ! i \<noteq> 0")
      case True
      then obtain i where i: "fd_slot fd = Some i" "file_descriptors s ! i \<noteq> 0" by blast
      from fseek_ok [OF assms(1) i, of offset whence] show ?thesis using assms(4) Seek by auto
    next
      case False
      then have "s' = s" using assms(4) Seek by (auto simp: fseek_def file_get_descriptor_slot split: if_splits option.splits)
      then show ?thesis using assms(1) Seek by simp
    qed
  next
    case (Stat fd stat)
    show ?thesis
    proof (cases "\<exists>i. fd_slot fd = Some i \<and> file_descriptors s ! i \<noteq> 0")
      case True
      then obtain i where i: "fd_slot fd = Some i" "file_descriptors s ! i \<noteq> 0" by blast
      from fstat_ok [OF assms(1) i, of stat] show ?thesis using assms(2,4) Stat clear by auto
    next
      case False
      then have "s' = s" using assms(4) Stat by (auto simp: fstat_def file_get_descriptor_slot split: if_splits option.splits)
      then show ?thesis using assms(1) Stat by simp
    qed
  qed
  then show "ok s'" "table_spec c (open_files s) r (open_files s')" by blast+
qed

lemma reach_ok:
  "file_reach drv keep room named s0 s \<Longrightarrow> (\<And>s. ok s \<Longrightarrow> base \<subseteq> keep s) \<Longrightarrow> ok s0 \<Longrightarrow> ok s"
proof (induction rule: file_reach.induct)
  case (call s c r s')
  then show ?case using call_refines(1) [of s "keep s" c r s'] by blast
qed

text \<open>Two open files share no block, and none of theirs is free or belongs to the volume.\<close>

lemma ok_apart:
  assumes "ok s" "open_files s i = Some h" "open_files s j = Some k" "i \<noteq> j"
  shows "own s h \<inter> own s k = {} \<and> own s h \<subseteq> kused (kmem s) - base"
proof -
  note o = okD [OF assms(1)]
  let ?p = "file_descriptors s ! i" and ?q = "file_descriptors s ! j"
  have i: "i < 512" "?p \<noteq> 0" "h = fd_private (descs s ?p)" and j: "j < 512" "?q \<noteq> 0" "k = fd_private (descs s ?q)"
    using assms(2,3) by (simp_all add: open_files_def split: if_splits)
  show ?thesis
    using o(6) [OF i(1) j(1) assms(4) i(2) j(2)] slot_used [OF o(5) [OF i(1,2)]] i(3) j(3) by (auto simp: slot_blocks_def)
qed

end

end
