(* ===== verification/Fat16.thy ===== *)
theory Fat16
  imports File
begin

text \<open>
  \<^verbatim>\<open>src/fs/fat16.c\<close>, the FAT16 driver. What it reads from the disk stays in the byte memory:
  the header at the start of \<^verbatim>\<open>struct fat_private\<close> and the 32-byte directory items, with the
  field offsets of the packed structs. The structures the driver builds itself are kept in
  stores of their own type, by address. The functions below the calls of \<open>fs_driver\<close> are
  only called with the kernel's one disk, so they read it as \<open>the_disk\<close>.
\<close>

section \<open>State\<close>

record fat_directory =
  dir_item :: addr
  dir_total :: u32
  dir_sector_pos :: u32
  dir_ending_sector_pos :: u32

text \<open>The union of the two pointers is one field.\<close>

record fat_item =
  fi_ptr :: addr
  fi_type :: u32

record fat_file_descriptor =
  ffd_item :: addr
  ffd_pos :: u32

text \<open>
  \<^verbatim>\<open>struct fat_private\<close> is 92 bytes: 62 of header, the root directory at 64 and the three
  streams.
\<close>

record fat_private =
  cluster_read_stream :: addr
  fat_read_stream :: addr
  directory_stream :: addr

record fat_state = file_state +
  fat_privates :: "addr \<Rightarrow> fat_private"
  fat_directories :: "addr \<Rightarrow> fat_directory"
  fat_items :: "addr \<Rightarrow> fat_item"
  fat_descs :: "addr \<Rightarrow> fat_file_descriptor"

abbreviation (input) FAT_ITEM_TYPE_DIRECTORY :: u32 where "FAT_ITEM_TYPE_DIRECTORY \<equiv> 0"
abbreviation (input) FAT_ITEM_TYPE_FILE :: u32 where "FAT_ITEM_TYPE_FILE \<equiv> 1"
abbreviation (input) SEEK_SET :: u32 where "SEEK_SET \<equiv> 0"
abbreviation (input) SEEK_CUR :: u32 where "SEEK_CUR \<equiv> 1"
abbreviation (input) SEEK_END :: u32 where "SEEK_END \<equiv> 2"
abbreviation (input) FAT_FILE_READ_ONLY :: u8 where "FAT_FILE_READ_ONLY \<equiv> 0x01"
abbreviation (input) FAT_FILE_SUBDIRECTORY :: u8 where "FAT_FILE_SUBDIRECTORY \<equiv> 0x10"
abbreviation (input) DEXTER_FAT16_BAD_SECTOR :: u32 where "DEXTER_FAT16_BAD_SECTOR \<equiv> 0xFF7"

definition load16 :: "mem \<Rightarrow> addr \<Rightarrow> u16" where
  "load16 m a = ucast (m a) OR push_bit 8 (ucast (m (a + 1)))"

text \<open>The fields of the header and of a directory item.\<close>

definition sectors_per_cluster :: "mem \<Rightarrow> addr \<Rightarrow> u32" where
  "sectors_per_cluster m fat_private = ucast (m (fat_private + 13))"

definition reserved_sectors :: "mem \<Rightarrow> addr \<Rightarrow> u32" where
  "reserved_sectors m fat_private = ucast (load16 m (fat_private + 14))"

definition fat_copies :: "mem \<Rightarrow> addr \<Rightarrow> u32" where
  "fat_copies m fat_private = ucast (m (fat_private + 16))"

definition root_dir_entries :: "mem \<Rightarrow> addr \<Rightarrow> u32" where
  "root_dir_entries m fat_private = ucast (load16 m (fat_private + 17))"

definition sectors_per_fat :: "mem \<Rightarrow> addr \<Rightarrow> u32" where
  "sectors_per_fat m fat_private = ucast (load16 m (fat_private + 22))"

definition signature :: "mem \<Rightarrow> addr \<Rightarrow> u8" where
  "signature m fat_private = m (fat_private + 38)"

definition item_ext :: "addr \<Rightarrow> addr" where
  "item_ext item = item + 8"

definition item_attribute :: "mem \<Rightarrow> addr \<Rightarrow> u8" where
  "item_attribute m item = m (item + 11)"

definition item_filesize :: "mem \<Rightarrow> addr \<Rightarrow> u32" where
  "item_filesize m item = load32 m (item + 28)"

definition root_directory :: "addr \<Rightarrow> addr" where
  "root_directory fat_private = fat_private + 64"

text \<open>Division of \<^verbatim>\<open>int\<close>s.\<close>

definition int_div :: "u32 \<Rightarrow> u32 \<Rightarrow> u32 prog" where
  "int_div a b = (if b = 0 then faulty DivByZero else ret (word_of_int (sint a sdiv sint b)))"

definition int_rem :: "u32 \<Rightarrow> u32 \<Rightarrow> u32 prog" where
  "int_rem a b = (if b = 0 then faulty DivByZero else ret (word_of_int (sint a smod sint b)))"

section \<open>Mounting\<close>

text \<open>The driver's name lies after its six function pointers; \<open>lit\<close> is the literal \<^verbatim>\<open>"FAT16"\<close>.\<close>

definition fat16_init :: "addr \<Rightarrow> addr \<Rightarrow> 'a fat_state_scheme \<Rightarrow> (addr \<times> 'a fat_state_scheme) prog" where
  "fat16_init fat16_fs lit s =
     prog_bind (of_option (strcpy (kmem s) (fat16_fs + 24) lit)) (\<lambda>(_, m).
       ret (fat16_fs, s\<lparr>kmem := m\<rparr>))"

definition fs_static_load :: "addr \<Rightarrow> addr \<Rightarrow> 'a fat_state_scheme \<Rightarrow> 'a fat_state_scheme prog" where
  "fs_static_load fat16_fs lit s =
     prog_bind (fat16_init fat16_fs lit s) (\<lambda>(fs, s). fs_insert_filesystem fs s)"

definition fs_load :: "addr \<Rightarrow> addr \<Rightarrow> 'a fat_state_scheme \<Rightarrow> 'a fat_state_scheme prog" where
  "fs_load fat16_fs lit s =
     fs_static_load fat16_fs lit (s\<lparr>filesystems := replicate DEXTER_MAX_FILESYSTEMS 0\<rparr>)"

definition fs_init :: "addr \<Rightarrow> addr \<Rightarrow> 'a fat_state_scheme \<Rightarrow> 'a fat_state_scheme prog" where
  "fs_init fat16_fs lit s =
     fs_load fat16_fs lit (s\<lparr>file_descriptors := replicate DEXTER_MAX_FILE_DESCRIPTORS 0\<rparr>)"

definition fat16_init_private :: "addr \<Rightarrow> 'a fat_state_scheme \<Rightarrow> 'a fat_state_scheme prog" where
  "fat16_init_private private s =
     (if private = 0 then faulty NullDeref
      else
        let s = s\<lparr>kmem := snd (memset (kmem s) private 0 92),
              fat_privates := (fat_privates s)(private := \<lparr>cluster_read_stream = 0, fat_read_stream = 0, directory_stream = 0\<rparr>),
              fat_directories := (fat_directories s)(root_directory private :=
                \<lparr>dir_item = 0, dir_total = 0, dir_sector_pos = 0, dir_ending_sector_pos = 0\<rparr>)\<rparr>
        in prog_bind (diskstreamer_new (disk_id (the_disk s)) s) (\<lambda>(st, s).
             let s = s\<lparr>fat_privates := (fat_privates s)(private := (fat_privates s private)\<lparr>cluster_read_stream := st\<rparr>)\<rparr>
             in prog_bind (diskstreamer_new (disk_id (the_disk s)) s) (\<lambda>(st, s).
                  let s = s\<lparr>fat_privates := (fat_privates s)(private := (fat_privates s private)\<lparr>fat_read_stream := st\<rparr>)\<rparr>
                  in prog_bind (diskstreamer_new (disk_id (the_disk s)) s) (\<lambda>(st, s).
                       ret (s\<lparr>fat_privates := (fat_privates s)(private := (fat_privates s private)\<lparr>directory_stream := st\<rparr>)\<rparr>)))))"

definition fat16_sector_to_absolute :: "disk \<Rightarrow> u32 \<Rightarrow> u32" where
  "fat16_sector_to_absolute d sector = sector * sector_size d"

text \<open>
  A read into a local variable: the variable is a memory of its own, at address 0, whose
  bytes are returned.
\<close>

definition diskstreamer_read_local ::
  "hardware \<Rightarrow> addr \<Rightarrow> u32 \<Rightarrow> 'a dev_state_scheme \<Rightarrow> (u32 \<times> mem \<times> 'a dev_state_scheme) prog" where
  "diskstreamer_read_local hw stream tot s =
     prog_bind (diskstreamer_read hw stream 0 tot (s\<lparr>kmem := \<lambda>_. 0\<rparr>)) (\<lambda>(r, s').
       ret (r, kmem s', s'\<lparr>kmem := kmem s\<rparr>))"

partial_function (option) count_items_loop ::
  "hardware \<Rightarrow> addr \<Rightarrow> u32 \<Rightarrow> 'a fat_state_scheme \<Rightarrow> (u32 \<times> 'a fat_state_scheme) prog" where
  "count_items_loop hw stream i s =
     prog_bind (diskstreamer_read_local hw stream 32 s) (\<lambda>(r, item, s).
       if r \<noteq> 0 then ret (- EIO, s)
       else if item 0 = 0x00 then ret (i, s)
       else if item 0 = 0xE5 then count_items_loop hw stream i s
       else count_items_loop hw stream (i + 1) s)"

definition fat16_get_total_items_for_directory ::
  "hardware \<Rightarrow> u32 \<Rightarrow> 'a fat_state_scheme \<Rightarrow> (u32 \<times> 'a fat_state_scheme) prog" where
  "fat16_get_total_items_for_directory hw directory_start_sector s =
     (let stream = directory_stream (fat_privates s (fs_private (the_disk s)));
          directory_start_pos = directory_start_sector * sector_size (the_disk s)
      in prog_bind (diskstreamer_seek stream directory_start_pos s) (\<lambda>(r, s).
           if r \<noteq> 0 then ret (- EIO, s) else count_items_loop hw stream 0 s))"

text \<open>The C function also computes \<^verbatim>\<open>total_sectors\<close>, which it does not use.\<close>

definition fat16_get_root_directory ::
  "hardware \<Rightarrow> addr \<Rightarrow> addr \<Rightarrow> 'a fat_state_scheme \<Rightarrow> (u32 \<times> 'a fat_state_scheme) prog" where
  "fat16_get_root_directory hw fat_private directory s =
     (let m = kmem s;
          root_dir_sector_pos = fat_copies m fat_private * sectors_per_fat m fat_private + reserved_sectors m fat_private;
          root_dir_size = root_dir_entries m fat_private * 32
      in prog_bind (int_div root_dir_size (sector_size (the_disk s))) (\<lambda>size_sectors.
         prog_bind (fat16_get_total_items_for_directory hw root_dir_sector_pos s) (\<lambda>(total_items, s).
           case kzalloc (kmem s) root_dir_size of (dir, m) \<Rightarrow>
             let s = s\<lparr>kmem := m\<rparr> in
             if dir = 0 then ret (- ENOMEM, s)
             else
               let stream = directory_stream (fat_privates s fat_private) in
               prog_bind (diskstreamer_seek stream (fat16_sector_to_absolute (the_disk s) root_dir_sector_pos) s) (\<lambda>(r, s).
                 if r \<noteq> 0 then ret (- EIO, s)
                 else
                   prog_bind (diskstreamer_read hw stream dir root_dir_size s) (\<lambda>(r, s).
                     if r \<noteq> 0 then ret (- EIO, s)
                     else ret (0, s\<lparr>fat_directories := (fat_directories s)(directory :=
                       \<lparr>dir_item = dir, dir_total = total_items, dir_sector_pos = root_dir_sector_pos,
                        dir_ending_sector_pos = root_dir_sector_pos + size_sectors\<rparr>)\<rparr>))))))"

text \<open>\<open>fat16_resolve\<close> between the allocation of the stream and the label \<^verbatim>\<open>out\<close>.\<close>

definition fat16_mount :: "hardware \<Rightarrow> addr \<Rightarrow> addr \<Rightarrow> 'a fat_state_scheme \<Rightarrow> (u32 \<times> 'a fat_state_scheme) prog" where
  "fat16_mount hw fat_private stream s =
     (if stream = 0 then ret (- ENOMEM, s)
      else
        prog_bind (diskstreamer_read hw stream fat_private 62 s) (\<lambda>(r, s).
          if r \<noteq> 0 then ret (- EIO, s)
          else if signature (kmem s) fat_private \<noteq> 0x29 then ret (- EFSNOTUS, s)
          else
            prog_bind (fat16_get_root_directory hw fat_private (root_directory fat_private) s) (\<lambda>(r, s).
              if r \<noteq> 0 then ret (- EIO, s) else ret (0, s))))"

definition fat16_resolve :: "hardware \<Rightarrow> addr \<Rightarrow> disk_ptr \<Rightarrow> 'a fat_state_scheme \<Rightarrow> (u32 \<times> 'a fat_state_scheme) prog" where
  "fat16_resolve hw fat16_fs dsk s =
     (if dsk = NoDisk then faulty NullDeref
      else
        case kzalloc (kmem s) 92 of (fat_private, m) \<Rightarrow>
          prog_bind (fat16_init_private fat_private (s\<lparr>kmem := m\<rparr>)) (\<lambda>s.
            let s = s\<lparr>the_disk := (the_disk s)\<lparr>fs_private := fat_private, filesystem := fat16_fs\<rparr>\<rparr> in
            prog_bind (diskstreamer_new (disk_id (the_disk s)) s) (\<lambda>(stream, s).
              prog_bind (fat16_mount hw fat_private stream s) (\<lambda>(r, s).
                let s = (if stream \<noteq> 0 then diskstreamer_close stream s else s);
                    s = (if r <s 0 then s\<lparr>kmem := kfree (kmem s) fat_private,
                           the_disk := (the_disk s)\<lparr>fs_private := 0\<rparr>\<rparr> else s)
                in ret (r, s)))))"

section \<open>Names\<close>

text \<open>
  The output is a local array of bytes; writing past its end is undefined. The input runs on
  until a space or a zero, past the end of the field it starts in.
\<close>

function fat16_to_proper_string :: "mem \<Rightarrow> nat \<Rightarrow> addr \<Rightarrow> u8 list \<Rightarrow> (nat \<times> u8 list) run" where
  "fat16_to_proper_string m out inp buf =
     (if m inp \<noteq> 0x00 \<and> m inp \<noteq> 0x20 then
        if out < length buf then fat16_to_proper_string m (out + 1) (inp + 1) (buf[out := m inp])
        else Inl OutOfBounds
      else if m inp = 0x20 then
        if out < length buf then Inr (out, buf[out := 0x00]) else Inl OutOfBounds
      else Inr (out, buf))"
  by pat_completeness auto
termination by (relation "measure (\<lambda>(m, out, inp, buf). length buf - out)") auto

declare fat16_to_proper_string.simps [simp del]

definition fat16_get_full_relative_filename :: "mem \<Rightarrow> addr \<Rightarrow> nat \<Rightarrow> u8 list run" where
  "fat16_get_full_relative_filename m item max_len =
     (case fat16_to_proper_string m 0 item (replicate max_len 0) of
        Inl e \<Rightarrow> Inl e
      | Inr (out_tmp, out) \<Rightarrow>
          if m (item_ext item) \<noteq> 0x00 \<and> m (item_ext item) \<noteq> 0x20 then
            if out_tmp < length out then
              case fat16_to_proper_string m (out_tmp + 1) (item_ext item) (out[out_tmp := 0x2e]) of
                Inl e \<Rightarrow> Inl e
              | Inr (out_tmp, out) \<Rightarrow> Inr out
            else Inl OutOfBounds
          else Inr out)"

definition fat16_clone_directory_item :: "mem \<Rightarrow> addr \<Rightarrow> u32 \<Rightarrow> addr \<times> mem" where
  "fat16_clone_directory_item m item sz =
     (if sz < 32 then (0, m)
      else case kzalloc m sz of (item_copy, m) \<Rightarrow>
        if item_copy = 0 then (0, m) else (item_copy, snd (memcpy m item_copy item sz)))"

section \<open>Clusters\<close>

definition fat16_get_first_cluster :: "mem \<Rightarrow> addr \<Rightarrow> u32" where
  "fat16_get_first_cluster m item = ucast (load16 m (item + 20)) OR ucast (load16 m (item + 26))"

definition fat16_cluster_to_sector :: "'a fat_state_scheme \<Rightarrow> addr \<Rightarrow> u32 \<Rightarrow> u32" where
  "fat16_cluster_to_sector s private cluster =
     dir_ending_sector_pos (fat_directories s (root_directory private))
       + (cluster - 2) * sectors_per_cluster (kmem s) private"

definition fat16_get_first_fat_sector :: "mem \<Rightarrow> addr \<Rightarrow> u32" where
  "fat16_get_first_fat_sector m private = reserved_sectors m private"

definition fat16_get_fat_entry :: "hardware \<Rightarrow> u32 \<Rightarrow> 'a fat_state_scheme \<Rightarrow> (u32 \<times> 'a fat_state_scheme) prog" where
  "fat16_get_fat_entry hw cluster s =
     (let private = fs_private (the_disk s); stream = fat_read_stream (fat_privates s private) in
      if stream = 0 then ret (- 1, s)
      else
        let fat_table_position = fat16_get_first_fat_sector (kmem s) private * sector_size (the_disk s) in
        prog_bind (diskstreamer_seek stream (fat_table_position * (cluster * 2)) s) (\<lambda>(r, s).
          if r <s 0 then ret (r, s)
          else
            prog_bind (diskstreamer_read_local hw stream 2 s) (\<lambda>(r, result, s).
              if r <s 0 then ret (r, s) else ret (ucast (load16 result 0), s))))"

fun cluster_loop :: "hardware \<Rightarrow> nat \<Rightarrow> u32 \<Rightarrow> 'a fat_state_scheme \<Rightarrow> (u32 \<times> 'a fat_state_scheme) prog" where
  "cluster_loop hw 0 cluster_to_use s = ret (cluster_to_use, s)"
| "cluster_loop hw (Suc n) cluster_to_use s =
     prog_bind (fat16_get_fat_entry hw cluster_to_use s) (\<lambda>(entry, s).
       if entry = 0xFF8 \<or> entry = 0xFFF then ret (- EIO, s)
       else if entry = DEXTER_FAT16_BAD_SECTOR then ret (- EIO, s)
       else if entry = 0xFF0 \<or> entry = 0xFF6 then ret (- EIO, s)
       else if entry = 0x00 then ret (- EIO, s)
       else cluster_loop hw n entry s)"

definition fat16_get_cluster_for_offset ::
  "hardware \<Rightarrow> u32 \<Rightarrow> u32 \<Rightarrow> 'a fat_state_scheme \<Rightarrow> (u32 \<times> 'a fat_state_scheme) prog" where
  "fat16_get_cluster_for_offset hw starting_cluster offset s =
     (let private = fs_private (the_disk s);
          size_of_cluster_bytes = sectors_per_cluster (kmem s) private * sector_size (the_disk s)
      in prog_bind (int_div offset size_of_cluster_bytes) (\<lambda>clusters_ahead.
           cluster_loop hw (nat (sint clusters_ahead)) starting_cluster s))"

partial_function (option) fat16_read_internal_from_stream ::
  "hardware \<Rightarrow> addr \<Rightarrow> u32 \<Rightarrow> u32 \<Rightarrow> u32 \<Rightarrow> addr \<Rightarrow> 'a fat_state_scheme \<Rightarrow> (u32 \<times> 'a fat_state_scheme) prog" where
  "fat16_read_internal_from_stream hw stream cluster offset tot out s =
     (let private = fs_private (the_disk s);
          size_of_cluster_bytes = sectors_per_cluster (kmem s) private * sector_size (the_disk s)
      in prog_bind (fat16_get_cluster_for_offset hw cluster offset s) (\<lambda>(cluster_to_use, s).
           if cluster_to_use <s 0 then ret (cluster_to_use, s)
           else
             prog_bind (int_rem offset size_of_cluster_bytes) (\<lambda>offset_from_cluster.
               let starting_sector = fat16_cluster_to_sector s private cluster_to_use;
                   starting_pos = starting_sector * sector_size (the_disk s) + offset_from_cluster;
                   total_to_read = (if size_of_cluster_bytes <s tot then size_of_cluster_bytes else tot)
               in prog_bind (diskstreamer_seek stream starting_pos s) (\<lambda>(r, s).
                    if r \<noteq> 0 then ret (r, s)
                    else
                      prog_bind (diskstreamer_read hw stream out total_to_read s) (\<lambda>(r, s).
                        if r \<noteq> 0 then ret (r, s)
                        else if 0 <s tot - total_to_read
                        then fat16_read_internal_from_stream hw stream cluster (offset + total_to_read)
                          (tot - total_to_read) (out + total_to_read) s
                        else ret (r, s))))))"

definition fat16_read_internal ::
  "hardware \<Rightarrow> u32 \<Rightarrow> u32 \<Rightarrow> u32 \<Rightarrow> addr \<Rightarrow> 'a fat_state_scheme \<Rightarrow> (u32 \<times> 'a fat_state_scheme) prog" where
  "fat16_read_internal hw starting_cluster offset tot out s =
     fat16_read_internal_from_stream hw (cluster_read_stream (fat_privates s (fs_private (the_disk s))))
       starting_cluster offset tot out s"

section \<open>Directories\<close>

definition fat16_free_directory :: "addr \<Rightarrow> 'a fat_state_scheme \<Rightarrow> 'a fat_state_scheme" where
  "fat16_free_directory directory s =
     (if directory = 0 then s
      else
        let item = dir_item (fat_directories s directory);
            m = (if item \<noteq> 0 then kfree (kmem s) item else kmem s)
        in s\<lparr>kmem := kfree m directory\<rparr>)"

definition fat16_fat_item_free :: "addr \<Rightarrow> 'a fat_state_scheme \<Rightarrow> 'a fat_state_scheme" where
  "fat16_fat_item_free item s =
     (let it = fat_items s item;
          s = (if fi_type it = FAT_ITEM_TYPE_DIRECTORY then fat16_free_directory (fi_ptr it) s
               else if fi_type it = FAT_ITEM_TYPE_FILE then s\<lparr>kmem := kfree (kmem s) (fi_ptr it)\<rparr>
               else s)
      in s\<lparr>kmem := kfree (kmem s) item\<rparr>)"

text \<open>The directory is returned also where it has just been released.\<close>

definition fat16_load_fat_directory :: "hardware \<Rightarrow> addr \<Rightarrow> 'a fat_state_scheme \<Rightarrow> (addr \<times> 'a fat_state_scheme) prog" where
  "fat16_load_fat_directory hw item s =
     (let fat_private = fs_private (the_disk s) in
      if item_attribute (kmem s) item AND FAT_FILE_SUBDIRECTORY = 0 then ret (0, fat16_free_directory 0 s)
      else
        case kzalloc (kmem s) 16 of (directory, m) \<Rightarrow>
          let s = s\<lparr>kmem := m\<rparr> in
          if directory = 0 then ret (directory, fat16_free_directory directory s)
          else
            let s = s\<lparr>fat_directories := (fat_directories s)(directory :=
                      \<lparr>dir_item = 0, dir_total = 0, dir_sector_pos = 0, dir_ending_sector_pos = 0\<rparr>)\<rparr>;
                cluster = fat16_get_first_cluster (kmem s) item;
                cluster_sector = fat16_cluster_to_sector s fat_private cluster
            in prog_bind (fat16_get_total_items_for_directory hw cluster_sector s) (\<lambda>(total_items, s).
                 let s = s\<lparr>fat_directories := (fat_directories s)(directory :=
                           (fat_directories s directory)\<lparr>dir_total := total_items\<rparr>)\<rparr>;
                     directory_size = dir_total (fat_directories s directory) * 32
                 in case kzalloc (kmem s) directory_size of (items, m) \<Rightarrow>
                      let s = s\<lparr>kmem := m, fat_directories := (fat_directories s)(directory :=
                                (fat_directories s directory)\<lparr>dir_item := items\<rparr>)\<rparr>
                      in if items = 0 then ret (directory, fat16_free_directory directory s)
                         else
                           prog_bind (fat16_read_internal hw cluster 0 directory_size items s) (\<lambda>(r, s).
                             ret (directory, if r \<noteq> 0 then fat16_free_directory directory s else s))))"

text \<open>There is no \<^verbatim>\<open>return\<close> after the directory case.\<close>

definition fat16_new_fat_item_for_directory_item ::
  "hardware \<Rightarrow> addr \<Rightarrow> 'a fat_state_scheme \<Rightarrow> (addr \<times> 'a fat_state_scheme) prog" where
  "fat16_new_fat_item_for_directory_item hw item s =
     (case kzalloc (kmem s) 8 of (f_item, m) \<Rightarrow>
        let s = s\<lparr>kmem := m\<rparr> in
        if f_item = 0 then ret (0, s)
        else
          let s = s\<lparr>fat_items := (fat_items s)(f_item := \<lparr>fi_ptr = 0, fi_type = 0\<rparr>)\<rparr> in
          prog_bind
            (if item_attribute (kmem s) item AND FAT_FILE_SUBDIRECTORY \<noteq> 0 then
               prog_bind (fat16_load_fat_directory hw item s) (\<lambda>(directory, s).
                 ret (s\<lparr>fat_items := (fat_items s)(f_item := \<lparr>fi_ptr = directory, fi_type = FAT_ITEM_TYPE_DIRECTORY\<rparr>)\<rparr>))
             else ret s)
            (\<lambda>s. case fat16_clone_directory_item (kmem s) item 32 of (copy, m) \<Rightarrow>
                   ret (f_item, s\<lparr>kmem := m, fat_items := (fat_items s)(f_item :=
                     \<lparr>fi_ptr = copy, fi_type = FAT_ITEM_TYPE_FILE\<rparr>)\<rparr>)))"

text \<open>
  The name is compared with a local array of \<^verbatim>\<open>DEXTER_MAX_PATH\<close> bytes, which lies in the
  kernel's stack below \<^verbatim>\<open>0x200000\<close>; the comparison reads the memory in which it is laid over it.
\<close>

definition tmp_filename_at :: addr where
  "tmp_filename_at = 0x1FF000"

definition fat16_name_matches :: "mem \<Rightarrow> u8 list \<Rightarrow> addr \<Rightarrow> bool" where
  "fat16_name_matches m tmp_filename name \<longleftrightarrow>
     istrncmp (mem_fill m tmp_filename_at (length tmp_filename) (\<lambda>i. tmp_filename ! i)) tmp_filename_at name
       (of_nat (length tmp_filename)) = 0"

fun find_item_loop ::
  "hardware \<Rightarrow> addr \<Rightarrow> addr \<Rightarrow> nat list \<Rightarrow> addr \<Rightarrow> 'a fat_state_scheme \<Rightarrow> (addr \<times> 'a fat_state_scheme) prog" where
  "find_item_loop hw directory name [] f_item s = ret (f_item, s)"
| "find_item_loop hw directory name (i # is) f_item s =
     (let item = dir_item (fat_directories s directory) + of_nat (32 * i) in
      prog_bind (of_run (fat16_get_full_relative_filename (kmem s) item (unat DEXTER_MAX_PATH))) (\<lambda>tmp_filename.
        if fat16_name_matches (kmem s) tmp_filename name then
          prog_bind (fat16_new_fat_item_for_directory_item hw item s) (\<lambda>(f_item, s).
            find_item_loop hw directory name is f_item s)
        else find_item_loop hw directory name is f_item s))"

definition fat16_find_item_in_directory ::
  "hardware \<Rightarrow> addr \<Rightarrow> addr \<Rightarrow> 'a fat_state_scheme \<Rightarrow> (addr \<times> 'a fat_state_scheme) prog" where
  "fat16_find_item_in_directory hw directory name s =
     find_item_loop hw directory name [0..<nat (sint (dir_total (fat_directories s directory)))] 0 s"

partial_function (option) directory_entry_loop ::
  "hardware \<Rightarrow> addr \<Rightarrow> addr \<Rightarrow> 'a fat_state_scheme \<Rightarrow> (addr \<times> 'a fat_state_scheme) prog" where
  "directory_entry_loop hw current_item next_p s =
     (if next_p \<noteq> 0 then
        if current_item = 0 then faulty NullDeref
        else if fi_type (fat_items s current_item) \<noteq> FAT_ITEM_TYPE_DIRECTORY then ret (0, s)
        else
          prog_bind (fat16_find_item_in_directory hw (fi_ptr (fat_items s current_item)) (part_name (parts s next_p)) s)
            (\<lambda>(tmp_item, s).
              directory_entry_loop hw tmp_item (next_part (parts s next_p)) (fat16_fat_item_free current_item s))
      else ret (current_item, s))"

definition fat16_get_directory_entry ::
  "hardware \<Rightarrow> addr \<Rightarrow> 'a fat_state_scheme \<Rightarrow> (addr \<times> 'a fat_state_scheme) prog" where
  "fat16_get_directory_entry hw path s =
     prog_bind (fat16_find_item_in_directory hw (root_directory (fs_private (the_disk s))) (part_name (parts s path)) s)
       (\<lambda>(root_item, s).
         if root_item = 0 then ret (0, s)
         else directory_entry_loop hw root_item (next_part (parts s path)) s)"

section \<open>The operations of the driver\<close>

definition fat16_open ::
  "hardware \<Rightarrow> disk_ptr \<Rightarrow> addr \<Rightarrow> u32 \<Rightarrow> 'a fat_state_scheme \<Rightarrow> (addr \<times> 'a fat_state_scheme) prog" where
  "fat16_open hw dsk path mode s =
     (if mode \<noteq> FILE_MODE_READ then ret (- ERDONLY, s)
      else
        case kzalloc (kmem s) 8 of (descriptor, m) \<Rightarrow>
          let s = s\<lparr>kmem := m\<rparr> in
          if descriptor = 0 then ret (- ENOMEM, s)
          else if dsk = NoDisk then faulty NullDeref
          else
            prog_bind (fat16_get_directory_entry hw path s) (\<lambda>(item, s).
              let s = s\<lparr>fat_descs := (fat_descs s)(descriptor := \<lparr>ffd_item = item, ffd_pos = 0\<rparr>)\<rparr> in
              if item = 0 then ret (- EIO, s) else ret (descriptor, s)))"

fun fat16_read_loop ::
  "hardware \<Rightarrow> nat \<Rightarrow> addr \<Rightarrow> u32 \<Rightarrow> u32 \<Rightarrow> u32 \<Rightarrow> addr \<Rightarrow> 'a fat_state_scheme \<Rightarrow> (u32 \<times> 'a fat_state_scheme) prog" where
  "fat16_read_loop hw 0 item offset sz nmemb out_ptr s = ret (nmemb, s)"
| "fat16_read_loop hw (Suc n) item offset sz nmemb out_ptr s =
     prog_bind (fat16_read_internal hw (fat16_get_first_cluster (kmem s) item) offset sz out_ptr s) (\<lambda>(r, s).
       if r <s 0 then ret (r, s)
       else fat16_read_loop hw n item (offset + sz) sz nmemb (out_ptr + sz) s)"

definition fat16_read ::
  "hardware \<Rightarrow> disk_ptr \<Rightarrow> addr \<Rightarrow> u32 \<Rightarrow> u32 \<Rightarrow> addr \<Rightarrow> 'a fat_state_scheme \<Rightarrow> (u32 \<times> 'a fat_state_scheme) prog" where
  "fat16_read hw dsk descriptor sz nmemb out_ptr s =
     (if nmemb \<noteq> 0 \<and> dsk = NoDisk then faulty NullDeref
      else
        let item = fi_ptr (fat_items s (ffd_item (fat_descs s descriptor))) in
        fat16_read_loop hw (unat nmemb) item (ffd_pos (fat_descs s descriptor)) sz nmemb out_ptr s)"

definition fat16_free_file_descriptor :: "addr \<Rightarrow> 'a fat_state_scheme \<Rightarrow> 'a fat_state_scheme" where
  "fat16_free_file_descriptor desc s =
     (let s = fat16_fat_item_free (ffd_item (fat_descs s desc)) s in s\<lparr>kmem := kfree (kmem s) desc\<rparr>)"

definition fat16_close :: "addr \<Rightarrow> 'a fat_state_scheme \<Rightarrow> (u32 \<times> 'a fat_state_scheme) prog" where
  "fat16_close private s = ret (0, fat16_free_file_descriptor private s)"

text \<open>\<^verbatim>\<open>struct file_stat\<close> holds the flags at 0 and the size at 4.\<close>

definition fat16_stat :: "disk_ptr \<Rightarrow> addr \<Rightarrow> addr \<Rightarrow> 'a fat_state_scheme \<Rightarrow> (u32 \<times> 'a fat_state_scheme) prog" where
  "fat16_stat dsk private stat s =
     (let desc_item = fat_items s (ffd_item (fat_descs s private)) in
      if fi_type desc_item \<noteq> FAT_ITEM_TYPE_FILE then ret (- EINVARG, s)
      else
        let ritem = fi_ptr desc_item;
            m = store32 (kmem s) (stat + 4) (item_filesize (kmem s) ritem);
            m = store32 m stat 0;
            m = (if item_attribute m ritem AND FAT_FILE_READ_ONLY \<noteq> 0 then store32 m stat (load32 m stat OR 1) else m)
        in ret (0, s\<lparr>kmem := m\<rparr>))"

definition fat16_seek :: "addr \<Rightarrow> u32 \<Rightarrow> u32 \<Rightarrow> 'a fat_state_scheme \<Rightarrow> (u32 \<times> 'a fat_state_scheme) prog" where
  "fat16_seek private offset seek_mode s =
     (let desc = fat_descs s private; desc_item = fat_items s (ffd_item desc) in
      if fi_type desc_item \<noteq> FAT_ITEM_TYPE_FILE then ret (- EINVARG, s)
      else if item_filesize (kmem s) (fi_ptr desc_item) \<le> offset then ret (- EIO, s)
      else if seek_mode = SEEK_SET then
        ret (0, s\<lparr>fat_descs := (fat_descs s)(private := desc\<lparr>ffd_pos := offset\<rparr>)\<rparr>)
      else if seek_mode = SEEK_END then ret (- EUNIMP, s)
      else if seek_mode = SEEK_CUR then
        ret (0, s\<lparr>fat_descs := (fat_descs s)(private := desc\<lparr>ffd_pos := ffd_pos desc + offset\<rparr>)\<rparr>)
      else ret (- EINVARG, s))"

definition fat16_fs :: "hardware \<Rightarrow> addr \<Rightarrow> 'a fat_state_scheme fs_driver" where
  "fat16_fs hw fs = \<lparr>drv_resolve = fat16_resolve hw fs, drv_open = fat16_open hw, drv_read = fat16_read hw,
     drv_seek = fat16_seek, drv_stat = fat16_stat, drv_close = fat16_close\<rparr>"

text \<open>The only driver of the kernel lies at \<open>fs\<close>.\<close>

definition drivers :: "hardware \<Rightarrow> addr \<Rightarrow> 'a fat_state_scheme drivers" where
  "drivers hw fs a = (if a = fs then Some (fat16_fs hw fs) else None)"

end
