(* ===== verification/FatFrames.thy ===== *)
theory FatFrames
  imports Fat16
begin

text \<open>
  What the driver's reads leave alone, on any hardware: outside the buffer that was passed,
  memory is as before, and of the rest of the state only the log of the ports and the
  positions of streams differ.
\<close>

definition dev_frame :: "addr \<Rightarrow> nat \<Rightarrow> 'a dev_state_scheme \<Rightarrow> 'a dev_state_scheme \<Rightarrow> bool" where
  "dev_frame out n s s' \<longleftrightarrow> (\<exists>m log st. s' = s\<lparr>kmem := m, io_log := log, streams := st\<rparr>
     \<and> unchanged_outside (kmem s) m out n \<and> (\<forall>p. stream_disk (st p) = stream_disk (streams s p)))"

lemma dev_frameI:
  "s' = s\<lparr>kmem := m, io_log := log, streams := st\<rparr> \<Longrightarrow> unchanged_outside (kmem s) m out n \<Longrightarrow>
    (\<And>p. stream_disk (st p) = stream_disk (streams s p)) \<Longrightarrow> dev_frame out n s s'"
  unfolding dev_frame_def by blast

lemma dev_frame_refl [simp]: "dev_frame out n s s"
  by (rule dev_frameI [where m = "kmem s" and log = "io_log s" and st = "streams s"]) simp_all

lemma dev_frame_log: "dev_frame out n s (s\<lparr>io_log := l\<rparr>)"
  by (rule dev_frameI [where m = "kmem s" and log = l and st = "streams s"]) simp_all

lemma dev_frame_trans:
  assumes "dev_frame out n s s'" "dev_frame out n s' s''"
  shows "dev_frame out n s s''"
  using assms unfolding dev_frame_def by (fastforce intro: unchanged_outside_trans)

lemma dev_frame_shift:
  "dev_frame (out + of_nat k) (n - k) s s' \<Longrightarrow> k \<le> n \<Longrightarrow> n < 4294967296 \<Longrightarrow> dev_frame out n s s'"
  unfolding dev_frame_def using unchanged_outside_shift [of "kmem s" _ out k n] by blast

lemma dev_frame_le: "dev_frame out k s s' \<Longrightarrow> k \<le> n \<Longrightarrow> dev_frame out n s s'"
  unfolding dev_frame_def using unchanged_outside_le [of "kmem s" _ out k n] by blast

lemma dev_frame_0: "dev_frame out' 0 s s' \<Longrightarrow> dev_frame out n s s'"
  unfolding dev_frame_def unchanged_outside_def by auto

section \<open>Streams\<close>

lemma copy_from_buffer_outside:
  "copy_from_buffer buf offset out is m = Inr m' \<Longrightarrow> \<forall>i \<in> set is. i < n \<Longrightarrow> n \<le> 4294967296 \<Longrightarrow>
    unchanged_outside m m' out n"
proof (induction "is" arbitrary: m)
  case (Cons i "is")
  then have "unchanged_outside m (m(out + of_nat i := buf (offset + of_nat i))) out n"
    by (auto simp: unchanged_outside_def)
  with Cons show ?case by (auto split: if_splits intro: unchanged_outside_trans)
qed simp

lemma diskstreamer_seek_frame: "diskstreamer_seek stream p s = ret (r, s') \<Longrightarrow> dev_frame out n s s' \<and> r = 0"
  by (auto simp: diskstreamer_seek_def split: if_splits
    intro!: dev_frameI [where m = "kmem s" and log = "io_log s" and st = "(streams s)(stream := (streams s stream)\<lparr>pos := p\<rparr>)"])

lemma diskstreamer_read_frame:
  assumes "diskstreamer_read hw stream out tot s = ret (r, s')"
  shows "dev_frame out (nat (sint tot)) s s'"
proof -
  have "r' = Inr (r, s') \<longrightarrow> dev_frame out (nat (sint tot)) s s'"
    if "diskstreamer_read hw stream out tot s = Some r'" for r'
  proof (rule diskstreamer_read.raw_induct [OF _ that])
    fix f hw stream out tot and s :: "'a dev_state_scheme" and r'
    assume IH: "\<And>hw stream out tot s r'. f hw stream out tot s = Some r' \<Longrightarrow>
        r' = Inr (r, s') \<longrightarrow> dev_frame out (nat (sint tot)) s s'"
      and run: "(if stream = 0 then faulty NullDeref
        else let sector = word_of_int (sint (pos (streams s stream)) sdiv 512);
                 offset = word_of_int (sint (pos (streams s stream)) smod 512)
             in prog_bind (of_option (disk_read_block hw (stream_disk (streams s stream)) sector 1 0 (io_log s) (\<lambda>_. 0)))
                 (\<lambda>(res, log, buf). let s = s\<lparr>io_log := log\<rparr> in
                    if res <s 0 then ret (res, s)
                    else let total_to_read = if 512 <s tot then 512 else tot
                         in prog_bind (of_run (copy_from_buffer buf offset out [0..<nat (sint total_to_read)] (kmem s)))
                             (\<lambda>m. let s = s\<lparr>kmem := m, streams := (streams s)(stream := (streams s stream)
                                        \<lparr>pos := pos (streams s stream) + total_to_read\<rparr>)\<rparr>
                                  in if 512 <s tot then f hw stream (out + total_to_read) (tot - 512) s
                                     else ret (res, s)))) = Some r'"
      (is "?body = _")
    show "r' = Inr (r, s') \<longrightarrow> dev_frame out (nat (sint tot)) s s'"
    proof
      assume "r' = Inr (r, s')"
      with run have run: "?body = ret (r, s')" by (simp add: ret_def)
      obtain res log buf where d: "disk_read_block hw (stream_disk (streams s stream)) (word_of_int (sint (pos (streams s stream)) sdiv 512)) 1 0
          (io_log s) (\<lambda>_. 0) = Some (res, log, buf)"
        using run by (auto simp: Let_def prog_bind_ret_iff split: if_splits)
      show "dev_frame out (nat (sint tot)) s s'"
      proof (cases "res <s 0")
        case True
        with run d have "s' = s\<lparr>io_log := log\<rparr>" by (auto simp: Let_def split: if_splits)
        then show ?thesis by (simp add: dev_frame_log)
      next
        case False
        define k where "k = (if 512 <s tot then 512 else tot)"
        define s2 where "s2 m = s\<lparr>io_log := log, kmem := m, streams := (streams s)(stream := (streams s stream)
              \<lparr>pos := pos (streams s stream) + k\<rparr>)\<rparr>" for m
        from run d False obtain m where
          c: "copy_from_buffer buf (word_of_int (sint (pos (streams s stream)) smod 512)) out [0..<nat (sint k)] (kmem s) = Inr m"
          and rest: "(if 512 <s tot then f hw stream (out + k) (tot - 512) (s2 m) else ret (res, s2 m)) = ret (r, s')"
          unfolding s2_def k_def by (auto simp: Let_def prog_bind_ret_iff split: if_splits)
        have k: "nat (sint k) \<le> nat (sint tot)" by (simp add: k_def word_sless_alt le_nat_iff)
        have lt: "nat (sint tot) < 2147483648" by (rule nat_sint_less)
        then have "unchanged_outside (kmem s) m out (nat (sint k))"
          using k by (intro copy_from_buffer_outside [OF c]) simp_all
        then have "unchanged_outside (kmem s) m out (nat (sint tot))" using k by (rule unchanged_outside_le)
        then have f: "dev_frame out (nat (sint tot)) s (s2 m)"
          by (intro dev_frameI [where m = m and log = log
              and st = "(streams s)(stream := (streams s stream)\<lparr>pos := pos (streams s stream) + k\<rparr>)"]) (auto simp: s2_def)
        show ?thesis
        proof (cases "512 <s tot")
          case True
          then have big: "512 < sint tot" "k = 512" by (simp_all add: word_sless_alt k_def)
          with rest True have "f hw stream (out + 512) (tot - 512) (s2 m) = Some (Inr (r, s'))" by (simp add: ret_def)
          from IH [OF this] have "dev_frame (out + 512) (nat (sint (tot - 512))) (s2 m) s'" by simp
          moreover have "sint (tot - 512) = sint tot - 512"
            using big(1) sint_lt [of tot] by (simp add: sint_word_ariths signed_take_bit_int_eq_self)
          then have "nat (sint (tot - 512)) = nat (sint tot) - 512" by simp
          ultimately have "dev_frame (out + of_nat 512) (nat (sint tot) - 512) (s2 m) s'" by simp
          from dev_frame_shift [OF this] have "dev_frame out (nat (sint tot)) (s2 m) s'" using big(1) lt by linarith
          with f show ?thesis by (rule dev_frame_trans)
        next
          case False
          with rest f show ?thesis by simp
        qed
      qed
    qed
  qed
  with assms show ?thesis by (auto simp: ret_def)
qed

lemma diskstreamer_read_local_frame:
  assumes "diskstreamer_read_local hw stream tot s = ret (r, buf, s')"
  shows "dev_frame out n s s'"
proof -
  obtain s2 where r: "diskstreamer_read hw stream 0 tot (s\<lparr>kmem := \<lambda>_. 0\<rparr>) = ret (r, s2)" "s' = s2\<lparr>kmem := kmem s\<rparr>"
    using assms by (auto simp: diskstreamer_read_local_def prog_bind_ret_iff)
  from diskstreamer_read_frame [OF r(1)] obtain m log st where
    "s2 = s\<lparr>kmem := m, io_log := log, streams := st\<rparr>" "\<And>p. stream_disk (st p) = stream_disk (streams s p)"
    unfolding dev_frame_def by auto
  then show ?thesis
    unfolding r(2) by (intro dev_frameI [where m = "kmem s" and log = log and st = st]) simp_all
qed

section \<open>The driver\<close>

lemma count_items_loop_frame:
  assumes "count_items_loop hw stream i s = ret (r, s')"
  shows "dev_frame out n s s'"
proof -
  have "r' = Inr (r, s') \<longrightarrow> dev_frame out n s s'" if "count_items_loop hw stream i s = Some r'" for r'
  proof (rule count_items_loop.raw_induct [OF _ that])
    fix f hw stream i and s :: "'a fat_state_scheme" and r'
    assume IH: "\<And>hw stream i s r'. f hw stream i s = Some r' \<Longrightarrow> r' = Inr (r, s') \<longrightarrow> dev_frame out n s s'"
      and run: "prog_bind (diskstreamer_read_local hw stream 32 s) (\<lambda>(r, item, s).
        if r \<noteq> 0 then ret (- 1, s) else if item 0 = 0 then ret (i, s)
        else if item 0 = 0xE5 then f hw stream i s else f hw stream (i + 1) s) = Some r'"
    show "r' = Inr (r, s') \<longrightarrow> dev_frame out n s s'"
    proof
      assume "r' = Inr (r, s')"
      with run obtain r1 item s1 where 1: "diskstreamer_read_local hw stream 32 s = ret (r1, item, s1)"
        and 2: "s' = s1 \<or> (\<exists>j. f hw stream j s1 = Some (Inr (r, s')))"
        by (auto simp: prog_bind_ret_iff ret_def [symmetric] split: if_splits)
      from diskstreamer_read_local_frame [OF 1] have "dev_frame out n s s1" .
      with 2 IH show "dev_frame out n s s'" by (auto intro: dev_frame_trans)
    qed
  qed
  with assms show ?thesis by (auto simp: ret_def)
qed

lemma total_items_frame:
  "fat16_get_total_items_for_directory hw sec s = ret (r, s') \<Longrightarrow> dev_frame out n s s'"
  unfolding fat16_get_total_items_for_directory_def Let_def prog_bind_ret_iff
  by (auto split: if_splits dest!: diskstreamer_seek_frame [where out = out and n = n] count_items_loop_frame
    intro: dev_frame_trans)

lemma fat_entry_frame: "fat16_get_fat_entry hw c s = ret (r, s') \<Longrightarrow> dev_frame out n s s'"
  unfolding fat16_get_fat_entry_def Let_def
  by (auto simp: prog_bind_ret_iff split: if_splits
    dest!: diskstreamer_seek_frame [where out = out and n = n] diskstreamer_read_local_frame [where out = out and n = n]
    intro: dev_frame_trans)

lemma cluster_loop_frame: "cluster_loop hw k c s = ret (r, s') \<Longrightarrow> dev_frame out n s s'"
proof (induction k arbitrary: c s)
  case (Suc k)
  then obtain e s1 where 1: "fat16_get_fat_entry hw c s = ret (e, s1)"
    and 2: "s' = s1 \<or> cluster_loop hw k e s1 = ret (r, s')"
    by (auto simp: prog_bind_ret_iff split: if_splits)
  from fat_entry_frame [OF 1] 2 Suc.IH show ?case by (blast intro: dev_frame_trans)
qed simp

lemma cluster_for_offset_frame:
  "fat16_get_cluster_for_offset hw c off s = ret (r, s') \<Longrightarrow> dev_frame out n s s'"
  unfolding fat16_get_cluster_for_offset_def Let_def
  by (auto simp: prog_bind_ret_iff dest: cluster_loop_frame)

lemma dev_frame_disk [simp]: "dev_frame out n s s' \<Longrightarrow> the_disk s' = the_disk s"
  by (auto simp: dev_frame_def)

text \<open>A cluster's size in bytes is not negative, whatever the header says.\<close>

lemma cluster_bytes: "sint ((ucast (b :: u8) :: u32) * 512) = 512 * int (unat b)"
proof -
  have "unat b < 256" using unsigned_less [of b, where ?'a = nat] by simp
  then have u: "unat ((ucast b :: u32) * 512) = 512 * unat b" by (simp add: unat_word_ariths)
  then show ?thesis using \<open>unat b < 256\<close> by (simp add: sint_small)
qed

lemma read_internal_from_stream_frame:
  assumes "fat16_read_internal_from_stream hw stream c off tot out s = ret (r, s')" "sector_size (the_disk s) = 512"
  shows "dev_frame out (nat (sint tot)) s s'"
proof -
  have "sector_size (the_disk s) = 512 \<longrightarrow> r' = Inr (r, s') \<longrightarrow> dev_frame out (nat (sint tot)) s s'"
    if "fat16_read_internal_from_stream hw stream c off tot out s = Some r'" for r'
  proof (rule fat16_read_internal_from_stream.raw_induct [OF _ that])
    fix f hw stream c off tot out and s :: "'a fat_state_scheme" and r'
    assume IH: "\<And>hw stream c off tot out s r'. f hw stream c off tot out s = Some r' \<Longrightarrow>
        sector_size (the_disk s) = 512 \<longrightarrow> r' = Inr (r, s') \<longrightarrow> dev_frame out (nat (sint tot)) s s'"
      and run: "(let private = fs_private (the_disk s);
          size_of_cluster_bytes = sectors_per_cluster (kmem s) private * sector_size (the_disk s)
      in prog_bind (fat16_get_cluster_for_offset hw c off s) (\<lambda>(cluster_to_use, s).
           if cluster_to_use <s 0 then ret (cluster_to_use, s)
           else
             prog_bind (int_rem off size_of_cluster_bytes) (\<lambda>offset_from_cluster.
               let starting_sector = fat16_cluster_to_sector s private cluster_to_use;
                   starting_pos = starting_sector * sector_size (the_disk s) + offset_from_cluster;
                   total_to_read = (if size_of_cluster_bytes <s tot then size_of_cluster_bytes else tot)
               in prog_bind (diskstreamer_seek stream starting_pos s) (\<lambda>(r, s).
                    if r \<noteq> 0 then ret (r, s)
                    else
                      prog_bind (diskstreamer_read hw stream out total_to_read s) (\<lambda>(r, s).
                        if r \<noteq> 0 then ret (r, s)
                        else if 0 <s tot - total_to_read
                        then f hw stream c (off + total_to_read) (tot - total_to_read) (out + total_to_read) s
                        else ret (r, s)))))) = Some r'" (is "?body = _")
    show "sector_size (the_disk s) = 512 \<longrightarrow> r' = Inr (r, s') \<longrightarrow> dev_frame out (nat (sint tot)) s s'"
    proof (intro impI)
      assume sec: "sector_size (the_disk s) = 512" and "r' = Inr (r, s')"
      with run have run: "?body = ret (r, s')" by (simp add: ret_def)
      let ?n = "nat (sint tot)"
      define sz where "sz = sectors_per_cluster (kmem s) (fs_private (the_disk s)) * 512"
      have sz: "0 \<le> sint sz" by (simp add: sz_def sectors_per_cluster_def cluster_bytes)
      define k where "k = (if sz <s tot then sz else tot)"
      have k: "sint k \<le> sint tot" "nat (sint k) \<le> ?n" by (simp_all add: k_def word_sless_alt nat_mono)
      obtain cl s1 where 1: "fat16_get_cluster_for_offset hw c off s = ret (cl, s1)"
        using run by (auto simp: prog_bind_ret_iff Let_def)
      have f1: "dev_frame out ?n s s1" by (rule cluster_for_offset_frame [OF 1])
      show "dev_frame out ?n s s'"
      proof (cases "cl <s 0")
        case True
        with run 1 f1 show ?thesis by simp
      next
        case False
        with run 1 sec obtain p r2 s2 where 2: "diskstreamer_seek stream p s1 = ret (r2, s2)"
          and more: "r2 \<noteq> 0 \<and> s' = s2 \<or> (\<exists>r3 s3. diskstreamer_read hw stream out k s2 = ret (r3, s3) \<and>
            (s' = s3 \<or> 0 <s tot - k \<and> f hw stream c (off + k) (tot - k) (out + k) s3 = ret (r, s')))"
          unfolding k_def sz_def by (auto simp: prog_bind_ret_iff Let_def split: if_splits)
        have f2: "dev_frame out ?n s s2" using f1 diskstreamer_seek_frame [OF 2] by (blast intro: dev_frame_trans)
        from more consider "s' = s2" | r3 s3 where "diskstreamer_read hw stream out k s2 = ret (r3, s3)"
            "s' = s3 \<or> 0 <s tot - k \<and> f hw stream c (off + k) (tot - k) (out + k) s3 = ret (r, s')"
          by blast
        then show ?thesis
        proof cases
          case 2
          have f3: "dev_frame out ?n s s3"
            using f2 dev_frame_le [OF diskstreamer_read_frame [OF 2(1)] k(2)] by (rule dev_frame_trans)
          from 2(2) show ?thesis
          proof
            assume a: "0 <s tot - k \<and> f hw stream c (off + k) (tot - k) (out + k) s3 = ret (r, s')"
            have "sector_size (the_disk s3) = 512" using f3 sec by simp
            moreover have "f hw stream c (off + k) (tot - k) (out + k) s3 = Some (Inr (r, s'))"
              using a by (simp add: ret_def)
            ultimately have r: "dev_frame (out + k) (nat (sint (tot - k))) s3 s'" using IH by blast
            have "k \<noteq> tot" using a by auto
            then have "0 \<le> sint k" using sz by (auto simp: k_def split: if_splits)
            then have "sint (tot - k) = sint tot - sint k" "unat k = nat (sint k)"
              using k(1) sint_lt [of tot] by (simp_all add: sint_word_ariths signed_take_bit_int_eq_self unat_of_sint)
            then have "dev_frame (out + of_nat (nat (sint k))) (?n - nat (sint k)) s3 s'"
              using r by (simp add: nat_diff_distrib' k(1) \<open>0 \<le> sint k\<close> order.trans [OF \<open>0 \<le> sint k\<close> k(1)])
            from dev_frame_shift [OF this k(2)] have "dev_frame out ?n s3 s'"
              using nat_sint_less [of tot] by linarith
            with f3 show ?thesis by (rule dev_frame_trans)
          qed (use f3 in simp)
        qed (use f2 in simp)
      qed
    qed
  qed
  with assms show ?thesis by (auto simp: ret_def)
qed

lemma read_loop_frame:
  "fat16_read_loop hw n item off sz nm out s = ret (r, s') \<Longrightarrow> sector_size (the_disk s) = 512 \<Longrightarrow>
    n * unat sz < 4294967296 \<Longrightarrow> dev_frame out (n * unat sz) s s'"
proof (induction n arbitrary: off out s)
  case (Suc n)
  then obtain r1 s1 where 1: "fat16_read_internal hw (fat16_get_first_cluster (kmem s) item) off sz out s = ret (r1, s1)"
    and 2: "s' = s1 \<or> fat16_read_loop hw n item (off + sz) sz nm (out + sz) s1 = ret (r, s')"
    by (auto simp: prog_bind_ret_iff split: if_splits)
  have "nat (sint sz) \<le> unat sz" by (rule nat_sint_le)
  then have "nat (sint sz) \<le> Suc n * unat sz" by simp
  then have f: "dev_frame out (Suc n * unat sz) s s1"
    using read_internal_from_stream_frame [OF 1 [unfolded fat16_read_internal_def] Suc.prems(2)] by (rule dev_frame_le [rotated])
  from 2 show ?case
  proof
    assume "fat16_read_loop hw n item (off + sz) sz nm (out + sz) s1 = ret (r, s')"
    from Suc.IH [OF this] f Suc.prems have "dev_frame (out + sz) (n * unat sz) s1 s'" by simp
    then have "dev_frame (out + of_nat (unat sz)) (Suc n * unat sz - unat sz) s1 s'" by simp
    from dev_frame_shift [OF this] Suc.prems(3) have "dev_frame out (Suc n * unat sz) s1 s'" by simp
    with f show ?thesis by (rule dev_frame_trans)
  qed (use f in simp)
qed simp

end
