(* ===== verification/FatNames.thy ===== *)
theory FatNames
  imports FatFrames
begin

text \<open>
  The text the driver makes of a directory item's name, and its comparison with a name of a
  path.
\<close>

section \<open>Fields\<close>

text \<open>A run of bytes up to a space or a zero.\<close>

definition field :: "mem \<Rightarrow> addr \<Rightarrow> u8 list \<Rightarrow> bool" where
  "field m p w \<longleftrightarrow> (\<forall>i < length w. m (p + of_nat i) = w ! i) \<and> 0 \<notin> set w \<and> 0x20 \<notin> set w
     \<and> (m (p + of_nat (length w)) = 0 \<or> m (p + of_nat (length w)) = 0x20)"

lemma field_Nil [simp]: "field m p [] \<longleftrightarrow> m p = 0 \<or> m p = 0x20"
  by (simp add: field_def)

lemma field_Cons [simp]: "field m p (c # w) \<longleftrightarrow> m p = c \<and> c \<noteq> 0 \<and> c \<noteq> 0x20 \<and> field m (p + 1) w"
  by (auto simp: field_def All_less_Suc2 add.assoc)

lemma field_append:
  "field m p (xs @ ys) \<longleftrightarrow> (\<forall>i < length xs. m (p + of_nat i) = xs ! i) \<and> 0 \<notin> set xs \<and> 0x20 \<notin> set xs
     \<and> field m (p + of_nat (length xs)) ys"
  by (induction xs arbitrary: p) (auto simp: All_less_Suc2 add.assoc)

lemma to_proper_string_field:
  "field m p w \<Longrightarrow> length w < k \<Longrightarrow>
    fat16_to_proper_string m (length xs) p (xs @ replicate k 0) =
      Inr (length xs + length w, xs @ w @ replicate (k - length w) 0)"
proof (induction w arbitrary: p xs k)
  case Nil
  then show ?case
    by (subst fat16_to_proper_string.simps) (cases k; auto simp: list_update_append)
next
  case (Cons c w)
  obtain j where k: "k = Suc j" using Cons.prems(2) by (cases k) auto
  have "fat16_to_proper_string m (length (xs @ [c])) (p + 1) ((xs @ [c]) @ replicate j 0) =
      Inr (length (xs @ [c]) + length w, (xs @ [c]) @ w @ replicate (j - length w) 0)"
    using Cons.prems k by (intro Cons.IH) simp_all
  with Cons.prems k show ?case
    by (subst fat16_to_proper_string.simps) (simp add: list_update_append)
qed

section \<open>Directory items\<close>

text \<open>
  The 32 bytes of an item, whatever it is: a file, a directory, a volume label, a part of a
  long name, a deleted item. The driver's text of it runs from the name, and after a period
  from the extension at byte 8, to the next space or zero, wherever that is; in an item as the
  FAT specification has it that is at byte 20 at the latest, the high half of the first
  cluster, which is 0 on a FAT16 volume.
\<close>

definition text_run :: "u8 list \<Rightarrow> u8 list" where
  "text_run = takeWhile (\<lambda>c. c \<noteq> 0 \<and> c \<noteq> 0x20)"

definition item_ended :: "u8 list \<Rightarrow> bool" where
  "item_ended r \<longleftrightarrow> length r = 32 \<and> length (text_run (drop 8 r)) < 24"

definition item_text :: "u8 list \<Rightarrow> u8 list" where
  "item_text r = (let x = text_run r; y = text_run (drop 8 r) in if y = [] then x else x @ 0x2e # y)"

lemma bytes_nth: "bytes m a k = xs \<Longrightarrow> i < k \<Longrightarrow> m (a + of_nat i) = xs ! i"
  by auto

lemma bytes_part: "i + k \<le> n \<Longrightarrow> bytes m (a + of_nat i) k = take k (drop i (bytes m a n))"
  by (rule nth_equalityI) (simp_all add: add.assoc)

lemma text_run_chars: "0 \<notin> set (text_run w)" "0x20 \<notin> set (text_run w)"
  by (auto simp: text_run_def dest: set_takeWhileD)

lemma text_run_end:
  "length (text_run w) < length w \<Longrightarrow> w ! length (text_run w) = 0 \<or> w ! length (text_run w) = 0x20"
  unfolding text_run_def by (drule nth_length_takeWhile) simp

lemma text_run_le: "length (text_run w) \<le> length w"
  unfolding text_run_def by (rule length_takeWhile_le)

lemma text_run_nth: "i < length (text_run w) \<Longrightarrow> text_run w ! i = w ! i"
  unfolding text_run_def by (rule takeWhile_nth)

lemma item_ended_name: "item_ended r \<Longrightarrow> length (text_run r) < 32"
proof -
  assume r: "item_ended r"
  let ?k = "8 + length (text_run (drop 8 r))"
  have k: "?k < 32" "length (text_run (drop 8 r)) < length (drop 8 r)" using r by (simp_all add: item_ended_def)
  from text_run_end [OF k(2)] have stop: "r ! ?k = 0 \<or> r ! ?k = 0x20" using r by (simp add: item_ended_def)
  have "length (text_run r) \<le> ?k"
  proof (rule ccontr)
    assume "\<not> length (text_run r) \<le> ?k"
    then have "?k < length (text_run r)" by simp
    then have "text_run r ! ?k \<in> set (text_run r)" "text_run r ! ?k = r ! ?k"
      by (rule nth_mem, rule text_run_nth)
    with stop show False using text_run_chars [of r] by metis
  qed
  with k(1) show ?thesis by simp
qed

lemma field_run:
  assumes "bytes m p n = w" "length (text_run w) < n"
  shows "field m p (text_run w)"
  unfolding field_def
proof (intro conjI allI impI)
  have l: "length w = n" using assms(1) by auto
  show "m (p + of_nat i) = text_run w ! i" if "i < length (text_run w)" for i
    using bytes_nth [OF assms(1), of i] that assms(2) by (simp add: text_run_nth)
  show "m (p + of_nat (length (text_run w))) = 0 \<or> m (p + of_nat (length (text_run w))) = 0x20"
    using bytes_nth [OF assms(1,2)] text_run_end [of w] assms(2) l by simp
qed (rule text_run_chars)+

definition padded :: "nat \<Rightarrow> u8 list \<Rightarrow> u8 list" where
  "padded k w = w @ replicate (k - length w) 0"

lemma item_text_short: "item_ended r \<Longrightarrow> length (item_text r) \<le> 55 \<and> 0 \<notin> set (item_text r)"
  using item_ended_name [of r] text_run_chars [of r] text_run_chars [of "drop 8 r"]
  by (auto simp: item_text_def Let_def item_ended_def)

lemma filename_text:
  assumes "bytes m a 32 = r" "item_ended r" "56 \<le> k"
  shows "fat16_get_full_relative_filename m a k = Inr (padded k (item_text r))"
proof -
  let ?b = "text_run r" and ?e = "text_run (drop 8 r)"
  have b: "length ?b < 32" using assms(2) by (rule item_ended_name)
  have e: "length ?e < 24" using assms(2) by (simp add: item_ended_def)
  have fb: "field m a ?b" using assms(1) b by (rule field_run)
  have "bytes m (a + 8) 24 = drop 8 r" using bytes_part [of 8 24 32 m a] assms(1,2) by (simp add: item_ended_def)
  then have fe: "field m (a + 8) ?e" using e by (rule field_run)
  have 1: "fat16_to_proper_string m 0 a (replicate k 0) = Inr (length ?b, ?b @ replicate (k - length ?b) 0)"
    using to_proper_string_field [OF fb, of k "[]"] b assms(3) by simp
  show ?thesis
  proof (cases "?e = []")
    case True
    then have "m (a + 8) = 0 \<or> m (a + 8) = 0x20" using fe by simp
    with 1 True show ?thesis
      by (auto simp: fat16_get_full_relative_filename_def item_ext_def item_text_def padded_def Let_def)
  next
    case False
    then have c: "m (a + 8) \<noteq> 0" "m (a + 8) \<noteq> 0x20" using fe by (cases ?e; simp)+
    obtain j where j: "k - length ?b = Suc j" using b assms(3) by (cases "k - length ?b") auto
    then have "length ?e < j" using b e assms(3) by linarith
    then have "fat16_to_proper_string m (length (?b @ [0x2e])) (a + 8) ((?b @ [0x2e]) @ replicate j 0) =
        Inr (length (?b @ [0x2e]) + length ?e, (?b @ [0x2e]) @ ?e @ replicate (j - length ?e) 0)"
      by (intro to_proper_string_field fe)
    moreover have "(?b @ replicate (k - length ?b) 0)[length ?b := 0x2e] = (?b @ [0x2e]) @ replicate j 0"
      unfolding j by (simp add: list_update_append)
    moreover have "k - length (?b @ 0x2e # ?e) = j - length ?e" using j by simp
    ultimately show ?thesis using 1 c False j
      by (simp add: fat16_get_full_relative_filename_def item_ext_def item_text_def padded_def Let_def)
  qed
qed

section \<open>Short names\<close>

text \<open>A name of up to eight bytes and an extension of up to three, padded with spaces.\<close>

definition name_bytes :: "nat \<Rightarrow> u8 list \<Rightarrow> bool" where
  "name_bytes k w \<longleftrightarrow> length w \<le> k \<and> 0 \<notin> set w \<and> 0x20 \<notin> set w"

definition short_item :: "u8 list \<Rightarrow> u8 list \<times> u8 list \<Rightarrow> bool" where
  "short_item r = (\<lambda>(n, e). item_ended r \<and> name_bytes 8 n \<and> name_bytes 3 e
     \<and> take 8 r = n @ replicate (8 - length n) 0x20 \<and> take 3 (drop 8 r) = e @ replicate (3 - length e) 0x20)"

definition short_name :: "u8 list \<times> u8 list \<Rightarrow> u8 list" where
  "short_name = (\<lambda>(n, e). if e = [] then n else n @ 0x2e # e)"

text \<open>The attribute byte comes right after the extension, the extension right after the name.\<close>

lemma text_run_padded:
  assumes "take k r = w @ replicate (k - length w) 0x20" "name_bytes k w" "k \<le> length r"
  shows "text_run r = (if length w = k then w @ text_run (drop k r) else w)"
proof -
  have all: "\<forall>c \<in> set w. c \<noteq> 0 \<and> c \<noteq> 0x20" using assms(2) by (auto simp: name_bytes_def)
  have "r = w @ replicate (k - length w) 0x20 @ drop k r" using assms(1) append_take_drop_id [of k r] by simp
  then have "text_run r = text_run (w @ replicate (k - length w) 0x20 @ drop k r)" by simp
  also have "\<dots> = w @ text_run (replicate (k - length w) 0x20 @ drop k r)"
    unfolding text_run_def using all by (subst takeWhile_append2) auto
  also have "\<dots> = (if length w = k then w @ text_run (drop k r) else w)"
    using assms(2) by (cases "k - length w") (auto simp: name_bytes_def text_run_def)
  finally show ?thesis .
qed

lemma short_item_text:
  assumes "short_item r (n, e)"
  shows "item_text r = short_name (n, e) \<longleftrightarrow> (length n < 8 \<or> e = []) \<and> (length e < 3 \<or> r ! 11 = 0 \<or> r ! 11 = 0x20)"
proof -
  let ?y = "text_run (drop 8 r)" and ?z = "text_run (drop 11 r)"
  have s: "length r = 32" "name_bytes 8 n" "name_bytes 3 e" "take 8 r = n @ replicate (8 - length n) 0x20"
    "take 3 (drop 8 r) = e @ replicate (3 - length e) 0x20" "length n \<le> 8" "length e \<le> 3"
    using assms by (auto simp: short_item_def item_ended_def name_bytes_def)
  have x: "text_run r = (if length n = 8 then n @ ?y else n)"
    using text_run_padded [OF s(4,2)] s(1) by simp
  have y: "?y = (if length e = 3 then e @ ?z else e)"
    using text_run_padded [OF s(5,3)] s(1) by simp
  have "drop 11 r = r ! 11 # drop 12 r" using Cons_nth_drop_Suc [of 11 r] s(1) by simp
  then have z: "?z = [] \<longleftrightarrow> r ! 11 = 0 \<or> r ! 11 = 0x20" by (auto simp: text_run_def)
  have e: "?y = e \<longleftrightarrow> length e < 3 \<or> ?z = []" using y s(7) by auto
  have ye: "?y = [] \<Longrightarrow> e = []" using y by (auto split: if_splits)
  show ?thesis
  proof (cases "length n = 8")
    case True
    have "n @ ?y @ 0x2e # ?y \<noteq> n @ 0x2e # e" if "?y \<noteq> []"
    proof
      assume "n @ ?y @ 0x2e # ?y = n @ 0x2e # e"
      then have "length (?y @ 0x2e # ?y) = length ((0x2e :: u8) # e)" by simp
      moreover have "length e \<le> length ?y" using y by (auto split: if_splits)
      moreover have "0 < length ?y" using that by simp
      ultimately show False by (simp only: length_append list.size)
    qed
    moreover have "n @ ?y @ 0x2e # ?y \<noteq> n" by simp
    moreover have "?y = []" if "e = []" using y that by simp
    ultimately show ?thesis using True x ye by (auto simp: item_text_def short_name_def Let_def)
  next
    case False
    then have "item_text r = short_name (n, e) \<longleftrightarrow> ?y = e"
      using x ye by (auto simp: item_text_def short_name_def Let_def)
    then show ?thesis using e z False s(6) by auto
  qed
qed

section \<open>Comparison\<close>

lemma toupper_0_iff: "toupper c = 0 \<longleftrightarrow> c = 0"
proof -
  have "c - 0x61 + 0x41 = 0 \<Longrightarrow> c = 0x20" by (simp add: algebra_simps)
  then show ?thesis by (auto simp: toupper_def word_sle_eq)
qed

lemma toupper_0 [simp]: "toupper 0 = 0"
  by (simp add: toupper_0_iff)

lemma takeWhile_padded: "0 \<notin> set w \<Longrightarrow> takeWhile (\<lambda>c. c \<noteq> 0) (padded k w) = w"
  unfolding padded_def by (subst takeWhile_append2) (auto simp: takeWhile_replicate)

lemma map_padded: "map toupper (padded k w) = padded k (map toupper w)"
  by (simp add: padded_def)

lemma padded_inject:
  assumes "0 \<notin> set v" "0 \<notin> set w"
  shows "padded k v = padded k w \<longleftrightarrow> v = w"
  using takeWhile_padded [OF assms(1)] takeWhile_padded [OF assms(2)] by metis

lemma upper_padded_eq:
  assumes "0 \<notin> set v" "0 \<notin> set w"
  shows "map toupper (padded k v) = map toupper (padded k w) \<longleftrightarrow> map toupper v = map toupper w"
  unfolding map_padded by (rule padded_inject) (use assms in \<open>auto simp: toupper_0_iff\<close>)

lemma name_matches:
  assumes "name_at m b w" "b < 25600" "length t \<le> 108" "0 \<notin> set t"
  shows "fat16_name_matches m (padded 108 t) (kblock b) \<longleftrightarrow> map toupper t = map toupper w"
proof -
  let ?m = "mem_fill m tmp_filename_at 108 (\<lambda>i. padded 108 t ! i)"
  have w: "0 \<notin> set w" "length w < 108" and nm: "\<And>i. i < 108 \<Longrightarrow> m (kblock b + of_nat i) = (if i < length w then w ! i else 0)"
    using assms(1) by (simp_all add: name_at_def)
  have len: "length (padded 108 t) = 108" "length (padded 108 w) = 108" using assms(3) w(2) by (simp_all add: padded_def)
  have a: "?m (tmp_filename_at + of_nat i) = padded 108 t ! i" if "i < 108" for i
    using that by (simp add: mem_fill_in)
  have b: "?m (kblock b + of_nat i) = padded 108 w ! i" if "i < 108" for i
  proof -
    have "unat (kblock b + of_nat i) = 16777216 + 4096 * b + i"
      using unat_kblock_add [OF assms(2), of i] that by simp
    then have "108 \<le> unat (kblock b + of_nat i - tmp_filename_at)"
      using assms(2) that by (simp add: unat_sub_if' tmp_filename_at_def)
    then have "?m (kblock b + of_nat i) = m (kblock b + of_nat i)" by (rule mem_fill_out)
    then show ?thesis using nm [OF that] that by (simp add: padded_def nth_append)
  qed
  have "fat16_name_matches m (padded 108 t) (kblock b) \<longleftrightarrow>
      (\<forall>i < 108. toupper (padded 108 t ! i) = toupper (padded 108 w ! i))"
    using a b by (simp add: fat16_name_matches_def len istrncmp_zero_iff flip: less_Suc_eq_le)
  also have "\<dots> \<longleftrightarrow> map toupper (padded 108 t) = map toupper (padded 108 w)"
    by (simp add: list_eq_iff_nth_eq len)
  also have "\<dots> \<longleftrightarrow> map toupper t = map toupper w" by (rule upper_padded_eq [OF assms(4) w(1)])
  finally show ?thesis .
qed

section \<open>Properties\<close>

text \<open>An item for the examples: the bytes of a directory item at address 0x5000.\<close>

definition item_example :: "u8 list \<Rightarrow> mem" where
  "item_example bs = mem_fill (\<lambda>_. 0) 0x5000 (length bs) (\<lambda>i. bs ! i)"

lemma item_example: "length bs < 4294967296 \<Longrightarrow> bytes (item_example bs) 0x5000 (length bs) = bs"
  by (simp add: item_example_def bytes_fill map_nth)

text \<open>
  C36: The driver's text of a directory item with a short name is \<^verbatim>\<open>NAME.EXT\<close>, zero-padded,
  exactly when the name has fewer than eight bytes or there is no extension, and the extension
  has fewer than three bytes or the attribute byte behind it is 0 or 0x20. Otherwise the text
  of a full name runs on into the extension, which is read twice, and that of a full extension
  into the attribute byte, as for a read-only file (0x01, 0x21).
\<close>

theorem fat16_filename_short:
  assumes "short_item (bytes m item 32) (n, e)"
  shows "fat16_get_full_relative_filename m item 108 = Inr (padded 108 (item_text (bytes m item 32)))
    \<and> (fat16_get_full_relative_filename m item 108 = Inr (padded 108 (short_name (n, e)))
      \<longleftrightarrow> (length n < 8 \<or> e = []) \<and> (length e < 3 \<or> item_attribute m item = 0 \<or> item_attribute m item = 0x20))"
proof -
  let ?r = "bytes m item 32"
  have r: "item_ended ?r" using assms by (simp add: short_item_def)
  note f = filename_text [OF refl r, of 108]
  have t: "0 \<notin> set (item_text ?r)" "0 \<notin> set (short_name (n, e))"
    using item_text_short [OF r] assms by (auto simp: short_item_def name_bytes_def short_name_def)
  have a: "?r ! 11 = item_attribute m item" by (simp add: item_attribute_def)
  show ?thesis
    using f short_item_text [OF assms] padded_inject [OF t] unfolding a by simp
qed

text \<open>The read-only file \<^verbatim>\<open>R.BIN\<close> is known as \<^verbatim>\<open>R.BIN!\<close>.\<close>

definition read_only_item :: "u8 list" where
  "read_only_item = [0x52, 0x20, 0x20, 0x20, 0x20, 0x20, 0x20, 0x20, 0x42, 0x49, 0x4e, 0x21,
     0, 0, 0, 0, 0, 0, 0, 0, 0, 0, 0, 0, 0, 0, 0, 0, 0, 0, 0, 0]"

theorem fat16_filename_short_witness:
  "fat16_get_full_relative_filename (item_example read_only_item) 0x5000 108 = Inr (padded 108 [0x52, 0x2e, 0x42, 0x49, 0x4e, 0x21])
    \<and> fat16_get_full_relative_filename (item_example read_only_item) 0x5000 108
      \<noteq> Inr (padded 108 (short_name ([0x52], [0x42, 0x49, 0x4e])))"
proof -
  have l: "length read_only_item = 32" by (simp add: read_only_item_def)
  have b: "bytes (item_example read_only_item) 0x5000 32 = read_only_item"
    by (rule item_example [of read_only_item, unfolded l]) simp
  have r7: "replicate 7 (0x20 :: u8) = [0x20, 0x20, 0x20, 0x20, 0x20, 0x20, 0x20]" by (simp add: numeral_eq_Suc)
  have s: "short_item read_only_item ([0x52], [0x42, 0x49, 0x4e])" "item_text read_only_item = [0x52, 0x2e, 0x42, 0x49, 0x4e, 0x21]"
    by (simp_all add: read_only_item_def short_item_def item_ended_def item_text_def text_run_def name_bytes_def r7)
  have "item_attribute (item_example read_only_item) 0x5000 = 0x21"
    using bytes_nth [OF b, of 11] by (simp add: item_attribute_def read_only_item_def)
  with fat16_filename_short [of "item_example read_only_item" "0x5000", unfolded b, OF s(1), unfolded s(2)]
  show ?thesis by (elim conjE) (rule conjI, assumption, simp)
qed

end
