(* ===== verification/FatVolume.thy ===== *)
theory FatVolume
  imports FatNames
begin

text \<open>
  The FAT16 driver on a mounted volume: finding a file of the root directory, opening it, and
  what open files own.
\<close>

section \<open>Mounted volumes\<close>

text \<open>The items the driver knows, 32 bytes each: files, directories, labels, parts of long names.\<close>

type_synonym entries = "u8 list list"

definition dir_list :: "mem \<Rightarrow> addr \<Rightarrow> entries \<Rightarrow> bool" where
  "dir_list m D es \<longleftrightarrow> kstable_block m D (32 * length es)
     \<and> (\<forall>i < length es. bytes m (D + of_nat (32 * i)) 32 = es ! i \<and> item_ended (es ! i))"

definition upper_name :: "u8 list \<Rightarrow> u8 list" where
  "upper_name r = map toupper (item_text r)"

text \<open>The first item whose text is the name, up to case.\<close>

definition find_entry :: "entries \<Rightarrow> u8 list \<Rightarrow> nat option" where
  "find_entry es w = find (\<lambda>i. upper_name (es ! i) = map toupper w) [0..<length es]"

text \<open>
  The names the theorems speak of: the text of no item, or of one only, which is no directory.
  The driver looks at all items and keeps the last that matches.
\<close>

definition plain_name :: "entries \<Rightarrow> u8 list \<Rightarrow> bool" where
  "plain_name es w \<longleftrightarrow> (\<forall>i < length es. upper_name (es ! i) = map toupper w \<longrightarrow>
     es ! i ! 11 AND FAT_FILE_SUBDIRECTORY = 0
     \<and> (\<forall>j < length es. upper_name (es ! j) = map toupper w \<longrightarrow> j = i))"

definition named_item :: "entries \<Rightarrow> u8 list \<Rightarrow> nat \<Rightarrow> bool" where
  "named_item es w k \<longleftrightarrow> plain_name es w \<and> find_entry es w = Some k"

text \<open>The directory that names are looked up in.\<close>

abbreviation root_dir :: "'a fat_state_scheme \<Rightarrow> fat_directory" where
  "root_dir s \<equiv> fat_directories s (root_directory (fs_private (the_disk s)))"

definition mounted :: "'a fat_state_scheme \<Rightarrow> entries \<Rightarrow> bool" where
  "mounted s es \<longleftrightarrow> sint (dir_total (root_dir s)) = int (length es)
     \<and> dir_list (kmem s) (dir_item (root_dir s)) es"

lemma bytes_cong: "(\<And>i. i < k \<Longrightarrow> m' (a + of_nat i) = m (a + of_nat i)) \<Longrightarrow> bytes m' a k = bytes m a k"
  by (simp add: bytes_def)

lemma item_attribute_byte: "bytes m a 32 = r \<Longrightarrow> item_attribute m a = r ! 11"
  using bytes_nth [of m a 32 r 11] by (simp add: item_attribute_def)

lemma kstable_block_part:
  assumes "kstable_block m p n" "i + k \<le> n"
  shows "kstable_block m (p + of_nat i) k"
  unfolding kstable_block_def
proof (intro allI impI)
  fix j assume "j < k"
  then have "i + j < n" using assms(2) by simp
  then have "kstable m (p + of_nat (i + j))" using assms(1) unfolding kstable_block_def by blast
  then show "kstable m (p + of_nat i + of_nat j)" by (simp add: add.assoc)
qed

lemma kstable_block_keep: "kext m m' \<Longrightarrow> kstable_block m p n \<Longrightarrow> i < n \<Longrightarrow> m' (p + of_nat i) = m (p + of_nat i)"
  unfolding kstable_block_def using kextD(1) by blast

lemma dir_list_item:
  assumes "dir_list m D es" "i < length es"
  shows "kstable_block m (D + of_nat (32 * i)) 32" "bytes m (D + of_nat (32 * i)) 32 = es ! i" "item_ended (es ! i)"
  using assms kstable_block_part [of m D "32 * length es" "32 * i" 32] by (simp_all add: dir_list_def)

lemma dir_list_ext:
  assumes "kext m m'" "dir_list m D es"
  shows "dir_list m' D es"
  unfolding dir_list_def
proof (intro conjI allI impI)
  show "kstable_block m' D (32 * length es)"
    using assms by (auto simp: dir_list_def intro: kstable_block_ext)
  fix i assume i: "i < length es"
  note it = dir_list_item [OF assms(2) i]
  have "bytes m' (D + of_nat (32 * i)) 32 = bytes m (D + of_nat (32 * i)) 32"
    by (rule bytes_cong) (rule kstable_block_keep [OF assms(1) it(1)])
  then show "bytes m' (D + of_nat (32 * i)) 32 = es ! i" using it(2) by (rule trans)
  show "item_ended (es ! i)" by (rule it(3))
qed

section \<open>Finding a file\<close>

lemma new_fat_item:
  assumes "card (kused (kmem s)) + 2 \<le> 25600" "kstable_block (kmem s) item 32"
    "item_attribute (kmem s) item AND FAT_FILE_SUBDIRECTORY = 0"
  shows "\<exists>b c m. fat16_new_fat_item_for_directory_item hw item s =
      ret (kblock b, s\<lparr>kmem := m, fat_items := (fat_items s)(kblock b := \<lparr>fi_ptr = kblock c, fi_type = FAT_ITEM_TYPE_FILE\<rparr>)\<rparr>)
    \<and> kext (kmem s) m \<and> kused m = insert b (insert c (kused (kmem s))) \<and> b \<noteq> c \<and> b \<notin> kused (kmem s)
    \<and> c \<notin> kused (kmem s) \<and> b < 25600 \<and> c < 25600 \<and> bytes m (kblock c) 32 = bytes (kmem s) item 32"
proof -
  have "card (kused (kmem s)) < 25600" using assms(1) by simp
  from kzalloc_new [OF this, of 8] obtain b m1 where
    1: "kzalloc (kmem s) 8 = (kblock b, m1)" "b < 25600" "b \<notin> kused (kmem s)" "kused m1 = insert b (kused (kmem s))"
      "kext (kmem s) m1" "card (kused m1) = Suc (card (kused (kmem s)))" "kblock b \<noteq> 0" by auto
  have "card (kused m1) < 25600" using assms(1) 1(6) by simp
  from kzalloc_new [OF this, of 32] obtain c m2 where
    2: "kzalloc m1 32 = (kblock c, m2)" "c < 25600" "c \<notin> kused m1" "kused m2 = insert c (kused m1)"
      "kext m1 m2" "kblock c \<noteq> 0" by auto
  have st: "kstable_block m1 item 32" using 1(5) assms(2) by (rule kstable_block_ext)
  have out: "4096 \<le> unat (item + of_nat j - kblock c)" if "j < 32" for j
  proof -
    have "kstable m1 (item + of_nat j)" using st that unfolding kstable_block_def by blast
    then show ?thesis using 2(2,3) unfolding kstable_def by blast
  qed
  have "apart (kblock c) 32 item 32"
    unfolding apart_def
  proof (intro allI impI notI)
    fix i j :: nat assume "i < 32" "j < 32" "kblock c + of_nat i = item + of_nat j"
    then have "item + of_nat j - kblock c = of_nat i" by (metis add_diff_cancel_left')
    then have "unat (item + of_nat j - kblock c) = i" using \<open>i < 32\<close> by simp
    with out [OF \<open>j < 32\<close>] \<open>i < 32\<close> show False by simp
  qed
  then have cp: "memcpy m2 (kblock c) item 32 = (kblock c, mem_copy m2 (kblock c) item 32)"
    using memcpy_copy [of "kblock c" 32 item m2] by simp
  let ?m = "mem_copy m2 (kblock c) item 32"
  have attr: "item_attribute m1 item = item_attribute (kmem s) item"
    using kstable_block_keep [OF 1(5) assms(2), of 11] by (simp add: item_attribute_def)
  have "fat16_new_fat_item_for_directory_item hw item s =
      ret (kblock b, s\<lparr>kmem := ?m, fat_items := (fat_items s)(kblock b := \<lparr>fi_ptr = kblock c, fi_type = FAT_ITEM_TYPE_FILE\<rparr>)\<rparr>)"
    using 1(1,7) 2(1,6) attr assms(3) cp
    by (simp add: fat16_new_fat_item_for_directory_item_def fat16_clone_directory_item_def)
  moreover have "kext (kmem s) ?m"
    unfolding mem_copy_def
    by (rule kext_fill [OF kext_trans [OF 1(5) 2(5)] 2(2)]) (use 2(3) 1(4) in simp_all)
  moreover have "kused ?m = insert b (insert c (kused (kmem s)))"
    unfolding mem_copy_def using 2(2,4) 1(4) by auto
  moreover have "bytes ?m (kblock c) 32 = bytes (kmem s) item 32"
  proof (rule nth_equalityI)
    fix i assume "i < length (bytes ?m (kblock c) 32)"
    then have i: "i < 32" by simp
    have "m2 (item + of_nat i) = kmem s (item + of_nat i)"
      using kstable_block_keep [OF 2(5) st i] kstable_block_keep [OF 1(5) assms(2) i] by simp
    then show "bytes ?m (kblock c) 32 ! i = bytes (kmem s) item 32 ! i"
      using i by (simp add: mem_copy_in)
  qed simp
  moreover have "b \<noteq> c" "c \<notin> kused (kmem s)" using 2(3) 1(4) by auto
  ultimately show ?thesis using 1(2,3) 2(2) by blast
qed

lemma find_item_loop_append:
  "find_item_loop hw d name (is @ js) f s =
     prog_bind (find_item_loop hw d name is f s) (\<lambda>(f, s). find_item_loop hw d name js f s)"
  by (induction "is" arbitrary: f s) (simp_all add: prog_bind_assoc Let_def split_def if_distrib [of "\<lambda>p. prog_bind p _"] cong: if_cong)

lemma item_matches:
  assumes "dir_list (kmem s) (dir_item (fat_directories s d)) es" "name_at (kmem s) nb w" "nb < 25600" "i < length es"
  shows "fat16_get_full_relative_filename (kmem s) (dir_item (fat_directories s d) + of_nat (32 * i)) 108 =
      Inr (padded 108 (item_text (es ! i)))"
    and "fat16_name_matches (kmem s) (padded 108 (item_text (es ! i))) (kblock nb) \<longleftrightarrow> upper_name (es ! i) = map toupper w"
proof -
  note e = dir_list_item(2,3) [OF assms(1,4)]
  show "fat16_get_full_relative_filename (kmem s) (dir_item (fat_directories s d) + of_nat (32 * i)) 108 =
      Inr (padded 108 (item_text (es ! i)))" by (rule filename_text [OF e]) simp
  show "fat16_name_matches (kmem s) (padded 108 (item_text (es ! i))) (kblock nb) \<longleftrightarrow> upper_name (es ! i) = map toupper w"
    unfolding upper_name_def by (rule name_matches [OF assms(2,3)]) (use item_text_short [OF e(2)] in auto)
qed

lemma find_item_loop_none:
  assumes "dir_list (kmem s) (dir_item (fat_directories s d)) es" "name_at (kmem s) nb w" "nb < 25600"
    "\<forall>i \<in> set is. i < length es \<and> upper_name (es ! i) \<noteq> map toupper w"
  shows "find_item_loop hw d (kblock nb) is f s = ret (f, s)"
  using assms(4)
proof (induction "is")
  case (Cons i "is")
  then have i: "i < length es" "upper_name (es ! i) \<noteq> map toupper w" by simp_all
  note m = item_matches [OF assms(1-3) i(1)]
  show ?case using Cons i(2) m by simp
qed simp

text \<open>What finding entry \<open>i\<close> leaves: the item and a copy of the entry, in two new blocks.\<close>

definition found :: "'a fat_state_scheme \<Rightarrow> nat \<Rightarrow> nat \<Rightarrow> nat \<Rightarrow> mem \<Rightarrow> bool" where
  "found s i b c m \<longleftrightarrow> kext (kmem s) m \<and> kused m = insert b (insert c (kused (kmem s))) \<and> b \<noteq> c
     \<and> b \<notin> kused (kmem s) \<and> c \<notin> kused (kmem s) \<and> b < 25600 \<and> c < 25600
     \<and> bytes m (kblock c) 32 = bytes (kmem s) (dir_item (root_dir s) + of_nat (32 * i)) 32"

definition with_item :: "'a fat_state_scheme \<Rightarrow> nat \<Rightarrow> nat \<Rightarrow> mem \<Rightarrow> 'a fat_state_scheme" where
  "with_item s b c m = s\<lparr>kmem := m,
     fat_items := (fat_items s)(kblock b := \<lparr>fi_ptr = kblock c, fi_type = FAT_ITEM_TYPE_FILE\<rparr>)\<rparr>"

lemma find_entry_None: "find_entry es w = None \<longleftrightarrow> (\<forall>i < length es. upper_name (es ! i) \<noteq> map toupper w)"
  by (auto simp: find_entry_def find_None_iff)

lemma named_itemD:
  assumes "named_item es w i"
  shows "i < length es" "upper_name (es ! i) = map toupper w" "es ! i ! 11 AND FAT_FILE_SUBDIRECTORY = 0"
    "j < length es \<Longrightarrow> upper_name (es ! j) = map toupper w \<Longrightarrow> j = i"
proof -
  show i: "i < length es" "upper_name (es ! i) = map toupper w"
    using assms by (auto simp: named_item_def find_entry_def find_Some_iff)
  show "es ! i ! 11 AND FAT_FILE_SUBDIRECTORY = 0"
    "j < length es \<Longrightarrow> upper_name (es ! j) = map toupper w \<Longrightarrow> j = i"
    using assms i unfolding named_item_def plain_name_def by blast+
qed

lemma find_item_none:
  assumes "mounted s es" "name_at (kmem s) nb w" "nb < 25600" "find_entry es w = None"
  shows "fat16_find_item_in_directory hw (root_directory (fs_private (the_disk s))) (kblock nb) s = ret (0, s)"
proof -
  have n: "nat (sint (dir_total (root_dir s))) = length es" and d: "dir_list (kmem s) (dir_item (root_dir s)) es"
    using assms(1) by (simp_all add: mounted_def)
  have "\<forall>i \<in> set [0..<length es]. i < length es \<and> upper_name (es ! i) \<noteq> map toupper w"
    using assms(4) by (simp add: find_entry_None)
  then show ?thesis
    unfolding fat16_find_item_in_directory_def n by (rule find_item_loop_none [OF d assms(2,3)])
qed

lemma find_item_some:
  assumes "mounted s es" "name_at (kmem s) nb w" "nb \<in> kused (kmem s)" "named_item es w i"
    "card (kused (kmem s)) + 2 \<le> 25600"
  shows "\<exists>b c m. fat16_find_item_in_directory hw (root_directory (fs_private (the_disk s))) (kblock nb) s =
      ret (kblock b, with_item s b c m) \<and> found s i b c m"
proof -
  let ?root = "root_directory (fs_private (the_disk s))"
  have n: "nat (sint (dir_total (root_dir s))) = length es" and d: "dir_list (kmem s) (dir_item (root_dir s)) es"
    using assms(1) by (simp_all add: mounted_def)
  have nb: "nb < 25600" using assms(3) by (rule kused_less)
  note i = named_itemD [OF assms(4)]
  have idx: "[0..<length es] = [0..<i] @ i # [Suc i..<length es]"
    using i(1) by (metis upt_add_eq_append upt_conv_Cons less_imp_le_nat zero_le le_add_diff_inverse)
  let ?it = "dir_item (root_dir s) + of_nat (32 * i)"
  note it = dir_list_item [OF d i(1)]
  have no_dir: "item_attribute (kmem s) ?it AND FAT_FILE_SUBDIRECTORY = 0"
    unfolding item_attribute_byte [OF it(2)] by (rule i(3))
  from new_fat_item [OF assms(5) it(1) no_dir, of hw] obtain b c m where
    new: "fat16_new_fat_item_for_directory_item hw ?it s = ret (kblock b, with_item s b c m)"
    and f: "found s i b c m"
    unfolding found_def with_item_def by blast
  have ext: "kext (kmem s) m" using f by (simp add: found_def)
  have pre: "find_item_loop hw ?root (kblock nb) [0..<i] 0 s = ret (0, s)"
  proof (rule find_item_loop_none [OF d assms(2) nb], intro ballI conjI)
    fix j assume "j \<in> set [0..<i]"
    then have j: "j < i" by simp
    then show len: "j < length es" using i(1) by simp
    show "upper_name (es ! j) \<noteq> map toupper w" using i(4) [OF len] j by blast
  qed
  have post: "find_item_loop hw ?root (kblock nb) [Suc i..<length es] (kblock b) (with_item s b c m) =
      ret (kblock b, with_item s b c m)"
  proof (rule find_item_loop_none [OF _ _ nb])
    show "dir_list (kmem (with_item s b c m)) (dir_item (fat_directories (with_item s b c m) ?root)) es"
      using dir_list_ext [OF ext d] by (simp add: with_item_def)
    show "name_at (kmem (with_item s b c m)) nb w" using name_at_ext [OF ext assms(3,2)] by (simp add: with_item_def)
    show "\<forall>j \<in> set [Suc i..<length es]. j < length es \<and> upper_name (es ! j) \<noteq> map toupper w"
    proof (intro ballI conjI)
      fix j assume "j \<in> set [Suc i..<length es]"
      then have j: "i < j" and len: "j < length es" by simp_all
      show "j < length es" by (rule len)
      show "upper_name (es ! j) \<noteq> map toupper w" using i(4) [OF len] j by blast
    qed
  qed
  note m = item_matches [OF d assms(2) nb i(1)]
  have "fat16_find_item_in_directory hw ?root (kblock nb) s = ret (kblock b, with_item s b c m)"
    unfolding fat16_find_item_in_directory_def n idx find_item_loop_append pre prog_bind_simps prod.case
    using m i(2) new post by simp
  with f show ?thesis by blast
qed

section \<open>Opening a file\<close>

lemma open_alloc:
  assumes "mounted s es" "card (kused (kmem s)) < 25600"
  shows "\<exists>a m. kzalloc (kmem s) 8 = (kblock a, m) \<and> a < 25600 \<and> a \<notin> kused (kmem s) \<and> kused m = insert a (kused (kmem s))
    \<and> kext (kmem s) m \<and> card (kused m) = Suc (card (kused (kmem s))) \<and> kblock a \<noteq> 0 \<and> mounted (s\<lparr>kmem := m\<rparr>) es"
proof -
  obtain a m where "kzalloc (kmem s) 8 = (kblock a, m)" "a < 25600" "a \<notin> kused (kmem s)" "kused m = insert a (kused (kmem s))"
    and ext: "kext (kmem s) m" and "card (kused m) = Suc (card (kused (kmem s)))" "kblock a \<noteq> 0"
    using kzalloc_new [OF assms(2), of 8] by auto
  moreover have "mounted (s\<lparr>kmem := m\<rparr>) es"
    using assms(1) dir_list_ext [OF ext] by (simp add: mounted_def)
  ultimately show ?thesis by blast
qed

lemma open_missing:
  assumes "mounted s es" "name_at (kmem s) nb w" "nb \<in> kused (kmem s)" "find_entry es w = None"
    "card (kused (kmem s)) < 25600" "part_name (parts s p) = kblock nb"
  shows "\<exists>a m. fat16_open hw TheDisk p FILE_MODE_READ s =
      ret (- EIO, s\<lparr>kmem := m, fat_descs := (fat_descs s)(kblock a := \<lparr>ffd_item = 0, ffd_pos = 0\<rparr>)\<rparr>)
    \<and> kext (kmem s) m \<and> a \<notin> kused (kmem s) \<and> a < 25600 \<and> kused m = insert a (kused (kmem s))"
proof -
  from open_alloc [OF assms(1,5)] obtain a m where
    a: "kzalloc (kmem s) 8 = (kblock a, m)" "a < 25600" "a \<notin> kused (kmem s)" "kused m = insert a (kused (kmem s))"
      "kext (kmem s) m" "kblock a \<noteq> 0" "mounted (s\<lparr>kmem := m\<rparr>) es" by blast
  have nm: "name_at m nb w" using a(5) assms(3,2) by (rule name_at_ext)
  have "fat16_find_item_in_directory hw (root_directory (fs_private (the_disk (s\<lparr>kmem := m\<rparr>)))) (kblock nb) (s\<lparr>kmem := m\<rparr>) =
      ret (0, s\<lparr>kmem := m\<rparr>)"
    by (rule find_item_none [OF a(7) _ kused_less [OF assms(3)] assms(4)]) (use nm in simp)
  then show ?thesis
    using a assms(6) by (intro exI [of _ a] exI [of _ m]) (simp add: fat16_open_def fat16_get_directory_entry_def)
qed

text \<open>A name with further parts behind it is never opened, and what was allocated stays so.\<close>

lemma open_found:
  assumes "mounted s es" "name_at (kmem s) nb w" "nb \<in> kused (kmem s)" "named_item es w i"
    "card (kused (kmem s)) + 3 \<le> 25600" "part_name (parts s p) = kblock nb"
  shows "\<exists>a b c m. fat16_open hw TheDisk p FILE_MODE_READ s =
      ret (if next_part (parts s p) = 0 then kblock a else - EIO,
        s\<lparr>kmem := m, fat_items := (fat_items s)(kblock b := \<lparr>fi_ptr = kblock c, fi_type = FAT_ITEM_TYPE_FILE\<rparr>),
          fat_descs := (fat_descs s)(kblock a := \<lparr>ffd_item = if next_part (parts s p) = 0 then kblock b else 0, ffd_pos = 0\<rparr>)\<rparr>)
    \<and> kext (kmem s) m \<and> kused m = {a, b, c} \<union> kused (kmem s) \<and> distinct [a, b, c] \<and> {a, b, c} \<inter> kused (kmem s) = {}
    \<and> {a, b, c} \<subseteq> {..<25600} \<and> bytes m (kblock c) 32 = bytes (kmem s) (dir_item (root_dir s) + of_nat (32 * i)) 32"
proof -
  have "card (kused (kmem s)) < 25600" using assms(5) by simp
  from open_alloc [OF assms(1) this] obtain a m1 where
    a: "kzalloc (kmem s) 8 = (kblock a, m1)" "a < 25600" "a \<notin> kused (kmem s)" "kused m1 = insert a (kused (kmem s))"
      "kext (kmem s) m1" "card (kused m1) = Suc (card (kused (kmem s)))" "kblock a \<noteq> 0" "mounted (s\<lparr>kmem := m1\<rparr>) es" by blast
  let ?s = "s\<lparr>kmem := m1\<rparr>"
  have nm: "name_at (kmem ?s) nb w" using name_at_ext [OF a(5) assms(3,2)] by simp
  have "nb \<in> kused (kmem ?s)" "card (kused (kmem ?s)) + 2 \<le> 25600" using a(4,6) assms(3,5) by simp_all
  from find_item_some [OF a(8) nm this(1) assms(4) this(2), of hw] obtain b c m where
    f: "fat16_find_item_in_directory hw (root_directory (fs_private (the_disk ?s))) (kblock nb) ?s =
      ret (kblock b, with_item ?s b c m)" "found ?s i b c m" by blast
  have bc: "b < 25600" "c < 25600" "b \<noteq> c" "b \<notin> kused m1" "c \<notin> kused m1" "kext m1 m" "kused m = insert b (insert c (kused m1))"
    "bytes m (kblock c) 32 = bytes m1 (dir_item (root_dir s) + of_nat (32 * i)) 32"
    using f(2) by (simp_all add: found_def)
  have "kblock b \<noteq> 0" using bc(1) by (rule kblock_nonzero)
  then have e: "fat16_get_directory_entry hw p ?s =
      ret (if next_part (parts s p) = 0 then kblock b else 0, with_item ?s b c m)"
    using f(1) assms(6) by (simp add: fat16_get_directory_entry_def directory_entry_loop.simps with_item_def)
  have "bytes m (kblock c) 32 = bytes (kmem s) (dir_item (root_dir s) + of_nat (32 * i)) 32"
  proof -
    have "dir_list (kmem s) (dir_item (root_dir s)) es"
      using assms(1) by (simp add: mounted_def)
    then have "kstable_block (kmem s) (dir_item (root_dir s) + of_nat (32 * i)) 32"
      using dir_list_item(1) named_itemD(1) [OF assms(4)] by blast
    then show ?thesis unfolding bc(8) by (intro bytes_cong kstable_block_keep [OF a(5)])
  qed
  moreover have "kext (kmem s) m" using a(5) bc(6) by (rule kext_trans)
  moreover have "fat16_open hw TheDisk p FILE_MODE_READ s =
      ret (if next_part (parts s p) = 0 then kblock a else - EIO,
        s\<lparr>kmem := m, fat_items := (fat_items s)(kblock b := \<lparr>fi_ptr = kblock c, fi_type = FAT_ITEM_TYPE_FILE\<rparr>),
          fat_descs := (fat_descs s)(kblock a := \<lparr>ffd_item = if next_part (parts s p) = 0 then kblock b else 0, ffd_pos = 0\<rparr>)\<rparr>)"
    using a(1,7) e \<open>kblock b \<noteq> 0\<close> by (simp add: fat16_open_def with_item_def)
  moreover have "kused m = {a, b, c} \<union> kused (kmem s)" using a(4) bc(7) by auto
  moreover have "distinct [a, b, c]" "{a, b, c} \<inter> kused (kmem s) = {}" "{a, b, c} \<subseteq> {..<25600}"
    using a(2,3,4) bc(1-5) by auto
  ultimately show ?thesis by blast
qed

end
