(* ===== verification/FatFiles.thy ===== *)
theory FatFiles
  imports FileTable FatVolume
begin

text \<open>
  The FAT16 driver keeps the contract of \<^verbatim>\<open>FileTable\<close>, so the calls of \<^verbatim>\<open>src/fs/file.c\<close> on
  a mounted volume keep the table of open files well formed.
\<close>

section \<open>Handles\<close>

definition fat_handle :: "'a fat_state_scheme \<Rightarrow> addr \<Rightarrow> bool" where
  "fat_handle s h \<longleftrightarrow> (\<exists>a b c. h = kblock a \<and> ffd_item (fat_descs s h) = kblock b
     \<and> fat_items s (kblock b) = \<lparr>fi_ptr = kblock c, fi_type = FAT_ITEM_TYPE_FILE\<rparr>
     \<and> distinct [a, b, c] \<and> {a, b, c} \<subseteq> kused (kmem s))"

text \<open>The blocks of the descriptor, of its item and of the copy of the directory item.\<close>

definition fat_own :: "'a fat_state_scheme \<Rightarrow> addr \<Rightarrow> nat set" where
  "fat_own s h = {block_no h, block_no (ffd_item (fat_descs s h)), block_no (fi_ptr (fat_items s (ffd_item (fat_descs s h))))}"

text \<open>
  What no buffer may overlap: the blocks of the volume, of the driver's private data and its
  streams, and of the open files.
\<close>

definition fat_blocks :: "nat set \<Rightarrow> 'a fat_state_scheme \<Rightarrow> nat set" where
  "fat_blocks B s =
     (let private = fs_private (the_disk s); p = fat_privates s private in
      B \<union> block_no ` {private, cluster_read_stream p, fat_read_stream p, directory_stream p} \<union> file_blocks fat_own s)"

lemma fat_blocks_base: "B \<subseteq> fat_blocks B s"
  by (auto simp: fat_blocks_def Let_def)

text \<open>A mounted volume whose root directory lies in the blocks \<open>B\<close>.\<close>

definition fat_ready :: "nat set \<Rightarrow> entries \<Rightarrow> 'a fat_state_scheme \<Rightarrow> bool" where
  "fat_ready B es s \<longleftrightarrow> mounted s es \<and> B \<subseteq> kused (kmem s) \<and> sector_size (the_disk s) = 512
     \<and> (\<forall>i < 32 * length es. \<exists>b \<in> B. \<exists>j < 4096. dir_item (root_dir s) + of_nat i = kblock b + of_nat j)"

lemma fat_handleE:
  assumes "fat_handle s h"
  obtains a b c where "h = kblock a" "ffd_item (fat_descs s h) = kblock b"
    "fat_items s (kblock b) = \<lparr>fi_ptr = kblock c, fi_type = FAT_ITEM_TYPE_FILE\<rparr>"
    "distinct [a, b, c]" "{a, b, c} \<subseteq> kused (kmem s)" "a < 25600" "b < 25600" "c < 25600" "fat_own s h = {a, b, c}"
proof -
  obtain a b c where abc: "h = kblock a" "ffd_item (fat_descs s h) = kblock b"
    "fat_items s (kblock b) = \<lparr>fi_ptr = kblock c, fi_type = FAT_ITEM_TYPE_FILE\<rparr>"
    "distinct [a, b, c]" "{a, b, c} \<subseteq> kused (kmem s)"
    using assms unfolding fat_handle_def by blast
  moreover have "a < 25600" "b < 25600" "c < 25600" using abc(5) kused_less by blast+
  moreover from this abc(1-3) have "fat_own s h = {a, b, c}" by (simp add: fat_own_def)
  ultimately show ?thesis using that by blast
qed

lemma fat_handle_cong:
  assumes "fat_handle s h" "ffd_item (fat_descs s' h) = ffd_item (fat_descs s h)"
    "fat_items s' (ffd_item (fat_descs s h)) = fat_items s (ffd_item (fat_descs s h))" "fat_own s h \<subseteq> kused (kmem s')"
  shows "fat_handle s' h \<and> fat_own s' h = fat_own s h"
proof -
  obtain a b c where abc: "h = kblock a" "ffd_item (fat_descs s h) = kblock b"
    "fat_items s (kblock b) = \<lparr>fi_ptr = kblock c, fi_type = FAT_ITEM_TYPE_FILE\<rparr>"
    "distinct [a, b, c]" "fat_own s h = {a, b, c}" using assms(1) by (rule fat_handleE)
  have "fat_handle s' h" unfolding fat_handle_def
    by (intro exI [of _ a] exI [of _ b] exI [of _ c]) (use abc assms(2-4) in simp)
  then show ?thesis using assms(2,3) by (simp add: fat_own_def)
qed

lemma dir_list_keep:
  assumes "keep_blocks B m m'" "dir_list m D es"
    "\<forall>i < 32 * length es. \<exists>b \<in> B. \<exists>j < 4096. D + of_nat i = kblock b + of_nat j"
  shows "dir_list m' D es"
proof -
  have at: "kstable m' (D + of_nat i) \<and> m' (D + of_nat i) = m (D + of_nat i)" if "i < 32 * length es" for i
  proof -
    obtain b j where b: "b \<in> B" "j < 4096" "D + of_nat i = kblock b + of_nat j" using assms(3) \<open>i < 32 * length es\<close> by blast
    then show ?thesis using assms(1) by (auto simp: keep_blocks_def intro: kblock_stable)
  qed
  show ?thesis
    unfolding dir_list_def
  proof (intro conjI allI impI)
    show "kstable_block m' D (32 * length es)" using at by (simp add: kstable_block_def)
    fix i assume i: "i < length es"
    note it = dir_list_item [OF assms(2) i]
    have "m' (D + of_nat (32 * i) + of_nat j) = m (D + of_nat (32 * i) + of_nat j)" if "j < 32" for j
      using at [of "32 * i + j"] i that by (simp add: add.assoc)
    then have "bytes m' (D + of_nat (32 * i)) 32 = bytes m (D + of_nat (32 * i)) 32" by (rule bytes_cong)
    then show "bytes m' (D + of_nat (32 * i)) 32 = es ! i" using it(2) by (rule trans)
    show "item_ended (es ! i)" by (rule it(3))
  qed
qed

lemma fat_ready_keep:
  assumes "fat_ready B es s" "keep_blocks B (kmem s) (kmem s')" "the_disk s' = the_disk s" "root_dir s' = root_dir s"
  shows "fat_ready B es s'"
  using assms dir_list_keep [OF assms(2)] by (auto simp: fat_ready_def mounted_def keep_blocks_def)

lemma kblock_nonneg: "b < 25600 \<Longrightarrow> \<not> kblock b <s 0"
proof -
  assume "b < 25600"
  then have "unat (kblock b) < 2147483648" by (simp add: unat_kblock)
  then show ?thesis by (simp add: word_sless_alt sint_small)
qed

section \<open>The operations\<close>

lemma fat_open_contract:
  assumes "fat_ready B es s" "part_at (plain_name es) s p" "card (kused (kmem s)) + 3 \<le> 25600"
  shows "\<exists>h s'. fat16_open hw TheDisk p mode s = ret (h, s') \<and> file_part s' = file_part s \<and> kext (kmem s) (kmem s')
    \<and> card (kused (kmem s')) \<le> card (kused (kmem s)) + 3 \<and> fat_ready B es s'
    \<and> (\<forall>h'. fat_handle s h' \<longrightarrow> fat_handle s' h' \<and> fat_own s' h' = fat_own s h')
    \<and> (\<not> h <s 0 \<longrightarrow> fat_handle s' h \<and> fat_own s' h \<inter> kused (kmem s) = {})"
proof (cases "mode = FILE_MODE_READ")
  case False
  then have "fat16_open hw TheDisk p mode s = ret (- ERDONLY, s)" "(- ERDONLY) <s 0" by (simp_all add: fat16_open_def word_sless_alt)
  with assms(1) show ?thesis by (intro exI [of _ "- ERDONLY"] exI [of _ s]) simp
next
  case True
  obtain nb w where nb: "part_name (parts s p) = kblock nb" "nb \<in> kused (kmem s)" "name_at (kmem s) nb w" "plain_name es w"
    using assms(2) by (auto simp: part_at_def)
  have mnt: "mounted s es" and Bk: "B \<subseteq> kused (kmem s)" using assms(1) by (simp_all add: fat_ready_def)
  have fin: "finite (kused (kmem s))" by (simp add: taken_blocks_def)
  have neg: "(- EIO) <s 0" by (simp add: word_sless_alt)
  show ?thesis
  proof (cases "find_entry es w")
    case None
    have "card (kused (kmem s)) < 25600" using assms(3) by simp
    from open_missing [OF mnt nb(3,2) None this nb(1), of hw] obtain a m where
      o: "fat16_open hw TheDisk p FILE_MODE_READ s =
        ret (- EIO, s\<lparr>kmem := m, fat_descs := (fat_descs s)(kblock a := \<lparr>ffd_item = 0, ffd_pos = 0\<rparr>)\<rparr>)"
        "kext (kmem s) m" "a \<notin> kused (kmem s)" "a < 25600" "kused m = insert a (kused (kmem s))" by blast
    let ?s = "s\<lparr>kmem := m, fat_descs := (fat_descs s)(kblock a := \<lparr>ffd_item = 0, ffd_pos = 0\<rparr>)\<rparr>"
    have "fat_ready B es ?s"
      by (rule fat_ready_keep [OF assms(1)]) (use keep_blocks_kext [OF o(2) Bk] in simp_all)
    moreover have "fat_handle ?s h \<and> fat_own ?s h = fat_own s h" if "fat_handle s h" for h
      using that
    proof (rule fat_handleE)
      fix x y z assume h: "h = kblock x" "x < 25600" "{x, y, z} \<subseteq> kused (kmem s)" "fat_own s h = {x, y, z}"
      then have "h \<noteq> kblock a" using o(3,4) by (auto simp: kblock_inj)
      then show ?thesis using that h(3,4) o(5) by (intro fat_handle_cong) auto
    qed
    ultimately show ?thesis
      using o(1,2,3,5) True neg fin by (intro exI [of _ "- EIO"] exI [of _ ?s]) (simp add: file_part_def)
  next
    case (Some i)
    then have item: "named_item es w i" using nb(4) by (simp add: named_item_def)
    from open_found [OF mnt nb(3,2) item assms(3) nb(1), of hw] obtain a b c m where
      o: "fat16_open hw TheDisk p FILE_MODE_READ s =
      ret (if next_part (parts s p) = 0 then kblock a else - EIO,
        s\<lparr>kmem := m, fat_items := (fat_items s)(kblock b := \<lparr>fi_ptr = kblock c, fi_type = FAT_ITEM_TYPE_FILE\<rparr>),
          fat_descs := (fat_descs s)(kblock a := \<lparr>ffd_item = if next_part (parts s p) = 0 then kblock b else 0, ffd_pos = 0\<rparr>)\<rparr>)"
      "kext (kmem s) m" "kused m = {a, b, c} \<union> kused (kmem s)" "distinct [a, b, c]" "{a, b, c} \<inter> kused (kmem s) = {}"
      "{a, b, c} \<subseteq> {..<25600}" by - (elim exE conjE, rule that, assumption+)
    let ?s = "s\<lparr>kmem := m, fat_items := (fat_items s)(kblock b := \<lparr>fi_ptr = kblock c, fi_type = FAT_ITEM_TYPE_FILE\<rparr>),
          fat_descs := (fat_descs s)(kblock a := \<lparr>ffd_item = if next_part (parts s p) = 0 then kblock b else 0, ffd_pos = 0\<rparr>)\<rparr>"
    have lt: "a < 25600" "b < 25600" "c < 25600" using o(6) by simp_all
    have ready: "fat_ready B es ?s"
      by (rule fat_ready_keep [OF assms(1)]) (use keep_blocks_kext [OF o(2) Bk] in simp_all)
    have handles: "fat_handle ?s h \<and> fat_own ?s h = fat_own s h" if "fat_handle s h" for h
      using that
    proof (rule fat_handleE)
      fix x y z assume h: "h = kblock x" "ffd_item (fat_descs s h) = kblock y" "x < 25600" "y < 25600"
        "{x, y, z} \<subseteq> kused (kmem s)" "fat_own s h = {x, y, z}"
      have "x \<noteq> a" "y \<noteq> b" using h(5) o(5) by auto
      then have "h \<noteq> kblock a" "kblock y \<noteq> kblock b" using h(1,3,4) lt by (simp_all add: kblock_inj)
      then show ?thesis using that h(2,5,6) o(3) by (intro fat_handle_cong) auto
    qed
    have card: "card (kused m) \<le> card (kused (kmem s)) + 3"
      unfolding o(3) using o(4) fin card_Un_le [of "{a, b, c}" "kused (kmem s)"] by simp
    have fp: "file_part ?s = file_part s" by (simp add: file_part_def)
    show ?thesis
    proof (cases "next_part (parts s p) = 0")
      case nx: True
      have "fat_handle ?s (kblock a)" "fat_own ?s (kblock a) = {a, b, c}"
      proof -
        show "fat_handle ?s (kblock a)" unfolding fat_handle_def
          by (rule exI [of _ a], rule exI [of _ b], rule exI [of _ c]) (use nx o(3,4) in simp)
        show "fat_own ?s (kblock a) = {a, b, c}" using nx lt by (simp add: fat_own_def)
      qed
      then show ?thesis using o(1,2,5) True nx card ready handles fp by (intro exI [of _ "kblock a"] exI [of _ ?s]) simp
    next
      case False
      then show ?thesis using o(1,2) True neg card ready handles fp by (intro exI [of _ "- EIO"] exI [of _ ?s]) simp
    qed
  qed
qed

lemma fat_close_contract:
  assumes "fat_ready B es s" "fat_handle s h" "fat_own s h \<inter> B = {}"
  shows "\<exists>s'. fat16_close h s = ret (0, s') \<and> file_part s' = file_part s \<and> kused (kmem s') = kused (kmem s) - fat_own s h
    \<and> fat_ready B es s' \<and> (\<forall>h'. fat_handle s h' \<and> fat_own s h' \<inter> fat_own s h = {} \<longrightarrow> fat_handle s' h' \<and> fat_own s' h' = fat_own s h')"
proof -
  obtain a b c where abc: "h = kblock a" "ffd_item (fat_descs s h) = kblock b"
    "fat_items s (kblock b) = \<lparr>fi_ptr = kblock c, fi_type = FAT_ITEM_TYPE_FILE\<rparr>"
    "{a, b, c} \<subseteq> kused (kmem s)" "a < 25600" "b < 25600" "c < 25600" "fat_own s h = {a, b, c}" using assms(2) by (rule fat_handleE)
  let ?m1 = "kfree (kmem s) (kblock c)"
  let ?m2 = "kfree ?m1 (kblock b)"
  let ?m3 = "kfree ?m2 (kblock a)"
  let ?s = "s\<lparr>kmem := ?m3\<rparr>"
  have run: "fat16_close h s = ret (0, ?s)"
    using abc(1-3) by (simp add: fat16_close_def fat16_free_file_descriptor_def fat16_fat_item_free_def)
  have used: "kused ?m3 = kused (kmem s) - {a, b, c}" using abc(5-7) by (auto simp: kused_kfree)
  have B: "B \<subseteq> kused (kmem s)" "a \<notin> B" "b \<notin> B" "c \<notin> B" using assms(1,3) abc(8) by (auto simp: fat_ready_def)
  have k1: "keep_blocks B (kmem s) ?m1" by (rule keep_blocks_free [OF abc(7) B(4,1)])
  have k2: "keep_blocks B ?m1 ?m2" by (rule keep_blocks_free [OF abc(6) B(3)]) (use k1 in \<open>simp add: keep_blocks_def\<close>)
  have k3: "keep_blocks B ?m2 ?m3" by (rule keep_blocks_free [OF abc(5) B(2)]) (use k2 in \<open>simp add: keep_blocks_def\<close>)
  have "fat_ready B es ?s"
    by (rule fat_ready_keep [OF assms(1)]) (use keep_blocks_trans [OF keep_blocks_trans [OF k1 k2] k3] in simp_all)
  moreover have "fat_handle ?s h' \<and> fat_own ?s h' = fat_own s h'" if "fat_handle s h'" "fat_own s h' \<inter> fat_own s h = {}" for h'
  proof (rule fat_handle_cong [OF that(1)])
    have "fat_own s h' \<subseteq> kused (kmem s)" using that(1) by (auto elim: fat_handleE)
    then show "fat_own s h' \<subseteq> kused (kmem ?s)" using that(2) used abc(8) by auto
  qed simp_all
  ultimately show ?thesis using run used abc(8) by (intro exI [of _ ?s]) (simp add: file_part_def)
qed

lemma fat_seek_contract:
  assumes "fat_ready B es s" "fat_handle s h"
  shows "\<exists>r s'. fat16_seek h offset whence s = ret (r, s') \<and> file_part s' = file_part s \<and> kused (kmem s') = kused (kmem s)
    \<and> fat_ready B es s' \<and> (\<forall>h'. fat_handle s h' \<longrightarrow> fat_handle s' h' \<and> fat_own s' h' = fat_own s h')"
proof -
  let ?s = "\<lambda>p. s\<lparr>fat_descs := (fat_descs s)(h := (fat_descs s h)\<lparr>ffd_pos := p\<rparr>)\<rparr>"
  let ?it = "fat_items s (ffd_item (fat_descs s h))"
  have "\<exists>r s'. fat16_seek h offset whence s = ret (r, s') \<and> (s' = s \<or> (\<exists>p. s' = ?s p))"
  proof (cases "fi_type ?it = FAT_ITEM_TYPE_FILE \<and> \<not> item_filesize (kmem s) (fi_ptr ?it) \<le> offset \<and> (whence = SEEK_SET \<or> whence = SEEK_CUR)")
    case True
    then have "fat16_seek h offset whence s = ret (0, ?s (if whence = SEEK_SET then offset else ffd_pos (fat_descs s h) + offset))"
      by (auto simp add: fat16_seek_def Let_def)
    then show ?thesis by blast
  next
    case False
    then have "fat16_seek h offset whence s = ret (if fi_type ?it \<noteq> FAT_ITEM_TYPE_FILE then - EINVARG
        else if item_filesize (kmem s) (fi_ptr ?it) \<le> offset then - EIO
        else if whence = SEEK_END then - EUNIMP else - EINVARG, s)"
      unfolding fat16_seek_def Let_def by (simp only: split: if_split) blast
    then show ?thesis by blast
  qed
  then obtain r s' where run: "fat16_seek h offset whence s = ret (r, s')" and s': "s' = s \<or> (\<exists>p. s' = ?s p)" by blast
  from s' consider "s' = s" | p where "s' = ?s p" by blast
  then have "fat_ready B es s' \<and> file_part s' = file_part s \<and> kused (kmem s') = kused (kmem s)
    \<and> (\<forall>h'. fat_handle s h' \<longrightarrow> fat_handle s' h' \<and> fat_own s' h' = fat_own s h')"
  proof cases
    case 2
    have "fat_ready B es s'"
      by (rule fat_ready_keep [OF assms(1)]) (use assms(1) in \<open>simp_all add: 2 keep_blocks_def fat_ready_def\<close>)
    moreover have "fat_handle s' h' \<and> fat_own s' h' = fat_own s h'" if "fat_handle s h'" for h'
      using that
    proof (rule fat_handle_cong)
      show "fat_own s h' \<subseteq> kused (kmem s')" using that unfolding 2 by (auto elim: fat_handleE)
    qed (simp_all add: 2)
    ultimately show ?thesis by (simp add: 2 file_part_def)
  qed (use assms(1) in simp)
  then show ?thesis using run by blast
qed

lemma fat_stores_contract:
  assumes "fat_ready B es s" "unchanged_outside (kmem s) m out k" "clear_of B out k"
  shows "kused m = kused (kmem s)" "keep_blocks B (kmem s) m"
  using clear_of_keep [OF assms(2,3)] assms(1) by (simp_all add: fat_ready_def)

lemma fat16_stat_run:
  assumes "fat_items s (ffd_item (fat_descs s h)) = \<lparr>fi_ptr = p, fi_type = FAT_ITEM_TYPE_FILE\<rparr>"
  shows "\<exists>m. fat16_stat TheDisk h st s = ret (0, s\<lparr>kmem := m\<rparr>) \<and> unchanged_outside (kmem s) m st 8
    \<and> load32 m (st + 4) = item_filesize (kmem s) p"
proof -
  let ?v = "item_filesize (kmem s) p"
  define m1 where "m1 = store32 (kmem s) (st + of_nat 4) ?v"
  define m2 where "m2 = store32 m1 (st + of_nat 0) 0"
  define m3 where "m3 = (if item_attribute m2 p AND FAT_FILE_READ_ONLY \<noteq> 0
    then store32 m2 (st + of_nat 0) (load32 m2 st OR 1) else m2)"
  have "fat16_stat TheDisk h st s = ret (0, s\<lparr>kmem := m3\<rparr>)"
    using assms by (simp add: fat16_stat_def m1_def m2_def m3_def Let_def)
  moreover have "unchanged_outside (kmem s) m1 st 8" "unchanged_outside m1 m2 st 8" "unchanged_outside m2 m3 st 8"
    unfolding m1_def m2_def m3_def using store32_within [of 4 8] store32_within [of 0 8] by auto
  then have "unchanged_outside (kmem s) m3 st 8" by (blast intro: unchanged_outside_trans)
  moreover have "load32 (store32 m st v) (st + 4) = load32 m (st + 4)" for m v
  proof (rule load_store_other, unfold apart_def, intro allI impI notI)
    fix i j :: nat assume ij: "i < 4" "j < 4" "st + of_nat i = st + 4 + of_nat j"
    then have "(of_nat i :: u32) = of_nat (4 + j)" by (simp add: add.assoc)
    then show False using ij(1,2) of_nat32_eq_iff [of i "4 + j"] by simp
  qed
  then have "load32 m3 (st + 4) = ?v" by (simp add: m1_def m2_def m3_def load_store_same)
  ultimately show ?thesis by blast
qed

lemma fat_stat_contract:
  assumes "fat_ready B es s" "fat_handle s h" "clear_of B st 8"
  shows "\<exists>r s'. fat16_stat TheDisk h st s = ret (r, s') \<and> file_part s' = file_part s \<and> kused (kmem s') = kused (kmem s)
    \<and> fat_ready B es s' \<and> (\<forall>h'. fat_handle s h' \<longrightarrow> fat_handle s' h' \<and> fat_own s' h' = fat_own s h')"
proof -
  obtain a b c where "ffd_item (fat_descs s h) = kblock b"
    "fat_items s (kblock b) = \<lparr>fi_ptr = kblock c, fi_type = FAT_ITEM_TYPE_FILE\<rparr>" using assms(2) by (rule fat_handleE)
  with fat16_stat_run [of s h "kblock c" st] obtain m where
    m: "fat16_stat TheDisk h st s = ret (0, s\<lparr>kmem := m\<rparr>)" "unchanged_outside (kmem s) m st 8" by auto
  note keep = fat_stores_contract [OF assms(1) m(2) assms(3)]
  have "fat_ready B es (s\<lparr>kmem := m\<rparr>)" by (rule fat_ready_keep [OF assms(1)]) (use keep(2) in simp_all)
  moreover have "fat_handle (s\<lparr>kmem := m\<rparr>) h' \<and> fat_own (s\<lparr>kmem := m\<rparr>) h' = fat_own s h'" if "fat_handle s h'" for h'
    using that
  proof (rule fat_handle_cong)
    show "fat_own s h' \<subseteq> kused (kmem (s\<lparr>kmem := m\<rparr>))" using that keep(1) by (auto elim: fat_handleE)
  qed simp_all
  ultimately show ?thesis using m(1) keep(1) by (intro exI [of _ 0] exI [of _ "s\<lparr>kmem := m\<rparr>"]) (simp add: file_part_def)
qed

lemma fat_read_contract:
  assumes "fat_ready B es s" "unat sz * unat n < 4294967296" "clear_of B out (unat sz * unat n)"
    "fat16_read hw TheDisk h sz n out s = ret (r, s')"
  shows "file_part s' = file_part s \<and> kused (kmem s') = kused (kmem s)
    \<and> fat_ready B es s' \<and> (\<forall>h'. fat_handle s h' \<longrightarrow> fat_handle s' h' \<and> fat_own s' h' = fat_own s h')"
proof -
  have "dev_frame out (unat n * unat sz) s s'"
    using assms(1,2,4) by (intro read_loop_frame) (simp_all add: fat16_read_def Let_def fat_ready_def mult.commute)
  then obtain m log str where s': "s' = s\<lparr>kmem := m, io_log := log, streams := str\<rparr>"
    and "unchanged_outside (kmem s) m out (unat sz * unat n)" by (auto simp: dev_frame_def mult.commute)
  note keep = fat_stores_contract [OF assms(1) this(2) assms(3)]
  have "fat_ready B es s'" by (rule fat_ready_keep [OF assms(1)]) (use keep(2) in \<open>simp_all add: s'\<close>)
  moreover have "fat_handle s' h' \<and> fat_own s' h' = fat_own s h'" if "fat_handle s h'" for h'
    using that
  proof (rule fat_handle_cong)
    show "fat_own s h' \<subseteq> kused (kmem s')" using that keep(1) s' by (auto elim: fat_handleE)
  qed (simp_all add: s')
  ultimately show ?thesis using keep(1) by (simp add: s' file_part_def)
qed

section \<open>The contract\<close>

lemma fat_handle_own: "fat_handle s h \<Longrightarrow> fat_own s h \<subseteq> kused (kmem s)"
  by (erule fat_handleE) simp

interpretation fat: fs_contract "drivers hw fs" fs "fat16_fs hw fs" "fat_ready B es" B fat_handle fat_own 3 "plain_name es"
  for hw fs B es
proof (unfold_locales, goal_cases)
  case (4 s m rs ps f ds)
  show ?case by (rule fat_ready_keep [OF 4(1)]) (use 4(2) in simp_all)
next
  case (5 s h m rs ps f ds)
  show ?case by (rule fat_handle_cong [OF 5(1)]) (use 5(2) in simp_all)
next
  case (6 s p mode)
  from fat_open_contract [OF this, of hw mode] show ?case by (simp add: fat16_fs_def)
next
  case (7 s h)
  from fat_close_contract [OF this] show ?case by (simp add: fat16_fs_def)
next
  case (8 s h offset whence)
  from fat_seek_contract [OF this, of offset whence] show ?case by (simp add: fat16_fs_def)
next
  case (9 s h st)
  from fat_stat_contract [OF this] show ?case by (simp add: fat16_fs_def)
next
  case (10 s h sz n out r s')
  from fat_read_contract [OF 10(1,3,4)] 10(5) show ?case by (simp add: fat16_fs_def)
qed (auto simp: drivers_def fat_ready_def dest: fat_handle_own)

end
