(* ===== verification/FatExample.thy ===== *)
theory FatExample
  imports FatFiles
begin

text \<open>
  A mounted volume for the examples: the directory item of \<^verbatim>\<open>R.TXT\<close> (first cluster 3, 600
  bytes) in block 0 of the heap, the driver's private data in block 1 (two sectors per
  cluster, the root directory ends before sector 11), its stream in block 2, and the string
  \<^verbatim>\<open>0:/r.txt\<close> in low memory.
\<close>

definition example_item :: "u8 list" where
  "example_item = [0x52, 0x20, 0x20, 0x20, 0x20, 0x20, 0x20, 0x20, 0x54, 0x58, 0x54, 0x20, 0, 0, 0, 0,
     0, 0, 0, 0, 0, 0, 0, 0, 0, 0, 3, 0, 0x58, 2, 0, 0]"

definition example_path :: "u8 list" where
  "example_path = [0x30, 0x3a, 0x2f, 0x72, 0x2e, 0x74, 0x78, 0x74]"

definition example_table :: mem where
  "example_table = (kmem (path_example example_path))(0x7E00 + of_nat 0 := 0x81, 0x7E00 + of_nat 1 := 0x81, 0x7E00 + of_nat 2 := 0x81)"

definition example_mem :: mem where
  "example_mem = mem_fill (mem_fill example_table (kblock 0) 32 (\<lambda>i. example_item ! i))
     (kblock 1) 14 (\<lambda>i. if i = 13 then 2 else 0)"

definition example_volume :: "'a \<Rightarrow> 'a fat_state_scheme" where
  "example_volume x = \<lparr>kmem = example_mem, roots = \<lambda>_. \<lparr>drive_no = 0, first_part = 0\<rparr>,
     parts = \<lambda>_. \<lparr>part_name = 0, next_part = 0\<rparr>, io_log = [],
     the_disk = \<lparr>disk_type = 0, sector_size = 512, disk_id = 0, filesystem = 0x180000, fs_private = kblock 1\<rparr>,
     streams = \<lambda>_. \<lparr>pos = 0, stream_disk = TheDisk\<rparr>,
     filesystems = 0x180000 # replicate 11 0, file_descriptors = replicate 512 0,
     descs = \<lambda>_. \<lparr>fd_index = 0, fd_filesystem = 0, fd_private = 0, fd_disk = NoDisk\<rparr>,
     fat_privates = \<lambda>_. \<lparr>cluster_read_stream = kblock 2, fat_read_stream = kblock 2, directory_stream = kblock 2\<rparr>,
     fat_directories = \<lambda>_. \<lparr>dir_item = kblock 0, dir_total = 1, dir_sector_pos = 10, dir_ending_sector_pos = 11\<rparr>,
     fat_items = \<lambda>_. \<lparr>fi_ptr = 0, fi_type = 0\<rparr>, fat_descs = \<lambda>_. \<lparr>ffd_item = 0, ffd_pos = 0\<rparr>,
     \<dots> = x\<rparr>"

abbreviation fat_example :: fat_state where "fat_example \<equiv> example_volume ()"

definition example_entries :: entries where
  "example_entries = [example_item]"

lemma example_used: "kused example_mem = {0, 1, 2}"
proof -
  have e: "kused (kmem (path_example example_path)) = {}"
    by (rule path_example) (simp_all add: example_path_def)
  have mark: "kused (m(0x7E00 + of_nat b := 0x81)) = insert b (kused m)" if "b < 25600" for b and m :: mem
    using kused_upd [OF that, of m "0x81"] by (simp add: heap_get_entry_type_def)
  have "kused example_table = insert 2 (insert 1 (insert 0 (kused (kmem (path_example example_path)))))"
    unfolding example_table_def by ((subst mark, simp)+) (rule refl)
  then have "kused example_table = {2, 1, 0}" unfolding e .
  then show ?thesis by (auto simp: example_mem_def)
qed

lemma example_kext: "kext (kmem (path_example example_path)) example_mem"
proof -
  let ?m = "kmem (path_example example_path)"
  have u: "kused ?m = {}" by (rule path_example) (simp_all add: example_path_def)
  have "kext ?m example_table"
    unfolding kext_def
  proof (intro conjI allI impI)
    fix x assume "kstable ?m x"
    then have x: "25600 \<le> unat (x - 0x7E00)" by (simp add: kstable_def)
    have "x \<noteq> 0x7E00 + of_nat k" if "k < 25600" for k
      using x that by auto
    from this [of 0] this [of 1] this [of 2] show "example_table x = ?m x" by (simp add: example_table_def)
  qed (simp add: u)
  then show ?thesis
    unfolding example_mem_def by (intro kext_fill) (simp_all add: u)
qed

lemma example_path_at:
  "cstr example_mem 0x100000 example_path" "kstable_block example_mem 0x100000 (Suc (length example_path))"
  using cstr_ext [OF example_kext path_example(1,3)] kstable_block_ext [OF example_kext path_example(3)]
  by (simp_all add: example_path_def)

lemma example_item_at:
  "bytes example_mem (kblock 0) 32 = example_item"
proof (rule nth_equalityI)
  fix i assume "i < length (bytes example_mem (kblock 0) 32)"
  then have i: "i < 32" by simp
  have "14 \<le> unat (kblock 0 + of_nat i - kblock 1)"
    by (rule apart_out [OF kblock_apart [of 1 0 14 32] i]) simp_all
  then have "example_mem (kblock 0 + of_nat i) = mem_fill example_table (kblock 0) 32 (\<lambda>i. example_item ! i) (kblock 0 + of_nat i)"
    unfolding example_mem_def by (rule mem_fill_out)
  also have "\<dots> = example_item ! i" using i by (intro mem_fill_in) simp_all
  finally show "bytes example_mem (kblock 0) 32 ! i = example_item ! i" using i by simp
qed (simp add: example_item_def)

lemma example_item_text: "item_ended example_item" "item_text example_item = [0x52, 0x2e, 0x54, 0x58, 0x54]"
  by (simp_all add: example_item_def item_ended_def item_text_def text_run_def)

lemma example_ready: "fat_ready {0, 1, 2} example_entries (example_volume x)"
proof -
  have st: "kstable_block example_mem (kblock 0) 32"
    by (rule kblock_stable_block) (simp_all add: example_used)
  have "dir_list example_mem (kblock 0) example_entries"
    using st example_item_at example_item_text(1) by (simp add: dir_list_def example_entries_def)
  then have m: "mounted (example_volume x) example_entries"
    unfolding mounted_def by (simp add: example_volume_def) (simp add: example_entries_def)
  have "\<exists>b \<in> {0, 1, 2}. \<exists>j < 4096. dir_item (root_dir (example_volume x)) + of_nat i = kblock b + of_nat j"
    if "i < 32 * length example_entries" for i
    by (rule bexI [of _ 0], rule exI [of _ i]) (use that in \<open>simp_all add: example_volume_def example_entries_def\<close>)
  then show ?thesis
    unfolding fat_ready_def using m example_used by (simp add: example_volume_def)
qed

lemma example_files_ok: "files_ok 0x180000 (fat_ready {0, 1, 2} example_entries) {0, 1, 2} fat_handle fat_own (example_volume x)"
  using example_ready by (simp add: files_ok_def) (simp add: example_volume_def)

end
