(* ===== verification/FatCalls.thy ===== *)
theory FatCalls
  imports FatExample
begin

text \<open>
  The file calls on a mounted FAT16 volume, from the name to the bytes.
\<close>

abbreviation fat_files_ok :: "addr \<Rightarrow> nat set \<Rightarrow> entries \<Rightarrow> 'a fat_state_scheme \<Rightarrow> bool" where
  "fat_files_ok fs B es \<equiv> files_ok fs (fat_ready B es) B fat_handle fat_own"

section \<open>Opening by name\<close>

lemma find_slot: "least_free (open_files s) i \<Longrightarrow> find (\<lambda>i. file_descriptors s ! i = 0) [0..<512] = Some i"
proof -
  assume l: "least_free (open_files s) i"
  then have i: "i < 512" "file_descriptors s ! i = 0" by (auto simp: least_free_def open_files_def split: if_splits)
  have "file_descriptors s ! j \<noteq> 0" if "j < i" for j
  proof -
    have "open_files s j \<noteq> None" using l that by (simp add: least_free_def)
    then show ?thesis using i that by (simp add: open_files_def split: if_splits)
  qed
  with i show ?thesis by (auto simp: find_Some_iff)
qed

text \<open>
  What an opened file is made of: the handle at position 0 and a copy of directory item \<open>k\<close>. Of
  the seven blocks taken, three are for the parsed path, three for the handle and one for the
  descriptor.
\<close>

definition opened :: "'a fat_state_scheme \<Rightarrow> 'a fat_state_scheme \<Rightarrow> nat \<Rightarrow> nat \<Rightarrow> bool" where
  "opened s s' i k \<longleftrightarrow> (\<exists>a b c. open_files s' i = Some (kblock a)
     \<and> fat_descs s' (kblock a) = \<lparr>ffd_item = kblock b, ffd_pos = 0\<rparr>
     \<and> fat_items s' (kblock b) = \<lparr>fi_ptr = kblock c, fi_type = FAT_ITEM_TYPE_FILE\<rparr>
     \<and> bytes (kmem s') (kblock c) 32 = bytes (kmem s) (dir_item (root_dir s) + of_nat (32 * k)) 32
     \<and> kext (kmem s) (kmem s') \<and> card (kused (kmem s')) = card (kused (kmem s)) + 7 \<and> streams s' = streams s \<and> fat_privates s' = fat_privates s
     \<and> fat_directories s' = fat_directories s \<and> the_disk s' = the_disk s \<and> io_log s' = io_log s
     \<and> slot_blocks fat_own s' (file_descriptors s' ! i) \<inter> kused (kmem s) = {} \<and> fat_state.more s' = fat_state.more s)"

definition fopen_result :: "entries \<Rightarrow> u8 list list \<Rightarrow> nat \<Rightarrow> u32" where
  "fopen_result es ws i = (case ws of [w] \<Rightarrow> if find_entry es w \<noteq> None then of_nat (i + 1) else 0 | _ \<Rightarrow> 0)"

lemma fopen_fat:
  assumes "fat_files_ok fs B es s" "cstr (kmem s) filename bs" "valid_path bs" "bs ! 0 = 0x30"
    "kstable_block (kmem s) filename (Suc (length bs))" "kmem s mode_str = 0x72" "kstable (kmem s) mode_str"
    "least_free (open_files s) i" "card (kused (kmem s)) + 2 * length (components (drop 3 bs)) + 5 \<le> 25600"
    "list_all (plain_name es) (take 1 (components (drop 3 bs)))"
  shows "\<exists>s'. fopen (drivers hw fs) filename mode_str s = ret (fopen_result es (components (drop 3 bs)) i, s')
    \<and> fat_files_ok fs B es s' \<and> (\<forall>w k. components (drop 3 bs) = [w] \<longrightarrow> find_entry es w = Some k \<longrightarrow> opened s s' i k)"
proof -
  let ?ws = "components (drop 3 bs)"
  have len: "length bs < 2147483648" using assms(3) by (simp add: valid_path_def)
  have "card (kused (kmem s)) + 2 * length ?ws + 3 + 2 \<le> 25600" using assms(9) by simp
  from fat.fopen_ok [OF assms(1,2) len assms(5) this assms(10), of hw mode_str] obtain r0 s0 where
    ok: "fopen (drivers hw fs) filename mode_str s = ret (r0, s0)" "fat_files_ok fs B es s0" by blast
  have goal: ?thesis if "fopen (drivers hw fs) filename mode_str s = ret (fopen_result es ?ws i, s')"
    "\<forall>w k. ?ws = [w] \<longrightarrow> find_entry es w = Some k \<longrightarrow> opened s s' i k" for s'
  proof -
    have "s0 = s'" using ok(1) that(1) by simp
    with ok(2) that show ?thesis by blast
  qed
  have "card (kused (kmem s)) + 2 * length ?ws + 2 \<le> 25600" using assms(9) by simp
  from parse_valid [OF assms(2,3,5) this] obtain rb s1 ns where
    p: "pathparser_parse filename s = ret (kblock rb, s1)" "rb < 25600"
      "drive_no (roots s1 (kblock rb)) = of_nat (unat (bs ! 0) - 48)"
      "path_nodes (parts s1) (first_part (roots s1 (kblock rb))) ns" "path_names (kmem s1) ns ?ws"
      "kused (kmem s1) = kused (kmem s) \<union> set (rb # node_blocks ns)" "kext (kmem s) (kmem s1)"
      "distinct (rb # node_blocks ns)" "set (rb # node_blocks ns) \<inter> kused (kmem s) = {}" by blast
  have "path_heap.more s1 = path_heap.more s" using p(1) by (rule pathparser_parse_more)
  then have s1: "s1 = s\<lparr>kmem := kmem s1, roots := roots s1, parts := parts s1\<rparr>" by (cases s; cases s1) simp
  note fr = fat.ok_frame [OF assms(1) p(7), where rs = "roots s1" and ps = "parts s1", folded s1]
  have ready: "fat_ready B es s1" "filesystem (the_disk s1) = fs" "fs \<noteq> 0" using fat.okD(1-3) [OF fr(1)] by blast+
  then have mnt: "mounted s1 es" by (simp add: fat_ready_def)
  let ?fp = "first_part (roots s1 (kblock rb))"
  have "kmem s1 mode_str = 0x72" using kextD(1) [OF p(7) assms(7)] assms(6) by simp
  then have mode: "file_get_mode_by_string (kmem s1) mode_str = 0" by (simp add: file_get_mode_by_string_def)
  have td: "disk_get (drive_no (roots s1 (kblock rb))) = TheDisk" unfolding p(3) assms(4) by (simp add: disk_get_def)
  have fs1: "filesystem (the_disk s1) \<noteq> 0" using ready(2,3) by simp
  have run: "fopen (drivers hw fs) filename mode_str s = (if ?fp = 0 then ret (0, s1)
      else prog_bind (fopen_desc (drivers hw fs) ?fp 0 TheDisk s1) (\<lambda>(r, s). ret (if r <s 0 then 0 else r, s)))"
    unfolding fopen_parsed [OF p(1,2) fs1] mode td by (simp add: Let_def)
  show ?thesis
  proof (cases ns)
    case Nil
    then have "?ws = []" "?fp = 0" using p(4,5) by (simp_all add: path_names_def)
    then show ?thesis using run goal by (simp add: fopen_result_def)
  next
    case (Cons n ns')
    obtain nb pb where n: "n = (nb, pb)" by (cases n)
    obtain w ws where ws: "?ws = w # ws" "name_at (kmem s1) nb w" "list_all2 (\<lambda>(nb, pb) w. name_at (kmem s1) nb w) ns' ws"
      using p(5) unfolding Cons n path_names_def by (cases ?ws) auto
    have pn: "?fp = kblock pb" "part_name (parts s1 ?fp) = kblock nb" "pb < 25600" and nx: "path_nodes (parts s1) (next_part (parts s1 ?fp)) ns'"
      using p(4) unfolding Cons n path_nodes.simps by blast+
    have fp: "?fp \<noteq> 0" using kblock_nonzero [OF pn(3)] pn(1) by simp
    have next0: "next_part (parts s1 ?fp) = 0 \<longleftrightarrow> ws = []"
      using nx ws(3) by (cases ns') (auto simp: kblock_nonzero)
    have nb: "nb \<in> kused (kmem s1)" using p(6) Cons n by simp
    have card1: "card (kused (kmem s1)) = card (kused (kmem s)) + (2 * length ?ws + 1)"
    proof -
      have "length ns = length ?ws" using p(5) unfolding path_names_def by (rule list_all2_lengthD)
      then have "card (set (rb # node_blocks ns)) = 2 * length ?ws + 1"
        using distinct_card [OF p(8)] by (simp add: length_node_blocks)
      moreover have "finite (kused (kmem s))" by (simp add: taken_blocks_def)
      ultimately show ?thesis unfolding p(6) using p(9) by (subst card_Un_disjoint) auto
    qed
    have drv: "drivers hw fs (filesystem (the_disk s1)) = Some (fat16_fs hw fs)" using ready(2) by (simp add: drivers_def)
    have neg: "(- EIO) <s 0" by (simp add: word_sless_alt)
    show ?thesis
    proof (cases "find_entry es w")
      case None
      have "card (kused (kmem s1)) < 25600" using card1 assms(9) by simp
      from open_missing [OF mnt ws(2) nb None this pn(2), of hw] obtain s2 where
        "fat16_open hw TheDisk ?fp FILE_MODE_READ s1 = ret (- EIO, s2)" by blast
      then have "fopen_desc (drivers hw fs) ?fp 0 TheDisk s1 = ret (- EIO, s2)"
        by (intro fopen_desc_failed [of "drivers hw fs", OF drv _ neg]) (simp add: fat16_fs_def)
      then have "fopen (drivers hw fs) filename mode_str s = ret (0, s2)" using run fp neg by simp
      then show ?thesis using goal ws(1) None by (cases ws) (simp_all add: fopen_result_def)
    next
      case (Some k)
      have "plain_name es w" using assms(10) ws(1) by simp
      then have item: "named_item es w k" using Some by (simp add: named_item_def)
      have "card (kused (kmem s1)) + 3 \<le> 25600" using card1 assms(9) by simp
      from open_found [OF mnt ws(2) nb item this pn(2), of hw] obtain a b c m where
        o: "fat16_open hw TheDisk ?fp FILE_MODE_READ s1 =
        ret (if next_part (parts s1 ?fp) = 0 then kblock a else - EIO,
          s1\<lparr>kmem := m, fat_items := (fat_items s1)(kblock b := \<lparr>fi_ptr = kblock c, fi_type = FAT_ITEM_TYPE_FILE\<rparr>),
            fat_descs := (fat_descs s1)(kblock a := \<lparr>ffd_item = if next_part (parts s1 ?fp) = 0 then kblock b else 0, ffd_pos = 0\<rparr>)\<rparr>)"
        "kext (kmem s1) m" "kused m = {a, b, c} \<union> kused (kmem s1)" "distinct [a, b, c]" "{a, b, c} \<inter> kused (kmem s1) = {}"
        "{a, b, c} \<subseteq> {..<25600}" "bytes m (kblock c) 32 = bytes (kmem s1) (dir_item (root_dir s1) + of_nat (32 * k)) 32"
        by - (elim exE conjE, rule that, assumption+)
      show ?thesis
      proof (cases "ws = []")
        case False
        let ?s2 = "s1\<lparr>kmem := m, fat_items := (fat_items s1)(kblock b := \<lparr>fi_ptr = kblock c, fi_type = FAT_ITEM_TYPE_FILE\<rparr>),
            fat_descs := (fat_descs s1)(kblock a := \<lparr>ffd_item = 0, ffd_pos = 0\<rparr>)\<rparr>"
        have "fopen_desc (drivers hw fs) ?fp 0 TheDisk s1 = ret (- EIO, ?s2)"
          by (intro fopen_desc_failed [of "drivers hw fs", OF drv _ neg]) (use o(1) False next0 in \<open>simp add: fat16_fs_def\<close>)
        then have "fopen (drivers hw fs) filename mode_str s = ret (0, ?s2)" using run fp neg by simp
        then show ?thesis using goal [of ?s2] ws(1) False by (cases ws) (simp_all add: fopen_result_def)
      next
        case True
        let ?s2 = "s1\<lparr>kmem := m, fat_items := (fat_items s1)(kblock b := \<lparr>fi_ptr = kblock c, fi_type = FAT_ITEM_TYPE_FILE\<rparr>),
            fat_descs := (fat_descs s1)(kblock a := \<lparr>ffd_item = kblock b, ffd_pos = 0\<rparr>)\<rparr>"
        have fin: "finite (kused (kmem s1))" by (simp add: taken_blocks_def)
        have "card (kused m) = card {a, b, c} + card (kused (kmem s1))"
          unfolding o(3) using fin o(5) by (intro card_Un_disjoint) auto
        then have cm: "card (kused m) = card (kused (kmem s)) + 6" using o(4) card1 ws(1) True by simp
        then have "card (kused m) < 25600" using assms(9) ws(1) True by simp
        from kzalloc_new [OF this, of 16] obtain e m3 where
          e: "kzalloc m 16 = (kblock e, m3)" "e < 25600" "e \<notin> kused m" "kext m m3" "card (kused m3) = Suc (card (kused m))" by auto
        have lt: "a < 25600" "b < 25600" "c < 25600" using o(6) by simp_all
        define s3 where "s3 = ?s2\<lparr>kmem := m3, file_descriptors := (file_descriptors ?s2)[i := kblock e],
          descs := (descs ?s2)(kblock e := \<lparr>fd_index = of_nat (i + 1), fd_filesystem = filesystem (the_disk ?s2), fd_private = kblock a, fd_disk = TheDisk\<rparr>)\<rparr>"
        have fd: "file_descriptors s1 = file_descriptors s" "the_disk s1 = the_disk s" "streams s1 = streams s" "io_log s1 = io_log s"
          "fat_privates s1 = fat_privates s" "fat_directories s1 = fat_directories s" "fat_state.more s1 = fat_state.more s"
          by (subst s1, simp)+
        have d: "fopen_desc (drivers hw fs) ?fp 0 TheDisk s1 = ret (of_nat (i + 1), s3)"
          unfolding s3_def
          by (rule fopen_desc_run [where drv = "drivers hw fs" and s = s1, OF drv]) (use o(1) True next0 kblock_nonneg [OF lt(1)] find_slot [OF assms(8)] e(1,2) fd
            in \<open>simp_all add: fat16_fs_def\<close>)
        have i: "i < 512" "length (file_descriptors s) = 512" using assms(8) fat.okD(4) [OF assms(1)] by (auto simp: least_free_def)
        then have "\<not> (of_nat (i + 1) :: u32) <s 0" by (simp add: sless_small del: of_nat_add of_nat_Suc)
        then have f: "fopen (drivers hw fs) filename mode_str s = ret (of_nat (i + 1), s3)" using run fp d by simp
        have ext: "kext (kmem s) m3" using kext_trans [OF kext_trans [OF p(7) o(2)] e(4)] .
        have "opened s s3 i k"
          unfolding opened_def
        proof (rule exI [of _ a], rule exI [of _ b], rule exI [of _ c], intro conjI)
          have "kblock e \<noteq> 0" using e(2) by (rule kblock_nonzero)
          then show "open_files s3 i = Some (kblock a)" using i fd by (simp add: open_files_def s3_def)
          have "c \<in> kused m" using o(3) by simp
          then have 1: "bytes m3 (kblock c) 32 = bytes m (kblock c) 32"
            by (intro bytes_cong kstable_block_keep [OF e(4)] kblock_stable_block) simp_all
          have "dir_list (kmem s) (dir_item (root_dir s)) es" "k < length es"
            using fat.okD(1) [OF assms(1)] named_itemD(1) [OF item] mnt by (auto simp: fat_ready_def mounted_def)
          from dir_list_item(1) [OF this] have st: "kstable_block (kmem s) (dir_item (root_dir s) + of_nat (32 * k)) 32" .
          have 2: "bytes (kmem s1) (dir_item (root_dir s) + of_nat (32 * k)) 32 = bytes (kmem s) (dir_item (root_dir s) + of_nat (32 * k)) 32"
            by (intro bytes_cong kstable_block_keep [OF p(7) st])
          have "root_dir s1 = root_dir s" using fd by simp
          then show "bytes (kmem s3) (kblock c) 32 = bytes (kmem s) (dir_item (root_dir s) + of_nat (32 * k)) 32"
            using 1 2 o(7) by (simp add: s3_def)
          have "slot_blocks fat_own s3 (file_descriptors s3 ! i) = {e, a, b, c}"
            using lt e(2) i fd by (simp add: slot_blocks_def fat_own_def s3_def)
          moreover have "{a, b, c, e} \<inter> kused (kmem s) = {}" using kextD(2) [OF p(7)] kextD(2) [OF o(2)] o(5) e(3) by blast
          ultimately show "slot_blocks fat_own s3 (file_descriptors s3 ! i) \<inter> kused (kmem s) = {}" by auto
        qed (use ext fd e(5) cm in \<open>simp_all add: s3_def\<close>)
        then show ?thesis using goal [of s3] f ws(1) True Some by (simp add: fopen_result_def)
      qed
    qed
  qed
qed

section \<open>Reading within the first cluster\<close>

lemma int_sdiv_smod_nat: "int n sdiv int k = int (n div k)" "int n smod int k = int (n mod k)"
  by (cases "n = 0"; cases "k = 0"; simp add: signed_divide_int_def signed_modulo_int_def zdiv_int zmod_int minus_mult_div_eq_mod)+

lemma int_div_small:
  assumes "unat a < unat b" "unat b < 2147483648"
  shows "int_div a b = ret 0" "int_rem a b = ret a"
proof -
  have a: "unat a < 2147483648" using assms by simp
  have b: "b \<noteq> 0" using assms by auto
  have "unat a div unat b = 0" "unat a mod unat b = unat a" using assms by simp_all
  then show "int_div a b = ret 0" "int_rem a b = ret a"
    using b unfolding int_div_def int_rem_def sint_small [OF a] sint_small [OF assms(2)] int_sdiv_smod_nat by simp_all
qed

definition one_sector :: "nat \<Rightarrow> nat \<Rightarrow> bool" where
  "one_sector p n \<longleftrightarrow> p mod 512 = 0 \<or> p mod 512 + n \<le> 512"

text \<open>The byte of the drive where cluster \<open>c\<close> starts.\<close>

definition cluster_start :: "'a fat_state_scheme \<Rightarrow> nat \<Rightarrow> nat" where
  "cluster_start s c = 512 * (unat (dir_ending_sector_pos (root_dir s))
     + (c - 2) * unat (sectors_per_cluster (kmem s) (fs_private (the_disk s))))"

abbreviation cluster_stream :: "'a fat_state_scheme \<Rightarrow> addr" where
  "cluster_stream s \<equiv> cluster_read_stream (fat_privates s (fs_private (the_disk s)))"

lemma read_in_cluster:
  fixes s :: "'a fat_state_scheme"
  assumes "ata_drive hw img" "sector_size (the_disk s) = 512" "cluster_stream s \<noteq> 0"
    "stream_disk (streams s (cluster_stream s)) = TheDisk" "2 \<le> unat c" "0 < unat tot"
    "unat off + unat tot \<le> 512 * unat (sectors_per_cluster (kmem s) (fs_private (the_disk s)))"
    "cluster_start s (unat c) + unat off + unat tot < 2147483648" "one_sector (unat off) (unat tot)"
  shows "\<exists>log st. fat16_read_internal hw c off tot out s = ret (0, s\<lparr>io_log := log, streams := st,
        kmem := mem_fill (kmem s) out (unat tot) (\<lambda>i. img (cluster_start s (unat c) + unat off + i))\<rparr>)
      \<and> (\<forall>p. stream_disk (st p) = stream_disk (streams s p))"
proof -
  let ?P = "fs_private (the_disk s)"
  let ?spc = "sectors_per_cluster (kmem s) ?P"
  let ?E = "dir_ending_sector_pos (root_dir s)"
  let ?start = "cluster_start s (unat c)"
  have spc: "unat ?spc < 256" using unsigned_less [of "kmem s (?P + 13)", where ?'a = nat] by (simp add: sectors_per_cluster_def)
  have size: "unat (?spc * 512) = 512 * unat ?spc" using spc by (simp add: unat_word_ariths)
  have "0 < unat ?spc" using assms(6,7) by (metis add_is_0 gr0I le_zero_eq mult_0_right less_not_refl)
  have lt: "unat off < unat (?spc * 512)" "unat (?spc * 512) < 2147483648" using assms(6,7) size spc by linarith+
  define K where "K = unat ?E + (unat c - 2) * unat ?spc"
  have "512 * K < 2147483648" using assms(8) unfolding cluster_start_def K_def by linarith
  then have "K < 4194304" by simp
  then have start: "512 * (unat ?E + (unat c - 2) * unat ?spc) < 2147483648" and sec: "unat ?E + (unat c - 2) * unat ?spc < 4194304"
    using \<open>512 * K < 2147483648\<close> unfolding K_def by blast+
  have "unat c - 2 \<le> (unat c - 2) * unat ?spc" using \<open>0 < unat ?spc\<close> by simp
  then have c: "unat c < 4294967296" "unat c - 2 < 4194304" using sec by linarith+
  then have cs: "unat c < 2147483648" by linarith
  have c2: "unat (c - 2) = unat c - 2" using assms(5) by (simp add: unat_sub word_le_nat_alt)
  have m: "(unat c - 2) * unat ?spc < 4194304" using sec by linarith
  then have u1: "unat ((c - 2) * ?spc) = (unat c - 2) * unat ?spc" using c2 by (simp add: unat_word_ariths)
  then have u2: "unat (fat16_cluster_to_sector s ?P c) = unat ?E + (unat c - 2) * unat ?spc"
    using sec by (simp add: fat16_cluster_to_sector_def unat_word_ariths)
  then have u3: "unat (fat16_cluster_to_sector s ?P c * 512) = ?start"
    using start by (simp add: unat_word_ariths cluster_start_def)
  define p0 where "p0 = fat16_cluster_to_sector s ?P c * 512 + off"
  have p0: "unat p0 = ?start + unat off" unfolding p0_def using u3 assms(8) by (simp add: unat_word_ariths)
  let ?str = "cluster_stream s"
  define s1 where "s1 = s\<lparr>streams := (streams s)(?str := (streams s ?str)\<lparr>pos := p0\<rparr>)\<rparr>"
  have nlt: "\<not> ?spc * 512 <s tot"
    using assms(7) size lt(2) by (simp add: sless_small)
  have "?start mod 512 = 0" by (simp add: cluster_start_def)
  then have "unat p0 mod 512 = unat off mod 512" unfolding p0 by (metis add.left_neutral mod_add_left_eq)
  then have fit: "unat p0 mod 512 = 0 \<or> unat p0 mod 512 + unat tot \<le> 512" using assms(9) by (simp add: one_sector_def)
  have st1: "stream_disk (streams s1 ?str) = TheDisk" "pos (streams s1 ?str) = p0" using assms(4) by (simp_all add: s1_def)
  have "unat (pos (streams s1 ?str)) + unat tot < 2147483648" using st1(2) p0 assms(8) by simp
  from stream_read [OF assms(1,3) st1(1) this, of out] fit st1(2) obtain log where
    rd: "diskstreamer_read hw ?str out tot s1 = ret (0, s1\<lparr>io_log := log,
        kmem := mem_fill (kmem s1) out (unat tot) (\<lambda>i. img (unat p0 + i)),
        streams := (streams s1)(?str := (streams s1 ?str)\<lparr>pos := p0 + tot\<rparr>)\<rparr>)" by auto
  have cl: "fat16_get_cluster_for_offset hw c off s = ret (c, s)"
    using int_div_small(1) [OF lt] assms(2) by (simp add: fat16_get_cluster_for_offset_def Let_def)
  have cpos: "\<not> c <s 0" using cs by (simp add: word_sless_alt sint_small)
  have "fat16_read_internal hw c off tot out s = ret (0, s1\<lparr>io_log := log,
        kmem := mem_fill (kmem s1) out (unat tot) (\<lambda>i. img (unat p0 + i)),
        streams := (streams s1)(?str := (streams s1 ?str)\<lparr>pos := p0 + tot\<rparr>)\<rparr>)"
    unfolding fat16_read_internal_def
    using cl cpos int_div_small(2) [OF lt] assms(2,3) nlt rd
    by (subst fat16_read_internal_from_stream.simps) (simp add: Let_def diskstreamer_seek_def s1_def p0_def)
  then show ?thesis
    unfolding p0 using assms(4)
    by (intro exI [of _ log] exI [of _ "(streams s)(?str := (streams s ?str)\<lparr>pos := p0 + tot\<rparr>)"]) (simp add: s1_def)
qed

lemma keep_blocks_at: "keep_blocks K m m' \<Longrightarrow> b \<in> K \<Longrightarrow> j < 4096 \<Longrightarrow> m' (kblock b + of_nat j) = m (kblock b + of_nat j)"
  by (simp add: keep_blocks_def)

lemma header_keep:
  assumes "keep_blocks K m m'" "b \<in> K"
  shows "fat16_get_first_cluster m' (kblock b) = fat16_get_first_cluster m (kblock b)"
    "sectors_per_cluster m' (kblock b) = sectors_per_cluster m (kblock b)"
  using keep_blocks_at [OF assms, of 13] keep_blocks_at [OF assms, of 20] keep_blocks_at [OF assms, of 21]
    keep_blocks_at [OF assms, of 26] keep_blocks_at [OF assms, of 27]
  by (simp_all add: fat16_get_first_cluster_def sectors_per_cluster_def load16_def add.assoc)

lemma clear_of_part:
  assumes "clear_of K out n" "i + k \<le> n"
  shows "clear_of K (out + of_nat i) k"
  unfolding clear_of_def
proof (intro allI impI)
  fix j assume "j < k"
  then have "i + j < n" using assms(2) by simp
  then have "25600 \<le> unat (out + of_nat (i + j) - 0x7E00) \<and> (\<forall>b \<in> K. 4096 \<le> unat (out + of_nat (i + j) - kblock b))"
    using assms(1) unfolding clear_of_def by blast
  then show "25600 \<le> unat (out + of_nat i + of_nat j - 0x7E00) \<and> (\<forall>b \<in> K. 4096 \<le> unat (out + of_nat i + of_nat j - kblock b))"
    by (simp add: add.assoc)
qed

lemma clear_of_fill: "clear_of K out n \<Longrightarrow> K \<subseteq> kused m \<Longrightarrow> keep_blocks K m (mem_fill m out n f) \<and> kused (mem_fill m out n f) = kused m"
  using clear_of_keep [of m "mem_fill m out n f" out n K] by simp

lemma read_loop_in_cluster:
  assumes "ata_drive hw img" "fs_private (the_disk s) = kblock pb" "2 \<le> c" "0 < unat sz" "sector_size (the_disk s) = 512"
  shows "unat (fat16_get_first_cluster (kmem s) (kblock ib)) = c \<Longrightarrow> {ib, pb} \<subseteq> kused (kmem s) \<Longrightarrow>
    cluster_stream s \<noteq> 0 \<Longrightarrow> stream_disk (streams s (cluster_stream s)) = TheDisk \<Longrightarrow>
    unat off + n * unat sz \<le> 512 * unat (sectors_per_cluster (kmem s) (kblock pb)) \<Longrightarrow>
    cluster_start s c + unat off + n * unat sz < 2147483648 \<Longrightarrow>
    (\<And>k. k < n \<Longrightarrow> one_sector (unat off + k * unat sz) (unat sz)) \<Longrightarrow> clear_of {ib, pb} out (n * unat sz) \<Longrightarrow>
    \<exists>log st. fat16_read_loop hw n (kblock ib) off sz nm out s = ret (nm, s\<lparr>io_log := log, streams := st,
        kmem := mem_fill (kmem s) out (n * unat sz) (\<lambda>i. img (cluster_start s c + unat off + i))\<rparr>)
      \<and> (\<forall>p. stream_disk (st p) = stream_disk (streams s p))"
  using assms(2,5)
proof (induction n arbitrary: off out s)
  case 0
  then show ?case by (intro exI [of _ "io_log s"] exI [of _ "streams s"]) simp
next
  case (Suc n)
  let ?k = "unat sz" and ?start = "cluster_start s c"
  have Suc_sz: "Suc n * ?k = ?k + n * ?k" by simp
  have c: "2 \<le> unat (fat16_get_first_cluster (kmem s) (kblock ib))" using Suc.prems(1) assms(3) by simp
  have "one_sector (unat off) ?k" using Suc.prems(7) [of 0] by simp
  moreover have "unat off + ?k \<le> 512 * unat (sectors_per_cluster (kmem s) (fs_private (the_disk s)))"
    "cluster_start s (unat (fat16_get_first_cluster (kmem s) (kblock ib))) + unat off + ?k < 2147483648"
    using Suc.prems(1,5,6,9) unfolding Suc_sz by simp_all
  ultimately obtain log st where
    rd: "fat16_read_internal hw (fat16_get_first_cluster (kmem s) (kblock ib)) off sz out s = ret (0, s\<lparr>io_log := log, streams := st,
        kmem := mem_fill (kmem s) out ?k (\<lambda>i. img (?start + unat off + i))\<rparr>)"
    and st: "\<And>p. stream_disk (st p) = stream_disk (streams s p)"
    using read_in_cluster [OF assms(1) Suc.prems(10,3,4) c assms(4), of off out] Suc.prems(1) by auto
  let ?m = "mem_fill (kmem s) out ?k (\<lambda>i. img (?start + unat off + i))"
  let ?s = "s\<lparr>io_log := log, streams := st, kmem := ?m\<rparr>"
  have "clear_of {ib, pb} (out + of_nat 0) ?k" by (rule clear_of_part [OF Suc.prems(8)]) simp
  then have keep: "keep_blocks {ib, pb} (kmem s) ?m" "kused ?m = kused (kmem s)"
    using clear_of_fill [of "{ib, pb}" out ?k "kmem s"] Suc.prems(2) by simp_all
  note hk = header_keep [OF keep(1)]
  have cs: "cluster_start ?s c = ?start" using hk(2) [of pb] Suc.prems(9) by (simp add: cluster_start_def)
  have off: "unat (off + sz) = unat off + ?k"
    using Suc.prems(6) unfolding Suc_sz by (simp add: unat_word_ariths)
  have clear: "clear_of {ib, pb} (out + sz) (n * ?k)"
    using clear_of_part [OF Suc.prems(8), of ?k "n * ?k"] by simp
  have fits: "one_sector (unat (off + sz) + j * ?k) ?k" if "j < n" for j
    using Suc.prems(7) [of "Suc j"] that off by (simp add: add.assoc)
  obtain log' st' where
    IH: "fat16_read_loop hw n (kblock ib) (off + sz) sz nm (out + sz) ?s = ret (nm, ?s\<lparr>io_log := log', streams := st',
        kmem := mem_fill (kmem ?s) (out + sz) (n * ?k) (\<lambda>i. img (cluster_start ?s c + unat (off + sz) + i))\<rparr>)"
    and st': "\<And>p. stream_disk (st' p) = stream_disk (streams ?s p)"
  proof -
    have "\<exists>log' st'. fat16_read_loop hw n (kblock ib) (off + sz) sz nm (out + sz) ?s = ret (nm, ?s\<lparr>io_log := log', streams := st',
        kmem := mem_fill (kmem ?s) (out + sz) (n * ?k) (\<lambda>i. img (cluster_start ?s c + unat (off + sz) + i))\<rparr>)
        \<and> (\<forall>p. stream_disk (st' p) = stream_disk (streams ?s p))"
    proof (rule Suc.IH)
      show "unat (fat16_get_first_cluster (kmem ?s) (kblock ib)) = c" using hk(1) Suc.prems(1) by simp
      show "{ib, pb} \<subseteq> kused (kmem ?s)" using keep(2) Suc.prems(2) by simp
      show "unat (off + sz) + n * ?k \<le> 512 * unat (sectors_per_cluster (kmem ?s) (kblock pb))"
        using Suc.prems(5) hk(2) unfolding off Suc_sz by simp
      show "cluster_start ?s c + unat (off + sz) + n * ?k < 2147483648"
        using Suc.prems(6) unfolding off cs Suc_sz by simp
    qed (use Suc.prems(3,4,9,10) st clear fits in simp_all)
    with that show ?thesis by blast
  qed
  have "mem_fill ?m (out + sz) (n * ?k) (\<lambda>i. img (?start + unat (off + sz) + i)) =
      mem_fill (kmem s) out (Suc n * ?k) (\<lambda>i. img (?start + unat off + i))"
  proof -
    have "mem_fill ?m (out + of_nat ?k) (Suc n * ?k - ?k) (\<lambda>i. img (?start + unat (off + sz) + i)) =
      mem_fill (kmem s) out (Suc n * ?k) (\<lambda>i. if i < ?k then img (?start + unat off + i) else img (?start + unat (off + sz) + (i - ?k)))"
      using Suc.prems(6) by (intro mem_fill_append) simp_all
    also have "(\<lambda>i. if i < ?k then img (?start + unat off + i) else img (?start + unat (off + sz) + (i - ?k))) =
        (\<lambda>i. img (?start + unat off + i))" unfolding off by (auto simp: fun_eq_iff add.assoc)
    finally show ?thesis by simp
  qed
  then have "fat16_read_loop hw (Suc n) (kblock ib) off sz nm out s = ret (nm, s\<lparr>io_log := log', streams := st',
        kmem := mem_fill (kmem s) out (Suc n * ?k) (\<lambda>i. img (?start + unat off + i))\<rparr>)"
    using rd IH cs by simp
  then show ?case using st st' by (intro exI [of _ log'] exI [of _ st']) simp
qed

section \<open>The calls\<close>

text \<open>The volume is the same: only the positions of its streams may differ.\<close>

definition same_volume :: "'a fat_state_scheme \<Rightarrow> 'a fat_state_scheme \<Rightarrow> bool" where
  "same_volume s s' \<longleftrightarrow> the_disk s' = the_disk s \<and> fat_directories s' = fat_directories s \<and> fat_privates s' = fat_privates s
     \<and> (\<forall>p. stream_disk (streams s' p) = stream_disk (streams s p))"

lemma same_volume_trans: "same_volume s s' \<Longrightarrow> same_volume s' s'' \<Longrightarrow> same_volume s s''"
  by (simp add: same_volume_def)

lemma open_slot:
  assumes "fat_files_ok fs B es s" "open_files s i = Some h"
  defines "p \<equiv> file_descriptors s ! i"
  shows "i < 512" "p \<noteq> 0" "h = fd_private (descs s p)" "slot_ok fs B fat_handle fat_own s i p" "fat_handle s h"
    "fd_filesystem (descs s p) = fs" "fd_disk (descs s p) = TheDisk" "fat_own s h \<subseteq> slot_blocks fat_own s p"
    "slot_blocks fat_own s p \<subseteq> kused (kmem s) - B"
proof -
  show i: "i < 512" "p \<noteq> 0" "h = fd_private (descs s p)" using assms(2) by (simp_all add: open_files_def p_def split: if_splits)
  show sk: "slot_ok fs B fat_handle fat_own s i p" using fat.okD(5) [OF assms(1)] i(1,2) by (simp add: p_def)
  then show "fat_handle s h" "fd_filesystem (descs s p) = fs" "fd_disk (descs s p) = TheDisk"
    using i(3) by (simp_all add: slot_ok_def)
  show "fat_own s h \<subseteq> slot_blocks fat_own s p" by (auto simp: slot_blocks_def i(3))
  show "slot_blocks fat_own s p \<subseteq> kused (kmem s) - B" by (rule fat.slot_used [OF sk])
qed

text \<open>The copy of a directory item says the same of the file.\<close>

lemma item_same:
  assumes "\<And>j. j < 32 \<Longrightarrow> m' (p + of_nat j) = m (q + of_nat j)"
  shows "fat16_get_first_cluster m' p = fat16_get_first_cluster m q" "item_filesize m' p = item_filesize m q"
    "item_attribute m' p = item_attribute m q"
  using assms [of 11] assms [of 20] assms [of 21] assms [of 26] assms [of 27]
    assms [of 28] assms [of 29] assms [of 30] assms [of 31]
  by (simp_all add: fat16_get_first_cluster_def item_filesize_def item_attribute_def load16_def load32_def add.assoc)

lemma clear_of_low:
  assumes "off_heap p n" "K \<subseteq> {..<25600}"
  shows "clear_of K p n"
  using assms unfolding clear_of_def off_heap_def by blast

lemma fread_fat:
  fixes s :: "'a fat_state_scheme"
  assumes "ata_drive hw img" "fat_files_ok fs B es s" "fd_slot fd = Some i" "open_files s i = Some h"
    "unat (fat16_get_first_cluster (kmem s) (fi_ptr (fat_items s (ffd_item (fat_descs s h))))) = c" "2 \<le> c"
    "fs_private (the_disk s) = kblock pb" "pb \<in> B" "cluster_stream s \<noteq> 0" "stream_disk (streams s (cluster_stream s)) = TheDisk"
    "0 < unat sz" "0 < unat n"
    "unat (ffd_pos (fat_descs s h)) + unat n * unat sz \<le> 512 * unat (sectors_per_cluster (kmem s) (kblock pb))"
    "cluster_start s c + unat (ffd_pos (fat_descs s h)) + unat n * unat sz < 2147483648"
    "\<And>k. k < unat n \<Longrightarrow> one_sector (unat (ffd_pos (fat_descs s h)) + k * unat sz) (unat sz)"
    "clear_of (B \<union> fat_own s h) out (unat n * unat sz)"
  shows "\<exists>s'. fread (drivers hw fs) out sz n fd s = ret (n, s') \<and> fat_files_ok fs B es s' \<and> open_files s' = open_files s
    \<and> fat_state.more s' = fat_state.more s \<and> file_part s' = file_part s \<and> fat_own s' = fat_own s
    \<and> same_volume s s' \<and> kmem s' = mem_fill (kmem s) out (unat n * unat sz) (\<lambda>k. img (cluster_start s c + unat (ffd_pos (fat_descs s h)) + k))"
proof -
  note o = fat.okD [OF assms(2)]
  note sl = open_slot [OF assms(2,4)]
  from sl(5) obtain a b ib where hb: "h = kblock a" "ffd_item (fat_descs s h) = kblock b"
    "fat_items s (kblock b) = \<lparr>fi_ptr = kblock ib, fi_type = FAT_ITEM_TYPE_FILE\<rparr>" "{a, b, ib} \<subseteq> kused (kmem s)" "fat_own s h = {a, b, ib}"
    by (rule fat_handleE)
  have it: "fi_ptr (fat_items s (ffd_item (fat_descs s h))) = kblock ib" using hb(2,3) by simp
  have sec: "sector_size (the_disk s) = 512" and B: "B \<subseteq> kused (kmem s)" using o(1) by (simp_all add: fat_ready_def)
  have clear: "clear_of {ib, pb} out (unat n * unat sz)" using assms(8,16) hb(5) by (auto simp: clear_of_def)
  have used: "{ib, pb} \<subseteq> kused (kmem s)" using assms(8) B hb(4) by blast
  from read_loop_in_cluster [OF assms(1,7,6,11) sec assms(5) [unfolded it] used assms(9,10,13-15) clear, of n] obtain log st where
    l: "fat16_read_loop hw (unat n) (kblock ib) (ffd_pos (fat_descs s h)) sz n out s = ret (n, s\<lparr>io_log := log, streams := st,
        kmem := mem_fill (kmem s) out (unat n * unat sz) (\<lambda>k. img (cluster_start s c + unat (ffd_pos (fat_descs s h)) + k))\<rparr>)"
    "\<forall>p. stream_disk (st p) = stream_disk (streams s p)" by blast
  let ?s = "s\<lparr>io_log := log, streams := st,
        kmem := mem_fill (kmem s) out (unat n * unat sz) (\<lambda>k. img (cluster_start s c + unat (ffd_pos (fat_descs s h)) + k))\<rparr>"
  have fd: "unat fd = Suc i" "i < 511" using assms(3) by (simp_all add: fd_slot_Some)
  have "\<not> fd <s 1" using fd by (simp add: sless_small)
  moreover have "sz \<noteq> 0" "n \<noteq> 0" using assms(11,12) by auto
  ultimately have run: "fread (drivers hw fs) out sz n fd s = ret (n, ?s)"
    using l(1) sl(2,3,6,7) it assms(3)
    by (simp add: fread_def file_get_descriptor_slot with_driver_def drivers_def fat16_fs_def fat16_read_def)
  have b1: "unat sz * unat n < 4294967296" using assms(14) by (simp add: mult.commute)
  have b2: "clear_of B out (unat sz * unat n)" using assms(16) by (auto simp: clear_of_def mult.commute)
  from fat.fread_ok [OF assms(2) b1 b2 run] show ?thesis
    using run l(2) by (intro exI [of _ ?s]) (simp add: file_part_def fat_own_def same_volume_def fun_eq_iff)
qed

lemma fstat_fat:
  fixes s :: "'a fat_state_scheme"
  assumes "fat_files_ok fs B es s" "fd_slot fd = Some i" "open_files s i = Some h" "clear_of B st 8"
  shows "\<exists>m. fstat (drivers hw fs) fd st s = ret (0, s\<lparr>kmem := m\<rparr>) \<and> fat_files_ok fs B es (s\<lparr>kmem := m\<rparr>)
    \<and> unchanged_outside (kmem s) m st 8
    \<and> load32 m (st + 4) = item_filesize (kmem s) (fi_ptr (fat_items s (ffd_item (fat_descs s h))))"
proof -
  note o = open_slot [OF assms(1,3)]
  obtain b c where it: "ffd_item (fat_descs s h) = kblock b"
    "fat_items s (kblock b) = \<lparr>fi_ptr = kblock c, fi_type = FAT_ITEM_TYPE_FILE\<rparr>" using o(5) by (rule fat_handleE)
  from fat16_stat_run [of s h "kblock c" st] it obtain m where
    m: "fat16_stat TheDisk h st s = ret (0, s\<lparr>kmem := m\<rparr>)" "unchanged_outside (kmem s) m st 8"
      "load32 m (st + 4) = item_filesize (kmem s) (kblock c)" by auto
  have run: "fstat (drivers hw fs) fd st s = ret (0, s\<lparr>kmem := m\<rparr>)"
    using assms(2) o(2,3,6,7) m(1) by (simp add: fstat_def file_get_descriptor_slot with_driver_def drivers_def fat16_fs_def)
  obtain r s' where "fstat (drivers hw fs) fd st s = ret (r, s')" "fat_files_ok fs B es s'"
    using fat.fstat_ok [OF assms(1,2) o(2) assms(4), of hw] by blast
  then have "fat_files_ok fs B es (s\<lparr>kmem := m\<rparr>)" using run by simp
  then show ?thesis using run m(2,3) it by (intro exI [of _ m]) simp
qed

text \<open>An opened file, and the entry of the directory it was opened from.\<close>

lemma opened_file:
  assumes "fat_files_ok fs B es s'" "opened s s' i k"
  shows "\<exists>h c. open_files s' i = Some h \<and> ffd_pos (fat_descs s' h) = 0 \<and> c \<in> kused (kmem s')
    \<and> fi_ptr (fat_items s' (ffd_item (fat_descs s' h))) = kblock c
    \<and> fat16_get_first_cluster (kmem s') (kblock c) = fat16_get_first_cluster (kmem s) (dir_item (root_dir s) + of_nat (32 * k))
    \<and> item_filesize (kmem s') (kblock c) = item_filesize (kmem s) (dir_item (root_dir s) + of_nat (32 * k))"
proof -
  from assms(2) obtain a b c where o: "open_files s' i = Some (kblock a)"
    "fat_descs s' (kblock a) = \<lparr>ffd_item = kblock b, ffd_pos = 0\<rparr>"
    "fat_items s' (kblock b) = \<lparr>fi_ptr = kblock c, fi_type = FAT_ITEM_TYPE_FILE\<rparr>"
    "bytes (kmem s') (kblock c) 32 = bytes (kmem s) (dir_item (root_dir s) + of_nat (32 * k)) 32"
    unfolding opened_def by blast
  have "kmem s' (kblock c + of_nat j) = kmem s (dir_item (root_dir s) + of_nat (32 * k) + of_nat j)" if "j < 32" for j
    using bytes_nth [OF o(4) that] that by simp
  note same = item_same [where m' = "kmem s'" and p = "kblock c" and m = "kmem s"
      and q = "dir_item (root_dir s) + of_nat (32 * k)", OF this]
  obtain z where z: "fi_ptr (fat_items s' (ffd_item (fat_descs s' (kblock a)))) = kblock z" "z \<in> kused (kmem s')"
    using open_slot(5) [OF assms(1) o(1)] by (rule fat_handleE) auto
  with o(2,3) have "kblock c = kblock z" by simp
  then show ?thesis using o z same by (intro exI [of _ "kblock a"] exI [of _ z]) simp
qed

lemma openedD:
  assumes "opened s s' i k"
  shows "kext (kmem s) (kmem s')" "card (kused (kmem s')) = card (kused (kmem s)) + 7" "streams s' = streams s"
    "fat_privates s' = fat_privates s" "fat_directories s' = fat_directories s" "the_disk s' = the_disk s"
    "slot_blocks fat_own s' (file_descriptors s' ! i) \<inter> kused (kmem s) = {}" "fat_state.more s' = fat_state.more s"
  using assms by (auto simp: opened_def)

lemma fd_slot_Suc: "i < 511 \<Longrightarrow> fd_slot (of_nat (i + 1)) = Some i"
  by (simp add: fd_slot_Some del: of_nat_add of_nat_Suc)

text \<open>Opening and closing again.\<close>

lemma fclose_fat:
  fixes s :: "'a fat_state_scheme"
  assumes "fat_files_ok fs B es s" "fd_slot fd = Some i" "open_files s i \<noteq> None"
  shows "\<exists>s'. fclose (drivers hw fs) fd s = ret (0, s') \<and> fat_files_ok fs B es s' \<and> open_files s' = (open_files s)(i := None)
    \<and> kused (kmem s') = kused (kmem s) - slot_blocks fat_own s (file_descriptors s ! i)
    \<and> card (kused (kmem s)) = card (kused (kmem s')) + 4 \<and> same_volume s s' \<and> table_only (kmem s) (kmem s') \<and> fat_state.more s' = fat_state.more s"
proof -
  let ?p = "file_descriptors s ! i"
  obtain h where "open_files s i = Some h" using assms(3) by blast
  note o = open_slot [OF assms(1) this]
  obtain s' where s': "fclose (drivers hw fs) fd s = ret (0, s')" "fat_files_ok fs B es s'" "open_files s' = (open_files s)(i := None)"
    "kused (kmem s') = kused (kmem s) - slot_blocks fat_own s ?p"
    using fat.fclose_open [OF assms(1,2) o(2), of hw] by blast
  obtain e where e: "?p = kblock e" "e < 25600" "e \<notin> fat_own s h" "fd_index (descs s ?p) = of_nat (i + 1)"
    using o(3,4) kused_less by (auto simp: slot_ok_def)
  from o(5) obtain a b c where abc: "h = kblock a" "ffd_item (fat_descs s h) = kblock b"
    "fat_items s (kblock b) = \<lparr>fi_ptr = kblock c, fi_type = FAT_ITEM_TYPE_FILE\<rparr>" "distinct [a, b, c]" "fat_own s h = {a, b, c}"
    "a < 25600" "b < 25600" "c < 25600" by (rule fat_handleE)
  define m where "m = kfree (kfree (kfree (kfree (kmem s) (kblock c)) (kblock b)) (kblock a)) (kblock e)"
  have "fat16_close h s = ret (0, s\<lparr>kmem := kfree (kfree (kfree (kmem s) (kblock c)) (kblock b)) (kblock a)\<rparr>)"
    using abc(1-3) by (simp add: fat16_close_def fat16_free_file_descriptor_def fat16_fat_item_free_def)
  moreover have "i < 511" using assms(2) by (simp add: fd_slot_Some)
  moreover have "fd_private (descs s (kblock e)) = h" "fd_filesystem (descs s (kblock e)) = fs" "kblock e \<noteq> 0"
    using o(2,3,6) e(1) by simp_all
  moreover have "file_get_descriptor fd s = kblock e" using assms(2) e(1) by (simp add: file_get_descriptor_slot)
  moreover have "file_free_descriptor (kblock e) (s\<lparr>kmem := m'\<rparr>) =
      ret (s\<lparr>kmem := kfree m' (kblock e), file_descriptors := (file_descriptors s)[i := 0]\<rparr>)" for m'
    using e(1,4) calculation(2) by (simp add: file_free_descriptor_def)
  ultimately have "fclose (drivers hw fs) fd s = ret (0, s\<lparr>kmem := m, file_descriptors := (file_descriptors s)[i := 0]\<rparr>)"
    by (simp add: fclose_def with_driver_def drivers_def fat16_fs_def m_def)
  then have run: "s' = s\<lparr>kmem := m, file_descriptors := (file_descriptors s)[i := 0]\<rparr>" using s'(1) by simp
  have "table_only (kmem s) m"
    unfolding m_def
    by (rule table_only_trans [OF table_only_trans [OF table_only_trans [OF table_only_kfree [OF abc(8)]
      table_only_kfree [OF abc(7)]] table_only_kfree [OF abc(6)]] table_only_kfree [OF e(2)]])
  then have t: "table_only (kmem s) (kmem s')" "fat_state.more s' = fat_state.more s" "same_volume s s'"
    by (simp_all add: run same_volume_def)
  have 4: "card (slot_blocks fat_own s ?p) = 4" using e(1-3) abc(4,5) o(3) by (simp add: slot_blocks_def)
  have sub: "slot_blocks fat_own s ?p \<subseteq> kused (kmem s)" using o(9) by blast
  have "finite (kused (kmem s))" by (simp add: taken_blocks_def)
  then have "card (kused (kmem s')) = card (kused (kmem s)) - 4" "4 \<le> card (kused (kmem s))"
    using 4 sub card_mono [of "kused (kmem s)" "slot_blocks fat_own s ?p"] by (simp_all add: s'(4) card_Diff_subset finite_subset)
  then show ?thesis using s' t by (intro exI [of _ s']) simp
qed

section \<open>The example\<close>

definition example_name :: "u8 list" where
  "example_name = [0x72, 0x2e, 0x74, 0x78, 0x74]"

lemma example_components: "components (drop 3 example_path) = [example_name]"
  using components_print [of "[example_name]"] by (simp add: dir_name_def example_name_def example_path_def)

lemma example_find: "named_item example_entries example_name 0"
proof -
  have "upper_name example_item = map toupper example_name"
    by (simp add: upper_name_def example_item_text example_name_def toupper_def word_sle_eq)
  moreover have "example_item ! 11 AND FAT_FILE_SUBDIRECTORY = 0" by (simp add: example_item_def)
  ultimately show ?thesis by (simp add: named_item_def plain_name_def find_entry_def example_entries_def)
qed

lemma example_plain: "list_all (plain_name example_entries) (take 1 (components (drop 3 example_path)))"
  using example_find by (simp add: example_components named_item_def)

lemma example_sel:
  "kmem (example_volume x) = example_mem" "streams (example_volume x) p = \<lparr>pos = 0, stream_disk = TheDisk\<rparr>"
  "the_disk (example_volume x) = \<lparr>disk_type = 0, sector_size = 512, disk_id = 0, filesystem = 0x180000, fs_private = kblock 1\<rparr>"
  "fat_privates (example_volume x) p = \<lparr>cluster_read_stream = kblock 2, fat_read_stream = kblock 2, directory_stream = kblock 2\<rparr>"
  "fat_directories (example_volume x) p = \<lparr>dir_item = kblock 0, dir_total = 1, dir_sector_pos = 10, dir_ending_sector_pos = 11\<rparr>"
  "open_files (example_volume x) = (\<lambda>_. None)"
  by (simp_all add: example_volume_def open_files_def fun_eq_iff)

lemma example_call:
  "cstr (kmem (example_volume x)) 0x100000 example_path" "valid_path example_path" "example_path ! 0 = 0x30"
  "kstable_block (kmem (example_volume x)) 0x100000 (Suc (length example_path))" "kmem (example_volume x) 0x100003 = 0x72"
  "kstable (kmem (example_volume x)) 0x100003" "least_free (open_files (example_volume x)) 0"
  "card (kused (kmem (example_volume x))) + 2 * length (components (drop 3 example_path)) + 5 \<le> 25600"
proof -
  show s: "cstr (kmem (example_volume x)) 0x100000 example_path"
    "kstable_block (kmem (example_volume x)) 0x100000 (Suc (length example_path))"
    using example_path_at by (simp_all add: example_sel)
  show "valid_path example_path" "example_path ! 0 = 0x30"
    by (simp_all add: valid_path_def example_path_def isdigit_def)
  have "3 < length example_path" by (simp add: example_path_def)
  then have "kmem (example_volume x) (0x100000 + of_nat 3) = example_path ! 3"
    using s(1) unfolding cstr_def by blast
  then show "kmem (example_volume x) 0x100003 = 0x72" by (simp add: example_path_def)
  have "3 < Suc (length example_path)" by (simp add: example_path_def)
  then have "kstable (kmem (example_volume x)) (0x100000 + of_nat 3)"
    using s(2) unfolding kstable_block_def by blast
  then show "kstable (kmem (example_volume x)) 0x100003" by simp
  show "least_free (open_files (example_volume x)) 0" by (simp add: least_free_def example_sel)
  show "card (kused (kmem (example_volume x))) + 2 * length (components (drop 3 example_path)) + 5 \<le> 25600"
    by (simp add: example_sel example_used example_components)
qed

lemma fopen_table:
  assumes "files_ok fs (fat_ready B es) B fat_handle fat_own s" "cstr (kmem s) filename bs" "valid_path bs" "kstable_block (kmem s) filename (Suc (length bs))"
    "least_free (open_files s) i" "i < 511" "card (kused (kmem s)) + 2 * length (components (drop 3 bs)) + 5 \<le> 25600"
    "fopen (drivers hw fs) filename mode_str s = ret (of_nat (i + 1), s1)"
    "list_all (plain_name es) (take 1 (components (drop 3 bs)))"
  shows "\<exists>h. open_files s1 = (open_files s)(i \<mapsto> h)"
proof -
  have "card (kused (kmem s)) + 2 * length (components (drop 3 bs)) + 3 + 2 \<le> 25600" "length bs < 2147483648"
    using assms(3,7) by (simp_all add: valid_path_def)
  from fat.fopen_ok [OF assms(1,2) this(2) assms(4) this(1) assms(9), of hw mode_str] assms(8)
  have tab: "(of_nat (i + 1) :: u32) = 0 \<or> (\<exists>h i. find (\<lambda>i. file_descriptors s ! i = 0) [0..<512] = Some i \<and> open_files s1 = (open_files s)(i \<mapsto> h))"
    by auto
  have "(of_nat (i + 1) :: u32) \<noteq> 0" using assms(6) of_nat32_eq_iff [of "i + 1" 0] by (simp del: of_nat_add of_nat_Suc)
  with tab find_slot [OF assms(5)] show ?thesis by auto
qed

section \<open>The files of the root directory\<close>

text \<open>The directory item of entry \<open>k\<close>, its size and first cluster.\<close>

definition entry_at :: "'a fat_state_scheme \<Rightarrow> nat \<Rightarrow> addr" where
  "entry_at s k = dir_item (root_dir s) + of_nat (32 * k)"

definition file_size :: "'a fat_state_scheme \<Rightarrow> nat \<Rightarrow> u32" where
  "file_size s k = item_filesize (kmem s) (entry_at s k)"

definition file_cluster :: "'a fat_state_scheme \<Rightarrow> nat \<Rightarrow> nat" where
  "file_cluster s k = unat (fat16_get_first_cluster (kmem s) (entry_at s k))"

text \<open>Where on the drive the file of entry \<open>k\<close> starts; it lies in its first cluster.\<close>

definition file_start :: "'a fat_state_scheme \<Rightarrow> nat \<Rightarrow> nat" where
  "file_start s k = cluster_start s (file_cluster s k)"

definition in_first_cluster :: "nat set \<Rightarrow> 'a fat_state_scheme \<Rightarrow> nat \<Rightarrow> bool" where
  "in_first_cluster B s k \<longleftrightarrow> (\<exists>pb \<in> B. fs_private (the_disk s) = kblock pb
       \<and> unat (file_size s k) \<le> 512 * unat (sectors_per_cluster (kmem s) (kblock pb)))
     \<and> cluster_stream s \<noteq> 0 \<and> stream_disk (streams s (cluster_stream s)) = TheDisk \<and> 2 \<le> file_cluster s k
     \<and> 0 < unat (file_size s k) \<and> file_start s k + unat (file_size s k) < 2147483648"

section \<open>Properties\<close>

text \<open>
  C7: Every file call on a mounted volume that returns refines the abstract table of open files:
  \<^verbatim>\<open>fopen\<close> returns 0 and changes nothing or takes the least free slot, \<^verbatim>\<open>fclose\<close> clears the slot
  of an open descriptor and refuses others, \<^verbatim>\<open>fread\<close>, \<^verbatim>\<open>fseek\<close> and \<^verbatim>\<open>fstat\<close> leave the table alone;
  and the table stays well formed. The caller's part is \<open>call_ok\<close>: buffers that overlap neither
  the block table nor a block of the volume, of the driver or of an open file, room in the heap
  for opening, and names that no directory and at most one item has. Some calls do not return:
  \<^verbatim>\<open>fseek\<close> on a closed descriptor reads through NULL, and a read may run past a sector.
\<close>

theorem fat_calls_refine:
  assumes "files_ok fs (fat_ready B es) B fat_handle fat_own s" and "call_ok (fat_blocks B s) 3 (plain_name es) s c"
    and "run_call (drivers hw fs) c s = ret (r, s')"
  shows "files_ok fs (fat_ready B es) B fat_handle fat_own s' \<and> table_spec c (open_files s) r (open_files s')"
  using fat.call_refines [OF assms(1,2) fat_blocks_base assms(3)] by blast

lemma example_open_ok: "call_ok K 3 (plain_name example_entries) fat_example (Open 0x100000 0x100003)"
  using example_call(1,4,8) [of "()"] example_plain by (auto simp: example_path_def intro!: exI [of _ example_path])

theorem fat_calls_refine_witness:
  "\<exists>s' r. run_call (drivers (ideal_drive of_nat) 0x180000) (Open 0x100000 0x100003) fat_example = ret (r, s')
    \<and> table_spec (Open 0x100000 0x100003) (open_files fat_example) r (open_files s')"
proof -
  obtain s' where s': "fopen (drivers (ideal_drive of_nat) 0x180000) 0x100000 0x100003 fat_example =
      ret (fopen_result example_entries (components (drop 3 example_path)) 0, s')"
    using fopen_fat [OF example_files_ok [of "()"] example_call example_plain, of "ideal_drive of_nat"] by blast
  from fat_calls_refine [OF example_files_ok [of "()"] example_open_ok, of "ideal_drive of_nat"] s'
  show ?thesis by (intro exI [of _ s']) auto
qed

text \<open>
  C16: In every state reached from a well-formed table by file calls that return and whose
  buffers overlap neither the block table nor the blocks of the volume, of the driver or of a
  file open at the time, the blocks of two open files are disjoint, in use, and none of the
  volume's.
\<close>

theorem fat_reach_apart:
  assumes "files_ok fs (fat_ready B es) B fat_handle fat_own s0"
    and "file_reach (drivers hw fs) (fat_blocks B) 3 (plain_name es) s0 s"
  shows "files_ok fs (fat_ready B es) B fat_handle fat_own s
    \<and> (\<forall>i j h k. i \<noteq> j \<and> open_files s i = Some h \<and> open_files s j = Some k \<longrightarrow>
         fat_own s h \<inter> fat_own s k = {} \<and> fat_own s h \<subseteq> kused (kmem s) - B)"
proof -
  have "files_ok fs (fat_ready B es) B fat_handle fat_own s" using assms(2) fat_blocks_base assms(1) by (rule fat.reach_ok)
  then show ?thesis using fat.ok_apart by blast
qed

theorem fat_reach_apart_witness:
  "\<exists>s. file_reach (drivers (ideal_drive of_nat) 0x180000) (fat_blocks {0, 1, 2}) 3 (plain_name example_entries) fat_example s
    \<and> open_files s 0 \<noteq> None
    \<and> files_ok 0x180000 (fat_ready {0, 1, 2} example_entries) {0, 1, 2} fat_handle fat_own s"
proof -
  let ?hw = "ideal_drive of_nat"
  obtain s' where s': "fopen (drivers ?hw 0x180000) 0x100000 0x100003 fat_example =
      ret (fopen_result example_entries (components (drop 3 example_path)) 0, s')" "opened fat_example s' 0 0"
    using fopen_fat [OF example_files_ok [of "()"] example_call example_plain, of ?hw] example_components example_find
    by (auto simp: named_item_def)
  have r: "file_reach (drivers ?hw 0x180000) (fat_blocks {0, 1, 2}) 3 (plain_name example_entries) fat_example s'"
    using s'(1) example_open_ok by (intro file_reach.call [where c = "Open 0x100000 0x100003", OF file_reach.start]) auto
  have "open_files s' 0 \<noteq> None" using s'(2) by (auto simp: opened_def)
  then show ?thesis using fat_reach_apart [OF example_files_ok [of "()"] r] r by blast
qed



text \<open>
  C10: After opening a file by its name, reading gives the bytes of the drive from the start of
  the file's first cluster on, as long as the read stays in that cluster.
\<close>

theorem fopen_fread_bytes:
  assumes "files_ok fs (fat_ready B es) B fat_handle fat_own s" and "cstr (kmem s) filename bs" and "valid_path bs"
    and "bs ! 0 = 0x30" and "kstable_block (kmem s) filename (Suc (length bs))" and "kmem s mode_str = 0x72"
    and "kstable (kmem s) mode_str" and "least_free (open_files s) i" and "i < 511"
    and "card (kused (kmem s)) + 2 * length (components (drop 3 bs)) + 5 \<le> 25600"
    and "components (drop 3 bs) = [w]" and "named_item es w k"
    and "ata_drive hw img" and "fs_private (the_disk s) = kblock pb" and "pb \<in> B"
    and "cluster_stream s \<noteq> 0" and "stream_disk (streams s (cluster_stream s)) = TheDisk"
    and "unat (fat16_get_first_cluster (kmem s) (dir_item (root_dir s) + of_nat (32 * k))) = c" and "2 \<le> c"
    and "0 < unat sz" and "unat sz \<le> 512 * unat (sectors_per_cluster (kmem s) (kblock pb))"
    and "cluster_start s c + unat sz < 2147483648" and "57856 \<le> unat out" and "unat out + unat sz \<le> 16777216"
  shows "\<exists>s1 s2. fopen (drivers hw fs) filename mode_str s = ret (of_nat (i + 1), s1)
    \<and> fread (drivers hw fs) out sz 1 (of_nat (i + 1)) s1 = ret (1, s2)
    \<and> (\<forall>j < unat sz. kmem s2 (out + of_nat j) = img (cluster_start s c + j))"
proof -
  have plain: "list_all (plain_name es) (take 1 (components (drop 3 bs)))" using assms(11,12) by (simp add: named_item_def)
  from fopen_fat [OF assms(1-8,10) plain, of hw] assms(11,12) obtain s1 where
    s1: "fopen (drivers hw fs) filename mode_str s = ret (of_nat (i + 1), s1)"
      "files_ok fs (fat_ready B es) B fat_handle fat_own s1" "opened s s1 i k"
    by (auto simp: fopen_result_def named_item_def)
  note op = openedD [OF s1(3)]
  obtain h ib where h: "open_files s1 i = Some h" "ffd_pos (fat_descs s1 h) = 0"
    "fi_ptr (fat_items s1 (ffd_item (fat_descs s1 h))) = kblock ib"
    "unat (fat16_get_first_cluster (kmem s1) (kblock ib)) = c"
    using opened_file [OF s1(2,3)] assms(18) by auto
  have "pb \<in> kused (kmem s)" using assms(1,15) by (auto simp: files_ok_def fat_ready_def)
  then have hk: "sectors_per_cluster (kmem s1) (kblock pb) = sectors_per_cluster (kmem s) (kblock pb)"
    by (intro header_keep(2) [OF keep_blocks_kext [OF op(1), of "{pb}"]]) simp_all
  have cs: "cluster_start s1 c = cluster_start s c" using hk op(5,6) assms(14) by (simp add: cluster_start_def)
  have "B \<union> fat_own s1 h \<subseteq> {..<25600}"
    using open_slot(8,9) [OF s1(2) h(1)] fat.ready_base [OF fat.okD(1) [OF s1(2)]] kused_less by blast
  then have clear: "clear_of (B \<union> fat_own s1 h) out (unat (1 :: u32) * unat sz)"
    using assms(23,24) by (intro clear_of_low off_heap_low) simp_all
  have fit: "one_sector (unat (ffd_pos (fat_descs s1 h)) + l * unat sz) (unat sz)" if "l < unat (1 :: u32)" for l
    using that h(2) by (simp add: one_sector_def)
  from fread_fat [OF assms(13) s1(2) fd_slot_Suc [OF assms(9)] h(1) _ assms(19) _ assms(15) _ _ assms(20) _ _ _ fit clear]
  obtain s2 where s2: "fread (drivers hw fs) out sz 1 (of_nat (i + 1)) s1 = ret (1, s2)"
    "kmem s2 = mem_fill (kmem s1) out (unat sz) (\<lambda>j. img (cluster_start s c + j))"
    using assms(14,16,17,21,22) h(2-4) op(3,4,6) hk cs by auto
  have "kmem s2 (out + of_nat j) = img (cluster_start s c + j)" if "j < unat sz" for j
    unfolding s2(2) using that less_imp_le [OF unat32_less [of sz]] by (rule mem_fill_in)
  with s1(1) s2(1) show ?thesis by blast
qed

theorem fopen_fread_bytes_witness:
  "\<exists>s1 s2. fopen (drivers (ideal_drive of_nat) 0x180000) 0x100000 0x100003 fat_example = ret (1, s1)
    \<and> fread (drivers (ideal_drive of_nat) 0x180000) 0x200000 300 1 1 s1 = ret (1, s2)
    \<and> kmem s2 (0x200000 + of_nat 7) = of_nat 6663"
proof -
  have item: "fat16_get_first_cluster (kmem fat_example) (dir_item (root_dir fat_example) + of_nat (32 * 0)) = 3"
  proof -
    have "example_mem (kblock 0 + of_nat j) = example_item ! j" if "j < 32" for j
      by (rule bytes_nth [OF example_item_at that])
    from this [of 20] this [of 21] this [of 26] this [of 27] show ?thesis
      by (simp add: example_sel fat16_get_first_cluster_def load16_def example_item_def add.assoc)
  qed
  have "example_mem (kblock 1 + of_nat 13) = 2"
    unfolding example_mem_def by (subst mem_fill_in) simp_all
  then have spc: "unat (sectors_per_cluster (kmem fat_example) (kblock 1)) = 2"
    by (simp add: sectors_per_cluster_def example_sel)
  have start: "cluster_start fat_example 3 = 6656" using spc by (simp add: cluster_start_def example_sel)
  have "\<exists>s1 s2. fopen (drivers (ideal_drive of_nat) 0x180000) 0x100000 0x100003 fat_example = ret (of_nat (0 + 1), s1)
    \<and> fread (drivers (ideal_drive of_nat) 0x180000) 0x200000 300 1 (of_nat (0 + 1)) s1 = ret (1, s2)
    \<and> (\<forall>j < unat (300 :: u32). kmem s2 (0x200000 + of_nat j) = of_nat (cluster_start fat_example 3 + j))"
  proof (rule fopen_fread_bytes [OF example_files_ok [of "()"] example_call(1-7) _ example_call(8) example_components example_find ideal_drive])
    show "fs_private (the_disk fat_example) = kblock 1" "(1 :: nat) \<in> {0, 1, 2}" by (simp_all add: example_sel)
    show "cluster_stream fat_example \<noteq> 0" using kblock_nonzero [of 2] by (simp add: example_sel)
    show "unat (fat16_get_first_cluster (kmem fat_example) (dir_item (root_dir fat_example) + of_nat (32 * 0))) = 3"
      unfolding item by simp
  qed (use spc start in \<open>simp_all add: example_sel\<close>)
  then show ?thesis using start by (auto dest: spec [of _ 7])
qed

text \<open>
  Opening a file and closing it again leaves the table of open files as it was, and three
  blocks of the heap taken for good: the path that was parsed.
\<close>

lemma fopen_fclose_leaks:
  assumes "files_ok fs (fat_ready B es) B fat_handle fat_own s" and "cstr (kmem s) filename bs" and "valid_path bs"
    and "bs ! 0 = 0x30" and "kstable_block (kmem s) filename (Suc (length bs))" and "kmem s mode_str = 0x72"
    and "kstable (kmem s) mode_str" and "least_free (open_files s) i" and "i < 511"
    and "card (kused (kmem s)) + 2 * length (components (drop 3 bs)) + 5 \<le> 25600"
    and "components (drop 3 bs) = [w]" and "named_item es w k"
  shows "\<exists>s1 s2. fopen (drivers hw fs) filename mode_str s = ret (of_nat (i + 1), s1)
    \<and> fclose (drivers hw fs) (of_nat (i + 1)) s1 = ret (0, s2) \<and> open_files s2 = open_files s
    \<and> card (kused (kmem s2)) = card (kused (kmem s)) + 3"
proof -
  have plain: "list_all (plain_name es) (take 1 (components (drop 3 bs)))" using assms(11,12) by (simp add: named_item_def)
  from fopen_fat [OF assms(1-8,10) plain, of hw] assms(11,12) obtain s1 where
    s1: "fopen (drivers hw fs) filename mode_str s = ret (of_nat (i + 1), s1)"
      "files_ok fs (fat_ready B es) B fat_handle fat_own s1" "opened s s1 i k"
    by (auto simp: fopen_result_def named_item_def)
  from fopen_table [OF assms(1-3,5,8-10) s1(1) plain] obtain h where t1: "open_files s1 = (open_files s)(i \<mapsto> h)" by blast
  note fd = fd_slot_Suc [OF assms(9)]
  from fclose_fat [OF s1(2) fd, of hw] t1 obtain s2 where
    s2: "fclose (drivers hw fs) (of_nat (i + 1)) s1 = ret (0, s2)" "open_files s2 = (open_files s1)(i := None)"
      "card (kused (kmem s1)) = card (kused (kmem s2)) + 4" by auto
  have "open_files s i = None" using assms(8) by (simp add: least_free_def)
  then have "open_files s2 = open_files s" using s2(2) t1 by auto
  moreover have "card (kused (kmem s1)) = card (kused (kmem s)) + 7" using s1(3) by (auto simp: opened_def)
  then have "card (kused (kmem s2)) = card (kused (kmem s)) + 3" using s2(3) by simp
  ultimately show ?thesis using s1(1) s2(1) by blast
qed

text \<open>
  C37: \<^verbatim>\<open>fopen\<close> numbers the last slot 512, and every other call refuses that number;
  \<^verbatim>\<open>fseek\<close> does not refuse it but reads the descriptor through NULL.
\<close>

theorem fd_512_unusable:
  "fclose drv 512 s = ret (- EIO, s) \<and> fstat drv 512 st s = ret (- EIO, s) \<and> fread drv out sz n 512 s = ret (- EINVARG, s)
    \<and> fseek drv 512 offset whence s = faulty NullDeref"
proof -
  have "fd_slot 512 = None" by (simp add: fd_slot_def word_sless_alt)
  then show ?thesis by (simp add: fclose_def fstat_def fread_def fseek_def file_get_descriptor_slot)
qed

end
