(* ===== verification/Stdio.thy ===== *)
theory Stdio
  imports Disk
begin

text \<open>
  \<^verbatim>\<open>src/libc/stdio.c\<close>: the text terminal, 80 columns of 16-bit cells in video memory, and the
  hardware cursor. The cells lie in the byte memory; the terminal's row and column are the
  two 16-bit globals. The specification is a typewriter: a position and a tape of cells.
\<close>

section \<open>Operations\<close>

abbreviation (input) VGA_WIDTH :: nat where "VGA_WIDTH \<equiv> 80"
abbreviation (input) VGA_HEIGHT :: nat where "VGA_HEIGHT \<equiv> 20"

record terminal =
  video_mem :: addr
  terminal_row :: u16
  terminal_col :: u16

text \<open>Both characters are signed and widened to \<^verbatim>\<open>int\<close> before the shift.\<close>

definition terminal_make_char :: "u8 \<Rightarrow> u8 \<Rightarrow> u16" where
  "terminal_make_char c colour = ucast (push_bit 8 (scast colour :: u32) OR scast c)"

definition store16 :: "mem \<Rightarrow> addr \<Rightarrow> u16 \<Rightarrow> mem" where
  "store16 m a v = m(a := ucast v, a + 1 := ucast (drop_bit 8 v))"

definition load16 :: "mem \<Rightarrow> addr \<Rightarrow> u16" where
  "load16 m a = ucast (m a) OR push_bit 8 (ucast (m (a + 1)))"

definition terminal_putchar :: "u32 \<Rightarrow> u32 \<Rightarrow> u8 \<Rightarrow> u8 \<Rightarrow> terminal \<Rightarrow> mem \<Rightarrow> mem" where
  "terminal_putchar x y c colour t m =
     store16 m (video_mem t + 2 * (y * of_nat VGA_WIDTH + x)) (terminal_make_char c colour)"

definition terminal_writechar :: "u8 \<Rightarrow> u8 \<Rightarrow> terminal \<times> mem \<Rightarrow> terminal \<times> mem" where
  "terminal_writechar c colour = (\<lambda>(t, m).
     if c = 0x0A then (t\<lparr>terminal_row := terminal_row t + 1, terminal_col := 0\<rparr>, m)
     else
       let m = terminal_putchar (ucast (terminal_col t)) (ucast (terminal_row t)) c colour t m;
           t = t\<lparr>terminal_col := terminal_col t + 1\<rparr>
       in if terminal_col t \<ge> of_nat VGA_WIDTH
          then (t\<lparr>terminal_col := 0, terminal_row := terminal_row t + 1\<rparr>, m) else (t, m))"

definition terminal_initialize :: "terminal \<Rightarrow> mem \<Rightarrow> terminal \<times> mem" where
  "terminal_initialize t m =
     (let t = t\<lparr>video_mem := 0xB8000, terminal_row := 0, terminal_col := 0\<rparr>
      in (t, fold (\<lambda>y. fold (\<lambda>x. terminal_putchar (of_nat x) (of_nat y) 0x20 0 t) [0..<VGA_WIDTH])
            [0..<VGA_HEIGHT] m))"

text \<open>
  The counter is an \<^verbatim>\<open>int\<close> compared with a \<^verbatim>\<open>size_t\<close>, so the comparison is unsigned. Each
  character is read when it is its turn, from memory earlier ones may have changed.
\<close>

function cprint_loop :: "addr \<Rightarrow> u32 \<Rightarrow> u32 \<Rightarrow> u32 \<Rightarrow> terminal \<times> mem \<Rightarrow> terminal \<times> mem" where
  "cprint_loop str c len i tm =
     (if i < len then cprint_loop str c len (i + 1) (terminal_writechar (snd tm (str + i)) (ucast c) tm)
      else tm)"
  by pat_completeness auto
termination
  by (relation "measure (\<lambda>(str, c, len, i, tm). unat len - unat i)") (auto simp: measure_simps)

declare cprint_loop.simps [simp del]

definition cprint :: "addr \<Rightarrow> u32 \<Rightarrow> terminal \<times> mem \<Rightarrow> (terminal \<times> mem) option" where
  "cprint str c tm =
     (case strlen (snd tm) str of None \<Rightarrow> None | Some len \<Rightarrow> Some (cprint_loop str c len 0 tm))"

definition print :: "addr \<Rightarrow> terminal \<times> mem \<Rightarrow> (terminal \<times> mem) option" where
  "print str tm = cprint str 15 tm"

definition update_cursor :: "u32 \<Rightarrow> u32 \<Rightarrow> io_event list \<Rightarrow> io_event list" where
  "update_cursor x y log =
     (let pos = ucast (y * of_nat VGA_WIDTH + x) :: u16 in
      outb 0x3D5 (ucast (drop_bit 8 pos AND 0xFF)) (outb 0x3D4 0x0E
        (outb 0x3D5 (ucast (pos AND 0xFF)) (outb 0x3D4 0x0F log))))"

text \<open>Printing a literal of the source, whose bytes no store of the kernel changes.\<close>

definition print_text :: "u8 \<Rightarrow> u8 list \<Rightarrow> terminal \<times> mem \<Rightarrow> terminal \<times> mem" where
  "print_text colour = fold (\<lambda>c. terminal_writechar c colour)"

section \<open>The typewriter\<close>

text \<open>
  Position \<open>80 * row + col\<close> on a tape of as many cells as the terminal's rows can count.
\<close>

record screen =
  cursor :: nat
  cells :: "nat \<Rightarrow> u16"

definition type_char :: "u8 \<Rightarrow> u8 \<Rightarrow> screen \<Rightarrow> screen" where
  "type_char colour c s =
     (if c = 0x0A then s\<lparr>cursor := (cursor s div 80 + 1) * 80\<rparr>
      else s\<lparr>cursor := cursor s + 1, cells := (cells s)(cursor s := terminal_make_char c colour)\<rparr>)"

definition type_text :: "u8 \<Rightarrow> u8 list \<Rightarrow> screen \<Rightarrow> screen" where
  "type_text colour = fold (type_char colour)"

text \<open>What the terminal and memory show: 65536 rows of 80 cells.\<close>

definition screen_of :: "terminal \<times> mem \<Rightarrow> screen" where
  "screen_of = (\<lambda>(t, m).
     \<lparr>cursor = 80 * unat (terminal_row t) + unat (terminal_col t),
      cells = (\<lambda>i. if i < 5242880 then load16 m (video_mem t + of_nat (2 * i)) else 0)\<rparr>)"

text \<open>The column stays in the line, and rows remain.\<close>

definition terminal_ok :: "nat \<Rightarrow> terminal \<Rightarrow> bool" where
  "terminal_ok n t \<longleftrightarrow> unat (terminal_col t) < 80 \<and> unat (terminal_row t) + n < 65536"

section \<open>Cells\<close>

lemma unat16_less: "unat (w :: u16) < 65536"
  using unsigned_less [of w, where ?'a = nat] by simp

lemma unat_ucast16 [simp]: "unat (ucast (a :: u16) :: u32) = unat a"
  using unat16_less [of a] by (simp add: unsigned_ucast_eq take_bit_nat_eq_self)

lemma bytes_of_word16:
  fixes v :: u16
  shows "ucast (ucast v :: u8) OR push_bit 8 (ucast (ucast (drop_bit 8 v) :: u8)) = v"
proof (rule bit_word_eqI)
  fix n :: nat
  assume "n < LENGTH(16)"
  then consider "n < 8" | "8 \<le> n" "n < 16" by fastforce
  then show "bit (ucast (ucast v :: u8) OR push_bit 8 (ucast (ucast (drop_bit 8 v) :: u8)) :: u16) n = bit v n"
    by cases (auto simp: bit_simps)
qed

lemma load_store16 [mem_simps]: "load16 (store16 m a v) a = v"
  by (simp add: load16_def store16_def bytes_of_word16)

lemma store16_out [mem_simps]: "2 \<le> unat (x - a) \<Longrightarrow> store16 m a v x = m x"
  by (auto simp: store16_def)

lemma of_nat_cell: "i < 5242880 \<Longrightarrow> j < 5242880 \<Longrightarrow> a < 2 \<Longrightarrow> b < 2 \<Longrightarrow>
    (p :: addr) + of_nat (2 * i) + of_nat a = p + of_nat (2 * j) + of_nat b \<longleftrightarrow> i = j \<and> a = b"
proof -
  assume *: "i < 5242880" "j < 5242880" "a < 2" "b < 2"
  then have "(of_nat (2 * i + a) :: u32) = of_nat (2 * j + b) \<longleftrightarrow> 2 * i + a = 2 * j + b"
    by (intro of_nat32_eq_iff) auto
  moreover have "(2 * i + a) div 2 = i" "(2 * i + a) mod 2 = a" "(2 * j + b) div 2 = j" "(2 * j + b) mod 2 = b" using * by simp_all
  then have "2 * i + a = 2 * j + b \<longleftrightarrow> i = j \<and> a = b" by metis
  ultimately show ?thesis by (simp add: add.assoc del: of_nat_mult)
qed

lemma load_cell_other [mem_simps]:
  assumes "i < 5242880" "j < 5242880" "i \<noteq> j"
  shows "load16 (store16 m (p + of_nat (2 * i)) v) (p + of_nat (2 * j)) = load16 m (p + of_nat (2 * j))"
  using of_nat_cell [OF assms(2,1), of 0 0 p] of_nat_cell [OF assms(2,1), of 0 1 p]
    of_nat_cell [OF assms(2,1), of 1 0 p] of_nat_cell [OF assms(2,1), of 1 1 p] assms(3)
  by (simp add: load16_def store16_def del: of_nat_mult)

section \<open>A character\<close>

lemma putchar_cell:
  assumes "unat col < 80"
  shows "terminal_putchar (ucast col) (ucast row) c colour t m =
    store16 m (video_mem t + of_nat (2 * (80 * unat row + unat col))) (terminal_make_char c colour)"
proof -
  have "(ucast row :: u32) = of_nat (unat row)" "(ucast col :: u32) = of_nat (unat col)" by simp_all
  then show ?thesis by (simp add: terminal_putchar_def mult.commute)
qed

lemma inc16: "unat (w :: u16) < n \<Longrightarrow> n < 65536 \<Longrightarrow> unat (w + 1) = Suc (unat w)"
  by (simp add: unat_word_ariths)

text \<open>How far into video memory \<open>n\<close> more characters can reach.\<close>

definition text_reach :: "terminal \<Rightarrow> nat \<Rightarrow> nat" where
  "text_reach t n = 160 * (unat (terminal_row t) + n)"

lemma text_reach_mono: "k \<le> n \<Longrightarrow> text_reach t k \<le> text_reach t n"
  by (simp add: text_reach_def)

lemma text_reach_max: "terminal_ok n t \<Longrightarrow> text_reach t n \<le> 10485760"
  by (simp add: text_reach_def terminal_ok_def)

lemma writechar_types:
  fixes t :: terminal and m :: mem and c colour :: u8
  assumes ok: "terminal_ok (Suc n) t"
  defines "r \<equiv> terminal_writechar c colour (t, m)"
  shows "screen_of r = type_char colour c (screen_of (t, m))" and "terminal_ok n (fst r)"
    and "video_mem (fst r) = video_mem t"
    and "text_reach t 1 \<le> unat (x - video_mem t) \<Longrightarrow> snd r x = m x"
    and "text_reach (fst r) n \<le> text_reach t (Suc n)"
proof -
  let ?row = "unat (terminal_row t)" and ?col = "unat (terminal_col t)"
  have b: "?col < 80" "?row + Suc n < 65536" using ok by (simp_all add: terminal_ok_def)
  have col: "unat (terminal_col t + 1) = Suc ?col" and row: "unat (terminal_row t + 1) = Suc ?row"
    using inc16 [of "terminal_col t" 80] inc16 [of "terminal_row t" "65535 - n"] b by auto
  have wrap: "of_nat 80 \<le> terminal_col t + 1 \<longleftrightarrow> ?col = 79"
    using b col by (auto simp: word_le_nat_alt)
  define p where "p = 80 * ?row + ?col"
  have p: "p < 5242880" and pd: "p div 80 = ?row" and pw: "?col = 79 \<Longrightarrow> 80 * Suc ?row = Suc p"
    using b by (simp_all add: p_def)
  note put = putchar_cell [OF b(1), folded p_def]
  note [simp] = r_def terminal_writechar_def put wrap [simplified]
  show "screen_of r = type_char colour c (screen_of (t, m))"
    using b col row p pd pw mult_Suc_right [of 80 ?row] mult.commute [of ?row 80]
    by (auto simp: Let_def screen_of_def type_char_def fun_eq_iff mem_simps p_def [symmetric]
      simp del: of_nat_mult mult_Suc_right)
  show "terminal_ok n (fst r)"
    using b col row by (auto simp: Let_def terminal_ok_def)
  show "video_mem (fst r) = video_mem t"
    by (simp add: Let_def)
  show "text_reach (fst r) n \<le> text_reach t (Suc n)"
    using row by (auto simp: Let_def text_reach_def)
  assume "text_reach t 1 \<le> unat (x - video_mem t)"
  then have x: "2 * p + 2 \<le> unat (x - video_mem t)" using b(1) by (simp add: text_reach_def p_def)
  have "2 \<le> unat (x - video_mem t - of_nat (2 * p))"
    using unat_sub_of_nat [of "2 * p" "x - video_mem t"] x p by (simp del: of_nat_mult)
  then have "2 \<le> unat (x - (video_mem t + of_nat (2 * p)))"
    by (simp only: diff_diff_eq)
  then show "snd r x = m x" by (auto simp: Let_def mem_simps p_def [symmetric] simp del: of_nat_mult)
qed

lemma print_text_types:
  "terminal_ok (length bs) t \<Longrightarrow>
    screen_of (print_text colour bs (t, m)) = type_text colour bs (screen_of (t, m))
    \<and> terminal_ok 0 (fst (print_text colour bs (t, m)))
    \<and> video_mem (fst (print_text colour bs (t, m))) = video_mem t
    \<and> unchanged_outside m (snd (print_text colour bs (t, m))) (video_mem t) (text_reach t (length bs))"
proof (induction bs arbitrary: t m)
  case Nil
  then show ?case by (simp add: print_text_def type_text_def)
next
  case (Cons c bs)
  obtain t1 m1 where r: "terminal_writechar c colour (t, m) = (t1, m1)" by force
  note w = writechar_types [where n = "length bs" and t = t and c = c and colour = colour and m = m, unfolded r]
  have "terminal_ok (length bs) t1" "video_mem t1 = video_mem t" using w(2,3) Cons.prems by auto
  moreover have "m1 x = m x" if "text_reach t (length (c # bs)) \<le> unat (x - video_mem t)" for x
    using w(4) [of x] that Cons.prems text_reach_mono [of 1 "length (c # bs)" t] by simp
  moreover have "text_reach t1 (length bs) \<le> text_reach t (length (c # bs))" using w(5) Cons.prems by simp
  ultimately show ?case
    using Cons.IH [of t1 m1] w(1) Cons.prems r
    by (auto simp: print_text_def type_text_def unchanged_outside_def)
qed

section \<open>Strings\<close>

text \<open>A string that lies where printing it does not reach stays as it is while it is printed.\<close>

definition off_screen :: "terminal \<Rightarrow> addr \<Rightarrow> nat \<Rightarrow> bool" where
  "off_screen t p n \<longleftrightarrow> (\<forall>i < n. text_reach t n \<le> unat (p + of_nat i - video_mem t))"

lemma cprint_loop_text:
  assumes "cstr m str bs" "off_screen t str (Suc (length bs))" "terminal_ok (length bs) t" "k \<le> length bs"
  shows "cprint_loop str c (of_nat (length bs)) (of_nat k) (print_text (ucast c) (take k bs) (t, m))
    = print_text (ucast c) bs (t, m)"
  using assms(4)
proof (induction "length bs - k" arbitrary: k)
  case 0
  then show ?case by (subst cprint_loop.simps) simp
next
  case (Suc n)
  then have k: "k < length bs" by simp
  have l: "length bs < 4294967296" by (rule cstr_length [OF assms(1)])
  have "terminal_ok (length (take k bs)) t" using assms(3) k by (simp add: terminal_ok_def)
  from print_text_types [OF this, of "ucast c" m]
  have "snd (print_text (ucast c) (take k bs) (t, m)) (str + of_nat k) = m (str + of_nat k)"
    using assms(2) k text_reach_mono [of k "Suc (length bs)" t]
    by (simp add: unchanged_outside_def off_screen_def) (meson le_trans less_SucI)
  also have "\<dots> = bs ! k" using assms(1) k by (simp add: cstr_def)
  finally have b: "snd (print_text (ucast c) (take k bs) (t, m)) (str + of_nat k) = bs ! k" .
  have "(of_nat k :: u32) < of_nat (length bs)" using k l by (simp add: word_less_nat_alt)
  then have "cprint_loop str c (of_nat (length bs)) (of_nat k) (print_text (ucast c) (take k bs) (t, m))
      = cprint_loop str c (of_nat (length bs)) (of_nat (Suc k)) (print_text (ucast c) (take (Suc k) bs) (t, m))"
    using b k by (subst cprint_loop.simps) (simp add: print_text_def take_Suc_conv_app_nth add.commute)
  also have "\<dots> = print_text (ucast c) bs (t, m)" using Suc.hyps(1) [of "Suc k"] Suc.hyps(2) k by (simp del: of_nat_Suc)
  finally show ?case .
qed

lemma cprint_text:
  assumes "cstr m str bs" "off_screen t str (Suc (length bs))" "terminal_ok (length bs) t"
  shows "cprint str c (t, m) = Some (print_text (ucast c) bs (t, m))"
  using cprint_loop_text [OF assms, of 0 c] strlen_cstr [OF assms(1)] by (simp add: cprint_def print_text_def)

text \<open>The start of the video memory and the heap are far apart.\<close>

lemma kused_off_screen:
  "unchanged_outside m m' 0xB8000 10485760 \<Longrightarrow> kused m' = kused m"
proof (rule kused_cong_outside)
  fix k :: nat assume u: "unchanged_outside m m' 0xB8000 10485760" and k: "k < 25600"
  have "unat (0x7E00 + of_nat k - 0xB8000 :: u32) = 4294967296 - 0xB0200 + k"
    using k by (simp add: unat_sub_if' unat_word_ariths)
  then show "m' (0x7E00 + of_nat k) = m (0x7E00 + of_nat k)"
    using u k by (simp add: unchanged_outside_def)
qed

lemma kused_text:
  "terminal_ok n t \<Longrightarrow> video_mem t = 0xB8000 \<Longrightarrow> unchanged_outside m m' (video_mem t) (text_reach t n) \<Longrightarrow>
    kused m' = kused m"
  using unchanged_outside_le [OF _ text_reach_max] kused_off_screen by simp

lemma kblock_off_screen:
  assumes "b < 25600" "i < 4096"
  shows "10485760 \<le> unat (kblock b + of_nat i - 0xB8000)"
proof -
  have "unat (kblock b + of_nat i) = 16777216 + 4096 * b + i" using assms by (intro unat_kblock_add) auto
  then show ?thesis using assms by (simp add: unat_sub_if')
qed

text \<open>Clearing the screen stores one cell after the other.\<close>

definition store_cells :: "addr \<Rightarrow> u16 \<Rightarrow> nat list \<Rightarrow> mem \<Rightarrow> mem" where
  "store_cells v w = fold (\<lambda>i m. store16 m (v + of_nat (2 * i)) w)"

lemma load_store_cells:
  "\<forall>k \<in> set ks. k < 5242880 \<Longrightarrow> i < 5242880 \<Longrightarrow>
    load16 (store_cells v w ks m) (v + of_nat (2 * i))
      = (if i \<in> set ks then w else load16 m (v + of_nat (2 * i)))"
proof (induction ks rule: rev_induct)
  case (snoc k ks)
  then show ?case by (cases "i = k") (simp_all add: store_cells_def mem_simps del: of_nat_mult)
qed (simp add: store_cells_def)

lemma clear_line:
  assumes "k \<le> 80"
  shows "fold (\<lambda>x. terminal_putchar (of_nat x) (of_nat y) 0x20 0 t) [0..<k] m
    = store_cells (video_mem t) 0x20 [80 * y..<80 * y + k] m"
  using assms
proof (induction k)
  case (Suc k)
  have "terminal_make_char 0x20 0 = 0x20" by (simp add: terminal_make_char_def)
  then have "terminal_putchar (of_nat k) (of_nat y) 0x20 0 t m
      = store16 m (video_mem t + of_nat (2 * (80 * y + k))) 0x20" for m
    by (simp add: terminal_putchar_def mult.commute)
  with Suc show ?case by (simp add: store_cells_def del: of_nat_mult)
qed (simp add: store_cells_def)

lemma clear_screen:
  "fold (\<lambda>y. fold (\<lambda>x. terminal_putchar (of_nat x) (of_nat y) 0x20 0 t) [0..<80]) [0..<y] m
    = store_cells (video_mem t) 0x20 [0..<80 * y] m"
proof (induction y)
  case (Suc y)
  have "[0..<80 * Suc y] = [0..<80 * y] @ [80 * y..<80 * y + 80]"
    using upt_add_eq_append [of 0 "80 * y" 80] by (simp add: add.commute)
  with Suc clear_line [of 80 y t] show ?case by (simp add: store_cells_def)
qed (simp add: store_cells_def)

lemma initialize_blank:
  "case terminal_initialize t m of (t', m') \<Rightarrow>
    video_mem t' = 0xB8000 \<and> terminal_row t' = 0 \<and> terminal_col t' = 0
    \<and> (\<forall>i < 1600. load16 m' (0xB8000 + of_nat (2 * i)) = 0x20)"
  by (simp add: terminal_initialize_def Let_def clear_screen load_store_cells del: of_nat_mult)

lemma off_screen_high:
  assumes "video_mem t = 0xB8000" "753664 + text_reach t n \<le> unat p" "unat p + n \<le> 4294967296"
  shows "off_screen t p n"
  unfolding off_screen_def
proof (intro allI impI)
  fix i assume "i < n"
  then have "unat (p + of_nat i) = unat p + i" using assms(3) by (simp add: unat_word_ariths)
  then show "text_reach t n \<le> unat (p + of_nat i - video_mem t)"
    using assms by (simp add: unat_sub_if')
qed

lemma type_newlines: "80 dvd cursor s \<Longrightarrow>
    type_text colour (replicate n 0x0A) s = s\<lparr>cursor := cursor s + 80 * n\<rparr>"
proof (induction n arbitrary: s)
  case (Suc n)
  then have "type_char colour 0x0A s = s\<lparr>cursor := cursor s + 80\<rparr>"
    by (auto simp: type_char_def)
  with Suc.IH [of "s\<lparr>cursor := cursor s + 80\<rparr>"] Suc.prems show ?case
    by (simp add: type_text_def)
qed (simp add: type_text_def)

section \<open>Properties\<close>

text \<open>
  C25: Printing a terminated string that lies outside video memory always returns and is
  what a typewriter does with its characters: each takes the next cell with its attribute,
  lines are 80 cells long, a newline starts the next one. Nothing changes but the lines from
  the first to as many below the current one as there are characters; in particular no block
  of the kernel heap is taken or freed by printing.
\<close>

theorem cprint_types:
  assumes "cstr m str bs" "off_screen t str (Suc (length bs))" "terminal_ok (length bs) t"
  shows "\<exists>t' m'. cprint str c (t, m) = Some (t', m') \<and> video_mem t' = video_mem t
    \<and> screen_of (t', m') = type_text (ucast c) bs (screen_of (t, m))
    \<and> unchanged_outside m m' (video_mem t) (160 * (unat (terminal_row t) + length bs))
    \<and> (video_mem t = 0xB8000 \<longrightarrow> kused m' = kused m)"
proof -
  obtain t' m' where r: "print_text (ucast c) bs (t, m) = (t', m')" by force
  then show ?thesis
    using cprint_text [OF assms, of c] print_text_types [OF assms(3), of "ucast c" m] kused_text [OF assms(3)]
    by (auto simp: text_reach_def)
qed

theorem cprint_types_witness:
  defines "m \<equiv> (\<lambda>_. 0)(0x1000000 := 0x48, 0x1000001 := 0x69) :: mem"
  shows "\<exists>t' m'. cprint 0x1000000 15 (\<lparr>video_mem = 0xB8000, terminal_row = 0, terminal_col = 0\<rparr>, m) = Some (t', m')
    \<and> load16 m' 0xB8002 = 0x0F69 \<and> unchanged_outside m m' 0xB8000 320"
proof -
  let ?t = "\<lparr>video_mem = 0xB8000, terminal_row = 0, terminal_col = 0\<rparr>"
  have "cstr m 0x1000000 [0x48, 0x69]" by (simp add: m_def)
  moreover have "off_screen ?t 0x1000000 (Suc (length [0x48, 0x69]))"
    by (rule off_screen_high) (simp_all add: text_reach_def)
  moreover have "terminal_ok (length [0x48, 0x69]) ?t" by (simp add: terminal_ok_def)
  ultimately obtain t' m' where r: "cprint 0x1000000 15 (?t, m) = Some (t', m')"
    "video_mem t' = video_mem ?t"
    "screen_of (t', m') = type_text (ucast (15 :: u32)) [0x48, 0x69] (screen_of (?t, m))"
    "unchanged_outside m m' (video_mem ?t) (160 * (unat (terminal_row ?t) + length [0x48 :: u8, 0x69]))"
    using cprint_types [of m "0x1000000" "[0x48, 0x69]" ?t 15] by blast
  have "cells (screen_of (t', m')) 1 = 0x0F69"
    unfolding r(3) by (simp add: type_text_def type_char_def screen_of_def terminal_make_char_def)
  then have "load16 m' 0xB8002 = 0x0F69" using r(2) by (simp add: screen_of_def)
  with r show ?thesis by auto
qed

text \<open>
  C38: The terminal never scrolls. After \<open>n\<close> newlines on a fresh terminal the next
  character is stored \<open>160 * n\<close> bytes into video memory and every other cell of the screen
  is still blank: from the twentieth newline on nothing printed is visible, and from the
  1844th on it is stored above 1 MB, where the kernel is loaded.
\<close>

theorem terminal_never_scrolls:
  assumes "n < 65000" "c \<noteq> 0x0A"
  shows "case print_text colour (replicate n 0x0A @ [c]) (terminal_initialize t m) of (t', m') \<Rightarrow>
    load16 m' (0xB8000 + of_nat (160 * n)) = terminal_make_char c colour
    \<and> (\<forall>i < 1600. i \<noteq> 80 * n \<longrightarrow> load16 m' (0xB8000 + of_nat (2 * i)) = 0x20)"
proof -
  obtain t0 m0 where i: "terminal_initialize t m = (t0, m0)" by force
  note b = initialize_blank [of t m, unfolded i, simplified]
  have "terminal_ok (length (replicate n 0x0A @ [c])) t0" using b assms(1) by (simp add: terminal_ok_def)
  note p = print_text_types [OF this, of colour m0]
  obtain t' m' where r: "print_text colour (replicate n 0x0A @ [c]) (t0, m0) = (t', m')" by force
  have s: "screen_of (t', m') = type_char colour c ((screen_of (t0, m0))\<lparr>cursor := 80 * n\<rparr>)"
    using p r type_newlines [of "screen_of (t0, m0)" colour n] b
    by (simp add: type_text_def screen_of_def)
  have v: "video_mem t' = 0xB8000" using p r b by simp
  have c: "load16 m' (0xB8000 + of_nat (2 * k))
      = (if k = 80 * n then terminal_make_char c colour else load16 m0 (0xB8000 + of_nat (2 * k)))"
    if "k < 5242880" for k
    using arg_cong [OF s, of "\<lambda>s. cells s k"] that v b assms(2)
    by (simp add: type_char_def screen_of_def del: of_nat_mult split: if_splits)
  have "load16 m0 (0xB8000 + of_nat (2 * k)) = 0x20" if "k < 1600" for k using b that by simp
  with c c [of "80 * n"] assms(1) show ?thesis by (simp add: i r del: of_nat_mult)
qed

theorem terminal_never_scrolls_witness:
  "\<forall>t m. case print_text 15 (replicate 20 0x0A @ [0x41]) (terminal_initialize t m) of (t', m') \<Rightarrow>
    load16 m' 0xB8C80 = 0x0F41 \<and> load16 m' 0xB8000 = 0x20"
proof (intro allI)
  fix t m
  show "case print_text 15 (replicate 20 0x0A @ [0x41]) (terminal_initialize t m) of (t', m') \<Rightarrow>
    load16 m' 0xB8C80 = 0x0F41 \<and> load16 m' 0xB8000 = 0x20"
    using terminal_never_scrolls [where n = 20 and c = "0x41" and colour = 15 and t = t and m = m]
    by (auto split: prod.splits simp: terminal_make_char_def dest: spec [of _ 0])
qed

end
