(* ===== verification/KState.thy ===== *)
theory KState
  imports Fat16 Paging Stdio
begin

text \<open>
  The data of tasks, processes, interrupts and keyboards (\<^verbatim>\<open>src/proc/task.h\<close>,
  \<^verbatim>\<open>src/proc/process.h\<close>, \<^verbatim>\<open>src/sys/idt.h\<close>, \<^verbatim>\<open>src/dev/keyboard.h\<close>) and the state of the
  whole kernel: the state of the file system extended by the globals of those parts and by the
  registers their assembly routines write. Structures allocated on the heap are kept in
  stores of their own type, by the address \<open>kzalloc\<close> gave them; their character arrays that
  are filled by the string library stay in the byte memory.
\<close>

section \<open>Structures\<close>

record registers =
  reg_edi :: u32
  reg_esi :: u32
  reg_ebp :: u32
  reg_ebx :: u32
  reg_edx :: u32
  reg_ecx :: u32
  reg_eax :: u32
  reg_ip :: u32
  reg_cs :: u32
  reg_flags :: u32
  reg_esp :: u32
  reg_ss :: u32

record interrupt_frame = registers +
  reserved :: u32

record task =
  page_directory :: addr
  task_registers :: registers
  task_process :: addr
  next_task :: addr
  prev_task :: addr

abbreviation (input) DEXTER_KEYBOARD_BUFFER_SIZE :: nat where "DEXTER_KEYBOARD_BUFFER_SIZE \<equiv> 1024"
abbreviation (input) DEXTER_MAX_PROCESSES :: nat where "DEXTER_MAX_PROCESSES \<equiv> 12"
abbreviation (input) DEXTER_TOTAL_INTERUPTS :: nat where "DEXTER_TOTAL_INTERUPTS \<equiv> 512"
abbreviation (input) DEXTER_MAX_ISR80H_COMMANDS :: nat where "DEXTER_MAX_ISR80H_COMMANDS \<equiv> 1024"

record keyboard_buffer =
  kb_buffer :: "u8 list"
  kb_tail :: u32
  kb_head :: u32

text \<open>
  \<^verbatim>\<open>struct process\<close> has 5256 bytes: the name is at 2, the unused list of allocations at 116.
\<close>

record process =
  process_id :: u16
  process_task :: addr
  process_ptr :: addr
  process_stack :: addr
  process_size :: u32
  process_keyboard :: keyboard_buffer

record keyboard =
  keyboard_init_function :: addr
  next_keyboard :: addr

record idt_desc =
  offset_1 :: u16
  selector :: u16
  zero_byte :: u8
  type_attr :: u8
  offset_2 :: u16

record idtr_desc =
  idtr_limit :: u16
  idtr_base :: addr

section \<open>The kernel\<close>

text \<open>
  \<open>segments\<close> are the four data segment registers, which are always loaded together;
  \<open>idt_register\<close> and \<open>task_register\<close> what \<^verbatim>\<open>lidt\<close> and \<^verbatim>\<open>ltr\<close> loaded; \<open>paging_enabled\<close> the top
  bit of CR0.
\<close>

record kernel_state = fat_state +
  console :: terminal
  kmmu :: mmu
  kernel_chunk :: addr
  segments :: u16
  paging_enabled :: bool
  task_register :: u16
  tasks :: "addr \<Rightarrow> task"
  current_task :: addr
  task_tail :: addr
  task_head :: addr
  process_store :: "addr \<Rightarrow> process"
  current_process :: addr
  processes :: "addr list"
  idt_descriptors :: "idt_desc list"
  idtr_descriptor :: idtr_desc
  idt_register :: idtr_desc
  isr80h_commands :: "addr list"
  interrupt_callbacks :: "addr list"
  keyboards :: "addr \<Rightarrow> keyboard"
  keyboard_list_head :: addr
  keyboard_list_tail :: addr

definition task_current :: "'a kernel_state_scheme \<Rightarrow> addr" where
  "task_current s = current_task s"

definition process_current :: "'a kernel_state_scheme \<Rightarrow> addr" where
  "process_current s = current_process s"

text \<open>A call through a pointer reaches the code at that address, if there is any.\<close>

type_synonym ('x, 's) code = "addr \<Rightarrow> ('x \<Rightarrow> 's \<Rightarrow> (u32 \<times> 's) prog) option"

definition call_pointer :: "('x, 's) code \<Rightarrow> addr \<Rightarrow> 'x \<Rightarrow> 's \<Rightarrow> (u32 \<times> 's) prog" where
  "call_pointer code f x s = (case code f of None \<Rightarrow> faulty NullDeref | Some g \<Rightarrow> g x s)"

text \<open>Text on the console.\<close>

definition say :: "u8 \<Rightarrow> string \<Rightarrow> 'a kernel_state_scheme \<Rightarrow> 'a kernel_state_scheme" where
  "say colour msg s =
     (case print_text colour (map of_char msg) (console s, kmem s) of (t, m) \<Rightarrow>
        s\<lparr>console := t, kmem := m\<rparr>)"

end
