(* ===== verification/Keyboard.thy ===== *)
theory Keyboard
  imports KState
begin

text \<open>
  \<^verbatim>\<open>src/dev/keyboard.c\<close> and \<^verbatim>\<open>src/dev/classic.c\<close>: the ring of typed characters every process
  has, the list of keyboards, and the PS/2 keyboard with its table of scancodes. The
  specification of a ring is a bounded queue, as the interface \<open>fifo\<close>.
\<close>

section \<open>Queues\<close>

text \<open>
  What a bounded queue promises: \<open>items\<close> are the waiting elements, the next one first; an
  element that is \<open>fit\<close> can be added while there is room.
\<close>

locale fifo =
  fixes ok :: "'s \<Rightarrow> bool" and items :: "'s \<Rightarrow> 'a list" and cap :: nat and fit :: "'a \<Rightarrow> bool"
    and enq :: "'a \<Rightarrow> 's \<Rightarrow> 's" and deq :: "'s \<Rightarrow> ('a option \<times> 's) run"
  assumes enq_ok: "ok s \<Longrightarrow> fit a \<Longrightarrow> length (items s) < cap \<Longrightarrow> ok (enq a s)"
    and enq_items: "ok s \<Longrightarrow> fit a \<Longrightarrow> length (items s) < cap \<Longrightarrow> items (enq a s) = items s @ [a]"
    and deq_empty: "ok s \<Longrightarrow> items s = [] \<Longrightarrow> deq s = Inr (None, s)"
    and deq_first: "ok s \<Longrightarrow> items s = a # as \<Longrightarrow> \<exists>s'. deq s = Inr (Some a, s') \<and> ok s' \<and> items s' = as"

datatype 'a fifo_call = Put 'a | Take

text \<open>A run of calls on an implementation, with the answers to the takes.\<close>

fun fifo_run :: "('a \<Rightarrow> 's \<Rightarrow> 's) \<Rightarrow> ('s \<Rightarrow> ('a option \<times> 's) run) \<Rightarrow> 'a fifo_call list \<Rightarrow> 's
    \<Rightarrow> ('a option list \<times> 's) run" where
  "fifo_run enq deq [] s = Inr ([], s)"
| "fifo_run enq deq (Put a # cs) s = fifo_run enq deq cs (enq a s)"
| "fifo_run enq deq (Take # cs) s =
     (case deq s of
        Inl f \<Rightarrow> Inl f
      | Inr (r, s) \<Rightarrow>
          (case fifo_run enq deq cs s of Inl f \<Rightarrow> Inl f | Inr (rs, s) \<Rightarrow> Inr (r # rs, s)))"

text \<open>The same on a list; \<open>None\<close> when an element is unfit or there is no room.\<close>

fun fifo_spec :: "nat \<Rightarrow> ('a \<Rightarrow> bool) \<Rightarrow> 'a fifo_call list \<Rightarrow> 'a list \<Rightarrow> ('a option list \<times> 'a list) option" where
  "fifo_spec cap fit [] xs = Some ([], xs)"
| "fifo_spec cap fit (Put a # cs) xs =
     (if fit a \<and> length xs < cap then fifo_spec cap fit cs (xs @ [a]) else None)"
| "fifo_spec cap fit (Take # cs) [] = map_option (\<lambda>(rs, ys). (None # rs, ys)) (fifo_spec cap fit cs [])"
| "fifo_spec cap fit (Take # cs) (x # xs) =
     map_option (\<lambda>(rs, ys). (Some x # rs, ys)) (fifo_spec cap fit cs xs)"

context fifo
begin

lemma run_refines:
  "ok s \<Longrightarrow> fifo_spec cap fit cs (items s) = Some (rs, ys) \<Longrightarrow>
    \<exists>s'. fifo_run enq deq cs s = Inr (rs, s') \<and> ok s' \<and> items s' = ys"
proof (induction cs arbitrary: s rs)
  case (Cons c cs)
  show ?case
  proof (cases c)
    case (Put a)
    with Cons.prems have "fit a" "length (items s) < cap"
      and spec: "fifo_spec cap fit cs (items s @ [a]) = Some (rs, ys)"
      by (auto split: if_splits)
    with Cons.prems(1) have "ok (enq a s)" "items (enq a s) = items s @ [a]"
      by (simp_all add: enq_ok enq_items)
    with Cons.IH [of "enq a s" rs] spec Put show ?thesis by simp
  next
    case Take
    show ?thesis
    proof (cases "items s")
      case Nil
      with Cons.prems Take obtain rs' where "rs = None # rs'" "fifo_spec cap fit cs [] = Some (rs', ys)"
        by auto
      with Cons.IH [of s rs'] Cons.prems(1) Take Nil show ?thesis by (auto simp: deq_empty)
    next
      case (Cons a as)
      with Cons.prems Take obtain rs' where rs: "rs = Some a # rs'" "fifo_spec cap fit cs as = Some (rs', ys)"
        by auto
      obtain s1 where "deq s = Inr (Some a, s1)" "ok s1" "items s1 = as"
        using deq_first [OF Cons.prems(1) Cons] by blast
      with Cons.IH [of s1 rs'] rs Take show ?thesis by auto
    qed
  qed
qed simp

text \<open>What is put in comes out in the same order.\<close>

lemma puts_then_takes:
  assumes "ok s" "items s = []" "list_all fit xs" "length xs \<le> cap"
  shows "\<exists>s'. fifo_run enq deq (map Put xs @ replicate (length xs) Take) s = Inr (map Some xs, s') \<and> ok s' \<and> items s' = []"
proof -
  have takes: "fifo_spec cap fit (replicate (length ys) Take) ys = Some (map Some ys, [])" for ys
    by (induction ys) simp_all
  have puts: "fifo_spec cap fit (map Put ys @ cs) zs = fifo_spec cap fit cs (zs @ ys)"
    if "list_all fit ys" "length zs + length ys \<le> cap" for ys zs cs
    using that by (induction ys arbitrary: zs) simp_all
  have "fifo_spec cap fit (map Put xs @ replicate (length xs) Take) (items s) = Some (map Some xs, [])"
    using assms(2-) by (simp add: puts takes)
  from run_refines [OF assms(1) this] show ?thesis .
qed

end

section \<open>The ring\<close>

definition keyboard_get_tail_index :: "process \<Rightarrow> u32" where
  "keyboard_get_tail_index process =
     kb_tail (process_keyboard process) mod of_nat DEXTER_KEYBOARD_BUFFER_SIZE"

text \<open>An update of the ring of the process at an address.\<close>

definition with_ring :: "(keyboard_buffer \<Rightarrow> keyboard_buffer) \<Rightarrow> addr \<Rightarrow> 'a kernel_state_scheme \<Rightarrow> 'a kernel_state_scheme" where
  "with_ring f p s =
     s\<lparr>process_store := (process_store s)(p := (process_store s p)\<lparr>process_keyboard :=
         f (process_keyboard (process_store s p))\<rparr>)\<rparr>"

definition keyboard_backspace :: "addr \<Rightarrow> 'a kernel_state_scheme \<Rightarrow> 'a kernel_state_scheme" where
  "keyboard_backspace process s =
     (let s = with_ring (\<lambda>k. k\<lparr>kb_tail := kb_tail k - 1\<rparr>) process s;
          real_index = keyboard_get_tail_index (process_store s process)
      in with_ring (\<lambda>k. k\<lparr>kb_buffer := (kb_buffer k)[unat real_index := 0]\<rparr>) process s)"

text \<open>
  The tail is an \<^verbatim>\<open>int\<close> that every push counts up: it wraps here when more than 2 ^ 31 characters
  were pushed to one process, where C leaves the overflow undefined.
\<close>

definition keyboard_push :: "u8 \<Rightarrow> 'a kernel_state_scheme \<Rightarrow> 'a kernel_state_scheme" where
  "keyboard_push c s =
     (let process = process_current s in
      if process = 0 then s
      else
        let real_index = keyboard_get_tail_index (process_store s process);
            s = with_ring (\<lambda>k. k\<lparr>kb_buffer := (kb_buffer k)[unat real_index := c]\<rparr>) process s
        in with_ring (\<lambda>k. k\<lparr>kb_tail := kb_tail k + 1\<rparr>) process s)"

definition keyboard_pop :: "'a kernel_state_scheme \<Rightarrow> (u8 \<times> 'a kernel_state_scheme) run" where
  "keyboard_pop s =
     (if task_current s = 0 then Inr (0, s)
      else
        let process = task_process (tasks s (task_current s)) in
        if process = 0 then Inl NullDeref
        else
          let k = process_keyboard (process_store s process);
              real_index = kb_head k mod of_nat DEXTER_KEYBOARD_BUFFER_SIZE;
              c = kb_buffer k ! unat real_index
          in if c = 0 then Inr (0, s)
             else
               let s = with_ring (\<lambda>k. k\<lparr>kb_buffer := (kb_buffer k)[unat real_index := 0]\<rparr>) process s
               in Inr (c, with_ring (\<lambda>k. k\<lparr>kb_head := kb_head k + 1\<rparr>) process s))"

section \<open>Keyboards\<close>

text \<open>
  The status of the test for a NULL function is overwritten by the call, so such a keyboard is
  linked and then called.
\<close>

definition keyboard_insert ::
  "(unit, 'a kernel_state_scheme) code \<Rightarrow> addr \<Rightarrow> 'a kernel_state_scheme \<Rightarrow> (u32 \<times> 'a kernel_state_scheme) prog" where
  "keyboard_insert code keyboard s =
     (let s = (if keyboard_list_tail s \<noteq> 0
               then s\<lparr>keyboards := (keyboards s)(keyboard_list_tail s :=
                      (keyboards s (keyboard_list_tail s))\<lparr>next_keyboard := keyboard\<rparr>),
                   keyboard_list_tail := keyboard\<rparr>
               else s\<lparr>keyboard_list_head := keyboard, keyboard_list_tail := keyboard\<rparr>)
      in call_pointer code (keyboard_init_function (keyboards s keyboard)) () s)"

definition keyboard_init ::
  "(unit, 'a kernel_state_scheme) code \<Rightarrow> addr \<Rightarrow> 'a kernel_state_scheme \<Rightarrow> 'a kernel_state_scheme prog" where
  "keyboard_init code classic_keyboard s =
     prog_bind (keyboard_insert code classic_keyboard s) (\<lambda>(r, s). ret s)"

text \<open>The characters 0x27 and 0x5c are the quote and the backslash.\<close>

definition keyboard_scan_set_one :: "u8 list" where
  "keyboard_scan_set_one =
     [0x00, 0x1b] @ map of_char ''1234567890-='' @ [0x08, 0x09] @ map of_char ''QWERTYUIOP[]'' @ [0x0d, 0x00]
     @ map of_char ''ASDFGHJKL;'' @ [0x27] @ map of_char ''~'' @ [0x00, 0x5c] @ map of_char ''ZXCVBNM,./'' @ [0x00]
     @ map of_char ''*'' @ [0x00, 0x20] @ replicate 10 0x00 @ map of_char ''789-456+123.''"

definition classic_keyboard_scancode_to_char :: "u8 \<Rightarrow> u8 run" where
  "classic_keyboard_scancode_to_char scancode =
     (let size_of_keyboard_set_one = length keyboard_scan_set_one in
      if unat scancode > size_of_keyboard_set_one then Inr 0
      else if unat scancode < length keyboard_scan_set_one then Inr (keyboard_scan_set_one ! unat scancode)
      else Inl OutOfBounds)"

definition classic_keyboard_init :: "unit \<Rightarrow> 'a kernel_state_scheme \<Rightarrow> (u32 \<times> 'a kernel_state_scheme) prog" where
  "classic_keyboard_init u s = ret (0, s\<lparr>io_log := outb 0x64 0xAE (io_log s)\<rparr>)"

section \<open>The ring is a queue\<close>

definition ring_at :: "keyboard_buffer \<Rightarrow> nat \<Rightarrow> u8" where
  "ring_at k i = kb_buffer k ! ((unat (kb_head k) + i) mod 1024)"

definition ring_count :: "keyboard_buffer \<Rightarrow> nat" where
  "ring_count k = unat (kb_tail k - kb_head k)"

definition ring_items :: "keyboard_buffer \<Rightarrow> u8 list" where
  "ring_items k = map (ring_at k) [0..<ring_count k]"

text \<open>The waiting characters are not NUL and the rest of the ring is.\<close>

definition ring_ok :: "keyboard_buffer \<Rightarrow> bool" where
  "ring_ok k \<longleftrightarrow> length (kb_buffer k) = 1024 \<and> ring_count k \<le> 1024
     \<and> (\<forall>j < 1024. ring_at k j = 0 \<longleftrightarrow> ring_count k \<le> j)"

lemma unat_mod_1024: "unat ((w :: u32) + of_nat i) mod 1024 = (unat w + i) mod 1024"
proof -
  have "unat (w + of_nat i) mod 1024 = (unat w + i) mod 4294967296 mod 1024"
    by (simp add: unat_word_ariths unat_of_nat mod_add_right_eq)
  also have "\<dots> = (unat w + i) mod 1024" by (rule mod_mod_cancel) simp
  finally show ?thesis .
qed

lemma index_eq: "i < 1024 \<Longrightarrow> j < 1024 \<Longrightarrow> (a + i) mod 1024 = (a + j) mod 1024 \<longleftrightarrow> i = (j :: nat)"
proof
  assume *: "i < 1024" "j < 1024" "(a + i) mod 1024 = (a + j) mod 1024"
  then obtain p q where "i + 1024 * p = j + 1024 * q" by (auto simp: nat_mod_eq_iff)
  then have "i mod 1024 = j mod 1024" by (metis mod_mult_self2)
  with * show "i = j" by simp
qed simp

lemma tail_index: "unat (kb_tail k mod 1024) = (unat (kb_head k) + ring_count k) mod 1024"
  using unat_mod_1024 [of "kb_head k" "ring_count k"] by (simp add: unat_mod32 ring_count_def)

lemma head_index: "unat (kb_head k mod 1024) = (unat (kb_head k) + 0) mod 1024"
  by (simp add: unat_mod32)

definition ring_put :: "u8 \<Rightarrow> keyboard_buffer \<Rightarrow> keyboard_buffer" where
  "ring_put c k = k\<lparr>kb_buffer := (kb_buffer k)[unat (kb_tail k mod 1024) := c], kb_tail := kb_tail k + 1\<rparr>"

definition ring_drop :: "keyboard_buffer \<Rightarrow> keyboard_buffer" where
  "ring_drop k = k\<lparr>kb_buffer := (kb_buffer k)[unat (kb_head k mod 1024) := 0], kb_head := kb_head k + 1\<rparr>"

definition ring_back :: "keyboard_buffer \<Rightarrow> keyboard_buffer" where
  "ring_back k = k\<lparr>kb_tail := kb_tail k - 1, kb_buffer := (kb_buffer k)[unat ((kb_tail k - 1) mod 1024) := 0]\<rparr>"

lemma ring_put_ok:
  assumes "ring_ok k" "c \<noteq> 0" "ring_count k < 1024"
  shows "ring_ok (ring_put c k)" and "ring_items (ring_put c k) = ring_items k @ [c]"
proof -
  have "ring_count (ring_put c k) = unat (kb_tail k - kb_head k + 1)"
    by (simp add: ring_count_def ring_put_def algebra_simps)
  also have "\<dots> = Suc (ring_count k)"
    unfolding ring_count_def using assms(3)
    by (intro unat_inc [of _ 1024]) (simp add: ring_count_def word_less_nat_alt)
  finally have n: "ring_count (ring_put c k) = Suc (ring_count k)" .
  have l: "length (kb_buffer k) = 1024" using assms(1) by (simp add: ring_ok_def)
  have at: "ring_at (ring_put c k) j = (if j = ring_count k then c else ring_at k j)" if "j < 1024" for j
    using index_eq [OF assms(3) that, of "unat (kb_head k)"] l
    by (auto simp: ring_at_def ring_put_def tail_index nth_list_update)
  show "ring_ok (ring_put c k)"
    using assms n at l by (auto simp: ring_ok_def ring_put_def)
  show "ring_items (ring_put c k) = ring_items k @ [c]"
    using assms(3) by (simp add: ring_items_def n at)
qed

lemma ring_drop_ok:
  assumes "ring_ok k" "0 < ring_count k"
  shows "ring_ok (ring_drop k)" and "ring_items k = ring_at k 0 # ring_items (ring_drop k)" and "ring_at k 0 \<noteq> 0"
proof -
  have "ring_count (ring_drop k) = unat (kb_tail k - kb_head k - 1)"
    by (simp add: ring_count_def ring_drop_def algebra_simps)
  also have "\<dots> = ring_count k - 1"
    unfolding ring_count_def using assms(2) by (intro unat_dec) (auto simp: ring_count_def)
  finally have n: "ring_count k = Suc (ring_count (ring_drop k))" using assms(2) by simp
  have l: "length (kb_buffer k) = 1024" "ring_count k \<le> 1024" using assms(1) by (simp_all add: ring_ok_def)
  have at: "ring_at (ring_drop k) j = (if j = 1023 then 0 else ring_at k (Suc j))" if "j < 1024" for j
  proof -
    have "(unat (kb_head k + 1) + j) mod 1024 = (unat (kb_head k) + Suc j) mod 1024"
      using mod_add_cong [OF unat_mod_1024 [of "kb_head k" 1] refl [of "j mod 1024"]] by simp
    moreover have "(unat (kb_head k) + 0) mod 1024 = (unat (kb_head k) + Suc j) mod 1024 \<longleftrightarrow> j = 1023"
    proof (cases "j = 1023")
      case False
      then show ?thesis using that index_eq [of 0 "Suc j" "unat (kb_head k)"] by simp
    qed simp
    ultimately show ?thesis
      using l by (auto simp: ring_at_def ring_drop_def head_index nth_list_update simp del: add_0_right)
  qed
  show "ring_ok (ring_drop k)"
    using assms(1) n at l by (auto simp: ring_ok_def ring_drop_def)
  have "ring_at (ring_drop k) j = ring_at k (Suc j)" if "j < ring_count (ring_drop k)" for j
    using at [of j] that n l by auto
  then show "ring_items k = ring_at k 0 # ring_items (ring_drop k)"
    unfolding ring_items_def n map_upt_Suc by simp
  show "ring_at k 0 \<noteq> 0" using assms by (simp add: ring_ok_def)
qed

text \<open>Taking back the last character; the cell it was in is free again.\<close>

lemma ring_back_put:
  assumes "ring_ok k" "ring_count k < 1024"
  shows "ring_back (ring_put c k) = k"
proof -
  have "kb_buffer k ! unat (kb_tail k mod 1024) = 0" "length (kb_buffer k) = 1024"
    using assms by (auto simp: ring_ok_def ring_at_def tail_index)
  then have "(kb_buffer k)[unat (kb_tail k mod 1024) := 0] = kb_buffer k"
    by (metis list_update_id)
  then show ?thesis by (simp add: ring_back_def ring_put_def)
qed

lemma ring_back_ok:
  assumes "ring_ok k" "0 < ring_count k"
  shows "ring_ok (ring_back k)" and "ring_items (ring_back k) = butlast (ring_items k)"
proof -
  have "ring_count (ring_back k) = unat (kb_tail k - kb_head k - 1)"
    by (simp add: ring_count_def ring_back_def algebra_simps)
  also have "\<dots> = ring_count k - 1"
    unfolding ring_count_def using assms(2) by (intro unat_dec) (auto simp: ring_count_def)
  finally have n: "ring_count k = Suc (ring_count (ring_back k))" using assms(2) by simp
  have l: "length (kb_buffer k) = 1024" "ring_count k \<le> 1024" using assms(1) by (simp_all add: ring_ok_def)
  have sel: "kb_head (ring_back k) = kb_head k" "kb_tail (ring_back k) = kb_tail k - 1"
    "kb_buffer (ring_back k) = (kb_buffer k)[unat ((kb_tail k - 1) mod 1024) := 0]"
    by (simp_all add: ring_back_def)
  note buf = sel(3) [unfolded tail_index [of "ring_back k", unfolded sel(1,2)]]
  have less: "ring_count (ring_back k) < 1024" using l n by simp
  have at: "ring_at (ring_back k) j = (if j = ring_count (ring_back k) then 0 else ring_at k j)" if "j < 1024" for j
    using index_eq [OF less that, of "unat (kb_head k)"] l(1)
    by (auto simp: ring_at_def buf sel(1) nth_list_update)
  show "ring_ok (ring_back k)" using assms(1) n at l by (auto simp: ring_ok_def buf)
  have "ring_items (ring_back k) = map (ring_at k) [0..<ring_count (ring_back k)]"
    using at l n by (simp add: ring_items_def)
  then show "ring_items (ring_back k) = butlast (ring_items k)" by (simp add: ring_items_def n)
qed

text \<open>
  On an empty ring the tail goes behind the head: the next character is stored where no pop
  looks for it, and the ring is empty again as far as the positions tell.
\<close>

lemma ring_back_empty:
  assumes "ring_ok k" "ring_count k = 0"
  shows "ring_at (ring_put c (ring_back k)) 0 = 0" and "ring_count (ring_put c (ring_back k)) = 0"
proof -
  have l: "length (kb_buffer k) = 1024" "ring_at k 0 = 0" using assms by (simp_all add: ring_ok_def)
  have t: "kb_tail k = kb_head k" using assms(2) by (simp add: ring_count_def unat_0_iff)
  show "ring_count (ring_put c (ring_back k)) = 0"
    by (simp add: ring_count_def ring_put_def ring_back_def t)
  have "unat (kb_head k - 1 + of_nat 1) mod 1024 = (unat (kb_head k - 1) + 1) mod 1024"
    by (rule unat_mod_1024)
  then have "unat ((kb_head k - 1) mod 1024) \<noteq> unat (kb_head k mod 1024)"
    using index_eq [of 0 1 "unat (kb_head k - 1)"] by (simp add: unat_mod32)
  then show "ring_at (ring_put c (ring_back k)) 0 = 0"
    using l by (simp add: ring_at_def ring_put_def ring_back_def t unat_mod32)
qed

text \<open>In a full ring the next character takes the place of the first one.\<close>

lemma ring_put_full:
  assumes "ring_ok k" "ring_count k = 1024"
  shows "ring_at (ring_put c k) 0 = c"
  using assms tail_index [of k] by (simp add: ring_at_def ring_put_def ring_ok_def unat_mod32)

section \<open>The calls of the kernel\<close>

text \<open>Characters go to the current process and are taken by the process of the current task.\<close>

definition typing_ok :: "addr \<Rightarrow> 'a kernel_state_scheme \<Rightarrow> bool" where
  "typing_ok p s \<longleftrightarrow> p \<noteq> 0 \<and> process_current s = p \<and> task_current s \<noteq> 0
     \<and> task_process (tasks s (task_current s)) = p \<and> ring_ok (process_keyboard (process_store s p))"

definition typed :: "addr \<Rightarrow> 'a kernel_state_scheme \<Rightarrow> u8 list" where
  "typed p s = ring_items (process_keyboard (process_store s p))"

definition keyboard_take :: "'a kernel_state_scheme \<Rightarrow> (u8 option \<times> 'a kernel_state_scheme) run" where
  "keyboard_take s =
     (case keyboard_pop s of Inl f \<Rightarrow> Inl f | Inr (c, s') \<Rightarrow> Inr (if c = 0 then None else Some c, s'))"

lemma with_ring_simps [simp]:
  "process_keyboard (process_store (with_ring f p s) p) = f (process_keyboard (process_store s p))"
  "process_current (with_ring f p s) = process_current s" "task_current (with_ring f p s) = task_current s"
  "tasks (with_ring f p s) = tasks s"
  "with_ring f p (with_ring g p s) = with_ring (\<lambda>k. f (g k)) p s"
  by (simp_all add: with_ring_def process_current_def task_current_def)

lemma push_ring:
  "process_current s = p \<Longrightarrow> p \<noteq> 0 \<Longrightarrow> keyboard_push c s = with_ring (ring_put c) p s"
  by (simp add: keyboard_push_def Let_def keyboard_get_tail_index_def ring_put_def [abs_def])
    (simp add: with_ring_def)

lemma backspace_ring: "keyboard_backspace p s = with_ring ring_back p s"
  by (simp add: keyboard_backspace_def Let_def keyboard_get_tail_index_def ring_back_def [abs_def])
    (simp add: with_ring_def)

lemma take_ring:
  assumes "typing_ok p s"
  shows "keyboard_take s =
    (if typed p s = [] then Inr (None, s) else Inr (Some (hd (typed p s)), with_ring ring_drop p s))"
proof -
  let ?k = "process_keyboard (process_store s p)"
  have ok: "ring_ok ?k" and p: "task_current s \<noteq> 0" "task_process (tasks s (task_current s)) = p" "p \<noteq> 0"
    using assms by (simp_all add: typing_ok_def)
  have c: "kb_buffer ?k ! unat (kb_head ?k mod 1024) = ring_at ?k 0"
    by (simp add: ring_at_def unat_mod32)
  show ?thesis
  proof (cases "ring_count ?k = 0")
    case True
    then have "ring_at ?k 0 = 0" using ok by (simp add: ring_ok_def)
    with True p c show ?thesis
      by (simp add: keyboard_take_def keyboard_pop_def Let_def typed_def ring_items_def)
  next
    case False
    note d = ring_drop_ok [OF ok, OF False [unfolded neq0_conv]]
    have "keyboard_take s = Inr (Some (ring_at ?k 0), with_ring ring_drop p s)"
      using p c d(3)
      by (simp add: keyboard_take_def keyboard_pop_def Let_def ring_drop_def [abs_def]) (simp add: with_ring_def)
    with d(2) show ?thesis by (simp add: typed_def)
  qed
qed

lemma pop_ring:
  assumes "typing_ok p s" "ring_at (f (process_keyboard (process_store s p))) 0 = c"
  shows "\<exists>s'. keyboard_pop (with_ring f p s) = Inr (c, s')"
proof -
  let ?k = "f (process_keyboard (process_store s p))"
  have "kb_buffer ?k ! unat (kb_head ?k mod 1024) = c"
    using assms(2) by (simp add: ring_at_def unat_mod32)
  then show ?thesis
    using assms(1) by (simp add: keyboard_pop_def typing_ok_def Let_def)
qed

lemma typed_empty: "typed p s = [] \<longleftrightarrow> ring_count (process_keyboard (process_store s p)) = 0"
  by (simp add: typed_def ring_items_def)

interpretation typing: fifo "typing_ok p" "typed p" 1024 "\<lambda>c. c \<noteq> 0" keyboard_push keyboard_take for p
proof unfold_locales
  fix s :: "'a kernel_state_scheme" and c :: u8
  assume *: "typing_ok p s" "c \<noteq> 0" "length (typed p s) < 1024"
  then have push: "keyboard_push c s = with_ring (ring_put c) p s"
    by (intro push_ring) (simp_all add: typing_ok_def)
  show "typing_ok p (keyboard_push c s)" "typed p (keyboard_push c s) = typed p s @ [c]"
    using * ring_put_ok [of "process_keyboard (process_store s p)" c] unfolding push
    by (simp_all add: typing_ok_def typed_def ring_items_def)
next
  fix s :: "'a kernel_state_scheme"
  assume "typing_ok p s" "typed p s = []"
  then show "keyboard_take s = Inr (None, s)" by (simp add: take_ring)
next
  fix s :: "'a kernel_state_scheme" and c cs
  assume *: "typing_ok p s" "typed p s = c # cs"
  then have "0 < ring_count (process_keyboard (process_store s p))"
    by (cases "ring_count (process_keyboard (process_store s p))") (simp_all add: typed_def ring_items_def)
  note d = ring_drop_ok [OF _ this]
  show "\<exists>s'. keyboard_take s = Inr (Some c, s') \<and> typing_ok p s' \<and> typed p s' = cs"
    using * d by (auto simp: take_ring typing_ok_def typed_def)
qed

text \<open>A kernel in which nothing is typed yet, the ring's positions about to pass its end.\<close>

definition typing_example :: "kernel_state \<Rightarrow> kernel_state" where
  "typing_example s = s\<lparr>current_process := 8, current_task := 4, tasks := (\<lambda>_. tasks s 4\<lparr>task_process := 8\<rparr>),
     process_store := (\<lambda>_. process_store s 8\<lparr>process_keyboard :=
       \<lparr>kb_buffer = replicate 1024 0, kb_tail = 1022, kb_head = 1022\<rparr>\<rparr>)\<rparr>"

lemma typing_example: "typing_ok 8 (typing_example s)" "typed 8 (typing_example s) = []"
  by (simp_all add: typing_ok_def typing_example_def process_current_def task_current_def typed_def
      ring_items_def ring_count_def ring_at_def ring_ok_def)

section \<open>Properties\<close>

text \<open>
  C24: The keyboard of a process is a queue of 1024 characters. While the process is the
  current one and its task is the current one, every sequence of pushes of characters and
  pops, in any order, that never has more than 1024 characters waiting is answered as a
  first-in first-out queue answers it, a pop of the empty ring with NUL.
\<close>

theorem keyboard_queue:
  assumes "typing_ok p s" "fifo_spec 1024 (\<lambda>c. c \<noteq> 0) calls (typed p s) = Some (answers, rest)"
  shows "\<exists>s'. fifo_run keyboard_push keyboard_take calls s = Inr (answers, s')
    \<and> typing_ok p s' \<and> typed p s' = rest"
  using assms by (rule typing.run_refines)

theorem keyboard_queue_witness:
  "\<forall>s. \<exists>s'. fifo_run keyboard_push keyboard_take [Put 1, Put 2, Take, Put 3, Take, Take, Take] (typing_example s)
    = Inr ([Some 1, Some 2, Some 3, None], s')"
proof
  fix s
  show "\<exists>s'. fifo_run keyboard_push keyboard_take [Put 1, Put 2, Take, Put 3, Take, Take, Take] (typing_example s)
    = Inr ([Some 1, Some 2, Some 3, None], s')"
    using keyboard_queue [OF typing_example(1), of "[Put 1, Put 2, Take, Put 3, Take, Take, Take]" s]
    by (simp add: typing_example(2) del: fifo_run.simps) blast
qed

text \<open>
  C39: Backspace takes back the character pushed last, but it does not stop at an empty ring:
  there the pop after the next push gives NUL instead of the character pushed. Nor does a push
  stop at a full ring: the pop after the 1025th push gives the character of that push, not the
  oldest one.
\<close>

theorem keyboard_edges:
  assumes "typing_ok p s" "c \<noteq> 0"
  shows "(typed p s \<noteq> [] \<longrightarrow> typing_ok p (keyboard_backspace p s)
      \<and> typed p (keyboard_backspace p s) = butlast (typed p s))
    \<and> (typed p s = [] \<longrightarrow> (\<exists>s'. keyboard_pop (keyboard_push c (keyboard_backspace p s)) = Inr (0, s')))
    \<and> (length (typed p s) = 1024 \<longrightarrow> (\<exists>s'. keyboard_pop (keyboard_push c s) = Inr (c, s')))"
proof (intro conjI impI)
  have p: "process_current s = p" "p \<noteq> 0" and ok: "ring_ok (process_keyboard (process_store s p))"
    using assms(1) by (simp_all add: typing_ok_def)
  { assume "typed p s \<noteq> []"
    then have "0 < ring_count (process_keyboard (process_store s p))" by (simp add: typed_empty)
    note b = ring_back_ok [OF ok this]
    from b(1) show "typing_ok p (keyboard_backspace p s)"
      using assms(1) by (simp add: backspace_ring typing_ok_def)
    from b(2) show "typed p (keyboard_backspace p s) = butlast (typed p s)"
      by (simp add: backspace_ring typed_def) }
  { assume "typed p s = []"
    then have "ring_count (process_keyboard (process_store s p)) = 0" by (simp add: typed_empty)
    from pop_ring [OF assms(1), of "\<lambda>k. ring_put c (ring_back k)", OF ring_back_empty(1) [OF ok this]]
    show "\<exists>s'. keyboard_pop (keyboard_push c (keyboard_backspace p s)) = Inr (0, s')"
      using p by (simp add: backspace_ring push_ring [where p = p]) }
  { assume "length (typed p s) = 1024"
    then have "ring_count (process_keyboard (process_store s p)) = 1024" by (simp add: typed_def ring_items_def)
    from pop_ring [OF assms(1), of "ring_put c", OF ring_put_full [OF ok this]]
    show "\<exists>s'. keyboard_pop (keyboard_push c s) = Inr (c, s')"
      using p by (simp add: push_ring [where p = p]) }
qed

theorem keyboard_edges_witness:
  "\<forall>s. \<exists>s'. keyboard_pop (keyboard_push 7 (keyboard_backspace 8 (typing_example s))) = Inr (0, s')"
proof
  fix s
  show "\<exists>s'. keyboard_pop (keyboard_push 7 (keyboard_backspace 8 (typing_example s))) = Inr (0, s')"
    using keyboard_edges [OF typing_example(1), of 7 s] by (simp add: typing_example(2))
qed

text \<open>
  The table of scancodes has 80 entries: a scancode below 80 is looked up in it and one
  above 80 is answered with NUL, but scancode 80 itself passes the test and is read from
  behind the end of the table. The keypad's digits stand three places too low: scancode 71,
  the keypad's 7, gives a minus sign.
\<close>

lemma scancode_80:
  "classic_keyboard_scancode_to_char scancode =
     (if unat scancode < 80 then Inr (keyboard_scan_set_one ! unat scancode)
      else if scancode = 80 then Inl OutOfBounds else Inr 0)
   \<and> classic_keyboard_scancode_to_char 71 = Inr (of_char (CHR ''-''))"
proof -
  have l: "length keyboard_scan_set_one = 80" by (simp add: keyboard_scan_set_one_def)
  have "unat scancode = 80 \<longleftrightarrow> scancode = 80" by (simp add: word_unat_eq_iff)
  then have "classic_keyboard_scancode_to_char scancode =
     (if unat scancode < 80 then Inr (keyboard_scan_set_one ! unat scancode)
      else if scancode = 80 then Inl OutOfBounds else Inr 0)"
    by (auto simp: classic_keyboard_scancode_to_char_def l)
  moreover have "keyboard_scan_set_one ! 71 = of_char (CHR ''-'')"
    by (simp add: keyboard_scan_set_one_def numeral_eq_Suc)
  then have "classic_keyboard_scancode_to_char 71 = Inr (of_char (CHR ''-''))"
    by (simp add: classic_keyboard_scancode_to_char_def l)
  ultimately show ?thesis ..
qed

end
