(* ===== verification/Spaces.thy ===== *)
theory Spaces
  imports Paging KFrames
begin

text \<open>
  Address spaces in use: what the processor does with a page directory (\<open>translate\<close>), copying a
  string while such a directory is loaded, and what building and releasing a space leaves
  alone, so that the spaces of several tasks can lie side by side in the kernel heap.
\<close>

section \<open>Address translation\<close>

text \<open>
  The processor's walk through directory and table. Whether the entry allows the access is
  left out: every entry the kernel writes is present, and the kernel may read and write all
  of them.
\<close>

definition translate :: "mem \<Rightarrow> addr \<Rightarrow> addr \<Rightarrow> addr" where
  "translate m directory va =
     (paging_get m directory (va AND 0xfffff000) AND 0xfffff000) OR (va AND 0xfff)"

definition vread :: "mem \<Rightarrow> addr \<Rightarrow> mem" where
  "vread m directory va = m (translate m directory va)"

definition vwrite :: "mem \<Rightarrow> addr \<Rightarrow> addr \<Rightarrow> u8 \<Rightarrow> mem" where
  "vwrite m directory va v = m(translate m directory va := v)"

text \<open>\<open>strncpy\<close> of \<^verbatim>\<open>src/libc/string.c\<close> when it runs in such an address space.\<close>

function vstrncpy_copy :: "mem \<Rightarrow> addr \<Rightarrow> addr \<Rightarrow> addr \<Rightarrow> u32 \<Rightarrow> u32 \<Rightarrow> u32 \<times> mem" where
  "vstrncpy_copy m d dest src n i =
     (if i < n \<and> vread m d (src + i) \<noteq> 0
      then vstrncpy_copy (vwrite m d (dest + i) (vread m d (src + i))) d dest src n (i + 1) else (i, m))"
  by pat_completeness auto
termination
  by (relation "measure (\<lambda>(m, d, dest, src, n, i). unat n - unat i)") (auto simp: measure_simps)

function vstrncpy_pad :: "mem \<Rightarrow> addr \<Rightarrow> addr \<Rightarrow> u32 \<Rightarrow> u32 \<Rightarrow> mem" where
  "vstrncpy_pad m d dest n i =
     (if i < n then vstrncpy_pad (vwrite m d (dest + i) 0) d dest n (i + 1) else m)"
  by pat_completeness auto
termination
  by (relation "measure (\<lambda>(m, d, dest, n, i). unat n - unat i)") (auto simp: measure_simps)

declare vstrncpy_copy.simps [simp del] vstrncpy_pad.simps [simp del]

definition vstrncpy :: "mem \<Rightarrow> addr \<Rightarrow> addr \<Rightarrow> addr \<Rightarrow> u32 \<Rightarrow> mem" where
  "vstrncpy m d dest src n = (case vstrncpy_copy m d dest src n 0 of (i, m) \<Rightarrow> vstrncpy_pad m d dest n i)"

section \<open>Spaces side by side\<close>

lemma kext_store_word:
  assumes "kext m m'" "b < 25600" "b \<notin> kused m" "i < 1024"
  shows "kext m (store32 m' (kblock b + of_nat (4 * i)) v)"
proof -
  have "store32 m' (kblock b + of_nat (4 * i)) v x = m x" if "kstable m x" for x
  proof -
    have "4096 \<le> unat (x - kblock b)" using that assms(2,3) by (simp add: kstable_def)
    then show ?thesis
      using assms(2,4) kextD(1) [OF assms(1) that] store_word_byte [of "kblock b" i x m' v] by simp
  qed
  then show ?thesis using assms kextD(2) [OF assms(1)] by (simp add: kext_def del: of_nat_mult)
qed

lemma kext_store_words:
  "kext m m' \<Longrightarrow> b < 25600 \<Longrightarrow> b \<notin> kused m \<Longrightarrow> n \<le> 1024 \<Longrightarrow> kext m (store_words m' (kblock b) n f)"
  by (induction n) (simp_all add: store_words_Suc kext_store_word del: of_nat_mult)

text \<open>Building a space writes to blocks that were free only.\<close>

lemma new_loop_ext:
  "paging_new_4gb_loop is (kblock d) flags offset m' = Inr m'' \<Longrightarrow> kext m m' \<Longrightarrow> d < 25600 \<Longrightarrow> d \<notin> kused m \<Longrightarrow>
    \<forall>i \<in> set is. i < 1024 \<Longrightarrow> kext m m''"
proof (induction "is" arbitrary: offset m')
  case (Cons i "is")
  have nf: "\<not> kfull m'"
    using Cons.prems(1) kzalloc_page [of 4096 m'] by (auto split: if_splits)
  note free = kpage_free [OF nf]
  obtain m1 where z: "kzalloc m' 4096 = (kblock (kpage m'), m1)"
    using nf kzalloc_page [of 4096 m'] by simp
  have b: "kpage m' \<notin> kused m" using free(2) kextD(2) [OF Cons.prems(2)] by blast
  have "kext m m1"
    using kext_trans [OF Cons.prems(2) kext_kzalloc [of 4096 m']] z by simp
  then have ext: "kext m (store32 (store_words m1 (kblock (kpage m')) 1024 f) (kblock d + of_nat (4 * i)) v)" for f v
    using Cons.prems(3-5) b free(1) by (intro kext_store_word kext_store_words) simp_all
  show ?case
    by (rule Cons.IH [OF _ ext])
      (use Cons.prems z kblock_nonzero [OF free(1)] kblock_nonzero [OF Cons.prems(3)] in
        \<open>simp_all add: Let_def del: of_nat_mult\<close>)
qed simp

lemma new_4gb_ext:
  assumes "paging_new_4gb m flags = Inr (c, m')"
  shows "kext m m'"
proof -
  have nf: "\<not> kfull m" using assms kzalloc_page [of 4096 m] upt_conv_Cons [of 0 1024]
    by (auto simp: paging_new_4gb_def split: if_splits)
  note free = kpage_free [OF nf]
  obtain m1 where z: "kzalloc m 4096 = (kblock (kpage m), m1)"
    using nf kzalloc_page [of 4096 m] by simp
  obtain m2 where l: "paging_new_4gb_loop [0..<1024] (kblock (kpage m)) flags 0 m1 = Inr m2"
    using assms z by (auto simp: paging_new_4gb_def split: sum.splits)
  have "kext m m1" using kext_kzalloc [of 4096 m] z by simp
  with l have e2: "kext m m2" by (rule new_loop_ext) (use free in simp_all)
  obtain c' m3 where z3: "kzalloc m2 4 = (c', m3)" by force
  have c: "c' \<noteq> 0" "m' = store32 m3 c' (kblock (kpage m))"
    using assms z l z3 by (auto simp: paging_new_4gb_def split: if_splits)
  then have nf2: "\<not> kfull m2" using z3 kzalloc_page [of 4 m2] by (auto split: if_splits)
  then have c': "c' = kblock (kpage m2)" using z3 kzalloc_page [of 4 m2] by simp
  have "kpage m2 \<notin> kused m" using kpage_free(2) [OF nf2] kextD(2) [OF e2] by blast
  moreover have "kext m m3" using kext_trans [OF e2 kext_kzalloc [of 4 m2]] z3 by simp
  ultimately show ?thesis
    using kext_store_word [of m m3 "kpage m2" 0] kpage_free(1) [OF nf2] unfolding c(2) c' by simp
qed

text \<open>A space survives whatever leaves its blocks alone.\<close>

lemma chunk_blocks_cong:
  assumes "chunk_blocks m cb d tb"
    "\<And>b i. b \<in> space_blocks cb d tb \<Longrightarrow> i < 4096 \<Longrightarrow> m' (kblock b + of_nat i) = m (kblock b + of_nat i)"
  shows "chunk_blocks m' cb d tb"
    and "page va \<Longrightarrow> paging_get m' (load32 m' (kblock cb)) va = paging_get m (load32 m (kblock cb)) va"
proof -
  have b: "cb < 25600" "d < 25600" "load32 m (kblock cb) = kblock d"
    "\<And>i. i < 1024 \<Longrightarrow> tb i < 25600 \<and> ptab m (kblock d) i = kblock (tb i)"
    using assms(1) by (auto simp: chunk_blocks_def)
  have w: "word_at m' (kblock b) j = word_at m (kblock b) j" if "b \<in> space_blocks cb d tb" "j < 1024" for b j
  proof (rule word_at_cong)
    show "page (kblock b)" using that(1) b by (auto simp: space_blocks_def)
  qed (use assms(2) that in auto)
  have c: "load32 m' (kblock cb) = kblock d"
    using w [of cb 0] b(3) by (simp add: space_blocks_def)
  have p: "ptab m' (kblock d) i = ptab m (kblock d) i" if "i < 1024" for i
    using w [of d i] that by (simp add: ptab_def space_blocks_def)
  show "chunk_blocks m' cb d tb" using assms(1) c p by (simp add: chunk_blocks_def)
  show "page va \<Longrightarrow> paging_get m' (load32 m' (kblock cb)) va = paging_get m (load32 m (kblock cb)) va"
    using w [of "tb (vdir va)" "vtab va"] b(3,4) by (simp add: c paging_get_page p space_blocks_def)
qed

lemma chunk_blocks_ext:
  assumes "kext m m'" "chunk_blocks m cb d tb" "space_blocks cb d tb \<subseteq> kused m"
  shows "chunk_blocks m' cb d tb"
    and "page va \<Longrightarrow> paging_get m' (load32 m' (kblock cb)) va = paging_get m (load32 m (kblock cb)) va"
proof -
  have k: "m' (kblock b + of_nat i) = m (kblock b + of_nat i)" if "b \<in> space_blocks cb d tb" "i < 4096" for b i
    using that assms(3) by (intro kextD(1) [OF assms(1)] kblock_stable) auto
  show "chunk_blocks m' cb d tb" by (rule chunk_blocks_cong(1) [OF assms(2) k])
  show "page va \<Longrightarrow> paging_get m' (load32 m' (kblock cb)) va = paging_get m (load32 m (kblock cb)) va"
    by (rule chunk_blocks_cong(2) [OF assms(2) k])
qed

text \<open>Releasing a space writes to the block table only.\<close>

lemma free_tables_table_only:
  assumes "chunk_blocks m cb d tb" "n \<le> 1024"
  shows "table_only m (fold (\<lambda>i m. kfree m (load32 m (load32 m (kblock cb) + of_nat (4 * i)) AND 0xfffff000)) [0..<n] m)"
  using assms(2)
proof (induction n)
  case 0
  then show ?case by (simp add: table_only_def)
next
  case (Suc n)
  let ?m = "fold (\<lambda>i m. kfree m (load32 m (load32 m (kblock cb) + of_nat (4 * i)) AND 0xfffff000)) [0..<n] m"
  have f: "load32 ?m (kblock cb) = kblock d" "ptab ?m (kblock d) n = kblock (tb n)" "tb n < 25600"
    using free_tables [OF assms(1), of n] Suc.prems assms(1) by (auto simp: chunk_blocks_def)
  have "table_only m ?m" using Suc by simp
  moreover have "table_only ?m (kfree ?m (load32 ?m (load32 ?m (kblock cb) + of_nat (4 * n)) AND 0xfffff000))"
    unfolding f(1) using f(2,3) table_only_kfree by (simp add: ptab_def)
  ultimately have "table_only m (kfree ?m (load32 ?m (load32 ?m (kblock cb) + of_nat (4 * n)) AND 0xfffff000))" by (rule table_only_trans)
  then show ?case by simp
qed

lemma free_4gb_table_only:
  assumes "chunk_blocks m cb d tb"
  shows "table_only m (paging_free_4gb m (kblock cb))"
proof -
  define m1 where
    "m1 = fold (\<lambda>i m. kfree m (load32 m (load32 m (kblock cb) + of_nat (4 * i)) AND 0xfffff000)) [0..<1024] m"
  have b: "cb < 25600" "d < 25600" using assms by (simp_all add: chunk_blocks_def)
  have "load32 m1 (kblock cb) = kblock d"
    unfolding m1_def using free_tables [OF assms order_refl] by blast
  then have "paging_free_4gb m (kblock cb) = kfree (kfree m1 (kblock d)) (kblock cb)"
    by (simp only: paging_free_4gb_def Let_def m1_def)
  moreover have "table_only m m1"
    unfolding m1_def by (rule free_tables_table_only [OF assms order_refl])
  ultimately show ?thesis
    using table_only_trans [OF _ table_only_trans] table_only_kfree b by metis
qed

lemma chunk_blocks_table_only:
  assumes "table_only m m'" "chunk_blocks m cb d tb"
  shows "chunk_blocks m' cb d tb"
proof (rule chunk_blocks_cong(1) [OF assms(2)])
  fix b i :: nat assume "b \<in> space_blocks cb d tb" and i: "i < 4096"
  then have "b < 25600" using assms(2) by (auto simp: space_blocks_def chunk_blocks_def)
  then show "m' (kblock b + of_nat i) = m (kblock b + of_nat i)"
    using assms(1) i kblock_off_table by (simp add: table_only_def)
qed

end
