(* ===== verification/Task.thy ===== *)
theory Task
  imports KState Spaces
begin

text \<open>
  \<^verbatim>\<open>src/proc/task.c\<close>: tasks, the doubly linked list of them, and the switches between the
  address space of the kernel and that of a task. While a task's directory is loaded, the
  kernel's own reads and writes go through it too.
\<close>

section \<open>Switching\<close>

abbreviation (input) KERNEL_DATA_SELECTOR :: u16 where "KERNEL_DATA_SELECTOR \<equiv> 0x10"
abbreviation (input) USER_DATA_SEGMENT :: u16 where "USER_DATA_SEGMENT \<equiv> 0x23"
abbreviation (input) USER_CODE_SEGMENT :: u16 where "USER_CODE_SEGMENT \<equiv> 0x1b"
abbreviation (input) DEXTER_PROGRAM_VIRTUAL_ADDRESS :: addr where "DEXTER_PROGRAM_VIRTUAL_ADDRESS \<equiv> 0x400000"
abbreviation (input) DEXTER_PROGRAM_VIRTUAL_STACK_ADDRESS_START :: addr where
  "DEXTER_PROGRAM_VIRTUAL_STACK_ADDRESS_START \<equiv> 0x3FF000"

text \<open>\<^verbatim>\<open>paging_switch\<close> reads the chunk it is given.\<close>

definition switch_chunk :: "addr \<Rightarrow> 'a kernel_state_scheme \<Rightarrow> 'a kernel_state_scheme prog" where
  "switch_chunk chunk s =
     (if chunk = 0 then faulty NullDeref else ret (s\<lparr>kmmu := paging_switch (kmem s) chunk (kmmu s)\<rparr>))"

definition kernel_page :: "'a kernel_state_scheme \<Rightarrow> 'a kernel_state_scheme prog" where
  "kernel_page s = switch_chunk (kernel_chunk s) (s\<lparr>segments := KERNEL_DATA_SELECTOR\<rparr>)"

definition task_switch :: "addr \<Rightarrow> 'a kernel_state_scheme \<Rightarrow> (u32 \<times> 'a kernel_state_scheme) prog" where
  "task_switch task s =
     (let s = s\<lparr>current_task := task\<rparr> in
      if task = 0 then faulty NullDeref
      else prog_bind (switch_chunk (page_directory (tasks s task)) s) (\<lambda>s. ret (0, s)))"

definition task_page :: "'a kernel_state_scheme \<Rightarrow> (u32 \<times> 'a kernel_state_scheme) prog" where
  "task_page s =
     (let s = s\<lparr>segments := USER_DATA_SEGMENT\<rparr>
      in prog_bind (task_switch (current_task s) s) (\<lambda>(_, s). ret (0, s)))"

definition task_page_task :: "addr \<Rightarrow> 'a kernel_state_scheme \<Rightarrow> (u32 \<times> 'a kernel_state_scheme) prog" where
  "task_page_task task s =
     (let s = s\<lparr>segments := USER_DATA_SEGMENT\<rparr> in
      if task = 0 then faulty NullDeref
      else prog_bind (switch_chunk (page_directory (tasks s task)) s) (\<lambda>s. ret (0, s)))"

definition with_task :: "(task \<Rightarrow> task) \<Rightarrow> addr \<Rightarrow> 'a kernel_state_scheme \<Rightarrow> 'a kernel_state_scheme" where
  "with_task f t s = s\<lparr>tasks := (tasks s)(t := f (tasks s t))\<rparr>"

section \<open>The list of tasks\<close>

definition task_get_next :: "'a kernel_state_scheme \<Rightarrow> addr run" where
  "task_get_next s =
     (if current_task s = 0 then Inl NullDeref
      else if next_task (tasks s (current_task s)) = 0 then Inr (task_head s)
      else Inr (next_task (tasks s (current_task s))))"

definition task_list_remove :: "addr \<Rightarrow> 'a kernel_state_scheme \<Rightarrow> 'a kernel_state_scheme prog" where
  "task_list_remove task s =
     (let s = (if prev_task (tasks s task) \<noteq> 0
               then with_task (\<lambda>t. t\<lparr>next_task := next_task (tasks s task)\<rparr>) (prev_task (tasks s task)) s
               else s);
          s = (if task = task_head s then s\<lparr>task_head := next_task (tasks s task)\<rparr> else s);
          s = (if task = task_tail s then s\<lparr>task_tail := prev_task (tasks s task)\<rparr> else s)
      in if task = current_task s
         then prog_bind (of_run (task_get_next s)) (\<lambda>t. ret (s\<lparr>current_task := t\<rparr>))
         else ret s)"

definition task_free :: "addr \<Rightarrow> 'a kernel_state_scheme \<Rightarrow> (u32 \<times> 'a kernel_state_scheme) prog" where
  "task_free task s =
     (if task = 0 \<or> page_directory (tasks s task) = 0 then faulty NullDeref
      else
        let s = s\<lparr>kmem := paging_free_4gb (kmem s) (page_directory (tasks s task))\<rparr>
        in prog_bind (task_list_remove task s) (\<lambda>s. ret (0, s\<lparr>kmem := kfree (kmem s) task\<rparr>)))"

text \<open>Tasks hold 64 bytes. \<open>memset\<close> clears the record; its bytes are not those of anything else.\<close>

definition zero_registers :: registers where
  "zero_registers = \<lparr>reg_edi = 0, reg_esi = 0, reg_ebp = 0, reg_ebx = 0, reg_edx = 0, reg_ecx = 0, reg_eax = 0,
     reg_ip = 0, reg_cs = 0, reg_flags = 0, reg_esp = 0, reg_ss = 0\<rparr>"

definition zero_task :: task where
  "zero_task = \<lparr>page_directory = 0, task_registers = zero_registers, task_process = 0, next_task = 0, prev_task = 0\<rparr>"

definition task_init :: "addr \<Rightarrow> addr \<Rightarrow> 'a kernel_state_scheme \<Rightarrow> (u32 \<times> 'a kernel_state_scheme) prog" where
  "task_init task process s =
     (let s = with_task (\<lambda>t. zero_task) task (s\<lparr>kmem := snd (memset (kmem s) task 0 64)\<rparr>)
      in prog_bind (of_run (paging_new_4gb (kmem s) (PAGING_IS_PRESENT OR PAGING_ACCESS_FROM_ALL))) (\<lambda>(dir, m).
           let s = with_task (\<lambda>t. t\<lparr>page_directory := dir\<rparr>) task (s\<lparr>kmem := m\<rparr>) in
           if page_directory (tasks s task) = 0 then ret (- EIO, s)
           else
             let s = with_task (\<lambda>t. t\<lparr>task_registers := (task_registers t)\<lparr>reg_ip := DEXTER_PROGRAM_VIRTUAL_ADDRESS,
                   reg_ss := ucast USER_DATA_SEGMENT, reg_cs := ucast USER_CODE_SEGMENT,
                   reg_esp := DEXTER_PROGRAM_VIRTUAL_STACK_ADDRESS_START\<rparr>\<rparr>) task s;
                 s = with_task (\<lambda>t. t\<lparr>task_process := process\<rparr>) task s
             in ret (0, s)))"

text \<open>
  An error is returned as a pointer, after \<open>task_free\<close>, which for a failed allocation is
  called with NULL.
\<close>

definition task_new :: "addr \<Rightarrow> 'a kernel_state_scheme \<Rightarrow> (addr \<times> 'a kernel_state_scheme) prog" where
  "task_new process s =
     (let error = (\<lambda>res task s. prog_bind (task_free task s) (\<lambda>(_, s). ret (res, s)))
      in case kzalloc (kmem s) 64 of (task, m) \<Rightarrow>
        let s = s\<lparr>kmem := m\<rparr> in
        if task = 0 then error (- ENOMEM) task s
        else prog_bind (task_init task process s) (\<lambda>(res, s).
          if res \<noteq> 0 then if res <s 0 then error res task s else ret (task, s)
          else if task_head s = 0
          then ret (task, s\<lparr>task_head := task, task_tail := task, current_task := task\<rparr>)
          else if task_tail s = 0 then faulty NullDeref
          else
            let s = with_task (\<lambda>t. t\<lparr>next_task := task\<rparr>) (task_tail s) s;
                s = with_task (\<lambda>t. t\<lparr>prev_task := task_tail s\<rparr>) task s
            in ret (task, s\<lparr>task_tail := task\<rparr>)))"

section \<open>Saved state\<close>

definition task_save_state :: "addr \<Rightarrow> interrupt_frame \<Rightarrow> 'a kernel_state_scheme \<Rightarrow> 'a kernel_state_scheme" where
  "task_save_state task frame s =
     with_task (\<lambda>t. t\<lparr>task_registers := (task_registers t)\<lparr>reg_ip := reg_ip frame, reg_cs := reg_cs frame,
       reg_flags := reg_flags frame, reg_esp := reg_esp frame, reg_ss := reg_ss frame, reg_eax := reg_eax frame,
       reg_ebp := reg_ebp frame, reg_ebx := reg_ebx frame, reg_ecx := reg_ecx frame, reg_edi := reg_edi frame,
       reg_edx := reg_edx frame, reg_esi := reg_esi frame\<rparr>\<rparr>) task s"

definition task_current_save_state :: "interrupt_frame \<Rightarrow> 'a kernel_state_scheme \<Rightarrow> 'a kernel_state_scheme prog" where
  "task_current_save_state frame s =
     (if task_current s = 0 then faulty (Panic ''task_current_save_state: No current task to save'')
      else let task = task_current s in ret (task_save_state task frame s))"

text \<open>
  The assembly routine \<^verbatim>\<open>task_return\<close> leaves the kernel: the registers are the saved ones,
  with interrupts enabled in the flags.
\<close>

definition task_return :: "u32 \<Rightarrow> registers \<Rightarrow> registers" where
  "task_return eflags regs = regs\<lparr>reg_flags := eflags OR 0x200\<rparr>"

definition task_run_first_ever_task ::
  "u32 \<Rightarrow> 'a kernel_state_scheme \<Rightarrow> (registers \<times> 'a kernel_state_scheme) prog" where
  "task_run_first_ever_task eflags s =
     (if current_task s = 0 then faulty (Panic ''task_run_first_ever_task(): No current task exists!'')
      else
        prog_bind (task_switch (task_head s) s) (\<lambda>(_, s).
          let regs = task_registers (tasks s (task_head s))
          in ret (task_return eflags regs, s\<lparr>segments := ucast (reg_ss regs)\<rparr>)))"

definition task_get_stack_item :: "addr \<Rightarrow> u32 \<Rightarrow> 'a kernel_state_scheme \<Rightarrow> (u32 \<times> 'a kernel_state_scheme) prog" where
  "task_get_stack_item task index s =
     (if task = 0 then faulty NullDeref
      else
        let sp_ptr = reg_esp (task_registers (tasks s task))
        in prog_bind (task_page_task task s) (\<lambda>(_, s).
             let r = load32 (vread (kmem s) (cr3 (kmmu s))) (sp_ptr + 4 * index)
             in prog_bind (kernel_page s) (\<lambda>s. ret (r, s))))"

definition copy_string_from_task ::
  "addr \<Rightarrow> addr \<Rightarrow> addr \<Rightarrow> u32 \<Rightarrow> 'a kernel_state_scheme \<Rightarrow> (u32 \<times> 'a kernel_state_scheme) prog" where
  "copy_string_from_task task virtual phys mx s =
     (if \<not> mx <s PAGING_PAGE_SIZE then ret (- EINVARG, s)
      else case kzalloc (kmem s) mx of (tmp, m) \<Rightarrow>
        let s = s\<lparr>kmem := m\<rparr> in
        if tmp = 0 then ret (- ENOMEM, s)
        else if task = 0 then faulty NullDeref
        else
          let chunk = page_directory (tasks s task);
              task_directory = load32 (kmem s) chunk;
              old_entry = paging_get (kmem s) task_directory tmp;
              s = s\<lparr>kmem := snd (paging_map (kmem s) chunk tmp tmp
                ((ucast PAGING_IS_WRITEABLE OR ucast PAGING_IS_PRESENT) OR ucast PAGING_ACCESS_FROM_ALL))\<rparr>
          in prog_bind (switch_chunk chunk s) (\<lambda>s.
               let s = s\<lparr>kmem := vstrncpy (kmem s) (cr3 (kmmu s)) tmp virtual mx\<rparr>
               in prog_bind (kernel_page s) (\<lambda>s.
                    case paging_set (kmem s) task_directory tmp old_entry of (r, m) \<Rightarrow>
                      let s = s\<lparr>kmem := m\<rparr> in
                      if r <s 0 then ret (- EIO, s\<lparr>kmem := kfree (kmem s) tmp\<rparr>)
                      else
                        let s = s\<lparr>kmem := snd (strncpy (kmem s) phys tmp mx)\<rparr>
                        in ret (r, s\<lparr>kmem := kfree (kmem s) tmp\<rparr>))))"

end
