(* ===== verification/TaskList.thy ===== *)
theory TaskList
  imports Task
begin

text \<open>
  The doubly linked list of tasks: what \<open>task_new\<close> and \<open>task_list_remove\<close> make of it, and the
  round of the tasks that \<open>task_get_next\<close> walks.
\<close>

section \<open>Linked lists\<close>

text \<open>
  A stretch of tasks linked forwards, the last one to \<open>q\<close>; linked both ways, the first one
  back to \<open>p\<close>.
\<close>

fun chain :: "(addr \<Rightarrow> task) \<Rightarrow> addr list \<Rightarrow> addr \<Rightarrow> bool" where
  "chain T [] q \<longleftrightarrow> True"
| "chain T (t # ts) q \<longleftrightarrow> next_task (T t) = hd (ts @ [q]) \<and> chain T ts q"

fun back_chain :: "(addr \<Rightarrow> task) \<Rightarrow> addr \<Rightarrow> addr list \<Rightarrow> bool" where
  "back_chain T p [] \<longleftrightarrow> True"
| "back_chain T p (t # ts) \<longleftrightarrow> prev_task (T t) = p \<and> back_chain T t ts"

lemma chain_append: "chain T (us @ vs) q \<longleftrightarrow> chain T us (hd (vs @ [q])) \<and> chain T vs q"
  by (induction us) (auto simp: hd_append)

lemma back_chain_append: "back_chain T p (us @ vs) \<longleftrightarrow> back_chain T p us \<and> back_chain T (last (p # us)) vs"
  by (induction us arbitrary: p) auto

lemma chain_cong: "(\<And>t. t \<in> set ts \<Longrightarrow> next_task (T' t) = next_task (T t)) \<Longrightarrow> chain T' ts q = chain T ts q"
  by (induction ts) auto

lemma back_chain_cong: "(\<And>t. t \<in> set ts \<Longrightarrow> prev_task (T' t) = prev_task (T t)) \<Longrightarrow> back_chain T' p ts = back_chain T p ts"
  by (induction ts arbitrary: p) auto

text \<open>The last link of a stretch of different tasks set anew.\<close>

lemma chain_relink:
  assumes "chain T us q" "distinct us" "us \<noteq> []"
    "next_task (T' (last us)) = r" "\<And>t. t \<in> set us \<Longrightarrow> t \<noteq> last us \<Longrightarrow> next_task (T' t) = next_task (T t)"
  shows "chain T' us r"
proof -
  obtain vs v where us: "us = vs @ [v]" using assms(3) by (metis rev_exhaust)
  have "chain T' vs v = chain T vs v"
    using assms(2,5) us by (intro chain_cong) auto
  then show ?thesis using assms(1,4) us by (simp add: chain_append)
qed

definition task_ends :: "addr list \<Rightarrow> 'a kernel_state_scheme \<Rightarrow> bool" where
  "task_ends ts s \<longleftrightarrow> task_head s = hd (ts @ [0]) \<and> task_tail s = last (0 # ts)
     \<and> (if ts = [] then current_task s = 0 else current_task s \<in> set ts)"

text \<open>The list read forwards, and the whole list.\<close>

definition task_chain :: "addr list \<Rightarrow> 'a kernel_state_scheme \<Rightarrow> bool" where
  "task_chain ts s \<longleftrightarrow> distinct ts \<and> 0 \<notin> set ts \<and> chain (tasks s) ts 0 \<and> task_ends ts s"

definition task_list :: "addr list \<Rightarrow> 'a kernel_state_scheme \<Rightarrow> bool" where
  "task_list ts s \<longleftrightarrow> task_chain ts s \<and> back_chain (tasks s) 0 ts"

lemma task_list_kmem [simp]:
  "task_chain ts (s\<lparr>kmem := m\<rparr>) = task_chain ts s" "task_list ts (s\<lparr>kmem := m\<rparr>) = task_list ts s"
  by (simp_all add: task_list_def task_chain_def task_ends_def)

lemma with_task_sel [simp]:
  "tasks (with_task f t s) = (tasks s)(t := f (tasks s t))" "task_head (with_task f t s) = task_head s"
  "task_tail (with_task f t s) = task_tail s" "current_task (with_task f t s) = current_task s"
  "kmem (with_task f t s) = kmem s"
  by (simp_all add: with_task_def)

section \<open>Removing\<close>

text \<open>
  From a list linked both ways any task can be removed: the rest is linked forwards, its ends
  are right and the current task is one of them. The links back are those from before.
\<close>

definition remove_result :: "addr list \<Rightarrow> addr \<Rightarrow> addr list \<Rightarrow> 'a kernel_state_scheme \<Rightarrow> 'a kernel_state_scheme \<Rightarrow> bool" where
  "remove_result us t vs s s' \<longleftrightarrow> task_list_remove t s = ret s'
     \<and> task_chain (us @ vs) s' \<and> (\<forall>x. prev_task (tasks s' x) = prev_task (tasks s x))
     \<and> (t \<noteq> current_task s \<longrightarrow> current_task s' = current_task s)
     \<and> kmem s' = kmem s \<and> (\<forall>x. x = 0 \<or> x \<notin> set us \<longrightarrow> tasks s' x = tasks s x)
     \<and> (\<forall>x. page_directory (tasks s' x) = page_directory (tasks s x))"

lemma list_remove:
  assumes "task_list (us @ t # vs) s"
  shows "\<exists>s'. remove_result us t vs s s'"
proof -
  have d: "distinct us" "distinct vs" "t \<notin> set us" "t \<notin> set vs" "set us \<inter> set vs = {}"
    and nz: "0 \<notin> set us" "0 \<notin> set vs" "t \<noteq> 0"
    and c: "chain (tasks s) us t" "next_task (tasks s t) = hd (vs @ [0])" "chain (tasks s) vs 0"
    and b: "prev_task (tasks s t) = last (0 # us)"
    and e: "task_ends (us @ t # vs) s"
    using assms by (auto simp: task_list_def task_chain_def chain_append back_chain_append)
  let ?n = "hd (vs @ [0])"
  define s1 where "s1 = (if us = [] then s else with_task (\<lambda>t. t\<lparr>next_task := ?n\<rparr>) (last us) s)"
  define s2 where "s2 = (if t = task_head s1 then s1\<lparr>task_head := ?n\<rparr> else s1)"
  define s3 where "s3 = (if t = task_tail s2 then s2\<lparr>task_tail := last (0 # us)\<rparr> else s2)"
  define s4 where "s4 = (if t = current_task s3 then s3\<lparr>current_task := (if ?n = 0 then task_head s3 else ?n)\<rparr> else s3)"
  have lu: "us \<noteq> [] \<Longrightarrow> last us \<in> set us" by (rule last_in_set)
  then have lz: "us \<noteq> [] \<Longrightarrow> last us \<noteq> 0" using nz(1) by metis
  have hv: "?n \<noteq> t" "?n = 0 \<longleftrightarrow> vs = []" using nz d by (cases vs; auto)+
  have l0: "last (0 # us) = 0 \<longleftrightarrow> us = []" using lz by simp
  have T1: "tasks s1 x = (if us \<noteq> [] \<and> x = last us then (tasks s x)\<lparr>next_task := ?n\<rparr> else tasks s x)" for x
    by (simp add: s1_def)
  then have T: "tasks s4 x = (if us \<noteq> [] \<and> x = last us then (tasks s x)\<lparr>next_task := ?n\<rparr> else tasks s x)" for x
    by (simp add: s4_def s3_def s2_def)
  have Tt: "tasks s1 t = tasks s t" using T1 [of t] lu d(3) by auto
  have r1: "(if prev_task (tasks s t) \<noteq> 0
      then with_task (\<lambda>u. u\<lparr>next_task := next_task (tasks s t)\<rparr>) (prev_task (tasks s t)) s else s) = s1"
    unfolding b c(2) l0 s1_def by simp
  have r2: "(if t = task_head s1 then s1\<lparr>task_head := next_task (tasks s1 t)\<rparr> else s1) = s2"
    unfolding Tt c(2) s2_def ..
  have "tasks s2 = tasks s1" "tasks s3 = tasks s2" by (simp_all add: s2_def s3_def)
  then have t2: "tasks s2 t = tasks s t" and t3: "tasks s3 t = tasks s t" using Tt by simp_all
  have r3: "(if t = task_tail s2 then s2\<lparr>task_tail := prev_task (tasks s2 t)\<rparr> else s2) = s3"
    unfolding t2 b s3_def ..
  have g: "t = current_task s3 \<Longrightarrow> task_get_next s3 = Inr (if ?n = 0 then task_head s3 else ?n)"
    using nz(3) t3 c(2) by (auto simp: task_get_next_def)
  have r: "task_list_remove t s = ret s4"
    unfolding task_list_remove_def Let_def r1 r2 r3
    by (cases "t = current_task s3") (simp_all add: s4_def g)
  have E: "task_head s = hd (us @ [t])" "task_tail s = last (t # vs)" "current_task s \<in> set (us @ t # vs)"
    using e by (auto simp: task_ends_def hd_append)
  have h: "task_head s4 = hd ((us @ vs) @ [0])"
    using E(1) d(3) by (cases us) (auto simp: s4_def s3_def s2_def s1_def)
  moreover have "task_tail s4 = last (0 # us @ vs)"
    using E(2) d(4) by (cases vs rule: rev_cases) (auto simp: s4_def s3_def s2_def s1_def)
  moreover have cur: "current_task s3 = current_task s" "task_head s3 = task_head s4"
    by (simp_all add: s4_def s3_def s2_def s1_def)
  moreover have "if us @ vs = [] then current_task s4 = 0 else current_task s4 \<in> set (us @ vs)"
    using E(3) h hv cur unfolding s4_def by (cases us; cases vs) auto
  ultimately have "task_ends (us @ vs) s4" by (simp add: task_ends_def)
  moreover have "chain (tasks s4) us ?n" if "us \<noteq> []"
    using c(1) d(1) that by (rule chain_relink) (simp_all add: T that)
  moreover have lv: "us \<noteq> [] \<Longrightarrow> last us \<notin> set vs" using lu d(5) by blast
  have "chain (tasks s4) vs 0 = chain (tasks s) vs 0" by (rule chain_cong) (use lv T in auto)
  moreover note c(3)
  ultimately have "task_chain (us @ vs) s4"
    using d nz by (cases "us = []") (auto simp: task_chain_def chain_append)
  moreover have "prev_task (tasks s4 x) = prev_task (tasks s x)" for x by (simp add: T)
  moreover have "t \<noteq> current_task s \<longrightarrow> current_task s4 = current_task s" using cur by (simp add: s4_def)
  moreover have "kmem s4 = kmem s" by (simp add: s4_def s3_def s2_def s1_def)
  moreover have "x = 0 \<or> x \<notin> set us \<longrightarrow> tasks s4 x = tasks s x" for x using lu lz by (auto simp: T)
  moreover have "page_directory (tasks s4 x) = page_directory (tasks s x)" for x by (simp add: T)
  ultimately show ?thesis using r unfolding remove_result_def by blast
qed

text \<open>Only when the last task goes are the links back right again.\<close>

lemma list_remove_last:
  assumes "task_list (us @ [t]) s" "remove_result us t [] s s'"
  shows "task_list us s'"
proof -
  have "back_chain (tasks s') 0 us = back_chain (tasks s) 0 us"
    using assms(2) by (intro back_chain_cong) (simp add: remove_result_def)
  then show ?thesis using assms by (simp add: task_list_def remove_result_def back_chain_append)
qed

text \<open>The task after the removed one keeps its link back to it.\<close>

lemma list_remove_stale:
  assumes "task_list (us @ t # v # vs) s" "remove_result us t (v # vs) s s'"
  shows "prev_task (tasks s' v) = t"
  using assms by (simp add: task_list_def remove_result_def back_chain_append)

section \<open>Tasks in the heap\<close>

text \<open>The blocks of a task: its record and its address space.\<close>

definition task_owns :: "mem \<Rightarrow> (addr \<Rightarrow> task) \<Rightarrow> addr \<Rightarrow> nat set \<Rightarrow> bool" where
  "task_owns m T t B \<longleftrightarrow> (\<exists>b cb d tb. t = kblock b \<and> b < 25600 \<and> page_directory (T t) = kblock cb
     \<and> chunk_blocks m cb d tb \<and> b \<notin> space_blocks cb d tb \<and> B = insert b (space_blocks cb d tb))"

text \<open>
  The invariant of the task list: it is linked both ways, and every task has its own blocks,
  all of them in use.
\<close>

definition tasks_ok :: "(addr \<Rightarrow> nat set) \<Rightarrow> addr list \<Rightarrow> 'a kernel_state_scheme \<Rightarrow> bool" where
  "tasks_ok own ts s \<longleftrightarrow> task_list ts s
     \<and> (\<forall>t \<in> set ts. task_owns (kmem s) (tasks s) t (own t) \<and> own t \<subseteq> kused (kmem s))
     \<and> (\<forall>t \<in> set ts. \<forall>u \<in> set ts. t \<noteq> u \<longrightarrow> own t \<inter> own u = {})"

lemma task_owns_cong:
  assumes "task_owns m T t B" "page_directory (T' t) = page_directory (T t)"
    "\<And>cb d tb. chunk_blocks m cb d tb \<Longrightarrow> space_blocks cb d tb \<subseteq> B \<Longrightarrow> chunk_blocks m' cb d tb"
  shows "task_owns m' T' t B"
  using assms(1,2) assms(3) unfolding task_owns_def by (elim exE conjE) (intro exI conjI, auto)

lemma task_owns_ext:
  "kext m m' \<Longrightarrow> B \<subseteq> kused m \<Longrightarrow> task_owns m T t B \<Longrightarrow> page_directory (T' t) = page_directory (T t) \<Longrightarrow>
    task_owns m' T' t B"
  by (erule task_owns_cong, assumption) (blast intro: chunk_blocks_ext(1))

lemma task_owns_table_only:
  "table_only m m' \<Longrightarrow> task_owns m T t B \<Longrightarrow> page_directory (T' t) = page_directory (T t) \<Longrightarrow> task_owns m' T' t B"
  by (erule task_owns_cong, assumption) (blast intro: chunk_blocks_table_only)

lemma task_owns_card: "task_owns m T t B \<Longrightarrow> card B = 1027"
  by (auto simp: task_owns_def space_blocks_def chunk_blocks_def card_image card_insert_if image_iff)

lemma zero_task_sel [simp]:
  "page_directory zero_task = 0" "next_task zero_task = 0" "prev_task zero_task = 0"
  "task_process zero_task = 0" "task_registers zero_task = zero_registers"
  by (simp_all add: zero_task_def)

text \<open>The registers a task starts with.\<close>

definition start_registers :: registers where
  "start_registers = zero_registers\<lparr>reg_ip := 0x400000, reg_ss := 0x23, reg_cs := 0x1b, reg_esp := 0x3FF000\<rparr>"

text \<open>A task that is allocated but not in the list yet.\<close>

lemma task_init_new:
  assumes "card (kused (kmem s)) + 1026 \<le> 25600" "b \<in> kused (kmem s)"
  shows "\<exists>cb d tb m'. task_init (kblock b) p s = ret (0, s\<lparr>kmem := m', tasks := (tasks s)(kblock b :=
        \<lparr>page_directory = kblock cb, task_registers = start_registers, task_process = p, next_task = 0, prev_task = 0\<rparr>)\<rparr>)
    \<and> chunk_blocks m' cb d tb \<and> kused m' = kused (kmem s) \<union> space_blocks cb d tb
    \<and> space_blocks cb d tb \<inter> kused (kmem s) = {}
    \<and> (\<forall>x. kstable (kmem s) x \<longrightarrow> 64 \<le> unat (x - kblock b) \<longrightarrow> m' x = kmem s x)
    \<and> (\<forall>va. page va \<longrightarrow> paging_get m' (load32 m' (kblock cb)) va = va OR 5)"
proof -
  let ?m0 = "snd (memset (kmem s) (kblock b) 0 64)"
  have b: "b < 25600" using assms(2) by (rule kused_less)
  have m0: "?m0 = mem_fill (kmem s) (kblock b) 64 (\<lambda>_. 0)" by (simp add: memset_fill)
  have u: "kused ?m0 = kused (kmem s)" unfolding m0 using b by (intro kused_fill) auto
  obtain cb d tb m' where n: "paging_new_4gb ?m0 5 = Inr (kblock cb, m')" "chunk_blocks m' cb d tb"
    "kused m' = kused (kmem s) \<union> space_blocks cb d tb" "space_blocks cb d tb \<inter> kused (kmem s) = {}"
    "\<And>j k. j < 1024 \<Longrightarrow> k < 1024 \<Longrightarrow> word_at m' (kblock (tb j)) k = of_nat (4096 * (1024 * j + k)) OR ucast (5 :: u8)"
    using new_4gb [of ?m0 5] assms(1) unfolding u by (auto simp del: of_nat_mult of_nat_add)
  have f: "PAGING_IS_PRESENT OR PAGING_ACCESS_FROM_ALL = 5" by simp
  have cb: "kblock cb \<noteq> 0" using n(2) kblock_nonzero by (simp add: chunk_blocks_def)
  have "task_init (kblock b) p s = ret (0, s\<lparr>kmem := m', tasks := (tasks s)(kblock b :=
        \<lparr>page_directory = kblock cb, task_registers = start_registers, task_process = p, next_task = 0, prev_task = 0\<rparr>)\<rparr>)"
    using n(1) cb unfolding task_init_def f
    by (simp add: Let_def with_task_def zero_task_def start_registers_def)
  moreover have "m' x = kmem s x" if "kstable (kmem s) x" "64 \<le> unat (x - kblock b)" for x
  proof -
    have "kstable ?m0 x" using that(1) by (simp add: kstable_def u)
    then have "m' x = ?m0 x" using new_4gb_ext [OF n(1)] by (simp add: kextD)
    then show ?thesis using that(2) by (simp add: m0 mem_fill_out)
  qed
  moreover have "paging_get m' (load32 m' (kblock cb)) va = va OR 5" if "page va" for va
    using chunk_identity [OF n(2,5) that] by simp
  ultimately show ?thesis using n(2-4) by blast
qed

text \<open>\<open>task_new\<close> needs 1027 blocks.\<close>

definition task_frame :: "'a kernel_state_scheme \<Rightarrow> 'a kernel_state_scheme \<Rightarrow> bool" where
  "task_frame s s' \<longleftrightarrow> s' = s\<lparr>kmem := kmem s', tasks := tasks s', task_head := task_head s', task_tail := task_tail s',
     current_task := current_task s'\<rparr>"

definition task_created :: "addr \<Rightarrow> addr list \<Rightarrow> 'a kernel_state_scheme \<Rightarrow> addr \<Rightarrow> nat set \<Rightarrow> 'a kernel_state_scheme \<Rightarrow> bool" where
  "task_created p ts s t B s' \<longleftrightarrow> task_frame s s' \<and> t \<notin> set ts \<and> task_list (ts @ [t]) s' \<and> task_owns (kmem s') (tasks s') t B
     \<and> kused (kmem s') = kused (kmem s) \<union> B \<and> B \<inter> kused (kmem s) = {} \<and> kext (kmem s) (kmem s')
     \<and> task_registers (tasks s' t) = start_registers \<and> task_process (tasks s' t) = p
     \<and> (\<forall>u. u \<noteq> t \<longrightarrow> page_directory (tasks s' u) = page_directory (tasks s u)
         \<and> task_registers (tasks s' u) = task_registers (tasks s u) \<and> task_process (tasks s' u) = task_process (tasks s u))
     \<and> (\<forall>va. page va \<longrightarrow> paging_get (kmem s') (load32 (kmem s') (page_directory (tasks s' t))) va = va OR 5)"

lemma task_new_created:
  assumes "task_list ts s" "\<forall>t \<in> set ts. \<exists>b \<in> kused (kmem s). t = kblock b" "card (kused (kmem s)) + 1027 \<le> 25600"
  shows "\<exists>t B s'. task_new p s = ret (t, s') \<and> task_created p ts s t B s'"
proof -
  obtain b m1 where z: "kzalloc (kmem s) 64 = (kblock b, m1)" "b < 25600" "b \<notin> kused (kmem s)"
    "kused m1 = insert b (kused (kmem s))" "kext (kmem s) m1" "card (kused m1) = Suc (card (kused (kmem s)))" "kblock b \<noteq> 0"
    using kzalloc_new [of "kmem s" 64] assms(3) by auto
  let ?s1 = "s\<lparr>kmem := m1\<rparr>" and ?t = "kblock b"
  obtain cb d tb m' where i: "task_init ?t p ?s1 = ret (0, ?s1\<lparr>kmem := m', tasks := (tasks s)(?t :=
        \<lparr>page_directory = kblock cb, task_registers = start_registers, task_process = p, next_task = 0, prev_task = 0\<rparr>)\<rparr>)"
    "chunk_blocks m' cb d tb" "kused m' = kused m1 \<union> space_blocks cb d tb" "space_blocks cb d tb \<inter> kused m1 = {}"
    "\<And>x. kstable m1 x \<Longrightarrow> 64 \<le> unat (x - ?t) \<Longrightarrow> m' x = m1 x"
    "\<And>va. page va \<Longrightarrow> paging_get m' (load32 m' (kblock cb)) va = va OR 5"
    using task_init_new [of ?s1 b p] z(4,6) assms(3) by auto
  let ?T = "(tasks s)(?t := \<lparr>page_directory = kblock cb, task_registers = start_registers, task_process = p,
    next_task = 0, prev_task = 0\<rparr>)"
  let ?B = "insert b (space_blocks cb d tb)"
  have L: "distinct ts" "0 \<notin> set ts" "chain (tasks s) ts 0" "back_chain (tasks s) 0 ts" "task_ends ts s"
    using assms(1) by (simp_all add: task_list_def task_chain_def)
  have t: "?t \<notin> set ts" using assms(2) z(2,3) kblock_inj kused_less by blast
  have ext: "kext (kmem s) m'"
    unfolding kext_def
  proof (intro conjI allI impI)
    fix x assume x: "kstable (kmem s) x"
    have "4096 \<le> unat (x - ?t)" using x z(2,3) by (simp add: kstable_def)
    then show "m' x = kmem s x" using i(5) [OF kext_stable [OF z(5) x]] kextD(1) [OF z(5) x] by simp
  qed (use z(4) i(3) in auto)
  have own: "task_owns m' T ?t ?B" if "page_directory (T ?t) = kblock cb" for T
    unfolding task_owns_def using that i(2,4) z(2,4) by blast
  have used: "kused m' = kused (kmem s) \<union> ?B" "?B \<inter> kused (kmem s) = {}" using i(3,4) z(3,4) by auto
  show ?thesis
  proof (cases "ts = []")
    case True
    define s' where "s' = s\<lparr>kmem := m', tasks := ?T, task_head := ?t, task_tail := ?t, current_task := ?t\<rparr>"
    have "task_new p s = ret (?t, s')"
      using z(1,7) i(1) L(5) True by (simp add: task_new_def Let_def s'_def task_ends_def)
    moreover have "task_created p ts s ?t ?B s'"
      unfolding task_created_def using t own used ext i(6) z(7) True
      by (simp add: s'_def task_list_def task_chain_def task_ends_def task_frame_def)
    ultimately show ?thesis by blast
  next
    case False
    then have e: "last ts \<in> set ts" "hd ts \<in> set ts" "task_head s = hd ts" "task_tail s = last ts"
      using L(5) by (simp_all add: task_ends_def)
    have l: "last ts \<noteq> 0" "last ts \<noteq> ?t" "task_head s \<noteq> 0" using e L(2) t by metis+
    define T where "T = ?T(last ts := (tasks s (last ts))\<lparr>next_task := ?t\<rparr>, ?t := (?T ?t)\<lparr>prev_task := last ts\<rparr>)"
    define s' where "s' = s\<lparr>kmem := m', tasks := T, task_tail := ?t\<rparr>"
    have new: "task_new p s = ret (?t, s')"
      using z(1,7) i(1) l e(4) by (simp add: task_new_def Let_def s'_def with_task_def T_def)
    have T: "next_task (T u) = (if u = last ts then ?t else if u = ?t then 0 else next_task (tasks s u))"
        "prev_task (T u) = (if u = ?t then last ts else prev_task (tasks s u))" for u
      using l(2) by (auto simp: T_def)
    have "chain T ts ?t"
      using L(3,1) False by (rule chain_relink) (use t in \<open>auto simp: T\<close>)
    moreover have "back_chain T 0 ts = back_chain (tasks s) 0 ts" by (rule back_chain_cong) (use t T in auto)
    ultimately have lst: "task_list (ts @ [?t]) s'"
      using L t l e z(7) False
      by (auto simp: task_list_def task_chain_def task_ends_def s'_def chain_append back_chain_append T hd_append)
    have "task_created p ts s ?t ?B s'"
      unfolding task_created_def using t own [of T] used ext i(6) l(2) lst
      by (auto simp: s'_def T_def task_frame_def)
    with new show ?thesis by blast
  qed
qed

text \<open>With fewer blocks the kernel writes or reads through NULL.\<close>

lemma task_new_faults:
  assumes "25600 < card (kused (kmem s)) + 1027"
  shows "task_new p s = faulty NullDeref"
proof (cases "kfull (kmem s)")
  case True
  then have "kzalloc (kmem s) 64 = (0, kmem s)" by (simp add: kzalloc_page)
  then show ?thesis by (simp add: task_new_def task_free_def)
next
  case False
  then have "card (kused (kmem s)) < 25600" by (simp add: kfull_card)
  then obtain b m1 where z: "kzalloc (kmem s) 64 = (kblock b, m1)" "b < 25600"
    "card (kused m1) = Suc (card (kused (kmem s)))" "kblock b \<noteq> 0"
    using kzalloc_new [of "kmem s" 64] by auto
  let ?m0 = "snd (memset m1 (kblock b) 0 64)"
  have "kused ?m0 = kused m1" using z(2) by (simp add: memset_fill)
  then have "paging_new_4gb ?m0 5 = Inl NullDeref" using new_4gb [of ?m0 5] z(3) assms by simp
  then have "task_init (kblock b) p (s\<lparr>kmem := m1\<rparr>) = faulty NullDeref" by (simp add: task_init_def)
  then show ?thesis using z(1,4) by (simp add: task_new_def)
qed

lemma tasks_okD:
  assumes "tasks_ok own ts s"
  shows "task_list ts s" "t \<in> set ts \<Longrightarrow> task_owns (kmem s) (tasks s) t (own t)"
    "t \<in> set ts \<Longrightarrow> own t \<subseteq> kused (kmem s)"
    "t \<in> set ts \<Longrightarrow> u \<in> set ts \<Longrightarrow> t \<noteq> u \<Longrightarrow> own t \<inter> own u = {}"
  using assms by (simp_all add: tasks_ok_def)

lemma tasks_ok_blocks: "tasks_ok own ts s \<Longrightarrow> t \<in> set ts \<Longrightarrow> \<exists>b \<in> kused (kmem s). t = kblock b"
  using tasks_okD(2,3) [of own ts s t] unfolding task_owns_def by auto

lemma tasks_ok_same:
  assumes "tasks_ok own ts s" "kmem s' = kmem s"
    "\<And>u. page_directory (tasks s' u) = page_directory (tasks s u) \<and> next_task (tasks s' u) = next_task (tasks s u)
      \<and> prev_task (tasks s' u) = prev_task (tasks s u)"
    "task_head s' = task_head s" "task_tail s' = task_tail s" "current_task s' = current_task s"
  shows "tasks_ok own ts s'"
proof -
  have "chain (tasks s') ts 0 = chain (tasks s) ts 0" by (rule chain_cong) (simp add: assms(3))
  moreover have "back_chain (tasks s') 0 ts = back_chain (tasks s) 0 ts" by (rule back_chain_cong) (simp add: assms(3))
  ultimately have "task_list ts s'"
    using tasks_okD(1) [OF assms(1)] assms(4-6) by (simp add: task_list_def task_chain_def task_ends_def)
  then show ?thesis using assms(1-3) by (simp add: tasks_ok_def task_owns_def)
qed

lemma tasks_ok_new:
  assumes ok: "tasks_ok own ts s" and c: "task_created p ts s t B s'"
  shows "tasks_ok (own(t := B)) (ts @ [t]) s'"
proof -
  have c': "t \<notin> set ts" "task_list (ts @ [t]) s'" "task_owns (kmem s') (tasks s') t B"
    "kused (kmem s') = kused (kmem s) \<union> B" "B \<inter> kused (kmem s) = {}" "kext (kmem s) (kmem s')"
    "\<And>u. u \<noteq> t \<Longrightarrow> page_directory (tasks s' u) = page_directory (tasks s u)"
    using c by (simp_all add: task_created_def)
  have old: "task_owns (kmem s') (tasks s') u (own u)" "own u \<subseteq> kused (kmem s)" "u \<noteq> t" if "u \<in> set ts" for u
  proof -
    show "u \<noteq> t" "own u \<subseteq> kused (kmem s)" using that c'(1) tasks_okD(3) [OF ok] by auto
    then show "task_owns (kmem s') (tasks s') u (own u)"
      using task_owns_ext [OF c'(6)] tasks_okD(2) [OF ok that] c'(7) by blast
  qed
  have "own u \<inter> B = {}" "own u \<subseteq> kused (kmem s')" if "u \<in> set ts" for u
    using old(2) [OF that] c'(4,5) by blast+
  then show ?thesis
    unfolding tasks_ok_def using c' old(1,3) tasks_okD(4) [OF ok] by auto
qed

text \<open>What \<open>task_free\<close> does to a list in order.\<close>

lemma task_free_ok:
  assumes ok: "tasks_ok own (us @ t # vs) s"
  shows "\<exists>s'. task_free t s = ret (0, s') \<and> task_chain (us @ vs) s'
    \<and> kused (kmem s') = kused (kmem s) - own t
    \<and> (\<forall>u \<in> set (us @ vs). task_owns (kmem s') (tasks s') u (own u))
    \<and> (vs = [] \<longrightarrow> tasks_ok own us s')"
proof -
  obtain b cb d tb where o: "t = kblock b" "b < 25600" "page_directory (tasks s t) = kblock cb"
    "chunk_blocks (kmem s) cb d tb" "b \<notin> space_blocks cb d tb" "own t = insert b (space_blocks cb d tb)"
    using tasks_okD(2) [OF ok, of t] by (auto simp: task_owns_def)
  let ?m1 = "paging_free_4gb (kmem s) (kblock cb)"
  have nz: "t \<noteq> 0" "page_directory (tasks s t) \<noteq> 0"
    using o kblock_nonzero by (auto simp: chunk_blocks_def)
  have L: "task_list (us @ t # vs) s" "task_list (us @ t # vs) (s\<lparr>kmem := ?m1\<rparr>)"
    using tasks_okD(1) [OF ok] by simp_all
  obtain s1 where r: "remove_result us t vs (s\<lparr>kmem := ?m1\<rparr>) s1" using list_remove [OF L(2)] by blast
  define s' where "s' = s1\<lparr>kmem := kfree ?m1 t\<rparr>"
  have R: "task_list_remove t (s\<lparr>kmem := ?m1\<rparr>) = ret s1" "task_chain (us @ vs) s1" "kmem s1 = ?m1"
    "\<And>x. page_directory (tasks s1 x) = page_directory (tasks s x)"
    using r by (simp_all add: remove_result_def)
  have "task_free t s = ret (0, s')"
    using nz o(3) R(1,3) by (simp add: task_free_def Let_def s'_def)
  moreover have ch: "task_chain (us @ vs) s'"
    using R(2) by (simp add: s'_def)
  moreover have used: "kused (kmem s') = kused (kmem s) - own t"
    unfolding o(6) s'_def unfolding o(1) using kused_kfree [OF o(2)] free_4gb [OF o(4)] by auto
  moreover have only: "table_only (kmem s) (kmem s')"
    using table_only_trans [OF free_4gb_table_only [OF o(4)] table_only_kfree [OF o(2)]] by (simp add: s'_def o(1))
  have owns: "task_owns (kmem s') (tasks s') u (own u)" if "u \<in> set (us @ vs)" for u
  proof (rule task_owns_table_only [OF only])
    show "task_owns (kmem s) (tasks s) u (own u)" using tasks_okD(2) [OF ok] that by simp
  qed (simp add: s'_def R(4))
  moreover have "tasks_ok own us s'" if "vs = []"
  proof -
    have "task_list us s1" using list_remove_last [of us t "s\<lparr>kmem := ?m1\<rparr>" s1] L(2) r that by simp
    moreover have "t \<notin> set us" using L(1) by (auto simp: task_list_def task_chain_def)
    then have "own u \<subseteq> kused (kmem s')" if "u \<in> set us" for u
      using that tasks_okD(3,4) [OF ok, of u] tasks_okD(4) [OF ok, of u t] used by auto
    ultimately show ?thesis
      using that owns tasks_okD(4) [OF ok] by (simp add: tasks_ok_def s'_def)
  qed
  ultimately show ?thesis by blast
qed

section \<open>Turns\<close>

text \<open>The scheduler's step: switch to the task after the current one.\<close>

definition task_turn :: "'a kernel_state_scheme \<Rightarrow> 'a kernel_state_scheme prog" where
  "task_turn s = prog_bind (of_run (task_get_next s)) (\<lambda>t. prog_bind (task_switch t s) (\<lambda>(_, s). ret s))"

fun task_turns :: "nat \<Rightarrow> 'a kernel_state_scheme \<Rightarrow> 'a kernel_state_scheme prog" where
  "task_turns 0 s = ret s"
| "task_turns (Suc n) s = prog_bind (task_turn s) (task_turns n)"

lemma chain_nth: "chain T ts q \<Longrightarrow> i < length ts \<Longrightarrow> next_task (T (ts ! i)) = (ts @ [q]) ! Suc i"
proof (induction ts arbitrary: i)
  case (Cons t ts)
  then show ?case by (cases i; cases ts) auto
qed simp

text \<open>The state in which the task has the processor.\<close>

definition on_processor :: "addr \<Rightarrow> 'a kernel_state_scheme \<Rightarrow> 'a kernel_state_scheme" where
  "on_processor t s = s\<lparr>current_task := t, kmmu := paging_switch (kmem s) (page_directory (tasks s t)) (kmmu s)\<rparr>"

lemma on_processor_again [simp]: "on_processor t (on_processor u s) = on_processor t s"
  by (simp add: on_processor_def paging_switch_def)

lemma tasks_ok_on_processor: "tasks_ok own ts s \<Longrightarrow> t \<in> set ts \<Longrightarrow> tasks_ok own ts (on_processor t s)"
  by (auto simp: tasks_ok_def task_list_def task_chain_def task_ends_def on_processor_def)

lemma turn_next:
  assumes ok: "tasks_ok own ts s" and i: "i < length ts" "current_task s = ts ! i"
  shows "task_turn s = ret (on_processor (ts ! (Suc i mod length ts)) s)"
proof -
  have L: "0 \<notin> set ts" "chain (tasks s) ts 0" "task_head s = hd (ts @ [0])"
    using tasks_okD(1) [OF ok] by (simp_all add: task_list_def task_chain_def task_ends_def)
  let ?j = "Suc i mod length ts"
  have "?j < length ts" by (rule mod_less_divisor) (use i(1) in linarith)
  then have j: "ts ! ?j \<in> set ts" by (rule nth_mem)
  have nz: "ts ! i \<noteq> 0" "ts ! ?j \<noteq> 0" using i(1) j L(1) nth_mem by metis+
  have "task_get_next s = Inr (ts ! ?j)"
  proof (cases "Suc i = length ts")
    case True
    then show ?thesis
      using chain_nth [OF L(2) i(1)] nz i L(3) by (cases ts) (auto simp: task_get_next_def nth_append)
  next
    case False
    then show ?thesis
      using chain_nth [OF L(2) i(1)] nz i by (simp add: task_get_next_def nth_append)
  qed
  moreover have "page_directory (tasks s (ts ! ?j)) \<noteq> 0"
    using tasks_okD(2) [OF ok j] kblock_nonzero by (auto simp: task_owns_def chunk_blocks_def)
  ultimately show ?thesis
    using nz by (simp add: task_turn_def task_switch_def switch_chunk_def Let_def on_processor_def)
qed

lemma turns_round:
  "tasks_ok own ts s \<Longrightarrow> i < length ts \<Longrightarrow> current_task s = ts ! i \<Longrightarrow> 0 < n \<Longrightarrow>
    task_turns n s = ret (on_processor (ts ! ((i + n) mod length ts)) s)"
proof (induction n arbitrary: s i)
  case (Suc n)
  let ?j = "Suc i mod length ts"
  have j: "?j < length ts" by (rule mod_less_divisor) (use Suc.prems(2) in linarith)
  let ?s = "on_processor (ts ! ?j) s"
  have t: "task_turn s = ret ?s" using turn_next Suc.prems by blast
  have ok: "tasks_ok own ts ?s" using tasks_ok_on_processor Suc.prems(1) nth_mem [OF j] by blast
  show ?case
  proof (cases n)
    case 0
    with t show ?thesis by simp
  next
    case (Suc k)
    have "current_task ?s = ts ! ?j" by (simp add: on_processor_def)
    with Suc.IH [OF ok j] Suc have "task_turns n ?s = ret (on_processor (ts ! ((?j + n) mod length ts)) ?s)" by simp
    then show ?thesis using t by (simp add: mod_add_left_eq)
  qed
qed simp

section \<open>Properties\<close>

text \<open>A kernel without tasks and with an empty heap.\<close>

definition no_tasks :: "kernel_state \<Rightarrow> kernel_state" where
  "no_tasks s = s\<lparr>kmem := (\<lambda>_. 0), task_head := 0, task_tail := 0, current_task := 0\<rparr>"

lemma no_tasks: "tasks_ok own [] (no_tasks s)" "kused (kmem (no_tasks s)) = {}"
  by (simp_all add: tasks_ok_def task_list_def task_chain_def task_ends_def no_tasks_def)

lemma two_tasks: "\<exists>own t u (s :: kernel_state). tasks_ok own [t, u] s \<and> t \<noteq> u"
proof -
  define s0 :: kernel_state where "s0 = no_tasks undefined"
  have s0: "tasks_ok (\<lambda>_. {}) [] s0" "kused (kmem s0) = {}" by (simp_all add: s0_def no_tasks)
  obtain t B s1 where c: "task_created 0 [] s0 t B s1"
    using task_new_created [OF tasks_okD(1) [OF s0(1)], of 0] s0(2) by auto
  note s1 = tasks_ok_new [OF s0(1) c, simplified]
  have "kused (kmem s1) = B" using c s0(2) by (simp add: task_created_def)
  moreover have "card B = 1027" using c unfolding task_created_def by (blast intro: task_owns_card)
  ultimately have "card (kused (kmem s1)) + 1027 \<le> 25600" by simp
  then obtain u C s2 where c2: "task_created 0 [t] s1 u C s2"
    using task_new_created [OF tasks_okD(1) [OF s1]] tasks_ok_blocks [OF s1] by blast
  have "u \<noteq> t" using c2 by (simp add: task_created_def)
  then show ?thesis using tasks_ok_new [OF s1 c2] by fastforce
qed

text \<open>
  C11: With 1027 blocks free \<open>task_new\<close> appends a task to the list: the list stays linked in
  both directions, the new task has blocks of its own for its record and its address space,
  which maps every page to itself for reading by everybody, its registers are those a program
  starts with, and nothing in use before is changed. With fewer blocks free the kernel goes
  through a NULL pointer.
\<close>

theorem task_new_spec:
  assumes "tasks_ok own ts s"
  shows "if card (kused (kmem s)) + 1027 \<le> 25600
    then \<exists>t B s'. task_new p s = ret (t, s') \<and> tasks_ok (own(t := B)) (ts @ [t]) s'
      \<and> kused (kmem s') = kused (kmem s) \<union> B \<and> B \<inter> kused (kmem s) = {} \<and> kext (kmem s) (kmem s')
      \<and> task_registers (tasks s' t) = start_registers \<and> task_process (tasks s' t) = p
      \<and> (\<forall>va. page va \<longrightarrow> paging_get (kmem s') (load32 (kmem s') (page_directory (tasks s' t))) va = va OR 5)
    else task_new p s = faulty NullDeref"
proof (cases "card (kused (kmem s)) + 1027 \<le> 25600")
  case True
  then obtain t B s' where "task_new p s = ret (t, s')" and c: "task_created p ts s t B s'"
    using task_new_created [OF tasks_okD(1) [OF assms]] tasks_ok_blocks [OF assms] by blast
  moreover note tasks_ok_new [OF assms c]
  ultimately show ?thesis using True c unfolding task_created_def by auto
next
  case False
  then show ?thesis using task_new_faults [of s p] by simp
qed

theorem task_new_spec_witness:
  "\<forall>s. \<exists>t s'. task_new 0 (no_tasks s) = ret (t, s') \<and> task_registers (tasks s' t) = start_registers"
proof
  fix s
  show "\<exists>t s'. task_new 0 (no_tasks s) = ret (t, s') \<and> task_registers (tasks s' t) = start_registers"
    using task_new_spec [OF no_tasks(1) [of "\<lambda>_. {}"], of s 0] by (auto simp: no_tasks(2))
qed

text \<open>
  C28: Freeing the task created last undoes its creation: the list is what it was, in both
  directions, and exactly the blocks of the task are free again.
\<close>

theorem task_new_free:
  assumes "tasks_ok own ts s" "card (kused (kmem s)) + 1027 \<le> 25600"
  shows "\<exists>t s1 s2. task_new p s = ret (t, s1) \<and> task_free t s1 = ret (0, s2)
    \<and> tasks_ok own ts s2 \<and> kused (kmem s2) = kused (kmem s)"
proof -
  obtain t B s1 where n: "task_new p s = ret (t, s1)" and c: "task_created p ts s t B s1"
    using task_new_created [OF tasks_okD(1) [OF assms(1)]] tasks_ok_blocks [OF assms(1)] assms(2) by blast
  obtain s2 where f: "task_free t s1 = ret (0, s2)" "kused (kmem s2) = kused (kmem s1) - B"
      "tasks_ok (own(t := B)) ts s2"
    using task_free_ok [of "own(t := B)" ts t "[]" s1] tasks_ok_new [OF assms(1) c] by auto
  have "t \<notin> set ts" "kused (kmem s2) = kused (kmem s)" using c f(2) by (auto simp: task_created_def)
  moreover from this f(3) have "tasks_ok own ts s2" by (auto simp: tasks_ok_def split: if_splits)
  ultimately show ?thesis using n f(1) by blast
qed

theorem task_new_free_witness:
  "\<forall>s. \<exists>t s1 s2. task_new 0 (no_tasks s) = ret (t, s1) \<and> task_free t s1 = ret (0, s2) \<and> kused (kmem s2) = {}"
proof
  fix s
  show "\<exists>t s1 s2. task_new 0 (no_tasks s) = ret (t, s1) \<and> task_free t s1 = ret (0, s2) \<and> kused (kmem s2) = {}"
    using task_new_free [OF no_tasks(1) [of "\<lambda>_. {}"], of s 0] by (auto simp: no_tasks(2))
qed

text \<open>
  C29: A task that follows a removed one keeps its link to it. Removing the last but one task
  and then the last one leaves the tail of the list at the task removed first, whose record
  is free by then, and the remaining tasks still lead to the one removed last.
\<close>

theorem task_list_remove_dangles:
  assumes "task_list (us @ [t, u]) s" "us \<noteq> []"
  shows "\<exists>s1 s2. task_list_remove t s = ret s1 \<and> task_list_remove u s1 = ret s2
    \<and> task_tail s2 = t \<and> chain (tasks s2) us u"
proof -
  have d: "u \<notin> set us" "t \<notin> set us" "t \<noteq> u" "t \<noteq> 0" "u \<noteq> 0" "hd us \<in> set us"
    using assms by (auto simp: task_list_def task_chain_def)
  obtain s1 where r: "remove_result us t [u] s s1" using list_remove [of us t "[u]" s] assms(1) by auto
  then have s1: "task_list_remove t s = ret s1" "chain (tasks s1) us u" "next_task (tasks s1 u) = 0"
      "task_head s1 = hd us" "task_tail s1 = u" "prev_task (tasks s1 u) = t"
    using list_remove_stale [of us t u "[]" s s1] assms
    by (auto simp: remove_result_def task_chain_def chain_append task_ends_def)
  have h: "task_head s1 \<noteq> u" using s1(4) d by metis
  have "\<exists>s2. task_list_remove u s1 = ret s2 \<and> task_tail s2 = t
      \<and> tasks s2 = (tasks s1)(t := (tasks s1 t)\<lparr>next_task := 0\<rparr>)"
    using s1(3,5,6) h d by (auto simp: task_list_remove_def Let_def task_get_next_def)
  then obtain s2 where s2: "task_list_remove u s1 = ret s2" "task_tail s2 = t"
      "tasks s2 = (tasks s1)(t := (tasks s1 t)\<lparr>next_task := 0\<rparr>)" by blast
  have "chain (tasks s2) us u = chain (tasks s1) us u" by (rule chain_cong) (use d(2) s2(3) in auto)
  with s1(1,2) s2 show ?thesis by blast
qed

theorem task_list_remove_dangles_witness:
  defines "rec \<equiv> (\<lambda>n p. \<lparr>page_directory = 0, task_registers = zero_registers, task_process = 0, next_task = n, prev_task = p\<rparr>)"
  shows "\<forall>s. \<exists>s1 s2. task_list_remove 16 (s\<lparr>task_head := 8, task_tail := 24, current_task := 8,
      tasks := (\<lambda>_. zero_task)(8 := rec 16 0, 16 := rec 24 8, 24 := rec 0 16)\<rparr> :: kernel_state) = ret s1
    \<and> task_list_remove 24 s1 = ret s2 \<and> task_tail s2 = 16 \<and> next_task (tasks s2 8) = 24"
proof
  fix s :: kernel_state
  let ?s = "s\<lparr>task_head := 8, task_tail := 24, current_task := 8,
      tasks := (\<lambda>_. zero_task)(8 := rec 16 0, 16 := rec 24 8, 24 := rec 0 16)\<rparr>"
  have "task_list [8, 16, 24] ?s" by (simp add: task_list_def task_chain_def task_ends_def rec_def)
  then show "\<exists>s1 s2. task_list_remove 16 ?s = ret s1
    \<and> task_list_remove 24 s1 = ret s2 \<and> task_tail s2 = 16 \<and> next_task (tasks s2 8) = 24"
    using task_list_remove_dangles [of "[8]" 16 24 ?s] by auto
qed

text \<open>
  C12: Every task gets its turn. Switching again and again to the task \<open>task_get_next\<close> names
  makes each task of the list the current one, with its own page directory loaded, after at
  most as many switches as there are tasks.
\<close>

theorem every_task_gets_its_turn:
  assumes "tasks_ok own ts s" "t \<in> set ts"
  shows "\<exists>n s'. 0 < n \<and> n \<le> length ts \<and> task_turns n s = ret s' \<and> current_task s' = t
    \<and> cr3 (kmmu s') = load32 (kmem s') (page_directory (tasks s' t)) \<and> tasks_ok own ts s'"
proof -
  obtain j where j: "j < length ts" "t = ts ! j" using assms(2) by (auto simp: in_set_conv_nth)
  have "current_task s \<in> set ts"
    using tasks_okD(1) [OF assms(1)] j(1) by (auto simp: task_list_def task_chain_def task_ends_def split: if_splits)
  then obtain i where i: "i < length ts" "current_task s = ts ! i" by (auto simp: in_set_conv_nth)
  define n where "n = (if i < j then j - i else j + length ts - i)"
  have n: "0 < n" "n \<le> length ts" "(i + n) mod length ts = j" using i(1) j(1) by (auto simp: n_def)
  have "task_turns n s = ret (on_processor t s)" using turns_round [OF assms(1) i n(1)] n(3) j(2) by simp
  moreover have "tasks_ok own ts (on_processor t s)" using tasks_ok_on_processor assms by blast
  ultimately show ?thesis
    using n(1,2) by (intro exI [of _ n] exI [of _ "on_processor t s"]) (simp add: on_processor_def paging_switch_def)
qed

theorem every_task_gets_its_turn_witness:
  "\<exists>t u n s' (s :: kernel_state). t \<noteq> u \<and> current_task s = t \<and> task_turns n s = ret s' \<and> current_task s' = u"
proof -
  obtain own t u and s :: kernel_state where s: "tasks_ok own [t, u] s" "t \<noteq> u" using two_tasks by blast
  obtain n1 s1 where "task_turns n1 s = ret s1" and 1: "current_task s1 = t" "tasks_ok own [t, u] s1"
    using every_task_gets_its_turn [OF s(1), of t] by auto
  obtain n2 s2 where "task_turns n2 s1 = ret s2" "current_task s2 = u"
    using every_task_gets_its_turn [OF 1(2), of u] by auto
  with s(2) 1(1) show ?thesis by blast
qed

end
