(* ===== verification/Idt.thy ===== *)
theory Idt
  imports Task Tables
begin

text \<open>
  \<^verbatim>\<open>src/sys/idt.c\<close>: the interrupt descriptor table, the callbacks of interrupts, and the
  dispatch of system calls, which arrive as interrupt 0x80. Handlers are addresses; the code
  at an address is a parameter of the dispatchers, as the drivers of the file system are.
\<close>

text \<open>
  Where the linker put what the table refers to: the table itself, the 512 assembly stubs, and
  the two routines with gates of their own.
\<close>

record idt_image =
  idt_at :: addr
  interrupt_pointer_table :: "addr list"
  idt_zero_at :: addr
  isr80h_wrapper_at :: addr

section \<open>Descriptors\<close>

definition idt_set :: "u32 \<Rightarrow> addr \<Rightarrow> 'a kernel_state_scheme \<Rightarrow> 'a kernel_state_scheme run" where
  "idt_set interrupt_no address s =
     (if unat interrupt_no < DEXTER_TOTAL_INTERUPTS then
        Inr (s\<lparr>idt_descriptors := (idt_descriptors s)[unat interrupt_no :=
          \<lparr>offset_1 = ucast (address AND 0x0000ffff), selector = 0x08, zero_byte = 0x00, type_attr = 0xEE,
            offset_2 = ucast (drop_bit 16 address)\<rparr>]\<rparr>)
      else Inl OutOfBounds)"

definition zero_idt_desc :: idt_desc where
  "zero_idt_desc = \<lparr>offset_1 = 0, selector = 0, zero_byte = 0, type_attr = 0, offset_2 = 0\<rparr>"

text \<open>The loop of \<open>idt_init\<close>, from the list of indexes to come.\<close>

fun idt_init_loop :: "idt_image \<Rightarrow> nat list \<Rightarrow> 'a kernel_state_scheme \<Rightarrow> 'a kernel_state_scheme run" where
  "idt_init_loop im [] s = Inr s"
| "idt_init_loop im (i # is) s =
     (if i < length (interrupt_pointer_table im) then
        case idt_set (of_nat i) (interrupt_pointer_table im ! i) s of
          Inl f \<Rightarrow> Inl f
        | Inr s \<Rightarrow> idt_init_loop im is s
      else Inl OutOfBounds)"

definition idt_init :: "idt_image \<Rightarrow> 'a kernel_state_scheme \<Rightarrow> 'a kernel_state_scheme run" where
  "idt_init im s =
     (let s = s\<lparr>idt_descriptors := replicate DEXTER_TOTAL_INTERUPTS zero_idt_desc\<rparr>;
          s = s\<lparr>idtr_descriptor := \<lparr>idtr_limit = of_nat (8 * DEXTER_TOTAL_INTERUPTS) - 1, idtr_base = idt_at im\<rparr>\<rparr>
      in case idt_init_loop im [0..<DEXTER_TOTAL_INTERUPTS] s of
           Inl f \<Rightarrow> Inl f
         | Inr s \<Rightarrow>
             (case idt_set 0 (idt_zero_at im) s of
                Inl f \<Rightarrow> Inl f
              | Inr s \<Rightarrow>
                  (case idt_set 0x80 (isr80h_wrapper_at im) s of
                     Inl f \<Rightarrow> Inl f
                   | Inr s \<Rightarrow> Inr (s\<lparr>idt_register := idtr_descriptor s\<rparr>))))"

section \<open>Interrupts\<close>

definition idt_zero :: "'a kernel_state_scheme \<Rightarrow> 'a kernel_state_scheme" where
  "idt_zero s = say 15 (''Divide by zero error'' @ [CHR 0x0A]) s"

definition no_interrupt_handler :: "'a kernel_state_scheme \<Rightarrow> 'a kernel_state_scheme" where
  "no_interrupt_handler s = s\<lparr>io_log := outb 0x20 0x20 (io_log s)\<rparr>"

text \<open>The test lets the number 512 through.\<close>

definition idt_register_interrupt_callback ::
  "u32 \<Rightarrow> addr \<Rightarrow> 'a kernel_state_scheme \<Rightarrow> (u32 \<times> 'a kernel_state_scheme) run" where
  "idt_register_interrupt_callback interrupt callback s =
     (if interrupt <s 0 \<or> of_nat DEXTER_TOTAL_INTERUPTS <s interrupt then Inr (- EINVARG, s)
      else if unat interrupt < DEXTER_TOTAL_INTERUPTS
      then Inr (0, s\<lparr>interrupt_callbacks := (interrupt_callbacks s)[unat interrupt := callback]\<rparr>)
      else Inl OutOfBounds)"

definition interrupt_handler ::
  "(interrupt_frame, 'a kernel_state_scheme) code \<Rightarrow> u32 \<Rightarrow> interrupt_frame \<Rightarrow> 'a kernel_state_scheme
    \<Rightarrow> 'a kernel_state_scheme prog" where
  "interrupt_handler code interrupt frame s =
     prog_bind (kernel_page s) (\<lambda>s.
       if unat interrupt < DEXTER_TOTAL_INTERUPTS then
         let callback = interrupt_callbacks s ! unat interrupt in
         prog_bind
           (if callback \<noteq> 0 then
              prog_bind (task_current_save_state frame s) (\<lambda>s.
                prog_bind (call_pointer code (interrupt_callbacks s ! unat interrupt) frame s) (\<lambda>(_, s). ret s))
            else ret s)
           (\<lambda>s. prog_bind (task_page s) (\<lambda>(_, s). ret (s\<lparr>io_log := outb 0x20 0x20 (io_log s)\<rparr>)))
       else faulty OutOfBounds)"

section \<open>System calls\<close>

definition isr80h_register_command :: "u32 \<Rightarrow> addr \<Rightarrow> 'a kernel_state_scheme \<Rightarrow> 'a kernel_state_scheme run" where
  "isr80h_register_command command_id command s =
     (if command_id <s 0 \<or> of_nat DEXTER_MAX_ISR80H_COMMANDS \<le>s command_id
      then Inl (Panic ''isr80h_register_command(): Command is out of bounds.'')
      else if isr80h_commands s ! unat command_id \<noteq> 0
      then Inl (Panic ''isr80h_register_command(): Cannot register command because it will override an existing command.'')
      else Inr (s\<lparr>isr80h_commands := (isr80h_commands s)[unat command_id := command]\<rparr>))"

definition isr80h_handle_command ::
  "(interrupt_frame, 'a kernel_state_scheme) code \<Rightarrow> u32 \<Rightarrow> interrupt_frame \<Rightarrow> 'a kernel_state_scheme
    \<Rightarrow> (u32 \<times> 'a kernel_state_scheme) prog" where
  "isr80h_handle_command code command frame s =
     (if command <s 0 \<or> of_nat DEXTER_MAX_ISR80H_COMMANDS \<le>s command then ret (0, s)
      else
        let command_func = isr80h_commands s ! unat command in
        if command_func = 0 then ret (0, s) else call_pointer code command_func frame s)"

definition isr80h_handler ::
  "(interrupt_frame, 'a kernel_state_scheme) code \<Rightarrow> u32 \<Rightarrow> interrupt_frame \<Rightarrow> 'a kernel_state_scheme
    \<Rightarrow> (u32 \<times> 'a kernel_state_scheme) prog" where
  "isr80h_handler code command frame s =
     prog_bind (kernel_page s) (\<lambda>s.
       prog_bind (task_current_save_state frame s) (\<lambda>s.
         prog_bind (isr80h_handle_command code command frame s) (\<lambda>(r, s).
           prog_bind (task_page s) (\<lambda>(_, s). ret (r, s)))))"

section \<open>The table the processor reads\<close>

text \<open>The address a gate leads to; storing one keeps the rest of the descriptor fixed.\<close>

definition gate_target :: "idt_desc \<Rightarrow> addr" where
  "gate_target d = ucast (offset_1 d) OR push_bit 16 (ucast (offset_2 d))"

definition kernel_gate :: "addr \<Rightarrow> idt_desc" where
  "kernel_gate a = \<lparr>offset_1 = ucast (a AND 0x0000ffff), selector = 0x08, zero_byte = 0x00, type_attr = 0xEE,
     offset_2 = ucast (drop_bit 16 a)\<rparr>"

lemma gate_roundtrip: "gate_target (kernel_gate a) = a"
proof (rule bit_word_eqI)
  fix n assume "n < LENGTH(32)"
  then have n: "n < 32" by simp
  have m: "(0x0000ffff :: u32) = mask 16" by (simp add: mask_eq_exp_minus_1)
  consider "n < 16" | "16 \<le> n" by linarith
  then show "bit (gate_target (kernel_gate a)) n = bit a n"
    using n unfolding gate_target_def kernel_gate_def m by cases (auto simp: bit_simps)
qed

definition gate_of :: "'a kernel_state_scheme \<Rightarrow> nat \<Rightarrow> idt_desc" where
  "gate_of s i = idt_descriptors s ! i"

definition put_gate :: "'a kernel_state_scheme \<Rightarrow> nat \<Rightarrow> idt_desc \<Rightarrow> 'a kernel_state_scheme" where
  "put_gate s i d = s\<lparr>idt_descriptors := (idt_descriptors s)[i := d]\<rparr>"

interpretation gates: table "\<lambda>s. length (idt_descriptors s) = 512" "\<lambda>i. i < 512" gate_of put_gate
  by unfold_locales (auto simp: gate_of_def put_gate_def nth_list_update)

lemma idt_set_gate: "i < 512 \<Longrightarrow> idt_set (of_nat i) a s = Inr (put_gate s i (kernel_gate a))"
  by (simp add: idt_set_def put_gate_def kernel_gate_def)

lemma idt_init_loop_gates:
  "\<forall>i \<in> set is. i < 512 \<and> i < length (interrupt_pointer_table im) \<Longrightarrow>
    idt_init_loop im is s =
      Inr (gates.update_all (map (\<lambda>i. (i, kernel_gate (interrupt_pointer_table im ! i))) is) s)"
  by (induction "is" arbitrary: s) (simp_all add: idt_set_gate)

text \<open>The callbacks are a table as well, and so are the system calls.\<close>

definition callback_of :: "'a kernel_state_scheme \<Rightarrow> nat \<Rightarrow> addr" where
  "callback_of s i = interrupt_callbacks s ! i"

definition put_callback :: "'a kernel_state_scheme \<Rightarrow> nat \<Rightarrow> addr \<Rightarrow> 'a kernel_state_scheme" where
  "put_callback s i a = s\<lparr>interrupt_callbacks := (interrupt_callbacks s)[i := a]\<rparr>"

interpretation callbacks: table "\<lambda>s. length (interrupt_callbacks s) = 512" "\<lambda>i. i < 512" callback_of put_callback
  by unfold_locales (auto simp: callback_of_def put_callback_def nth_list_update)

definition command_of :: "'a kernel_state_scheme \<Rightarrow> nat \<Rightarrow> addr" where
  "command_of s i = isr80h_commands s ! i"

definition put_command :: "'a kernel_state_scheme \<Rightarrow> nat \<Rightarrow> addr \<Rightarrow> 'a kernel_state_scheme" where
  "put_command s i a = s\<lparr>isr80h_commands := (isr80h_commands s)[i := a]\<rparr>"

interpretation commands: table "\<lambda>s. length (isr80h_commands s) = 1024" "\<lambda>i. i < 1024" command_of put_command
  by unfold_locales (auto simp: command_of_def put_command_def nth_list_update)

lemma update_gates_frame: "\<exists>ds. gates.update_all kvs s = s\<lparr>idt_descriptors := ds\<rparr>"
proof (induction kvs arbitrary: s)
  case Nil
  show ?case by (intro exI [of _ "idt_descriptors s"]) simp
next
  case (Cons kv kvs)
  obtain i d where kv: "kv = (i, d)" by force
  obtain ds where "gates.update_all kvs (put_gate s i d) = (put_gate s i d)\<lparr>idt_descriptors := ds\<rparr>"
    using Cons.IH by blast
  moreover have "(put_gate s i d)\<lparr>idt_descriptors := ds\<rparr> = s\<lparr>idt_descriptors := ds\<rparr>"
    by (simp add: put_gate_def)
  ultimately have "gates.update_all (kv # kvs) s = s\<lparr>idt_descriptors := ds\<rparr>" by (simp add: kv)
  then show ?case by blast
qed

lemma idt_init_loop_all:
  assumes "length (interrupt_pointer_table im) = 512" "length (idt_descriptors s) = 512"
  shows "idt_init_loop im [0..<512] s = Inr (s\<lparr>idt_descriptors := map kernel_gate (interrupt_pointer_table im)\<rparr>)"
proof -
  let ?kvs = "map (\<lambda>i. (i, kernel_gate (interrupt_pointer_table im ! i))) [0..<512]"
  have all: "list_all (\<lambda>(k, v). k < 512) ?kvs" by (simp add: list_all_iff)
  obtain ds where ds: "gates.update_all ?kvs s = s\<lparr>idt_descriptors := ds\<rparr>" using update_gates_frame by blast
  have "length ds = 512" using gates.update_all_ok [OF assms(2) all] ds by simp
  moreover have "ds ! i = kernel_gate (interrupt_pointer_table im ! i)" if "i < 512" for i
    using gates.lookup_update_distinct [where s = s and n = 512 and f = "\<lambda>i. i"
        and g = "\<lambda>i. kernel_gate (interrupt_pointer_table im ! i)" and i = i] assms(2) that ds
    by (simp add: gate_of_def)
  ultimately have "ds = map kernel_gate (interrupt_pointer_table im)"
    using assms(1) by (intro nth_equalityI) simp_all
  with ds show ?thesis using assms(1) by (simp add: idt_init_loop_gates)
qed

lemma idt_init_run:
  assumes "length (interrupt_pointer_table im) = 512"
  shows "idt_init im s = Inr (s\<lparr>
      idt_descriptors := map kernel_gate ((interrupt_pointer_table im)[0 := idt_zero_at im, 0x80 := isr80h_wrapper_at im]),
      idtr_descriptor := \<lparr>idtr_limit = 4095, idtr_base = idt_at im\<rparr>, idt_register := \<lparr>idtr_limit = 4095, idtr_base = idt_at im\<rparr>\<rparr>)"
proof -
  have set: "idt_set 0 a s = Inr (put_gate s 0 (kernel_gate a))"
    "idt_set 0x80 a s = Inr (put_gate s 0x80 (kernel_gate a))" for a and s :: "'a kernel_state_scheme"
    using idt_set_gate [of 0 a s] idt_set_gate [of "0x80" a s] by simp_all
  show ?thesis
    using assms by (simp add: idt_init_def Let_def idt_init_loop_all set put_gate_def map_update)
qed

section \<open>Every way back leads into the current task\<close>

text \<open>What the processor has loaded when a task runs.\<close>

definition in_task :: "'a kernel_state_scheme \<Rightarrow> bool" where
  "in_task s \<longleftrightarrow> current_task s \<noteq> 0 \<and> segments s = 0x23
     \<and> cr3 (kmmu s) = load32 (kmem s) (page_directory (tasks s (current_task s)))"

lemma task_page_in_task: "returns (task_page s) (\<lambda>(r, s'). in_task s')"
  by (simp add: task_page_def task_switch_def switch_chunk_def Let_def in_task_def paging_switch_def)

lemma returns_after: "(\<And>x. returns (f x) Q) \<Longrightarrow> returns (prog_bind p f) Q"
  by (simp add: returns_bind) (simp add: returns_def)

lemma returns_from_task_page:
  "(\<And>r s'. in_task s' \<Longrightarrow> returns (f (r, s')) Q) \<Longrightarrow> returns (prog_bind (task_page s) f) Q"
  unfolding returns_bind using task_page_in_task by (rule returns_mono) auto

section \<open>Properties\<close>

text \<open>
  C22: \<open>idt_init\<close> never fails: the processor's table register holds the table and its 4096
  bytes, the gate of every interrupt leads to its assembly stub, except that interrupt 0 leads
  to \<open>idt_zero\<close> and interrupt 0x80 to \<open>isr80h_wrapper\<close>, and every gate is a present 32-bit
  interrupt gate into the kernel's code that programs may use.
\<close>

theorem idt_init_gates:
  assumes "length (interrupt_pointer_table im) = 512"
  shows "\<exists>s'. idt_init im s = Inr s' \<and> idt_register s' = \<lparr>idtr_limit = 4095, idtr_base = idt_at im\<rparr>
    \<and> map gate_target (idt_descriptors s') =
        (interrupt_pointer_table im)[0 := idt_zero_at im, 0x80 := isr80h_wrapper_at im]
    \<and> list_all (\<lambda>d. selector d = 0x08 \<and> type_attr d = 0xEE) (idt_descriptors s')"
proof -
  have "map gate_target (map kernel_gate as) = as" for as by (simp add: comp_def gate_roundtrip)
  moreover have "list_all (\<lambda>d. selector d = 0x08 \<and> type_attr d = 0xEE) (map kernel_gate as)" for as
    by (simp add: list_all_iff kernel_gate_def)
  ultimately show ?thesis unfolding idt_init_run [OF assms] by (intro exI conjI) (rule refl, simp_all)
qed

theorem idt_init_gates_witness:
  "\<forall>s :: kernel_state. \<exists>s'. idt_init \<lparr>idt_at = 0x9000, interrupt_pointer_table = replicate 512 0x100400, idt_zero_at = 0x100200,
      isr80h_wrapper_at = 0x100300\<rparr> s = Inr s' \<and> gate_target (idt_descriptors s' ! 0x80) = 0x100300"
proof
  let ?im = "\<lparr>idt_at = 0x9000, interrupt_pointer_table = replicate 512 0x100400, idt_zero_at = 0x100200,
      isr80h_wrapper_at = 0x100300\<rparr>"
  fix s :: kernel_state
  obtain s' where s': "idt_init ?im s = Inr s'"
      "map gate_target (idt_descriptors s') = (replicate 512 0x100400)[0 := 0x100200, 0x80 := 0x100300]"
    using idt_init_gates [of ?im s] by auto
  then have "map gate_target (idt_descriptors s') ! 0x80 = 0x100300" by simp
  moreover have "length (idt_descriptors s') = 512" using arg_cong [OF s'(2), of length] by simp
  ultimately show "\<exists>s'. idt_init ?im s = Inr s' \<and> gate_target (idt_descriptors s' ! 0x80) = 0x100300"
    using s'(1) by auto
qed

text \<open>
  C23: However a handler was entered and whatever the code does that it calls, when it
  returns, from a system call or from any interrupt, the processor is set up for the task
  that is current then: the data segments are those of programs and its page directory is
  loaded.
\<close>

theorem handlers_return_to_task:
  "returns (isr80h_handler code command frame s) (\<lambda>(r, s'). in_task s')
    \<and> returns (interrupt_handler callbacks interrupt frame s) in_task"
proof
  show "returns (isr80h_handler code command frame s) (\<lambda>(r, s'). in_task s')"
    unfolding isr80h_handler_def
    by (intro returns_after) (auto intro!: returns_after returns_from_task_page split: prod.splits)
  show "returns (interrupt_handler callbacks interrupt frame s) in_task"
    unfolding interrupt_handler_def Let_def
    by (intro returns_after)
      (auto intro!: returns_after returns_from_task_page simp: in_task_def split: prod.splits)
qed

end
