(* ===== verification/UserMemory.thy ===== *)
theory UserMemory
  imports Spaces
begin

text \<open>
  What is read and written through page tables: a page that is mapped to a frame shows the
  bytes of the frame, and a string copied while a task's directory is loaded arrives in the
  page the kernel mapped to itself for it.
\<close>

section \<open>Bytes of mapped pages\<close>

lemma page_or_offset:
  assumes "page p"
  shows "p OR (v AND 0xfff) = p + (v AND 0xfff)"
proof -
  have m: "(0xfff :: u32) = mask 12" by (simp add: mask_eq_exp_minus_1)
  have "p AND (v AND 0xfff) = 0"
  proof (rule bit_word_eqI)
    fix n assume "n < LENGTH(32)"
    have "\<not> bit p n" if "n < 12"
    proof
      assume "bit p n"
      then have "bit (take_bit 12 p) n" using that by (simp add: bit_simps)
      then show False using assms by (simp add: page_iff_take_bit)
    qed
    then show "bit (p AND (v AND 0xfff)) n = bit 0 n" unfolding m by (auto simp: bit_simps)
  qed
  then show ?thesis using word_plus_and_or [of p "v AND 0xfff"] by simp
qed

lemma page_offset:
  assumes "page va" "i < 4096"
  shows "(va + of_nat i) AND 0xfffff000 = va" and "(va + of_nat i) AND 0xfff = of_nat i"
proof -
  have u: "unat (va + of_nat i) = unat va + i" by (rule unat_page_add [OF assms])
  obtain k where k: "unat va = 4096 * k" using assms(1) by (auto simp: page_nat)
  have "unat (take_bit 12 (va + of_nat i)) = i"
    using k assms(2) by (simp add: take_bit_eq_mod unat_mod32 u)
  then have t: "take_bit 12 (va + of_nat i) = of_nat i" by (metis of_nat_unat ucast_id)
  then show "(va + of_nat i) AND 0xfff = of_nat i"
    by (simp add: take_bit_eq_mask mask_eq_exp_minus_1)
  show "(va + of_nat i) AND 0xfffff000 = va" using t by (simp add: and_page_mask)
qed

text \<open>A page whose entry is a frame with flags.\<close>

lemma translate_page:
  assumes "page va" "i < 4096" "paging_get m d va = p OR f" "page p" "unat f < 4096"
  shows "translate m d (va + of_nat i) = p + of_nat i"
proof -
  have "(p OR f) AND 0xfffff000 = p" using page_or_flags [OF assms(4,5)] .
  then show ?thesis
    using page_or_offset [OF assms(4), of "va + of_nat i"] page_offset [OF assms(1,2)] assms(3)
    by (simp add: translate_def)
qed

lemma page_split: "\<exists>p i. page p \<and> i < 4096 \<and> va = p + of_nat i"
proof (intro exI conjI)
  have m: "(0xfff :: u32) = mask 12" by (simp add: mask_eq_exp_minus_1)
  show "page (va AND 0xfffff000)" by simp
  show "unat (va AND 0xfff) < 4096"
    by (simp add: m take_bit_eq_mod unat_mod32 flip: take_bit_eq_mask)
  show "va = (va AND 0xfffff000) + of_nat (unat (va AND 0xfff))"
    by (simp add: and_page_mask m take_bit_eq_mask)
qed

text \<open>Where the tables agree, so does the translation.\<close>

lemma translate_cong:
  "paging_get m' d' (va AND 0xfffff000) = paging_get m d (va AND 0xfffff000) \<Longrightarrow>
    translate m' d' va = translate m d va"
  by (simp add: translate_def)

section \<open>Copying a string through page tables\<close>

text \<open>
  The destination is mapped to itself and the source to \<open>ph\<close>, whatever is stored in the
  destination in between.
\<close>

definition user_copy :: "mem \<Rightarrow> addr \<Rightarrow> addr \<Rightarrow> addr \<Rightarrow> u32 \<Rightarrow> (nat \<Rightarrow> addr) \<Rightarrow> u8 list \<Rightarrow> bool" where
  "user_copy m d dest src n ph bs \<longleftrightarrow>
     (\<forall>m'. unchanged_outside m m' dest (unat n) \<longrightarrow>
        (\<forall>i < unat n. translate m' d (dest + of_nat i) = dest + of_nat i)
        \<and> (\<forall>i \<le> length bs. translate m' d (src + of_nat i) = ph i))
     \<and> (\<forall>i \<le> length bs. unat n \<le> unat (ph i - dest))
     \<and> (\<forall>i < length bs. m (ph i) = bs ! i \<and> bs ! i \<noteq> 0) \<and> m (ph (length bs)) = 0"

text \<open>The destination after \<open>i\<close> bytes.\<close>

definition copied :: "mem \<Rightarrow> addr \<Rightarrow> u8 list \<Rightarrow> nat \<Rightarrow> mem" where
  "copied m dest bs i = mem_fill m dest i (\<lambda>j. if j < length bs then bs ! j else 0)"

lemma copied_unchanged: "i \<le> k \<Longrightarrow> unchanged_outside m (copied m dest bs i) dest k"
  unfolding copied_def by (rule unchanged_outside_le [OF unchanged_outside_fill])

lemma copied_out: "i \<le> unat (x - dest) \<Longrightarrow> copied m dest bs i x = m x"
  by (simp add: copied_def mem_fill_out)

lemma user_copyD:
  assumes "user_copy m d dest src n ph bs" "k \<le> unat n"
  shows "i < unat n \<Longrightarrow> translate (copied m dest bs k) d (dest + of_nat i) = dest + of_nat i"
    and "i \<le> length bs \<Longrightarrow> vread (copied m dest bs k) d (src + of_nat i) = m (ph i)"
proof -
  have u: "unchanged_outside m (copied m dest bs k) dest (unat n)" using assms(2) by (rule copied_unchanged)
  then show "i < unat n \<Longrightarrow> translate (copied m dest bs k) d (dest + of_nat i) = dest + of_nat i"
    using assms(1) by (simp add: user_copy_def)
  assume i: "i \<le> length bs"
  then have "k \<le> unat (ph i - dest)" using assms by (auto simp: user_copy_def intro: le_trans)
  then show "vread (copied m dest bs k) d (src + of_nat i) = m (ph i)"
    using assms(1) u i by (simp add: user_copy_def vread_def copied_out)
qed

lemma write_next:
  assumes "user_copy m d dest src n ph bs" "i < unat n"
  shows "vwrite (copied m dest bs i) d (dest + of_nat i) (if i < length bs then bs ! i else 0) = copied m dest bs (Suc i)"
proof -
  have "i < 4294967296" using assms(2) unat32_less [of n] by linarith
  then show ?thesis
    using user_copyD(1) [OF assms(1), of i i] assms(2) by (simp add: vwrite_def copied_def mem_fill_Suc)
qed

lemma copy_filled:
  "user_copy m d dest src n ph bs \<Longrightarrow> i \<le> length bs \<Longrightarrow> i \<le> unat n \<Longrightarrow>
    vstrncpy_copy (copied m dest bs i) d dest src n (of_nat i) =
      (of_nat (min (unat n) (length bs)), copied m dest bs (min (unat n) (length bs)))"
proof (induction "min (unat n) (length bs) - i" arbitrary: i)
  case 0
  then have i: "min (unat n) (length bs) = i" by linarith
  show ?case
  proof (cases "i < unat n")
    case True
    then have "i = length bs" using i by linarith
    then have "vread (copied m dest bs i) d (src + of_nat i) = 0"
      using user_copyD(2) [OF 0(2), of i i] 0(2,4) by (simp add: user_copy_def)
    then show ?thesis unfolding i by (subst vstrncpy_copy.simps) simp
  next
    case False
    then have "i = unat n" using 0 by simp
    then show ?thesis unfolding i by (subst vstrncpy_copy.simps) simp
  qed
next
  case (Suc k)
  then have i: "i < unat n" "i < length bs" by linarith+
  have v: "vread (copied m dest bs i) d (src + of_nat i) = bs ! i" "bs ! i \<noteq> 0"
    using user_copyD(2) [OF Suc.prems(1), of i i] Suc.prems(1) i by (simp_all add: user_copy_def)
  have "i < 4294967296" using i(1) unat32_less [of n] by linarith
  then have "(of_nat i :: u32) < n" using i(1) by (simp add: word_less_nat_alt)
  then have "vstrncpy_copy (copied m dest bs i) d dest src n (of_nat i)
      = vstrncpy_copy (copied m dest bs (Suc i)) d dest src n (of_nat (Suc i))"
    using v write_next [OF Suc.prems(1) i(1)] i(2) by (subst vstrncpy_copy.simps) (simp add: add.commute)
  also have "\<dots> = (of_nat (min (unat n) (length bs)), copied m dest bs (min (unat n) (length bs)))"
    using Suc.hyps(2) i by (intro Suc.hyps(1) [OF _ Suc.prems(1)]) linarith+
  finally show ?case .
qed

lemma pad_filled:
  "user_copy m d dest src n ph bs \<Longrightarrow> min (unat n) (length bs) \<le> i \<Longrightarrow> i \<le> unat n \<Longrightarrow> vstrncpy_pad (copied m dest bs i) d dest n (of_nat i) = copied m dest bs (unat n)"
proof (induction "unat n - i" arbitrary: i)
  case 0
  then have "i = unat n" by linarith
  then show ?case by (subst vstrncpy_pad.simps) simp
next
  case (Suc k)
  then have i: "i < unat n" "length bs \<le> i" by linarith+
  have "i < 4294967296" using i(1) unat32_less [of n] by linarith
  then have "(of_nat i :: u32) < n" using i(1) by (simp add: word_less_nat_alt)
  then have "vstrncpy_pad (copied m dest bs i) d dest n (of_nat i) = vstrncpy_pad (copied m dest bs (Suc i)) d dest n (of_nat (Suc i))"
    using write_next [OF Suc.prems(1) i(1)] i(2) by (subst vstrncpy_pad.simps) (simp add: add.commute)
  also have "\<dots> = copied m dest bs (unat n)" using Suc.hyps(2) i by (intro Suc.hyps(1) [OF _ Suc.prems(1)]) linarith+
  finally show ?case .
qed

lemma vstrncpy_copied:
  assumes "user_copy m d dest src n ph bs"
  shows "vstrncpy m d dest src n = copied m dest bs (unat n)"
  using copy_filled [OF assms, of 0] pad_filled [OF assms, of "min (unat n) (length bs)"]
  by (simp add: vstrncpy_def) (simp add: copied_def)

end
