(* ===== verification/CopyString.thy ===== *)
theory CopyString
  imports UserMemory TaskList
begin

text \<open>
  \<open>copy_string_from_task\<close>: the string arrives in the kernel's buffer and nothing else that is
  in use changes, the page tables of the task included.
\<close>

section \<open>Words put back\<close>

lemma load_byte:
  "ucast (load32 m a) = m a" "ucast (drop_bit 8 (load32 m a)) = m (a + 1)"
  "ucast (drop_bit 16 (load32 m a)) = m (a + 2)" "ucast (drop_bit 24 (load32 m a)) = m (a + 3)"
  by (rule bit_word_eqI, auto simp: load32_def bit_simps dest: bit_imp_le_length)+

lemma store_load_byte: "store32 m a (load32 m' a) x = (if unat (x - a) < 4 then m' x else m x)"
proof (cases "unat (x - a) < 4")
  case True
  define k where "k = unat (x - a)"
  have x: "x = a + of_nat k" by (simp add: k_def)
  have "k = 0 \<or> k = 1 \<or> k = 2 \<or> k = 3" using True unfolding k_def by linarith
  then have "store32 m a (load32 m' a) x = m' x"
    unfolding x by (elim disjE) (simp_all add: store32_def load_byte)
  with True show ?thesis by simp
next
  case False
  then show ?thesis by (simp add: store32_out)
qed

section \<open>The page for the copy\<close>

text \<open>
  The task's tables after the kernel has mapped its fresh block to itself: for a string that
  is in use and reached through other pages.
\<close>

lemma user_copy_tmp:
  assumes cb: "chunk_blocks m cb d tb" "space_blocks cb d tb \<subseteq> kused m"
    and b: "b < 25600" "b \<notin> kused m" and ext: "kext m m1"
    and n: "unat n \<le> 4096"
    and str: "cstr (vread m (kblock d)) va bs"
      "\<And>i. i \<le> length bs \<Longrightarrow> kstable m (va + of_nat i) \<and> kstable m (translate m (kblock d) (va + of_nat i))"
    "\<And>i c. i \<le> length bs \<Longrightarrow> c \<in> space_blocks cb d tb \<Longrightarrow> 4096 \<le> unat (translate m (kblock d) (va + of_nat i) - kblock c)"
  defines "m2 \<equiv> space_put (kblock cb) m1 (kblock b) (kblock b OR 7)"
  shows "user_copy m2 (kblock d) (kblock b) va n (\<lambda>i. translate m (kblock d) (va + of_nat i)) bs"
proof -
  let ?ph = "\<lambda>i. translate m (kblock d) (va + of_nat i)"
  note cb1 = chunk_blocks_ext [OF ext cb]
  have cb2: "chunk_blocks m2 cb d tb" unfolding m2_def using cb1(1) b(1) by (intro chunk_blocks_put(1)) simp_all
  have bs: "b \<notin> space_blocks cb d tb" using b(2) cb(2) by blast
  have sp: "\<And>c. c \<in> space_blocks cb d tb \<Longrightarrow> c < 25600" using cb(1) by (auto simp: space_blocks_def chunk_blocks_def)
  have get: "paging_get m' (kblock d) p = (if p = kblock b then kblock b OR 7 else paging_get m (kblock d) p)"
    if "unchanged_outside m2 m' (kblock b) (unat n)" "page p" for m' p
  proof -
    have dir: "load32 m (kblock cb) = kblock d" "load32 m1 (kblock cb) = kblock d" "load32 m2 (kblock cb) = kblock d"
      using cb(1) cb1(1) cb2 by (simp_all add: chunk_blocks_def)
    have same: "m' (kblock c + of_nat i) = m2 (kblock c + of_nat i)" if "c \<in> space_blocks cb d tb" "i < 4096" for c i
    proof -
      have "apart (kblock b) 4096 (kblock c) 4096" using that(1) b(1) sp bs by (intro kblock_apart) auto
      then have "4096 \<le> unat (kblock c + of_nat i - kblock b)" using that(2) by (rule apart_out)
      then show ?thesis using \<open>unchanged_outside m2 m' (kblock b) (unat n)\<close> n by (simp add: unchanged_outside_def)
    qed
    have "load32 m' (kblock cb) = kblock d"
      using chunk_blocks_cong(1) [OF cb2 same] by (simp add: chunk_blocks_def)
    then have "paging_get m' (kblock d) p = paging_get m2 (kblock d) p"
      using chunk_blocks_cong(2) [OF cb2 same that(2)] dir(3) by simp
    also have "\<dots> = (if p = kblock b then kblock b OR 7 else paging_get m1 (kblock d) p)"
      using space_get_set [OF chunk_blocks_space_ok [OF cb1(1)], of "kblock b" p] b(1) that(2) dir(2)
        space_set(1) [OF chunk_blocks_space_ok [OF cb1(1)], of "kblock b"]
      by (simp add: m2_def space_put_def)
    also have "paging_get m1 (kblock d) p = paging_get m (kblock d) p" using cb1(2) [OF that(2)] dir(1,2) by simp
    finally show ?thesis .
  qed
  have tr: "translate m' (kblock d) (kblock b + of_nat i) = kblock b + of_nat i"
    if u: "unchanged_outside m2 m' (kblock b) (unat n)" "i < unat n" for m' i
    using get [OF u(1), of "kblock b"] b(1) u(2) n by (intro translate_page [where f = 7]) simp_all
  have ts: "translate m' (kblock d) (va + of_nat i) = ?ph i"
    if u: "unchanged_outside m2 m' (kblock b) (unat n)" and i: "i \<le> length bs" for m' i
  proof -
    obtain p j where p: "page p" "j < 4096" "va + of_nat i = p + of_nat j" using page_split by blast
    have "4096 \<le> unat (va + of_nat i - kblock b)" using str(2) [OF i] b by (simp add: kstable_def)
    then have "p \<noteq> kblock b" using p by auto
    then show ?thesis unfolding p(3) using get [OF u p(1)] page_offset(1) [OF p(1,2)] by (intro translate_cong) simp
  qed
  have st: "kstable m (?ph i)" if "i \<le> length bs" for i using str(2) [OF that] by blast
  have far: "unat n \<le> unat (?ph i - kblock b)" if "i \<le> length bs" for i
    using st [OF that] b n by (auto simp: kstable_def intro: le_trans)
  have put: "m2 = store32 m1 (kblock (tb (vdir (kblock b))) + of_nat (4 * vtab (kblock b))) (kblock b OR 7)"
    using cb1(1) b(1) by (simp add: m2_def space_put_def paging_set_page chunk_blocks_def)
  have m2: "m2 (?ph i) = m (?ph i)" if i: "i \<le> length bs" for i
  proof -
    have "tb (vdir (kblock b)) \<in> space_blocks cb d tb" by (simp add: space_blocks_def)
    then have "4096 \<le> unat (?ph i - kblock (tb (vdir (kblock b))))" "tb (vdir (kblock b)) < 25600" using str(3) [OF i] sp by blast+
    then show ?thesis unfolding put using store_word_byte kextD(1) [OF ext st [OF i]] by simp
  qed
  have "vread m (kblock d) (va + of_nat i) = bs ! i" "bs ! i \<noteq> 0" if "i < length bs" for i
  proof -
    show "vread m (kblock d) (va + of_nat i) = bs ! i" using str(1) that by (simp add: cstr_def)
    show "bs ! i \<noteq> 0" using str(1) nth_mem [OF that] unfolding cstr_def by metis
  qed
  moreover have "vread m (kblock d) (va + of_nat (length bs)) = 0" using str(1) by (simp add: cstr_def)
  ultimately show ?thesis
    unfolding user_copy_def using tr ts far m2 by (simp add: vread_def)
qed

section \<open>The kernel on behalf of a task\<close>

text \<open>The kernel's own address space and segments; the memory a task sees.\<close>

definition in_kernel :: "'a kernel_state_scheme \<Rightarrow> 'a kernel_state_scheme" where
  "in_kernel s = s\<lparr>segments := 0x10, kmmu := paging_switch (kmem s) (kernel_chunk s) (kmmu s)\<rparr>"

definition user_address :: "addr \<Rightarrow> 'a kernel_state_scheme \<Rightarrow> addr \<Rightarrow> addr" where
  "user_address t s va = translate (kmem s) (load32 (kmem s) (page_directory (tasks s t))) va"

definition user_memory :: "addr \<Rightarrow> 'a kernel_state_scheme \<Rightarrow> mem" where
  "user_memory t s = vread (kmem s) (load32 (kmem s) (page_directory (tasks s t)))"

lemma kernel_page_in: "kernel_chunk s \<noteq> 0 \<Longrightarrow> kernel_page s = ret (in_kernel s)"
  by (simp add: kernel_page_def switch_chunk_def in_kernel_def)

text \<open>
  A string of a task that the kernel can fetch: neither its addresses nor the bytes behind them
  lie in free blocks of the heap, and the bytes are not those of the task's own blocks \<open>B\<close>.
\<close>

definition user_string :: "nat set \<Rightarrow> addr \<Rightarrow> addr \<Rightarrow> u8 list \<Rightarrow> 'a kernel_state_scheme \<Rightarrow> bool" where
  "user_string B t va bs s \<longleftrightarrow> cstr (user_memory t s) va bs
     \<and> (\<forall>i \<le> length bs. kstable (kmem s) (va + of_nat i) \<and> kstable (kmem s) (user_address t s (va + of_nat i))
          \<and> (\<forall>c \<in> B. 4096 \<le> unat (user_address t s (va + of_nat i) - kblock c)))"

lemma page_copied:
  fixes m1
  assumes cb: "chunk_blocks m cb d tb" "space_blocks cb d tb \<subseteq> kused m"
    and b: "b < 25600" "b \<notin> kused m" and ext: "kext m m1" and used: "kused m1 = insert b (kused m)"
    and copy: "user_copy (space_put (kblock cb) m1 (kblock b) (kblock b OR 7)) (kblock d) (kblock b) va n ph bs"
    and n: "unat n < 4096" "length bs < unat n" and bs: "0 \<notin> set bs"
  defines "m2 \<equiv> space_put (kblock cb) m1 (kblock b) (kblock b OR 7)"
  defines "m3 \<equiv> copied m2 (kblock b) bs (unat n)"
  shows "load32 m2 (kblock cb) = kblock d" and "vstrncpy m2 (kblock d) (kblock b) va n = m3"
    and "\<exists>m4. paging_set m3 (kblock d) (kblock b) (paging_get m1 (kblock d) (kblock b)) = (0, m4)
      \<and> kused m4 = insert b (kused m) \<and> cstr m4 (kblock b) bs \<and> (\<forall>x. kstable m x \<longrightarrow> m4 x = m x)"
proof -
  note c1 = chunk_blocks_ext(1) [OF ext cb]
  define w where "w = kblock (tb (vdir (kblock b))) + of_nat (4 * vtab (kblock b))"
  define m4 where "m4 = store32 m3 w (load32 m1 w)"
  have c2: "chunk_blocks m2 cb d tb" "kused m2 = kused m1"
    unfolding m2_def using b(1) by (simp_all add: chunk_blocks_put [OF c1])
  then show "load32 m2 (kblock cb) = kblock d" by (simp add: chunk_blocks_def)
  show "vstrncpy m2 (kblock d) (kblock b) va n = m3"
    using copy unfolding m3_def m2_def by (rule vstrncpy_copied)
  have tb: "tb (vdir (kblock b)) \<in> space_blocks cb d tb" by (simp add: space_blocks_def)
  have sp: "c < 25600" "c \<noteq> b" if "c \<in> space_blocks cb d tb" for c
    using that cb(2) b(2) kused_less by blast+
  have far: "4096 \<le> unat (kblock b + of_nat i - kblock c)" "4096 \<le> unat (kblock c + of_nat i - kblock b)"
    if "c \<in> space_blocks cb d tb" "i < 4096" for c i
  proof -
    have "apart (kblock c) 4096 (kblock b) 4096" "apart (kblock b) 4096 (kblock c) 4096"
      using sp [OF that(1)] b(1) by (simp_all add: kblock_apart)
    then show "4096 \<le> unat (kblock b + of_nat i - kblock c)" "4096 \<le> unat (kblock c + of_nat i - kblock b)"
      using that(2) by (auto intro: apart_out)
  qed
  have c3: "chunk_blocks m3 cb d tb"
    unfolding m3_def
  proof (rule chunk_blocks_cong(1) [OF c2(1)])
    fix c i :: nat assume "c \<in> space_blocks cb d tb" "i < 4096"
    then have "unat n \<le> unat (kblock c + of_nat i - kblock b)" using far(2) n(1) by (meson less_imp_le le_trans)
    then show "copied m2 (kblock b) bs (unat n) (kblock c + of_nat i) = m2 (kblock c + of_nat i)" by (rule copied_out)
  qed
  have "paging_get m1 (kblock d) (kblock b) = load32 m1 w"
    using c1 b(1) by (simp add: paging_get_page w_def chunk_blocks_def)
  then have set: "paging_set m3 (kblock d) (kblock b) (paging_get m1 (kblock d) (kblock b)) = (0, m4)"
    using c3 b(1) by (simp add: paging_set_page w_def m4_def chunk_blocks_def)
  then have "m4 = space_put (kblock cb) m3 (kblock b) (paging_get m1 (kblock d) (kblock b))"
    using c3 by (simp add: space_put_def chunk_blocks_def)
  then have "kused m4 = kused m3" using chunk_blocks_put(2) [OF c3] b(1) by simp
  moreover have "kused m3 = kused m2" unfolding m3_def copied_def using b(1) n(1) by (intro kused_fill) auto
  ultimately have u4: "kused m4 = insert b (kused m)" using c2(2) used by simp
  have "m4 (kblock b + of_nat i) = (if i < length bs then bs ! i else 0)" if "i < unat n" for i
  proof -
    have "m4 (kblock b + of_nat i) = m3 (kblock b + of_nat i)"
      unfolding m4_def w_def using far(1) [OF tb, of i] sp [OF tb] that n(1) by (intro store_word_byte) simp_all
    also have "\<dots> = (if i < length bs then bs ! i else 0)"
      unfolding m3_def copied_def using that n(1) by (intro mem_fill_in) simp_all
    finally show ?thesis .
  qed
  then have str: "cstr m4 (kblock b) bs" using bs n(2) by (simp add: cstr_def)
  have "m4 x = m x" if x: "kstable m x" for x
  proof -
    have "unat n \<le> unat (x - kblock b)" using x b n(1) by (auto simp: kstable_def intro: le_trans less_imp_le)
    then have "m3 x = m2 x" unfolding m3_def by (rule copied_out)
    moreover have "load32 m1 (kblock cb) = kblock d" using c1 by (simp add: chunk_blocks_def)
    then have "m2 x = m1 x" if "\<not> unat (x - w) < 4"
      using that c1 b(1) unfolding m2_def space_put_def
      by (simp add: paging_set_page chunk_blocks_def w_def store32_out)
    ultimately show ?thesis unfolding m4_def store_load_byte using kextD(1) [OF ext x] by simp
  qed
  with set u4 str show "\<exists>m4. paging_set m3 (kblock d) (kblock b) (paging_get m1 (kblock d) (kblock b)) = (0, m4)
      \<and> kused m4 = insert b (kused m) \<and> cstr m4 (kblock b) bs \<and> (\<forall>x. kstable m x \<longrightarrow> m4 x = m x)" by blast
qed

text \<open>Then the kernel copies the page to its buffer and releases it.\<close>

lemma page_to_buffer:
  fixes m4
  assumes "b < 25600" "cstr m4 (kblock b) bs" "unat n < 4096" "off_heap buf (unat n)"
  defines "m5 \<equiv> mem_fill m4 buf (unat n) (\<lambda>i. if i < length bs then bs ! i else 0)"
  shows "strncpy m4 buf (kblock b) n = (buf, m5)" and "kused (kfree m5 (kblock b)) = kused m4 - {b}"
    and "i < unat n \<Longrightarrow> kfree m5 (kblock b) (buf + of_nat i) = (if i < length bs then bs ! i else 0)"
    and "25600 \<le> unat (x - 0x7E00) \<Longrightarrow> unat n \<le> unat (x - buf) \<Longrightarrow> kfree m5 (kblock b) x = m4 x"
proof -
  show "strncpy m4 buf (kblock b) n = (buf, m5)"
    unfolding m5_def using off_heap_apart [OF assms(4,1)] assms(2,3) by (intro strncpy_cstr) simp_all
  have "kused m5 = kused m4"
  proof (rule kused_cong_outside)
    fix k :: nat assume "k < 25600"
    then have "\<not> unat (0x7E00 + of_nat k - buf) < unat n"
      using assms(4) unfolding off_heap_def by (auto dest!: spec [of _ "unat (0x7E00 + of_nat k - buf)"])
    then show "m5 (0x7E00 + of_nat k) = m4 (0x7E00 + of_nat k)"
      unfolding m5_def by (intro mem_fill_out) simp
  qed
  then show "kused (kfree m5 (kblock b)) = kused m4 - {b}" using kused_kfree [OF assms(1)] by simp
  have tab: "0x7E00 + of_nat b \<noteq> x" if "25600 \<le> unat (x - 0x7E00)" for x :: addr
    using that assms(1) by auto
  note free = kfree_block [OF assms(1), of m5]
  show "kfree m5 (kblock b) (buf + of_nat i) = (if i < length bs then bs ! i else 0)" if "i < unat n"
    using tab [of "buf + of_nat i"] assms(3,4) that unfolding free unfolding m5_def off_heap_def by (auto simp: mem_fill_in)
  show "kfree m5 (kblock b) x = m4 x" if "25600 \<le> unat (x - 0x7E00)" "unat n \<le> unat (x - buf)"
    using tab [of x] that unfolding free unfolding m5_def by (auto simp: mem_fill_out)
qed

lemma copy_string:
  assumes ok: "tasks_ok own ts s" "t \<in> set ts" "card (kused (kmem s)) < 25600" "kernel_chunk s \<noteq> 0"
    and str: "user_string (own t) t va bs s"
    and n: "unat n < 4096" "length bs < unat n" "off_heap buf (unat n)"
  shows "\<exists>m u. copy_string_from_task t va buf n s = ret (0, s\<lparr>kmem := m, segments := 0x10, kmmu := u\<rparr>)
    \<and> kused m = kused (kmem s) \<and> (\<forall>i < unat n. m (buf + of_nat i) = (if i < length bs then bs ! i else 0))
    \<and> (\<forall>x. kstable (kmem s) x \<longrightarrow> unat n \<le> unat (x - buf) \<longrightarrow> m x = kmem s x)"
proof -
  let ?m = "kmem s"
  obtain bt cb d tb where o: "t = kblock bt" "bt < 25600" "page_directory (tasks s t) = kblock cb"
    "chunk_blocks ?m cb d tb" "own t = insert bt (space_blocks cb d tb)"
    using tasks_okD(2) [OF ok(1,2)] by (auto simp: task_owns_def)
  have own: "space_blocks cb d tb \<subseteq> kused ?m" using tasks_okD(3) [OF ok(1,2)] o(5) by auto
  obtain b m1 where z: "kzalloc ?m n = (kblock b, m1)" "b < 25600" "b \<notin> kused ?m" "kused m1 = insert b (kused ?m)"
    "kext ?m m1" "kblock b \<noteq> 0"
    using kzalloc_new [OF ok(3), of n] n by auto
  have d: "load32 ?m (kblock cb) = kblock d" "load32 m1 (kblock cb) = kblock d"
    using o(4) chunk_blocks_ext(1) [OF z(5) o(4) own] by (simp_all add: chunk_blocks_def)
  have um: "user_memory t s = vread ?m (kblock d)" "user_address t s = translate ?m (kblock d)"
    by (simp_all add: user_memory_def user_address_def o(3) d fun_eq_iff)
  define m2 where "m2 = space_put (kblock cb) m1 (kblock b) (kblock b OR 7)"
  define m3 where "m3 = copied m2 (kblock b) bs (unat n)"
  have "user_copy m2 (kblock d) (kblock b) va n (\<lambda>i. translate ?m (kblock d) (va + of_nat i)) bs"
    unfolding m2_def
    by (rule user_copy_tmp [OF o(4) own z(2,3,5)])
      (use str n(1) in \<open>auto simp: user_string_def um o(5)\<close>)
  moreover have "0 \<notin> set bs" using str by (simp add: user_string_def cstr_def)
  ultimately have pc: "load32 m2 (kblock cb) = kblock d" "vstrncpy m2 (kblock d) (kblock b) va n = m3"
      "\<exists>m4. paging_set m3 (kblock d) (kblock b) (paging_get m1 (kblock d) (kblock b)) = (0, m4)
        \<and> kused m4 = insert b (kused ?m) \<and> cstr m4 (kblock b) bs \<and> (\<forall>x. kstable ?m x \<longrightarrow> m4 x = ?m x)"
    unfolding m3_def m2_def using page_copied [OF o(4) own z(2,3,5,4) _ n(1,2)] by blast+
  then obtain m4 where m4: "paging_set m3 (kblock d) (kblock b) (paging_get m1 (kblock d) (kblock b)) = (0, m4)"
    "kused m4 = insert b (kused ?m)" "cstr m4 (kblock b) bs" "\<And>x. kstable ?m x \<Longrightarrow> m4 x = ?m x" by blast
  define m5 where "m5 = mem_fill m4 buf (unat n) (\<lambda>i. if i < length bs then bs ! i else 0)"
  note pb = page_to_buffer [OF z(2) m4(3) n(1,3), folded m5_def]
  have "n <s 4096" using n(1) by (simp add: sless_small)
  moreover have "paging_map m1 (kblock cb) (kblock b) (kblock b) 7 = (0, m2)"
    using z(2) by (simp add: paging_map_page m2_def)
  moreover have "kblock cb \<noteq> 0" "t \<noteq> 0" using o(1,2,4) kblock_nonzero by (simp_all add: chunk_blocks_def)
  moreover note z(1,6) ok(4) d pc(1,2) m4(1) pb(1) o(3)
  ultimately have "copy_string_from_task t va buf n s = ret (0, s\<lparr>kmem := kfree m5 (kblock b), segments := 0x10,
      kmmu := paging_switch m3 (kernel_chunk s) (paging_switch m2 (kblock cb) (kmmu s))\<rparr>)"
    by (simp add: copy_string_from_task_def Let_def switch_chunk_def kernel_page_def paging_switch_def)
  moreover have "kfree m5 (kblock b) x = ?m x" if "kstable ?m x" "unat n \<le> unat (x - buf)" for x
    using pb(4) m4(4) that by (simp add: kstable_def)
  ultimately show ?thesis using pb(2,3) m4(2) z(3) by blast
qed

end
