(* ===== verification/Commands.thy ===== *)
theory Commands
  imports Idt CopyString
begin

text \<open>
  \<^verbatim>\<open>src/proc/commands.c\<close> and \<^verbatim>\<open>src/proc/isr80h.c\<close>: the two system calls, adding two numbers
  and printing a string, both with their arguments on the stack of the calling task, and their
  registration.
\<close>

section \<open>Operations\<close>

definition isr80h_command0_sum ::
  "interrupt_frame \<Rightarrow> 'a kernel_state_scheme \<Rightarrow> (u32 \<times> 'a kernel_state_scheme) prog" where
  "isr80h_command0_sum frame s =
     prog_bind (task_get_stack_item (task_current s) 1 s) (\<lambda>(v2, s).
       prog_bind (task_get_stack_item (task_current s) 0 s) (\<lambda>(v1, s). ret (v1 + v2, s)))"

text \<open>
  \<open>buf\<close> is where the 1024 bytes of the local array lie on the kernel's stack. What
  \<open>copy_string_from_task\<close> reports is not looked at, and nothing terminates a string that fills
  the array.
\<close>

definition isr80h_command1_print ::
  "addr \<Rightarrow> interrupt_frame \<Rightarrow> 'a kernel_state_scheme \<Rightarrow> (u32 \<times> 'a kernel_state_scheme) prog" where
  "isr80h_command1_print buf frame s =
     prog_bind (task_get_stack_item (task_current s) 0 s) (\<lambda>(user_space_msg_buf, s).
       prog_bind (copy_string_from_task (task_current s) user_space_msg_buf buf 1024 s) (\<lambda>(_, s).
         prog_bind (of_option (print buf (console s, kmem s))) (\<lambda>(t, m).
           ret (0, s\<lparr>console := t, kmem := m\<rparr>))))"

text \<open>The addresses of the two functions, and the code at them.\<close>

record command_image =
  command0_at :: addr
  command1_at :: addr

definition command_code :: "command_image \<Rightarrow> addr \<Rightarrow> (interrupt_frame, 'a kernel_state_scheme) code" where
  "command_code im buf f =
     (if f = command0_at im then Some isr80h_command0_sum
      else if f = command1_at im then Some (isr80h_command1_print buf)
      else None)"

definition isr80h_register_commands :: "command_image \<Rightarrow> 'a kernel_state_scheme \<Rightarrow> 'a kernel_state_scheme run" where
  "isr80h_register_commands im s =
     (case isr80h_register_command 0 (command0_at im) s of
        Inl f \<Rightarrow> Inl f
      | Inr s \<Rightarrow> isr80h_register_command 1 (command1_at im) s)"

section \<open>The stack of the caller\<close>

lemma in_kernel_sel [simp]:
  "kmem (in_kernel s) = kmem s" "tasks (in_kernel s) = tasks s" "current_task (in_kernel s) = current_task s"
  "kernel_chunk (in_kernel s) = kernel_chunk s" "isr80h_commands (in_kernel s) = isr80h_commands s"
  "console (in_kernel s) = console s" "task_head (in_kernel s) = task_head s" "task_tail (in_kernel s) = task_tail s"
  "in_kernel (in_kernel s) = in_kernel s"
  "user_memory t (in_kernel s) = user_memory t s"
  "user_address t (in_kernel s) va = user_address t s va"
  by (simp_all add: in_kernel_def paging_switch_def user_memory_def user_address_def)

lemma stack_item:
  assumes "t \<noteq> 0" "page_directory (tasks s t) \<noteq> 0" "kernel_chunk s \<noteq> 0"
  shows "task_get_stack_item t i s =
    ret (load32 (user_memory t s) (reg_esp (task_registers (tasks s t)) + 4 * i), in_kernel s)"
  using assms
  by (simp add: task_get_stack_item_def task_page_task_def switch_chunk_def Let_def kernel_page_def
      in_kernel_def user_memory_def paging_switch_def)

section \<open>Entering and leaving\<close>

lemma tasks_ok_current:
  "tasks_ok own ts s \<Longrightarrow> ts \<noteq> [] \<Longrightarrow> current_task s \<in> set ts \<and> current_task s \<noteq> 0
    \<and> page_directory (tasks s (current_task s)) \<noteq> 0"
  using tasks_okD(1,2) [of own ts s] kblock_nonzero
  by (auto simp: task_list_def task_chain_def task_ends_def task_owns_def chunk_blocks_def split: if_splits) metis+

text \<open>The state a command runs in.\<close>

definition command_entry :: "interrupt_frame \<Rightarrow> 'a kernel_state_scheme \<Rightarrow> 'a kernel_state_scheme" where
  "command_entry frame s = task_save_state (current_task s) frame (in_kernel s)"

lemma save_state_registers [simp]:
  "task_registers (tasks (task_save_state t frame s) t) = registers.truncate frame"
  by (simp add: task_save_state_def registers.truncate_def)

lemma save_state_tasks:
  "page_directory (tasks (task_save_state t frame s) u) = page_directory (tasks s u)"
  "next_task (tasks (task_save_state t frame s) u) = next_task (tasks s u)"
  "prev_task (tasks (task_save_state t frame s) u) = prev_task (tasks s u)"
  "u \<noteq> t \<Longrightarrow> tasks (task_save_state t frame s) u = tasks s u"
  by (simp_all add: task_save_state_def)

lemma entry_sel [simp]:
  "kmem (command_entry frame s) = kmem s" "current_task (command_entry frame s) = current_task s"
  "kernel_chunk (command_entry frame s) = kernel_chunk s" "in_kernel (command_entry frame s) = command_entry frame s"
  "isr80h_commands (command_entry frame s) = isr80h_commands s" "console (command_entry frame s) = console s"
  "user_memory t (command_entry frame s) = user_memory t s" "user_address t (command_entry frame s) va = user_address t s va"
  "task_registers (tasks (command_entry frame s) (current_task s)) = registers.truncate frame"
  "page_directory (tasks (command_entry frame s) u) = page_directory (tasks s u)"
  "task_head (command_entry frame s) = task_head s" "task_tail (command_entry frame s) = task_tail s"
  by (simp_all add: command_entry_def user_memory_def user_address_def save_state_tasks)
    (simp_all add: task_save_state_def with_task_def in_kernel_def paging_switch_def)

lemma entry_tasks:
  "next_task (tasks (command_entry frame s) u) = next_task (tasks s u)"
  "prev_task (tasks (command_entry frame s) u) = prev_task (tasks s u)"
  "u \<noteq> current_task s \<Longrightarrow> tasks (command_entry frame s) u = tasks s u"
  by (simp_all add: command_entry_def save_state_tasks)

lemma tasks_ok_entry: "tasks_ok own ts s \<Longrightarrow> tasks_ok own ts (command_entry frame s)"
  by (erule tasks_ok_same) (simp_all add: entry_tasks)

text \<open>The state the task is continued in.\<close>

definition command_exit :: "'a kernel_state_scheme \<Rightarrow> 'a kernel_state_scheme" where
  "command_exit s = on_processor (current_task s) (s\<lparr>segments := 0x23\<rparr>)"

lemma exit_sel [simp]:
  "kmem (command_exit s) = kmem s" "current_task (command_exit s) = current_task s" "tasks (command_exit s) = tasks s"
  "task_head (command_exit s) = task_head s" "task_tail (command_exit s) = task_tail s"
  "console (command_exit s) = console s"
  by (simp_all add: command_exit_def on_processor_def)

lemma exit_in_task: "current_task s \<noteq> 0 \<Longrightarrow> in_task (command_exit s)"
  by (simp add: command_exit_def on_processor_def in_task_def paging_switch_def)

lemma tasks_ok_exit: "tasks_ok own ts s \<Longrightarrow> tasks_ok own ts (command_exit s)"
  by (erule tasks_ok_same) simp_all

lemma isr80h_run:
  assumes "kernel_chunk s \<noteq> 0" "current_task s \<noteq> 0" "n < 1024" "command_of s n = f" "f \<noteq> 0" "code f = Some g"
  shows "isr80h_handler code (of_nat n) frame s =
    prog_bind (g frame (command_entry frame s)) (\<lambda>(r, s). prog_bind (task_page s) (\<lambda>(_, s). ret (r, s)))"
proof -
  have "sint (of_nat n :: u32) = int n" using sint_small [of "of_nat n"] assms(3) by simp
  then have n: "\<not> (of_nat n :: u32) <s 0" "\<not> 1024 \<le>s (of_nat n :: u32)"
    using assms(3) by (simp_all add: word_sless_alt word_sle_eq)
  have "task_current_save_state frame (in_kernel s) = ret (command_entry frame s)"
    using assms(2) by (simp add: task_current_save_state_def task_current_def command_entry_def)
  moreover have "isr80h_handle_command code (of_nat n) frame (command_entry frame s) = g frame (command_entry frame s)"
    using n assms(3-6) by (simp add: isr80h_handle_command_def command_of_def call_pointer_def)
  ultimately show ?thesis
    using assms(1) by (simp add: isr80h_handler_def kernel_page_in)
qed

lemma task_page_exit:
  "current_task s \<noteq> 0 \<Longrightarrow> page_directory (tasks s (current_task s)) \<noteq> 0 \<Longrightarrow>
    task_page s = ret (0, command_exit s)"
  by (simp add: task_page_def task_switch_def switch_chunk_def Let_def command_exit_def on_processor_def)

text \<open>
  What is left of a call that itself changes memory and console only: the caller's saved
  registers, the segments and the page directory of the processor.
\<close>

definition called :: "interrupt_frame \<Rightarrow> mem \<Rightarrow> terminal \<Rightarrow> 'a kernel_state_scheme \<Rightarrow> 'a kernel_state_scheme" where
  "called frame m con s =
     s\<lparr>kmem := m, console := con,
       tasks := (tasks s)(current_task s := (tasks s (current_task s))\<lparr>task_registers := registers.truncate frame\<rparr>),
       segments := 0x23,
       kmmu := paging_switch m (page_directory (tasks s (current_task s))) (kmmu s)\<rparr>"

lemma save_state_record:
  "task_save_state t frame s = s\<lparr>tasks := (tasks s)(t := (tasks s t)\<lparr>task_registers := registers.truncate frame\<rparr>)\<rparr>"
  by (cases "task_registers (tasks s t)") (simp add: task_save_state_def with_task_def registers.truncate_def)

lemma paging_switch_again [simp]: "paging_switch m d (paging_switch m' d' u) = paging_switch m d u"
  by (simp add: paging_switch_def)

lemma paging_switch_any: "paging_switch m d u = paging_switch m d v"
  by (cases u; cases v) (simp add: paging_switch_def)

lemma exit_called:
  "command_exit (command_entry frame s\<lparr>kmem := m, segments := sg, kmmu := u, console := con\<rparr>) = called frame m con s"
proof -
  have c: "current_task (in_kernel s) = current_task s" by simp
  show ?thesis
    unfolding command_exit_def command_entry_def on_processor_def called_def save_state_record c
    by (cases s) (simp add: in_kernel_def paging_switch_any [where u = u])
qed

lemma exit_called_same: "command_exit (command_entry frame s) = called frame (kmem s) (console s) s"
proof -
  let ?e = "command_entry frame s"
  have "?e = ?e\<lparr>kmem := kmem s, segments := segments ?e, kmmu := kmmu ?e, console := console s\<rparr>"
    by (cases ?e) (use entry_sel(1,6) [of frame s] in simp)
  then have "command_exit ?e = command_exit (?e\<lparr>kmem := kmem s, segments := segments ?e, kmmu := kmmu ?e, console := console s\<rparr>)"
    by (rule arg_cong)
  then show ?thesis unfolding exit_called .
qed

section \<open>Printing for a task\<close>

text \<open>
  The tape as far as the text goes: another tape with the same cursor and the same cells there
  has the same cells after typing.
\<close>

lemma type_char_cong:
  "cursor a = cursor b \<Longrightarrow> cursor (type_char colour c a) = cursor (type_char colour c b)"
  "cursor a = cursor b \<Longrightarrow> cells a i = cells b i \<Longrightarrow> cells (type_char colour c a) i = cells (type_char colour c b) i"
  by (simp_all add: type_char_def)

lemma type_text_cursor:
  "cursor a = cursor b \<Longrightarrow> cursor (type_text colour bs a) = cursor (type_text colour bs b)"
  unfolding type_text_def
proof (induction bs arbitrary: a b)
  case (Cons c bs)
  show ?case using Cons.IH [OF type_char_cong(1) [OF Cons.prems]] by simp
qed simp

lemma type_text_cong:
  "cursor a = cursor b \<Longrightarrow> cells a i = cells b i \<Longrightarrow>
    cells (type_text colour bs a) i = cells (type_text colour bs b) i"
  unfolding type_text_def
proof (induction bs arbitrary: a b)
  case (Cons c bs)
  show ?case
    using Cons.IH [OF type_char_cong(1) [OF Cons.prems(1)] type_char_cong(2) [OF Cons.prems]] by simp
qed simp

lemma off_screen_le: "off_screen t p n \<Longrightarrow> k \<le> n \<Longrightarrow> off_screen t p k"
  unfolding off_screen_def using text_reach_mono [of k n t] by (meson le_trans less_le_trans)

text \<open>What printing from the 1024 bytes at \<open>buf\<close> needs.\<close>

definition print_room :: "addr \<Rightarrow> 'a kernel_state_scheme \<Rightarrow> bool" where
  "print_room buf s \<longleftrightarrow> card (kused (kmem s)) < 25600 \<and> video_mem (console s) = 0xB8000
     \<and> terminal_ok 1024 (console s) \<and> off_screen (console s) buf 1024 \<and> off_heap buf 1024"

text \<open>The screen is apart from the heap and from the buffer.\<close>

lemma kstable_screen: "j < 10485760 \<Longrightarrow> kstable m (0xB8000 + of_nat j)"
  by (rule kstable_low) (simp_all add: unat_word_ariths)

lemma screen_off_buffer:
  assumes "off_screen t buf n" "video_mem t = v" "j < text_reach t n"
  shows "n \<le> unat (v + of_nat j - buf)"
proof (rule ccontr)
  assume "\<not> n \<le> unat (v + of_nat j - buf)"
  then have "text_reach t n \<le> unat (buf + of_nat (unat (v + of_nat j - buf)) - v)"
    using assms(1,2) unfolding off_screen_def by (meson not_le)
  also have "\<dots> \<le> j" by (simp add: unat_of_nat)
  finally show False using assms(3) by simp
qed

lemma tasks_ok_bytes:
  assumes ok: "tasks_ok own ts s" and used: "kused m = kused (kmem s)"
    and same: "\<And>b i. b \<in> kused (kmem s) \<Longrightarrow> i < 4096 \<Longrightarrow> m (kblock b + of_nat i) = kmem s (kblock b + of_nat i)"
  shows "tasks_ok own ts (s\<lparr>kmem := m\<rparr>)"
proof -
  have "task_owns m (tasks s) t (own t)" if t: "t \<in> set ts" for t
  proof (rule task_owns_cong [where T = "tasks s" and T' = "tasks s"])
    show "task_owns (kmem s) (tasks s) t (own t)" by (rule tasks_okD(2) [OF ok t])
    fix cb d tb assume c: "chunk_blocks (kmem s) cb d tb" "space_blocks cb d tb \<subseteq> own t"
    show "chunk_blocks m cb d tb"
      by (rule chunk_blocks_cong(1) [OF c(1) same]) (use c(2) tasks_okD(3) [OF ok t] in auto)
  qed simp
  then show ?thesis using ok used by (simp add: tasks_ok_def)
qed

text \<open>
  The screen has the text typed after what it showed, on the rows the text can reach, and
  nothing in use changes but those rows and the buffer.
\<close>

definition shown :: "'a kernel_state_scheme \<Rightarrow> screen" where
  "shown s = screen_of (console s, kmem s)"

definition printed :: "addr \<Rightarrow> u8 list \<Rightarrow> 'a kernel_state_scheme \<Rightarrow> 'a kernel_state_scheme \<Rightarrow> bool" where
  "printed buf bs s s' \<longleftrightarrow> cursor (shown s') = cursor (type_text 15 bs (shown s))
     \<and> (\<forall>i < 80 * (unat (terminal_row (console s)) + length bs). cells (shown s') i = cells (type_text 15 bs (shown s)) i)
     \<and> kused (kmem s') = kused (kmem s)
     \<and> (\<forall>x. kstable (kmem s) x \<longrightarrow> 1024 \<le> unat (x - buf) \<longrightarrow> text_reach (console s) (length bs) \<le> unat (x - 0xB8000) \<longrightarrow>
          kmem s' x = kmem s x)"

lemma print_from_buffer:
  assumes room: "print_room buf s" and bs: "length bs < 1024" "0 \<notin> set bs"
    and m: "kused m = kused (kmem s)" "\<And>i. i < 1024 \<Longrightarrow> m (buf + of_nat i) = (if i < length bs then bs ! i else 0)"
      "\<And>x. kstable (kmem s) x \<Longrightarrow> 1024 \<le> unat (x - buf) \<Longrightarrow> m x = kmem s x"
  shows "\<exists>t' m'. print buf (console s, m) = Some (t', m') \<and> (\<forall>s'. console s' = t' \<longrightarrow> kmem s' = m' \<longrightarrow> printed buf bs s s')"
proof -
  let ?t = "console s"
  let ?k = "length bs"
  have r: "video_mem ?t = 0xB8000" "terminal_ok ?k ?t" "off_screen ?t buf 1024" "off_screen ?t buf (Suc ?k)"
      "text_reach ?t ?k \<le> text_reach ?t 1024" "text_reach ?t 1024 \<le> 10485760"
    using room bs(1) by (auto simp: print_room_def terminal_ok_def text_reach_max text_reach_mono intro: off_screen_le)
  have "cstr m buf bs" using m(2) bs by (simp add: cstr_def)
  then obtain t' m' where p: "print_text 15 bs (?t, m) = (t', m')" "print buf (?t, m) = Some (t', m')"
    using cprint_text [of m buf bs ?t 15] r(2,4) by (cases "print_text 15 bs (?t, m)") (simp add: print_def)
  have typed: "screen_of (t', m') = type_text 15 bs (screen_of (?t, m))"
      "unchanged_outside m m' 0xB8000 (text_reach ?t ?k)" "kused m' = kused m"
    using print_text_types [OF r(2), of 15 m] kused_text [OF r(2,1)] r(1) p(1) by auto
  have screen: "m (0xB8000 + of_nat j) = kmem s (0xB8000 + of_nat j)" if "j < text_reach ?t ?k" for j
    using that r(1,5,6) by (intro m(3) kstable_screen screen_off_buffer [OF r(3)]) simp_all
  have "cells (screen_of (?t, m)) i = cells (screen_of (?t, kmem s)) i" if i: "i < 80 * (unat (terminal_row ?t) + ?k)" for i
  proof -
    have "2 * i + 1 < text_reach ?t ?k" using i by (simp add: text_reach_def)
    then show ?thesis
      using screen [of "2 * i"] screen [of "2 * i + 1"]
      by (simp add: screen_of_def load16_def r(1) add.assoc)
  qed
  moreover have "cursor (screen_of (?t, m)) = cursor (screen_of (?t, kmem s))" by (simp add: screen_of_def)
  ultimately have "cursor (screen_of (t', m')) = cursor (type_text 15 bs (screen_of (?t, kmem s)))"
    "i < 80 * (unat (terminal_row ?t) + ?k) \<Longrightarrow>
      cells (screen_of (t', m')) i = cells (type_text 15 bs (screen_of (?t, kmem s))) i" for i
    unfolding typed(1) using type_text_cong type_text_cursor by blast+
  moreover have "m' x = kmem s x"
    if "kstable (kmem s) x" "1024 \<le> unat (x - buf)" "text_reach ?t ?k \<le> unat (x - 0xB8000)" for x
    using that m(3) typed(2) by (simp add: unchanged_outside_def)
  ultimately show ?thesis
    using p(2) typed(3) m(1) by (intro exI [of _ t'] exI [of _ m']) (simp add: printed_def shown_def)
qed

lemma command1_prints:
  assumes ok: "tasks_ok own ts s" "ts \<noteq> []" "kernel_chunk s \<noteq> 0" and room: "print_room buf s" and bs: "length bs < 1024"
    and str: "user_string (own (current_task s)) (current_task s)
      (load32 (user_memory (current_task s) s) (reg_esp (task_registers (tasks s (current_task s))))) bs s"
  shows "\<exists>m t u. isr80h_command1_print buf frame s = ret (0, s\<lparr>kmem := m, segments := 0x10, kmmu := u, console := t\<rparr>)
    \<and> printed buf bs s (s\<lparr>kmem := m, segments := 0x10, kmmu := u, console := t\<rparr>)"
proof -
  let ?t = "current_task s" and ?s = "in_kernel s"
  note cur = tasks_ok_current [OF ok(1,2)]
  have r: "card (kused (kmem ?s)) < 25600" "off_heap buf (unat (1024 :: u32))" using room by (simp_all add: print_room_def)
  have str': "user_string (own ?t) ?t (load32 (user_memory ?t s) (reg_esp (task_registers (tasks s ?t)))) bs ?s"
    using str by (simp add: user_string_def)
  have ok': "tasks_ok own ts ?s" using ok(1) by (rule tasks_ok_same) simp_all
  have cur': "?t \<in> set ts" "kernel_chunk ?s \<noteq> 0" "unat (1024 :: u32) < 4096" "length bs < unat (1024 :: u32)"
    using cur ok(3) bs by simp_all
  obtain m u where c: "copy_string_from_task ?t (load32 (user_memory ?t s) (reg_esp (task_registers (tasks s ?t)))) buf 1024 ?s
        = ret (0, ?s\<lparr>kmem := m, segments := 0x10, kmmu := u\<rparr>)"
      "kused m = kused (kmem s)" "\<And>i. i < 1024 \<Longrightarrow> m (buf + of_nat i) = (if i < length bs then bs ! i else 0)"
      "\<And>x. kstable (kmem s) x \<Longrightarrow> 1024 \<le> unat (x - buf) \<Longrightarrow> m x = kmem s x"
    using copy_string [OF ok' cur'(1) r(1) cur'(2) str' cur'(3,4) r(2)] by auto
  have "0 \<notin> set bs" using str by (simp add: user_string_def cstr_def)
  then obtain t' m' where p: "print buf (console s, m) = Some (t', m')"
      "\<And>s' :: 'a kernel_state_scheme. console s' = t' \<Longrightarrow> kmem s' = m' \<Longrightarrow> printed buf bs s s'"
    using print_from_buffer [OF room bs _ c(2,3,4)] by blast
  have "isr80h_command1_print buf frame s = ret (0, s\<lparr>kmem := m', segments := 0x10, kmmu := u, console := t'\<rparr>)"
    using stack_item [of ?t s 0] cur ok(3) c(1) p(1)
    by (simp add: isr80h_command1_print_def task_current_def) (simp add: in_kernel_def)
  then show ?thesis using p(2) by (intro exI [of _ m'] exI [of _ t'] exI [of _ u]) simp
qed

lemma off_heap_block:
  assumes "off_heap p n" "b < 25600" "i < 4096"
  shows "n \<le> unat (kblock b + of_nat i - p)"
proof (rule ccontr)
  assume "\<not> n \<le> unat (kblock b + of_nat i - p)"
  then have "4096 \<le> unat (p + of_nat (unat (kblock b + of_nat i - p)) - kblock b)"
    using assms(1,2) unfolding off_heap_def by (meson not_le)
  then show False using assms(3) by simp
qed

lemma printed_tasks_ok:
  assumes ok: "tasks_ok own ts s" and room: "print_room buf s" and bs: "length bs < 1024" and p: "printed buf bs s s'"
  shows "tasks_ok own ts (s\<lparr>kmem := kmem s'\<rparr>)"
proof (rule tasks_ok_bytes [OF ok])
  show "kused (kmem s') = kused (kmem s)" using p by (simp add: printed_def)
  fix b i :: nat assume b: "b \<in> kused (kmem s)" and i: "i < 4096"
  have "text_reach (console s) (length bs) \<le> 10485760"
    using room bs by (intro text_reach_max) (simp add: print_room_def terminal_ok_def)
  moreover have "1024 \<le> unat (kblock b + of_nat i - buf)"
    using room kused_less [OF b] i by (intro off_heap_block) (simp_all add: print_room_def)
  moreover note kblock_stable [OF b i] kblock_off_screen [OF kused_less [OF b] i]
  ultimately show "kmem s' (kblock b + of_nat i) = kmem s (kblock b + of_nat i)"
    using p unfolding printed_def by (meson le_trans)
qed

lemma printed_cong:
  "printed buf bs s s' \<Longrightarrow> console t = console s \<Longrightarrow> kmem t = kmem s \<Longrightarrow> console t' = console s' \<Longrightarrow> kmem t' = kmem s' \<Longrightarrow>
    printed buf bs t t'"
  by (simp add: printed_def shown_def)

section \<open>A caller\<close>

text \<open>
  A kernel with one task, whose stack at 0x500010 holds the address of the string \<open>Hi\<close> and the
  number 5.
\<close>

definition caller_memory :: mem where
  "caller_memory = (\<lambda>_. 0)(0x500000 := 0x48, 0x500001 := 0x69, 0x500012 := 0x50, 0x500014 := 5)"

definition caller_frame :: interrupt_frame where
  "caller_frame = \<lparr>reg_edi = 0, reg_esi = 0, reg_ebp = 0, reg_ebx = 0, reg_edx = 0, reg_ecx = 0, reg_eax = 0,
     reg_ip = 0x400010, reg_cs = 0x1b, reg_flags = 0x202, reg_esp = 0x500010, reg_ss = 0x23, reserved = 0\<rparr>"

definition caller_image :: command_image where
  "caller_image = \<lparr>command0_at = 0x100600, command1_at = 0x100700\<rparr>"

definition caller :: "(addr \<Rightarrow> nat set) \<Rightarrow> addr \<Rightarrow> kernel_state \<Rightarrow> bool" where
  "caller own t s \<longleftrightarrow> tasks_ok own [t] s \<and> kernel_chunk s \<noteq> 0 \<and> command_of s 0 = 0x100600 \<and> command_of s 1 = 0x100700
     \<and> card (kused (kmem s)) = 1027 \<and> console s = \<lparr>video_mem = 0xB8000, terminal_row = 0, terminal_col = 0\<rparr>
     \<and> (\<forall>x. user_address t s x = x) \<and> (\<forall>x. kstable caller_memory x \<longrightarrow> kmem s x = caller_memory x)"

lemma kused_caller: "kused caller_memory = {}"
proof -
  have "kused caller_memory = kused (\<lambda>_. 0)"
  proof (rule kused_cong_outside)
    fix k :: nat assume k: "k < 25600"
    then have "unat (0x7E00 + of_nat k :: addr) = 32256 + k" by (simp add: unat_word_ariths)
    then have "c \<noteq> 0x7E00 + of_nat k" "0x7E00 + of_nat k \<noteq> c" if "57856 \<le> unat c" for c :: addr
      using that k by auto
    then show "caller_memory (0x7E00 + of_nat k) = 0" by (simp add: caller_memory_def)
  qed
  then show ?thesis by simp
qed

lemma translate_identity:
  assumes "\<And>va. page va \<Longrightarrow> paging_get m d va = va OR f" "unat f < 4096"
  shows "translate m d x = x"
proof -
  obtain p i where p: "page p" "i < 4096" "x = p + of_nat i" using page_split by blast
  show ?thesis unfolding p(3) by (rule translate_page [OF p(1,2) assms(1) [OF p(1)] p(1) assms(2)])
qed

lemma caller_exists: "\<exists>own t s. caller own t s"
proof -
  define s0 :: kernel_state where "s0 = (no_tasks undefined)\<lparr>kmem := caller_memory\<rparr>"
  have s0: "tasks_ok (\<lambda>_. {}) [] s0" "kmem s0 = caller_memory"
    by (simp_all add: s0_def tasks_ok_def task_list_def task_chain_def task_ends_def no_tasks_def)
  obtain t B s1 where c: "task_created 0 [] s0 t B s1"
    using task_new_created [OF tasks_okD(1) [OF s0(1)], of 0] s0(2) kused_caller by auto
  define s where "s = s1\<lparr>kernel_chunk := 1, isr80h_commands := [0x100600, 0x100700],
    console := \<lparr>video_mem = 0xB8000, terminal_row = 0, terminal_col = 0\<rparr>\<rparr>"
  have "tasks_ok ((\<lambda>_. {})(t := B)) [t] s"
    using tasks_ok_same [where s' = s, OF tasks_ok_new [OF s0(1) c]] by (simp add: s_def)
  moreover have "card (kused (kmem s)) = 1027"
    using c task_owns_card [of "kmem s1" "tasks s1" t B] by (simp add: task_created_def s0(2) kused_caller s_def)
  moreover have "user_address t s x = x" for x
    using c unfolding user_address_def by (intro translate_identity [where f = 5]) (simp_all add: task_created_def s_def)
  moreover have "kmem s x = caller_memory x" if "kstable caller_memory x" for x
    using c that kextD(1) s0(2) by (simp add: task_created_def s_def)
  ultimately have "caller ((\<lambda>_. {})(t := B)) t s" by (simp add: caller_def s_def command_of_def)
  then show ?thesis by blast
qed

lemma caller_reads:
  assumes "caller own t s" "57856 \<le> unat x" "unat x < 16777216"
  shows "user_memory t s x = caller_memory x"
proof -
  have "user_memory t s x = kmem s (user_address t s x)" by (simp add: user_memory_def user_address_def vread_def)
  then show ?thesis using assms kstable_low by (simp add: caller_def)
qed

lemma caller_stack:
  assumes "caller own t s"
  shows "current_task s = t" "load32 (user_memory t s) 0x500010 = 0x500000" "load32 (user_memory t s) 0x500014 = 5"
proof -
  show "current_task s = t"
    using assms by (simp add: caller_def tasks_ok_def task_list_def task_chain_def task_ends_def)
  show "load32 (user_memory t s) 0x500010 = 0x500000" "load32 (user_memory t s) 0x500014 = 5"
    by (simp_all add: load32_def caller_reads [OF assms] caller_memory_def)
qed

lemma caller_string:
  assumes "caller own t s"
  shows "user_string (own t) t 0x500000 [0x48, 0x69] s"
proof -
  have own: "c < 25600" if "c \<in> own t" for c
    using assms that tasks_okD(3) [of own "[t]" s t] kused_less by (auto simp: caller_def)
  have u: "unat (0x500000 + of_nat i :: u32) = 5242880 + i" if "i \<le> 2" for i
    using that by (simp add: unat_word_ariths)
  show ?thesis
    unfolding user_string_def
  proof (intro conjI allI impI ballI)
    show "cstr (user_memory t s) 0x500000 [0x48, 0x69]"
      by (simp add: caller_reads [OF assms] caller_memory_def)
    fix i assume i: "i \<le> length [0x48 :: u8, 0x69]"
    have a: "user_address t s (0x500000 + of_nat i) = 0x500000 + of_nat i" using assms by (simp add: caller_def)
    show "kstable (kmem s) (0x500000 + of_nat i)" "kstable (kmem s) (user_address t s (0x500000 + of_nat i))"
      unfolding a using u i by (auto intro: kstable_low)
    show "4096 \<le> unat (user_address t s (0x500000 + of_nat i) - kblock c)" if "c \<in> own t" for c
      unfolding a using u i own [OF that] by (intro low_off_block) simp_all
  qed
qed

lemma caller_room:
  assumes "caller own t s"
  shows "print_room 0x1FF000 s"
proof -
  have "off_screen (console s) 0x1FF000 1024"
    by (rule off_screen_high) (use assms in \<open>simp_all add: caller_def text_reach_def\<close>)
  moreover have "off_heap 0x1FF000 1024" by (rule off_heap_low) simp_all
  ultimately show ?thesis using assms by (simp add: print_room_def caller_def terminal_ok_def)
qed

section \<open>Properties\<close>

text \<open>
  C21: System call 0 gives the caller the sum of the two words on its stack, read through its
  own page tables. In the whole state nothing changes but the calling task's saved registers,
  which are those of the interrupt frame, and what the processor is set to for going on with
  the task: its segments and page directory.
\<close>

theorem sum_command:
  assumes "tasks_ok own ts s" "ts \<noteq> []" "kernel_chunk s \<noteq> 0"
    "command_of s 0 = command0_at im" "command0_at im \<noteq> 0"
  shows "\<exists>s'. isr80h_handler (command_code im buf) 0 frame s =
      ret (load32 (user_memory (current_task s) s) (reg_esp frame)
        + load32 (user_memory (current_task s) s) (reg_esp frame + 4), s')
    \<and> s' = s\<lparr>tasks := (tasks s)(current_task s := (tasks s (current_task s))\<lparr>task_registers := registers.truncate frame\<rparr>),
        segments := 0x23, kmmu := paging_switch (kmem s) (page_directory (tasks s (current_task s))) (kmmu s)\<rparr>
    \<and> in_task s' \<and> tasks_ok own ts s'"
proof -
  note cur = tasks_ok_current [OF assms(1,2)]
  let ?s = "command_entry frame s" and ?t = "current_task s"
  have e: "reg_esp (registers.truncate frame) = reg_esp frame" by (simp add: registers.truncate_def)
  have "isr80h_command0_sum frame ?s = ret (load32 (user_memory ?t s) (reg_esp frame)
      + load32 (user_memory ?t s) (reg_esp frame + 4), ?s)"
    using cur assms(3) by (simp add: isr80h_command0_sum_def task_current_def stack_item e)
  then have "isr80h_handler (command_code im buf) 0 frame s = ret (load32 (user_memory ?t s) (reg_esp frame)
      + load32 (user_memory ?t s) (reg_esp frame + 4), command_exit ?s)"
    using isr80h_run [where n = 0 and code = "command_code im buf" and frame = frame,
        OF assms(3) _ _ assms(4,5)] cur by (simp add: command_code_def task_page_exit)
  moreover have "command_exit ?s = s\<lparr>tasks := (tasks s)(?t := (tasks s ?t)\<lparr>task_registers := registers.truncate frame\<rparr>),
      segments := 0x23, kmmu := paging_switch (kmem s) (page_directory (tasks s ?t)) (kmmu s)\<rparr>"
    unfolding exit_called_same called_def by (cases s) simp
  ultimately show ?thesis
    using cur tasks_ok_exit [OF tasks_ok_entry [OF assms(1), of frame]] exit_in_task [of ?s]
    by (intro exI [of _ "command_exit ?s"]) simp
qed

theorem sum_command_witness:
  "\<exists>own t s. caller own t s
    \<and> (\<exists>s'. isr80h_handler (command_code caller_image 0x1FF000) 0 caller_frame s = ret (0x500005, s') \<and> in_task s')"
proof -
  obtain own t s where c: "caller own t s" using caller_exists by blast
  have "\<exists>s'. isr80h_handler (command_code caller_image 0x1FF000) 0 caller_frame s = ret (0x500005, s') \<and> in_task s'"
    using sum_command [of own "[t]" s caller_image "0x1FF000" caller_frame] c caller_stack [OF c]
    by (auto simp: caller_def caller_image_def caller_frame_def)
  with c show ?thesis by blast
qed

text \<open>
  C6: System call 1 prints the string whose address is on top of the caller's stack, fetched
  through the caller's page tables, when the string is shorter than the 1024 bytes of the
  kernel's buffer (a longer one is not terminated in it): afterwards the screen shows the
  string typed in white, no block of the heap is in use that was not before, and of everything
  in use only the rows of the text and the kernel's buffer have changed. Apart from memory and
  the terminal's cursor, nothing changes in the whole state but the caller's saved registers
  and what the processor is set to for going on with it, so every other task's record is what
  it was, and every task's address space still its own.
\<close>

theorem print_command:
  assumes "tasks_ok own ts s" "ts \<noteq> []" "kernel_chunk s \<noteq> 0" "print_room buf s" "length bs < 1024"
    "command_of s 1 = command1_at im" "command1_at im \<noteq> 0" "command1_at im \<noteq> command0_at im"
    "user_string (own (current_task s)) (current_task s) (load32 (user_memory (current_task s) s) (reg_esp frame)) bs s"
  shows "\<exists>s'. isr80h_handler (command_code im buf) 1 frame s = ret (0, s') \<and> printed buf bs s s'
    \<and> s' = s\<lparr>kmem := kmem s', console := console s',
        tasks := (tasks s)(current_task s := (tasks s (current_task s))\<lparr>task_registers := registers.truncate frame\<rparr>),
        segments := 0x23, kmmu := paging_switch (kmem s') (page_directory (tasks s (current_task s))) (kmmu s)\<rparr>
    \<and> in_task s' \<and> tasks_ok own ts s'"
proof -
  let ?e = "command_entry frame s" and ?t = "current_task s"
  note cur = tasks_ok_current [OF assms(1,2)]
  note ok = tasks_ok_entry [OF assms(1), of frame]
  have r: "reg_esp (registers.truncate frame) = reg_esp frame" by (simp add: registers.truncate_def)
  have kc: "kernel_chunk ?e \<noteq> 0" using assms(3) by simp
  have room: "print_room buf ?e" using assms(4) by (simp add: print_room_def)
  have "user_string (own (current_task ?e)) (current_task ?e) (load32 (user_memory (current_task ?e) ?e)
      (reg_esp (task_registers (tasks ?e (current_task ?e))))) bs ?e"
    using assms(9) by (simp add: user_string_def r)
  then obtain s1 m t u where s1: "s1 = ?e\<lparr>kmem := m, segments := 0x10, kmmu := u, console := t\<rparr>"
      "isr80h_command1_print buf frame ?e = ret (0, s1)" "printed buf bs ?e s1"
    using command1_prints [OF ok assms(2) kc room assms(5), where frame = frame] by blast
  have ok1: "tasks_ok own ts s1"
    using printed_tasks_ok [OF ok room assms(5) s1(3)] by (rule tasks_ok_same) (simp_all add: s1(1))
  have sel: "current_task s1 = ?t" "tasks s1 = tasks ?e" by (simp_all add: s1(1))
  have "isr80h_handler (command_code im buf) 1 frame s = ret (0, command_exit s1)"
    using isr80h_run [where n = 1 and code = "command_code im buf" and frame = frame,
        OF assms(3) _ _ assms(6,7)] cur assms(8) s1(2) sel by (simp add: command_code_def task_page_exit)
  moreover have "printed buf bs s (command_exit s1)"
    using s1(3) by (rule printed_cong) simp_all
  moreover have "command_exit s1 = called frame m t s" unfolding s1(1) by (rule exit_called)
  moreover have "kmem (called frame m t s) = m" "console (called frame m t s) = t" by (simp_all add: called_def)
  ultimately show ?thesis
    using cur sel tasks_ok_exit [OF ok1] exit_in_task [of s1]
    by (intro exI [of _ "called frame m t s"]) (simp add: called_def)
qed

theorem print_command_witness:
  "\<exists>own t s. caller own t s
    \<and> (\<exists>s'. isr80h_handler (command_code caller_image 0x1FF000) 1 caller_frame s = ret (0, s')
         \<and> printed 0x1FF000 [0x48, 0x69] s s' \<and> in_task s')"
proof -
  obtain own t s where c: "caller own t s" using caller_exists by blast
  have "\<exists>s'. isr80h_handler (command_code caller_image 0x1FF000) 1 caller_frame s = ret (0, s')
      \<and> printed 0x1FF000 [0x48, 0x69] s s' \<and> in_task s'"
    using print_command [of own "[t]" s "0x1FF000" "[0x48, 0x69]" caller_image caller_frame] c caller_stack [OF c]
      caller_string [OF c] caller_room [OF c]
    by (auto simp: caller_def caller_image_def caller_frame_def)
  with c show ?thesis by blast
qed

end
