(* ===== verification/Process.thy ===== *)
theory Process
  imports CopyString
begin

text \<open>
  \<^verbatim>\<open>src/proc/process.c\<close>: loading a program. A process has the bytes of its file, a stack, and a
  task whose address space shows both where programs expect them.
\<close>

section \<open>Operations\<close>

abbreviation (input) DEXTER_USER_PROGRAM_STACK_SIZE :: u32 where "DEXTER_USER_PROGRAM_STACK_SIZE \<equiv> 16384"
abbreviation (input) DEXTER_PROGRAM_VIRTUAL_STACK_ADDRESS_END :: addr where
  "DEXTER_PROGRAM_VIRTUAL_STACK_ADDRESS_END \<equiv> DEXTER_PROGRAM_VIRTUAL_STACK_ADDRESS_START - DEXTER_USER_PROGRAM_STACK_SIZE"

definition zero_process :: process where
  "zero_process = \<lparr>process_id = 0, process_task = 0, process_ptr = 0, process_stack = 0, process_size = 0,
     process_keyboard = \<lparr>kb_buffer = replicate DEXTER_KEYBOARD_BUFFER_SIZE 0, kb_tail = 0, kb_head = 0\<rparr>\<rparr>"

definition with_process :: "(process \<Rightarrow> process) \<Rightarrow> addr \<Rightarrow> 'a kernel_state_scheme \<Rightarrow> 'a kernel_state_scheme" where
  "with_process f p s = s\<lparr>process_store := (process_store s)(p := f (process_store s p))\<rparr>"

definition process_init :: "addr \<Rightarrow> 'a kernel_state_scheme \<Rightarrow> 'a kernel_state_scheme" where
  "process_init process s = with_process (\<lambda>_. zero_process) process (s\<lparr>kmem := snd (memset (kmem s) process 0 5256)\<rparr>)"

definition process_get :: "u32 \<Rightarrow> 'a kernel_state_scheme \<Rightarrow> addr" where
  "process_get pid s =
     (if pid <s 0 \<or> of_nat DEXTER_MAX_PROCESSES \<le>s pid then 0 else processes s ! unat pid)"

text \<open>
  \<open>mode\<close> is the address of the literal \<^verbatim>\<open>"r"\<close> and \<open>stat\<close> that of the local structure, whose
  second word is the size. The file is closed on every way out, also when it was not opened.
\<close>

definition process_load_binary ::
  "'a kernel_state_scheme drivers \<Rightarrow> addr \<Rightarrow> addr \<Rightarrow> addr \<Rightarrow> addr \<Rightarrow> 'a kernel_state_scheme
    \<Rightarrow> (u32 \<times> 'a kernel_state_scheme) prog" where
  "process_load_binary drv mode stat filename process s =
     prog_bind (fopen drv filename mode s) (\<lambda>(fd, s).
       let out = (\<lambda>r s. prog_bind (fclose drv fd s) (\<lambda>(_, s). ret (r, s))) in
       if fd = 0 then out (- EIO) s
       else prog_bind (fstat drv fd stat s) (\<lambda>(r, s).
         if r \<noteq> 0 then out r s
         else case kzalloc (kmem s) (load32 (kmem s) (stat + 4)) of (program_data_ptr, m) \<Rightarrow>
           let s = s\<lparr>kmem := m\<rparr> in
           if program_data_ptr = 0 then out (- ENOMEM) s
           else prog_bind (fread drv program_data_ptr (load32 (kmem s) (stat + 4)) 1 fd s) (\<lambda>(n, s).
             if n \<noteq> 1 then out (- EIO) s
             else out r (with_process (\<lambda>p. p\<lparr>process_ptr := program_data_ptr,
                 process_size := load32 (kmem s) (stat + 4)\<rparr>) process s))))"

definition process_load_data ::
  "'a kernel_state_scheme drivers \<Rightarrow> addr \<Rightarrow> addr \<Rightarrow> addr \<Rightarrow> addr \<Rightarrow> 'a kernel_state_scheme
    \<Rightarrow> (u32 \<times> 'a kernel_state_scheme) prog" where
  "process_load_data drv mode stat filename process s = process_load_binary drv mode stat filename process s"

text \<open>What \<open>paging_map_to\<close> returns is not looked at.\<close>

definition process_map_binary :: "addr \<Rightarrow> 'a kernel_state_scheme \<Rightarrow> (u32 \<times> 'a kernel_state_scheme) prog" where
  "process_map_binary process s =
     (let p = process_store s process in
      if process_task p = 0 then faulty NullDeref
      else ret (0, s\<lparr>kmem := snd (paging_map_to (kmem s) (page_directory (tasks s (process_task p)))
        DEXTER_PROGRAM_VIRTUAL_ADDRESS (process_ptr p) (paging_align_address (process_ptr p + process_size p))
        ((ucast PAGING_IS_PRESENT OR ucast PAGING_ACCESS_FROM_ALL) OR ucast PAGING_IS_WRITEABLE))\<rparr>))"

definition process_map_memory :: "addr \<Rightarrow> 'a kernel_state_scheme \<Rightarrow> (u32 \<times> 'a kernel_state_scheme) prog" where
  "process_map_memory process s =
     prog_bind (process_map_binary process s) (\<lambda>(r, s).
       if r <s 0 then ret (r, s)
       else
         let p = process_store s process
         in ret (r, s\<lparr>kmem := snd (paging_map_to (kmem s) (page_directory (tasks s (process_task p)))
           DEXTER_PROGRAM_VIRTUAL_STACK_ADDRESS_END (process_stack p)
           (paging_align_address (process_stack p + DEXTER_USER_PROGRAM_STACK_SIZE))
           ((ucast PAGING_ACCESS_FROM_ALL OR ucast PAGING_IS_PRESENT) OR ucast PAGING_IS_WRITEABLE))\<rparr>))"

definition process_get_free_slot :: "'a kernel_state_scheme \<Rightarrow> u32" where
  "process_get_free_slot s =
     (case find (\<lambda>i. processes s ! i = 0) [0..<DEXTER_MAX_PROCESSES] of None \<Rightarrow> - EISTKN | Some i \<Rightarrow> of_nat i)"

text \<open>
  The code from the label \<^verbatim>\<open>out\<close> on. \<open>pp\<close> is what the caller's pointer holds, the second
  result what it holds afterwards.
\<close>

definition process_load_out ::
  "addr \<Rightarrow> u32 \<Rightarrow> addr \<Rightarrow> 'a kernel_state_scheme \<Rightarrow> (u32 \<times> addr \<times> 'a kernel_state_scheme) prog" where
  "process_load_out process r pp s =
     (if r <s 0 \<and> process \<noteq> 0 \<and> process_task (process_store s process) \<noteq> 0
      then prog_bind (task_free (process_task (process_store s process)) s) (\<lambda>(_, s). ret (r, pp, s))
      else ret (r, pp, s))"

text \<open>
  When the slot is taken the code jumps over the assignment of \<^verbatim>\<open>_process\<close>, which is then
  tested. A slot out of range passes \<open>process_get\<close>. The test for a failed \<open>task_new\<close> accepts
  every error but NULL.
\<close>

definition process_load_for_slot ::
  "'a kernel_state_scheme drivers \<Rightarrow> addr \<Rightarrow> addr \<Rightarrow> addr \<Rightarrow> addr \<Rightarrow> u32 \<Rightarrow> 'a kernel_state_scheme
    \<Rightarrow> (u32 \<times> addr \<times> 'a kernel_state_scheme) prog" where
  "process_load_for_slot drv mode stat filename pp process_slot s =
     (if process_get process_slot s \<noteq> 0 then faulty Uninitialised
      else case kzalloc (kmem s) 5256 of (process, m) \<Rightarrow>
        let s = s\<lparr>kmem := m\<rparr> in
        if process = 0 then process_load_out process (- ENOMEM) pp s
        else
          let s = process_init process s
          in prog_bind (process_load_data drv mode stat filename process s) (\<lambda>(r, s).
            if r <s 0 then process_load_out process r pp s
            else case kzalloc (kmem s) DEXTER_USER_PROGRAM_STACK_SIZE of (program_stack_ptr, m) \<Rightarrow>
              let s = s\<lparr>kmem := m\<rparr> in
              if program_stack_ptr = 0 then process_load_out process (- ENOMEM) pp s
              else
                let s = s\<lparr>kmem := snd (strncpy (kmem s) (process + 2) filename 108)\<rparr>;
                    s = with_process (\<lambda>p. p\<lparr>process_stack := program_stack_ptr\<rparr>) process s;
                    s = with_process (\<lambda>p. p\<lparr>process_id := ucast process_slot\<rparr>) process s
                in prog_bind (task_new process s) (\<lambda>(task, s).
                  if task = 0 then process_load_out process task pp s
                  else
                    let s = with_process (\<lambda>p. p\<lparr>process_task := task\<rparr>) process s
                    in prog_bind (process_map_memory process s) (\<lambda>(r, s).
                      if r <s 0 then process_load_out process r pp s
                      else if unat process_slot < DEXTER_MAX_PROCESSES
                      then process_load_out process r process
                        (s\<lparr>processes := (processes s)[unat process_slot := process]\<rparr>)
                      else faulty OutOfBounds))))"

definition process_load ::
  "'a kernel_state_scheme drivers \<Rightarrow> addr \<Rightarrow> addr \<Rightarrow> addr \<Rightarrow> addr \<Rightarrow> 'a kernel_state_scheme
    \<Rightarrow> (u32 \<times> addr \<times> 'a kernel_state_scheme) prog" where
  "process_load drv mode stat filename pp s =
     (let process_slot = process_get_free_slot s in
      if process_slot <s 0 then ret (- EISTKN, pp, s)
      else process_load_for_slot drv mode stat filename pp process_slot s)"

section \<open>Mapping into a space\<close>

lemma put_byte:
  assumes "chunk_blocks m cb d tb" "page va" "\<And>b. b \<in> space_blocks cb d tb \<Longrightarrow> 4096 \<le> unat (x - kblock b)"
  shows "space_put (kblock cb) m va v x = m x"
proof -
  have "tb (vdir va) < 25600" "tb (vdir va) \<in> space_blocks cb d tb" "load32 m (kblock cb) = kblock d"
    "ptab m (kblock d) (vdir va) = kblock (tb (vdir va))"
    using assms(1) by (simp_all add: chunk_blocks_def space_blocks_def)
  then show ?thesis
    using assms(2,3) store_word_byte [of "kblock (tb (vdir va))" "vtab va" x m v]
    by (simp add: space_put_def paging_set_page)
qed

lemma put_all_byte:
  "chunk_blocks m cb d tb \<Longrightarrow> list_all (\<lambda>(k, v). page k) kvs \<Longrightarrow>
    (\<And>b. b \<in> space_blocks cb d tb \<Longrightarrow> 4096 \<le> unat (x - kblock b)) \<Longrightarrow> space.update_all (kblock cb) kvs m x = m x"
proof (induction kvs arbitrary: m)
  case (Cons kv kvs)
  then show ?case by (cases kv) (simp add: chunk_blocks_put put_byte)
qed simp

lemma page_diff: "page p \<Longrightarrow> page q \<Longrightarrow> page (p - q)"
  by (simp add: page_nat unat_sub_if' dvd_diff_nat)

text \<open>The pages of a range, by their distance from its start.\<close>

lemma range_pages:
  assumes "page va" "page wa" "page len"
  shows "wa \<in> (\<lambda>k. va + of_nat (4096 * k)) ` {..<unat (len div 4096)} \<longleftrightarrow> wa - va < len"
proof
  have n: "4096 * unat (len div 4096) = unat len" using assms(3) by (simp add: page_nat unat_div)
  {
    assume "wa \<in> (\<lambda>k. va + of_nat (4096 * k)) ` {..<unat (len div 4096)}"
    then obtain k where k: "wa = va + of_nat (4096 * k)" "k < unat (len div 4096)" by blast
    then have "4096 * k < unat len" using n by linarith
    moreover from this have "4096 * k < 4294967296" using unat32_less [of len] by linarith
    ultimately have "(of_nat (4096 * k) :: u32) < len" by (simp add: word_less_nat_alt del: of_nat_mult)
    then show "wa - va < len" using k(1) by (simp del: of_nat_mult)
  next
    assume l: "wa - va < len"
    obtain k where k: "unat (wa - va) = 4096 * k" using page_diff [OF assms(2,1)] by (auto simp: page_nat)
    have "wa = va + of_nat (unat (wa - va))" by simp
    then have "wa = va + of_nat (4096 * k)" unfolding k .
    moreover have "k < unat (len div 4096)" using l k n by (simp add: word_less_nat_alt)
    ultimately show "wa \<in> (\<lambda>k. va + of_nat (4096 * k)) ` {..<unat (len div 4096)}" by blast
  }
qed

text \<open>What \<open>paging_map_to\<close> makes of a space.\<close>

definition mapped_to :: "mem \<Rightarrow> nat \<Rightarrow> nat \<Rightarrow> (nat \<Rightarrow> nat) \<Rightarrow> addr \<Rightarrow> addr \<Rightarrow> u32 \<Rightarrow> mem \<Rightarrow> bool" where
  "mapped_to m cb d tb virt phys len m' \<longleftrightarrow> chunk_blocks m' cb d tb \<and> kused m' = kused m
     \<and> (\<forall>va. translate m' (kblock d) va = (if va - virt < len then phys + (va - virt) else translate m (kblock d) va))
     \<and> (\<forall>x. (\<forall>b \<in> space_blocks cb d tb. 4096 \<le> unat (x - kblock b)) \<longrightarrow> m' x = m x)"

lemma offset_less:
  assumes "page va" "page virt" "page len" "i < 4096"
  shows "va + of_nat i - virt < len \<longleftrightarrow> va - virt < len"
proof -
  have u: "unat (va - virt + of_nat i) = unat (va - virt) + i"
    by (rule unat_page_add [OF page_diff [OF assms(1,2)] assms(4)])
  have e: "va + of_nat i - virt = va - virt + of_nat i" by simp
  obtain a b where "unat (va - virt) = 4096 * a" "unat len = 4096 * b"
    using assms(3) page_diff [OF assms(1,2)] unfolding page_nat by (elim dvdE) blast
  then show ?thesis unfolding e word_less_nat_alt u using assms(4) by auto
qed

lemma map_to_space:
  assumes cb: "chunk_blocks m cb d tb" and pg: "page virt" "page phys" "page phys_end" "phys \<le> phys_end" and f: "unat flags < 4096"
  shows "\<exists>m'. paging_map_to m (kblock cb) virt phys phys_end flags = (0, m') \<and> mapped_to m cb d tb virt phys (phys_end - phys) m'"
proof -
  let ?len = "phys_end - phys"
  let ?c = "kblock cb"
  note ok = chunk_blocks_space_ok [OF cb]
  have len: "page ?len" by (rule page_diff [OF pg(3,2)])
  have "unat (?len div 4096) \<le> 1048576" using div_le_mono [OF less_imp_le [OF unat32_less [of ?len]], of 4096] by (simp add: unat_div)
  from map_range_updates [OF pg(1,2) this, of m ?c flags] ok obtain kvs where
    r: "paging_map_range m ?c virt phys (?len div 4096) flags = (0, space.update_all ?c kvs m)" "list_all (\<lambda>(k, v). page k) kvs"
      "\<And>k. k < unat (?len div 4096) \<Longrightarrow>
        space_get ?c (space.update_all ?c kvs m) (virt + of_nat (4096 * k)) = (phys + of_nat (4096 * k)) OR flags"
      "\<And>wa. page wa \<Longrightarrow> wa \<notin> (\<lambda>k. virt + of_nat (4096 * k)) ` {..<unat (?len div 4096)} \<Longrightarrow>
        space_get ?c (space.update_all ?c kvs m) wa = space_get ?c m wa"
    by blast
  let ?m = "space.update_all ?c kvs m"
  have cb': "chunk_blocks ?m cb d tb" "kused ?m = kused m" using chunk_blocks_put_all [OF cb r(2)] by simp_all
  have dir: "load32 m ?c = kblock d" "load32 ?m ?c = kblock d" using cb cb'(1) by (simp_all add: chunk_blocks_def)
  have get: "paging_get ?m (kblock d) wa = (if wa - virt < ?len then (phys + (wa - virt)) OR flags else paging_get m (kblock d) wa)"
    if wa: "page wa" for wa
  proof (cases "wa - virt < ?len")
    case True
    then obtain k where "wa = virt + of_nat (4096 * k)" "k < unat (?len div 4096)"
      using range_pages [OF pg(1) wa len] by blast
    then show ?thesis using True r(3) [of k] dir by (simp add: space_get_def del: of_nat_mult)
  next
    case False
    then show ?thesis using range_pages [OF pg(1) wa len] r(4) [OF wa] dir by (simp add: space_get_def)
  qed
  have tr: "translate ?m (kblock d) va = (if va - virt < ?len then phys + (va - virt) else translate m (kblock d) va)" for va
  proof -
    obtain p i where p: "page p" "i < 4096" "va = p + of_nat i" using page_split by blast
    show ?thesis
    proof (cases "p - virt < ?len")
      case True
      have "page (phys + (p - virt))"
        using page_diff [OF p(1) page_diff [OF pg(1,2)]] by (simp add: algebra_simps)
      then have "translate ?m (kblock d) va = phys + (p - virt) + of_nat i"
        unfolding p(3) using get [OF p(1)] True by (intro translate_page [OF p(1,2) _ _ f]) simp_all
      then show ?thesis using True offset_less [OF p(1) pg(1) len p(2)] by (simp add: p(3))
    next
      case False
      then show ?thesis
        unfolding p(3) using get [OF p(1)] page_offset(1) [OF p(1,2)] offset_less [OF p(1) pg(1) len p(2)]
        by (simp add: translate_cong [of ?m])
    qed
  qed
  have "paging_map_to m ?c virt phys phys_end flags = (0, ?m)"
    using pg r(1) by (simp add: paging_map_to_def page_def not_less)
  then show ?thesis
    unfolding mapped_to_def using cb' tr put_all_byte [OF cb r(2)] by blast
qed

lemma align_address:
  assumes "unat p \<le> 4294963200"
  shows "page (paging_align_address p)" "p \<le> paging_align_address p"
proof -
  define q r where "q = unat p div 4096" and "r = unat p mod 4096"
  have r: "r < 4096" "unat (p mod 4096) = r" "unat p = 4096 * q + r" by (simp_all add: q_def r_def unat_mod32)
  have "page (paging_align_address p) \<and> p \<le> paging_align_address p"
  proof (cases "r = 0")
    case True
    then have "p mod 4096 = 0" using r(2) by (simp add: word_unat_eq_iff)
    then show ?thesis using r(3) True by (simp add: paging_align_address_def page_nat)
  next
    case False
    have "unat (4096 - p mod 4096) = 4096 - r" using r(1,2) by (simp add: unat_sub_if')
    moreover have "q < 1048575" using r(1,3) assms False by linarith
    ultimately have u: "unat (p + (4096 - p mod 4096)) = 4096 * (q + 1)"
      using r(1,3) by (simp add: unat_word_ariths)
    have "p mod 4096 \<noteq> 0" using r(2) False by (auto simp: word_unat_eq_iff)
    then have "paging_align_address p = p + (4096 - p mod 4096)"
      by (simp add: paging_align_address_def algebra_simps)
    then show ?thesis using u r(1,3) by (simp add: page_nat word_le_nat_alt)
  qed
  then show "page (paging_align_address p)" "p \<le> paging_align_address p" by blast+
qed

lemma align_page: "page p \<Longrightarrow> paging_align_address p = p"
  by (simp add: paging_align_address_def page_def)

text \<open>A space mapped anew leaves the other tasks' spaces alone.\<close>

lemma mapped_tasks_ok:
  assumes ok: "tasks_ok own ts s" "t \<in> set ts" and cb: "page_directory (tasks s t) = kblock cb"
    and own: "own t = insert bt (space_blocks cb d tb)" "bt \<notin> space_blocks cb d tb" "t = kblock bt" "bt < 25600"
    and m: "chunk_blocks m cb d tb" "kused m = kused (kmem s)" "chunk_blocks (kmem s) cb d tb"
      "\<And>x. (\<And>b. b \<in> space_blocks cb d tb \<Longrightarrow> 4096 \<le> unat (x - kblock b)) \<Longrightarrow> m x = kmem s x"
  shows "tasks_ok own ts (s\<lparr>kmem := m\<rparr>)"
    and "u \<in> set ts \<Longrightarrow> u \<noteq> t \<Longrightarrow> user_address u (s\<lparr>kmem := m\<rparr>) va = user_address u s va"
proof -
  have sp: "c < 25600" if "c \<in> space_blocks cb d tb" for c using that m(3) by (auto simp: space_blocks_def chunk_blocks_def)
  have same: "m (kblock b + of_nat i) = kmem s (kblock b + of_nat i)"
    if u: "u \<in> set ts" "u \<noteq> t" and b: "b \<in> own u" and i: "i < 4096" for u b i
  proof (rule m(4))
    fix c assume c: "c \<in> space_blocks cb d tb"
    have "b < 25600" "c \<noteq> b"
      using b c own(1) kused_less tasks_okD(3) [OF ok(1) u(1)] tasks_okD(4) [OF ok(1) u(1) ok(2) u(2)] by blast+
    then have "apart (kblock c) 4096 (kblock b) 4096" using sp [OF c] by (simp add: kblock_apart)
    then show "4096 \<le> unat (kblock b + of_nat i - kblock c)" using i by (rule apart_out)
  qed
  have owns: "task_owns m (tasks s) u (own u)" if u: "u \<in> set ts" for u
  proof (cases "u = t")
    case True
    show ?thesis unfolding True task_owns_def using own cb m(1) by blast
  next
    case False
    show ?thesis
    proof (rule task_owns_cong [where T = "tasks s" and T' = "tasks s"])
      show "task_owns (kmem s) (tasks s) u (own u)" by (rule tasks_okD(2) [OF ok(1) u])
      fix cb' d' tb' assume c: "chunk_blocks (kmem s) cb' d' tb'" "space_blocks cb' d' tb' \<subseteq> own u"
      show "chunk_blocks m cb' d' tb'" by (rule chunk_blocks_cong(1) [OF c(1) same [OF u False]]) (use c(2) in auto)
    qed simp
  qed
  show "tasks_ok own ts (s\<lparr>kmem := m\<rparr>)" using ok(1) m(2) owns by (simp add: tasks_ok_def)
  show "user_address u (s\<lparr>kmem := m\<rparr>) va = user_address u s va" if u: "u \<in> set ts" "u \<noteq> t"
  proof -
    obtain cb' d' tb' where c: "page_directory (tasks s u) = kblock cb'" "chunk_blocks (kmem s) cb' d' tb'"
        "space_blocks cb' d' tb' \<subseteq> own u"
      using tasks_okD(2) [OF ok(1) u(1)] by (auto simp: task_owns_def)
    have "m (kblock b + of_nat i) = kmem s (kblock b + of_nat i)" if "b \<in> space_blocks cb' d' tb'" "i < 4096" for b i
      using same [OF u _ that(2)] that(1) c(3) by blast
    then have "paging_get m (load32 m (kblock cb')) (va AND 0xfffff000) = paging_get (kmem s) (load32 (kmem s) (kblock cb')) (va AND 0xfffff000)"
      by (intro chunk_blocks_cong(2) [OF c(2)]) simp_all
    then show ?thesis unfolding user_address_def using c(1) by (simp add: translate_def)
  qed
qed

section \<open>Properties\<close>

text \<open>The size of a process's program in whole pages.\<close>

definition program_pages :: "process \<Rightarrow> u32" where
  "program_pages p = paging_align_address (process_ptr p + process_size p) - process_ptr p"

text \<open>Both mappings, for a task whose space is known.\<close>

lemma process_map_run:
  fixes s :: "'a kernel_state_scheme" and pr :: addr
  defines "p \<equiv> process_store s pr"
  assumes t: "process_task p \<noteq> 0" "page_directory (tasks s (process_task p)) = kblock cb" and cb: "chunk_blocks (kmem s) cb d tb"
    and pg: "page (process_ptr p)" "page (process_stack p)"
    and fits: "unat (process_ptr p) + unat (process_size p) \<le> 0x7FFFF000" "unat (process_stack p) \<le> 0x7FFFF000"
  shows "\<exists>m'. process_map_memory pr s = ret (0, s\<lparr>kmem := m'\<rparr>) \<and> chunk_blocks m' cb d tb \<and> kused m' = kused (kmem s)
    \<and> (\<forall>x. (\<forall>b \<in> space_blocks cb d tb. 4096 \<le> unat (x - kblock b)) \<longrightarrow> m' x = kmem s x)
    \<and> (\<forall>va. translate m' (kblock d) va =
         (if va - 0x3FB000 < 0x4000 then process_stack p + (va - 0x3FB000)
          else if va - 0x400000 < program_pages p then process_ptr p + (va - 0x400000) else translate (kmem s) (kblock d) va))"
proof -
  have al: "unat (process_ptr p + process_size p) = unat (process_ptr p) + unat (process_size p)"
    using fits(1) by (simp add: unat_word_ariths)
  let ?lim = "paging_align_address (process_ptr p + process_size p)"
  have e: "page ?lim" "process_ptr p + process_size p \<le> ?lim" using align_address al fits(1) by simp_all
  then have "process_ptr p \<le> ?lim" using al by (simp add: word_le_nat_alt)
  from map_to_space [OF cb _ pg(1) e(1) this, of "0x400000" 7] obtain m1 where
    m1: "paging_map_to (kmem s) (kblock cb) 0x400000 (process_ptr p) ?lim 7 = (0, m1)"
      "mapped_to (kmem s) cb d tb 0x400000 (process_ptr p) (program_pages p) m1"
    by (auto simp: page_def program_pages_def)
  have c1: "chunk_blocks m1 cb d tb" using m1(2) by (simp add: mapped_to_def)
  let ?st = "process_stack p + 16384"
  have "unat ?st = unat (process_stack p) + 16384" using fits(2) by (simp add: unat_word_ariths)
  then have st: "page ?st" "process_stack p \<le> ?st" using pg(2) by (simp_all add: page_nat word_le_nat_alt)
  from map_to_space [OF c1 _ pg(2) st, of "0x3FB000" 7] obtain m2 where
    m2: "paging_map_to m1 (kblock cb) 0x3FB000 (process_stack p) (paging_align_address ?st) 7 = (0, m2)"
      "mapped_to m1 cb d tb 0x3FB000 (process_stack p) 0x4000 m2"
    by (auto simp: page_def align_page [OF st(1)])
  have "process_map_memory pr s = ret (0, s\<lparr>kmem := m2\<rparr>)"
    using m1(1) m2(1) t unfolding p_def
    by (simp add: process_map_memory_def process_map_binary_def Let_def)
  then show ?thesis using m1(2) m2(2) by (intro exI [of _ m2]) (simp add: mapped_to_def)
qed

text \<open>
  C5: \<open>process_map_memory\<close> gives the process's task the address space programs expect: the
  bytes of the program appear from 0x400000 on, rounded up to whole pages, those of the stack
  at 0x3FB000 up to 0x3FF000, and every other address leads where it led before. The spaces
  of other tasks stay as they are and no block is taken or released.
\<close>

theorem process_map_memory_maps:
  assumes "tasks_ok own ts s" "process_task (process_store s pr) \<in> set ts"
    "page (process_ptr (process_store s pr))" "page (process_stack (process_store s pr))"
    "unat (process_ptr (process_store s pr)) + unat (process_size (process_store s pr)) \<le> 0x7FFFF000"
    "unat (process_stack (process_store s pr)) \<le> 0x7FFFF000"
  shows "\<exists>m'. process_map_memory pr s = ret (0, s\<lparr>kmem := m'\<rparr>) \<and> tasks_ok own ts (s\<lparr>kmem := m'\<rparr>) \<and> kused m' = kused (kmem s)
    \<and> (\<forall>va. user_address (process_task (process_store s pr)) (s\<lparr>kmem := m'\<rparr>) va =
         (if va - 0x3FB000 < 0x4000 then process_stack (process_store s pr) + (va - 0x3FB000)
          else if va - 0x400000 < program_pages (process_store s pr) then process_ptr (process_store s pr) + (va - 0x400000)
          else user_address (process_task (process_store s pr)) s va))
    \<and> (\<forall>u \<in> set ts. u \<noteq> process_task (process_store s pr) \<longrightarrow>
         (\<forall>va. user_address u (s\<lparr>kmem := m'\<rparr>) va = user_address u s va))"
proof -
  let ?p = "process_store s pr"
  let ?t = "process_task ?p"
  obtain bt cb d tb where o: "?t = kblock bt" "bt < 25600" "page_directory (tasks s ?t) = kblock cb"
    "chunk_blocks (kmem s) cb d tb" "bt \<notin> space_blocks cb d tb" "own ?t = insert bt (space_blocks cb d tb)"
    using tasks_okD(2) [OF assms(1,2)] by (auto simp: task_owns_def)
  have "?t \<noteq> 0" using o(1,2) kblock_nonzero by simp
  then obtain m' where m': "process_map_memory pr s = ret (0, s\<lparr>kmem := m'\<rparr>)" "chunk_blocks m' cb d tb" "kused m' = kused (kmem s)"
      "\<And>x. (\<And>b. b \<in> space_blocks cb d tb \<Longrightarrow> 4096 \<le> unat (x - kblock b)) \<Longrightarrow> m' x = kmem s x"
      "\<And>va. translate m' (kblock d) va =
         (if va - 0x3FB000 < 0x4000 then process_stack ?p + (va - 0x3FB000)
          else if va - 0x400000 < program_pages ?p then process_ptr ?p + (va - 0x400000) else translate (kmem s) (kblock d) va)"
    using process_map_run [OF _ o(3,4) assms(3-6)] by blast
  note same = mapped_tasks_ok [OF assms(1,2) o(3,6,5,1,2) m'(2,3) o(4) m'(4)]
  have "load32 m' (kblock cb) = kblock d" "load32 (kmem s) (kblock cb) = kblock d"
    using m'(2) o(4) by (simp_all add: chunk_blocks_def)
  then have "user_address ?t (s\<lparr>kmem := m'\<rparr>) va =
      (if va - 0x3FB000 < 0x4000 then process_stack ?p + (va - 0x3FB000)
       else if va - 0x400000 < program_pages ?p then process_ptr ?p + (va - 0x400000)
       else user_address ?t s va)" for va
    using m'(5) o(3) by (simp add: user_address_def)
  then show ?thesis using m'(1,3) same by blast
qed

theorem process_map_memory_maps_witness:
  "\<exists>t (s :: kernel_state) m'. process_map_memory 0x1500000 s = ret (0, s\<lparr>kmem := m'\<rparr>)
     \<and> user_address t (s\<lparr>kmem := m'\<rparr>) 0x400012 = 0x2000012 \<and> user_address t (s\<lparr>kmem := m'\<rparr>) 0x3FEFFC = 0x3003FFC"
proof -
  obtain own t u and s0 :: kernel_state where s0: "tasks_ok own [t, u] s0" using two_tasks by blast
  define s where "s = s0\<lparr>process_store := (\<lambda>_. zero_process\<lparr>process_task := t, process_ptr := 0x2000000,
    process_stack := 0x3000000, process_size := 100\<rparr>)\<rparr>"
  have ok: "tasks_ok own [t, u] s" using s0 by (rule tasks_ok_same) (simp_all add: s_def)
  have sel: "process_task (process_store s 0x1500000) = t" "process_ptr (process_store s 0x1500000) = 0x2000000"
    "process_stack (process_store s 0x1500000) = 0x3000000" "process_size (process_store s 0x1500000) = 100"
    by (simp_all add: s_def)
  have pages: "program_pages (process_store s 0x1500000) = 4096"
    by (simp add: program_pages_def sel paging_align_address_def)
  have "page 0x2000000" "page 0x3000000" by (simp_all add: page_def)
  then obtain m' where m': "process_map_memory 0x1500000 s = ret (0, s\<lparr>kmem := m'\<rparr>)"
      "\<And>va. user_address t (s\<lparr>kmem := m'\<rparr>) va = (if va - 0x3FB000 < 0x4000 then 0x3000000 + (va - 0x3FB000)
        else if va - 0x400000 < 4096 then 0x2000000 + (va - 0x400000) else user_address t s va)"
    using process_map_memory_maps [OF ok, of "0x1500000"] unfolding sel pages by auto
  then show ?thesis by (intro exI [of _ t] exI [of _ s] exI [of _ m']) simp
qed

end
