(* ===== verification/Kernel.thy ===== *)
theory Kernel
  imports Process Commands Keyboard Gdt FatCalls
begin

text \<open>
  \<^verbatim>\<open>src/sys/kernel.c\<close>: bringing the kernel up and starting the first program. The two symbols
  \<^verbatim>\<open>DEBUG\<close> and \<^verbatim>\<open>VERBOSE\<close> are defined in \<^verbatim>\<open>src/sys/kernel.h\<close>, so the tests and the messages
  they guard are part of the code.
\<close>

section \<open>The image\<close>

text \<open>
  Where the linker put the objects the kernel refers to. The drivers, the keyboards and the
  system calls are called through pointers; \<open>keyboard_code\<close> is the code of the keyboards.
\<close>

record image =
  gdt_at :: addr
  tss_at :: addr
  fat16_at :: addr
  fat16_name_at :: addr
  mode_at :: addr
  blank_bin_at :: addr
  hello_txt_at :: addr
  license_txt_at :: addr
  classic_keyboard_at :: addr
  classic_init_at :: addr
  interrupts_at :: idt_image
  commands_at :: command_image

definition keyboard_code :: "image \<Rightarrow> (unit, 'a kernel_state_scheme) code" where
  "keyboard_code im f = (if f = classic_init_at im then Some classic_keyboard_init else None)"

section \<open>Steps\<close>

definition newline :: char where "newline = CHR 0x0A"

definition start_paging :: "'a kernel_state_scheme \<Rightarrow> 'a kernel_state_scheme prog" where
  "start_paging s =
     prog_bind (of_run (paging_new_4gb (kmem s)
       ((PAGING_IS_WRITEABLE OR PAGING_IS_PRESENT) OR PAGING_ACCESS_FROM_ALL))) (\<lambda>(chunk, m).
         let s = s\<lparr>kmem := m, kernel_chunk := chunk\<rparr>
         in prog_bind (switch_chunk (kernel_chunk s) s) (\<lambda>s. ret (s\<lparr>paging_enabled := True\<rparr>)))"

text \<open>Only the kernel's stack of the 100 bytes is set: its pointer is word 1, its segment word 2.\<close>

definition setup_tss :: "addr \<Rightarrow> 'a kernel_state_scheme \<Rightarrow> 'a kernel_state_scheme" where
  "setup_tss tss s =
     (let m = snd (memset (kmem s) tss 0 100);
          m = store32 m (tss + 4) 0x600000;
          m = store32 m (tss + 8) (ucast KERNEL_DATA_SELECTOR)
      in s\<lparr>kmem := m, task_register := 0x28\<rparr>)"

definition pic_timer_callback :: "interrupt_frame \<Rightarrow> 'a kernel_state_scheme \<Rightarrow> (u32 \<times> 'a kernel_state_scheme) prog" where
  "pic_timer_callback frame s = ret (0, say 15 (''Timer activated'' @ [newline]) s)"

text \<open>What \<open>panic\<close> prints before it loops forever.\<close>

definition panic_screen :: "string \<Rightarrow> 'a kernel_state_scheme \<Rightarrow> 'a kernel_state_scheme" where
  "panic_screen msg s = say 15 msg (say 15 [newline] s)"

definition memory_allocation_test :: "'a kernel_state_scheme \<Rightarrow> u32 \<times> 'a kernel_state_scheme" where
  "memory_allocation_test s =
     (case kmalloc (kmem s) 50 of (ptr, m) \<Rightarrow>
        case kmalloc m 5000 of (ptr2, m) \<Rightarrow>
          let m = kfree m ptr; m = kfree m ptr2 in (0, s\<lparr>kmem := m\<rparr>))"

text \<open>A string in memory on the console.\<close>

definition say_string :: "u32 \<Rightarrow> addr \<Rightarrow> 'a kernel_state_scheme \<Rightarrow> 'a kernel_state_scheme prog" where
  "say_string colour str s =
     prog_bind (of_option (cprint str colour (console s, kmem s))) (\<lambda>(t, m). ret (s\<lparr>console := t, kmem := m\<rparr>))"

text \<open>The locals \<open>buf\<close>, 14 bytes of which the first eleven are read, and \<open>stat\<close>.\<close>

definition open_file ::
  "'a kernel_state_scheme drivers \<Rightarrow> addr \<Rightarrow> addr \<Rightarrow> addr \<Rightarrow> addr \<Rightarrow> 'a kernel_state_scheme \<Rightarrow> 'a kernel_state_scheme prog" where
  "open_file drv mode buf stat filename s =
     prog_bind (fopen drv filename mode s) (\<lambda>(fd, s).
       if fd \<noteq> 0 then
         prog_bind (say_string 10 filename s) (\<lambda>s.
           let s = say 10 ('' file opened successfully.'' @ [newline]) s in
           prog_bind (fseek drv fd 2 SEEK_SET s) (\<lambda>(_, s).
             prog_bind (fread drv buf 11 1 fd s) (\<lambda>(_, s).
               let s = s\<lparr>kmem := (kmem s)(buf + 13 := 0)\<rparr> in
               prog_bind (say_string 15 buf s) (\<lambda>s.
                 prog_bind (fstat drv fd stat s) (\<lambda>(_, s).
                   prog_bind (fclose drv fd s) (\<lambda>(_, s).
                     ret (say 15 ([newline] @ ''File closed.'' @ [newline]) s)))))))
       else
         prog_bind (say_string 10 filename s) (\<lambda>s.
           ret (say 10 ('' file failed to open.'' @ [newline]) s)))"

text \<open>
  \<open>task_run_first_ever_task\<close> does not come back: the result is what the processor continues
  with.
\<close>

definition load_user_program_test ::
  "'a kernel_state_scheme drivers \<Rightarrow> image \<Rightarrow> addr \<Rightarrow> u32 \<Rightarrow> 'a kernel_state_scheme \<Rightarrow> (registers \<times> 'a kernel_state_scheme) prog" where
  "load_user_program_test drv im stat eflags s =
     (let s = say 15 (''Starting process load.'' @ [newline]) s in
      prog_bind (process_load drv (mode_at im) stat (blank_bin_at im) 0 s) (\<lambda>(r, process, s).
        if r \<noteq> 0 then faulty (Panic ''Failed to load blank.bin'')
        else
          let s = say 15 (''Calling task_run_first_task.'' @ [newline]) s
          in task_run_first_ever_task eflags s))"

section \<open>Bringing the kernel up\<close>

text \<open>Up to paging.\<close>

definition kernel_init_memory :: "image \<Rightarrow> 'a kernel_state_scheme \<Rightarrow> 'a kernel_state_scheme prog" where
  "kernel_init_memory im s =
     (let s = (case terminal_initialize (console s) (kmem s) of (t, m) \<Rightarrow> s\<lparr>console := t, kmem := m\<rparr>);
          s = say 14 (''THIS IS DEXTER!'' @ [newline, newline]) s
      in prog_bind (of_run (setup_gdt (kmem s) (gdt_at im) (tss_at im))) (\<lambda>m.
        let s = say 15 (''Global descriptor table loaded.'' @ [newline]) (s\<lparr>kmem := m\<rparr>) in
        prog_bind (of_run (kheap_init (kmem s) kernel_heap)) (\<lambda>(h, m).
          let s = say 13 (''Kernel memory heap initialized.'' @ [newline]) (s\<lparr>kmem := m\<rparr>) in
          prog_bind (fs_init (fat16_at im) (fat16_name_at im) s) (\<lambda>s.
            let s = say 11 (''File systems initialized.'' @ [newline]) s in
            prog_bind (start_paging s) (\<lambda>s.
              ret (say 10 (''Paging enabled.'' @ [newline]) s))))))"

definition kernel_init ::
  "'a kernel_state_scheme drivers \<Rightarrow> image \<Rightarrow> 'a kernel_state_scheme \<Rightarrow> 'a kernel_state_scheme prog" where
  "kernel_init drv im s =
     prog_bind (kernel_init_memory im s) (\<lambda>s.
       prog_bind (of_run (isr80h_register_commands (commands_at im) s)) (\<lambda>s.
         let s = say 15 (''Kernel commands registered.'' @ [newline]) s in
         prog_bind (of_run (idt_init (interrupts_at im) s)) (\<lambda>s.
           let s = say 13 (''Interrupt descriptor table initialized.'' @ [newline]) s in
           prog_bind (keyboard_init (keyboard_code im) (classic_keyboard_at im) s) (\<lambda>s.
             let s = say 15 (''Keyboard initialized.'' @ [newline]) s in
             prog_bind (disk_search_and_init drv s) (\<lambda>s.
               let s = say 14 (''Primary disk initialized.'' @ [newline]) s;
                   s = setup_tss (tss_at im) s
               in ret (say 10 (''Task switching segment loaded.'' @ [newline]) s))))))"

text \<open>
  \<open>buf\<close> and \<open>stat\<close> are locals of the functions called. With the first task running
  the last message is never printed.
\<close>

definition kernel_main ::
  "'a kernel_state_scheme drivers \<Rightarrow> image \<Rightarrow> addr \<Rightarrow> addr \<Rightarrow> u32 \<Rightarrow> 'a kernel_state_scheme
    \<Rightarrow> (registers \<times> 'a kernel_state_scheme) prog" where
  "kernel_main drv im buf stat eflags s =
     prog_bind (kernel_init drv im s) (\<lambda>s.
       case memory_allocation_test s of (_, s) \<Rightarrow>
         let s = say 12 (''Memory allocation test completed.'' @ [newline]) s in
         prog_bind (open_file drv (mode_at im) buf stat (hello_txt_at im) s) (\<lambda>s.
           prog_bind (open_file drv (mode_at im) buf stat (license_txt_at im) s) (\<lambda>s.
             load_user_program_test drv im stat eflags s)))"

section \<open>Messages\<close>

text \<open>\<open>n\<close> more characters fit, none of them beyond \<open>R\<close> bytes of video memory.\<close>

definition console_room :: "nat \<Rightarrow> nat \<Rightarrow> terminal \<Rightarrow> bool" where
  "console_room n R t \<longleftrightarrow> video_mem t = 0xB8000 \<and> terminal_ok n t \<and> text_reach t n \<le> R"

lemma console_room_write:
  assumes "console_room (Suc n) R t"
  shows "console_room n R (fst (terminal_writechar c colour (t, m)))"
    and "R \<le> unat (x - 0xB8000) \<Longrightarrow> snd (terminal_writechar c colour (t, m)) x = m x"
proof -
  have t: "terminal_ok (Suc n) t" "video_mem t = 0xB8000" "text_reach t (Suc n) \<le> R"
    using assms by (simp_all add: console_room_def)
  note w = writechar_types [OF t(1), where c = c and colour = colour and m = m]
  show "console_room n R (fst (terminal_writechar c colour (t, m)))"
    using w(2,3,5) t(2,3) by (simp add: console_room_def)
  have "text_reach t 1 \<le> R" using t(3) text_reach_mono [of 1 "Suc n" t] by simp
  then show "snd (terminal_writechar c colour (t, m)) x = m x" if "R \<le> unat (x - 0xB8000)"
    using w(4) [of x] that t(2) by simp
qed

lemma console_room_text:
  "console_room (length bs + n) R t \<Longrightarrow> console_room n R (fst (print_text colour bs (t, m)))
    \<and> (\<forall>x. R \<le> unat (x - 0xB8000) \<longrightarrow> snd (print_text colour bs (t, m)) x = m x)"
proof (induction bs arbitrary: t m)
  case (Cons c bs)
  obtain t1 m1 where r: "terminal_writechar c colour (t, m) = (t1, m1)" by force
  note w = console_room_write [where n = "length bs + n" and t = t and c = c and colour = colour and m = m and R = R, unfolded r]
  show ?case using Cons.IH [of t1 m1] w Cons.prems r by (simp add: print_text_def)
qed (simp add: print_text_def)

text \<open>A message leaves everything as it is but the console and the video memory.\<close>

definition video_only :: "mem \<Rightarrow> mem \<Rightarrow> bool" where
  "video_only m m' \<longleftrightarrow> (\<forall>x. 131072 \<le> unat (x - 0xB8000) \<longrightarrow> m' x = m x)"

abbreviation speakable :: "nat \<Rightarrow> 'a kernel_state_scheme \<Rightarrow> bool" where
  "speakable n s \<equiv> console_room n 131072 (console s)"

lemma say_video:
  assumes "speakable (length msg + n) s"
  shows "\<exists>t m. say colour msg s = s\<lparr>console := t, kmem := m\<rparr> \<and> console_room n 131072 t \<and> video_only (kmem s) m"
proof -
  obtain t m where r: "print_text colour (map of_char msg) (console s, kmem s) = (t, m)" by force
  then show ?thesis
    using console_room_text [of "map of_char msg" n 131072 "console s" colour "kmem s"] assms
    by (intro exI [of _ t] exI [of _ m]) (simp add: say_def video_only_def)
qed

lemma video_only_trans: "video_only m m' \<Longrightarrow> video_only m' m'' \<Longrightarrow> video_only m m''"
  by (simp add: video_only_def)

lemma video_only_kused: "video_only m m' \<Longrightarrow> kused m' = kused m"
  by (rule kused_off_screen) (simp add: video_only_def unchanged_outside_def)

section \<open>The steps\<close>

lemma start_paging_ok:
  assumes "kused m0 = {}"
  shows "\<exists>cb d tb m. (\<forall>s :: 'a kernel_state_scheme. kmem s = m0 \<longrightarrow>
        start_paging s = ret (s\<lparr>kmem := m, kernel_chunk := kblock cb, kmmu := paging_switch m (kblock cb) (kmmu s),
          paging_enabled := True\<rparr>))
    \<and> chunk_blocks m cb d tb \<and> kused m = space_blocks cb d tb \<and> card (kused m) = 1026 \<and> kext m0 m
    \<and> (\<forall>va. page va \<longrightarrow> paging_get m (load32 m (kblock cb)) va = va OR 7)"
proof -
  have f: "(PAGING_IS_WRITEABLE OR PAGING_IS_PRESENT) OR PAGING_ACCESS_FROM_ALL = 7" by simp
  obtain cb d tb m where n: "paging_new_4gb m0 7 = Inr (kblock cb, m)" "chunk_blocks m cb d tb"
    "kused m = space_blocks cb d tb"
    "\<And>j k. j < 1024 \<Longrightarrow> k < 1024 \<Longrightarrow> word_at m (kblock (tb j)) k = of_nat (4096 * (1024 * j + k)) OR ucast (7 :: u8)"
    using new_4gb [of m0 7] assms by (auto simp del: of_nat_mult of_nat_add)
  have "kblock cb \<noteq> 0" using n(2) kblock_nonzero by (simp add: chunk_blocks_def)
  then have "start_paging s = ret (s\<lparr>kmem := m, kernel_chunk := kblock cb, kmmu := paging_switch m (kblock cb) (kmmu s),
      paging_enabled := True\<rparr>)" if "kmem s = m0" for s :: "'a kernel_state_scheme"
    using that n(1) unfolding start_paging_def f by (simp add: switch_chunk_def)
  moreover have "card (kused m) = 1026"
    using n(2,3) by (simp add: space_blocks_def chunk_blocks_def card_image)
  moreover have "kext m0 m" using n(1) by (rule new_4gb_ext)
  moreover have "paging_get m (load32 m (kblock cb)) va = va OR 7" if "page va" for va
    using chunk_identity [OF n(2,4) that] by simp
  ultimately show ?thesis using n(2,3) by blast
qed

lemma fs_init_ok:
  assumes "cstr m lit bs" "apart (fs + 24) (Suc (length bs)) lit (Suc (length bs))" "length bs < 4294967295"
  shows "\<exists>m'. (\<forall>s :: 'a fat_state_scheme. kmem s = m \<longrightarrow>
        fs_init fs lit s = ret (s\<lparr>kmem := m', filesystems := fs # replicate 11 0, file_descriptors := replicate 512 0\<rparr>))
    \<and> unchanged_outside m m' (fs + 24) (Suc (length bs))"
proof -
  have "[0..<12] = 0 # [1..<12]" by (simp add: upt_conv_Cons)
  then have f: "find (\<lambda>i. replicate 12 (0 :: u32) ! i = 0) [0..<12] = Some 0" by simp
  have "(replicate 12 0)[0 := fs] = fs # replicate 11 0" by (simp add: numeral_eq_Suc)
  then show ?thesis
    using strcpy_fill [OF assms] f
    unchanged_outside_fill [of m "fs + 24" "Suc (length bs)" "\<lambda>i. (bs @ [0]) ! i"]
    by (intro exI [of _ "mem_fill m (fs + 24) (Suc (length bs)) (\<lambda>i. (bs @ [0]) ! i)"])
      (simp add: fs_init_def fs_load_def fs_static_load_def fat16_init_def fs_insert_filesystem_def fs_get_free_filesystem_def)
qed

lemma store_cells_out:
  "\<forall>k \<in> set ks. 2 * k + 2 \<le> n \<Longrightarrow> n \<le> unat (x - v) \<Longrightarrow> n < 4294967296 \<Longrightarrow> store_cells v w ks m x = m x"
proof (induction ks rule: rev_induct)
  case (snoc k ks)
  then have k: "2 * k + 2 \<le> n" by simp
  have "unat (v + of_nat (2 * k) - v) = 2 * k" "unat (v + of_nat (2 * k) + 1 - v) = 2 * k + 1"
    using k snoc.prems(3) unat32_less [of "x - v"] by (simp_all add: unat_word_ariths)
  then have "x \<noteq> v + of_nat (2 * k)" "x \<noteq> v + of_nat (2 * k) + 1" using k snoc.prems(2) by auto
  with snoc show ?case by (simp add: store_cells_def store16_def)
qed (simp add: store_cells_def)

lemma terminal_initialize_ok:
  "\<exists>t m'. terminal_initialize t0 m = (t, m') \<and> console_room 800 131072 t \<and> video_only m m'"
proof -
  obtain t m' where i: "terminal_initialize t0 m = (t, m')" by force
  note b = initialize_blank [of t0 m, unfolded i, simplified]
  have "m' = store_cells 0xB8000 0x20 [0..<1600] m" "video_mem t = 0xB8000"
    using i by (auto simp: terminal_initialize_def Let_def clear_screen)
  then have "video_only m m'"
    by (auto simp: video_only_def intro!: store_cells_out [where n = 131072])
  then show ?thesis using i b by (simp add: console_room_def terminal_ok_def text_reach_def)
qed

section \<open>The kernel's memory\<close>

text \<open>An object of the kernel's image lies above video memory and below the heap.\<close>

definition in_image :: "addr \<Rightarrow> nat \<Rightarrow> bool" where
  "in_image p n \<longleftrightarrow> 0x100000 \<le> unat p \<and> unat p + n \<le> 0x1000000"

definition image_ok :: "image \<Rightarrow> mem \<Rightarrow> bool" where
  "image_ok im m \<longleftrightarrow> in_image (gdt_at im) 48 \<and> in_image (fat16_at im) 30 \<and> in_image (fat16_name_at im) 6
     \<and> cstr m (fat16_name_at im) (map of_char ''FAT16'')
     \<and> apart (gdt_at im) 48 (fat16_name_at im) 6 \<and> apart (fat16_at im + 24) 6 (fat16_name_at im) 6
     \<and> apart (fat16_at im + 24) 6 (gdt_at im) 48"

lemma apart_ordered:
  fixes a b :: addr
  assumes "unat a + n \<le> unat b \<and> unat b + k \<le> 4294967296 \<or> unat b + k \<le> unat a \<and> unat a + n \<le> 4294967296"
  shows "apart a n b k"
  unfolding apart_def
proof (intro allI impI notI)
  fix i j assume ij: "i < n" "j < k" and e: "a + of_nat i = b + of_nat j"
  have "unat a + i < 4294967296" "unat b + j < 4294967296"
    using assms ij unat32_less [of a] unat32_less [of b] by linarith+
  then have "unat (a + of_nat i) = unat a + i" "unat (b + of_nat j) = unat b + j"
    by (simp_all add: unat_word_ariths)
  then have "unat a + i = unat b + j" using e by simp
  then show False using assms ij by linarith
qed

lemma in_image_at: "in_image p n \<Longrightarrow> i < n \<Longrightarrow> 131072 \<le> unat (p + of_nat i - 0xB8000) \<and> 25600 \<le> unat (p + of_nat i - 0x7E00) \<and> kstable m (p + of_nat i)"
proof -
  assume p: "in_image p n" "i < n"
  define x where "x = p + of_nat i"
  have "unat x = unat p + i" using p unat32_less [of p] by (simp add: x_def in_image_def unat_word_ariths)
  then have x: "1048576 \<le> unat x" "unat x < 16777216" using p by (simp_all add: in_image_def)
  then have "131072 \<le> unat (x - 0xB8000)" by (simp add: unat_sub_if')
  with x show ?thesis unfolding x_def [symmetric] using low_off_table [of x] kstable_low [of x m] by simp
qed

text \<open>Bytes that are kept.\<close>

definition keeps :: "addr \<Rightarrow> nat \<Rightarrow> mem \<Rightarrow> mem \<Rightarrow> bool" where
  "keeps p n m m' \<longleftrightarrow> (\<forall>i < n. m' (p + of_nat i) = m (p + of_nat i))"

lemma keeps_trans: "keeps p n m m' \<Longrightarrow> keeps p n m' m'' \<Longrightarrow> keeps p n m m''"
  by (simp add: keeps_def)

lemma keeps_video: "in_image p n \<Longrightarrow> video_only m m' \<Longrightarrow> keeps p n m m'"
  using in_image_at by (simp add: keeps_def video_only_def)

lemma keeps_table: "in_image p n \<Longrightarrow> unchanged_outside m m' 0x7E00 25600 \<Longrightarrow> keeps p n m m'"
  using in_image_at by (simp add: keeps_def unchanged_outside_def)

lemma keeps_kext: "in_image p n \<Longrightarrow> kext m m' \<Longrightarrow> keeps p n m m'"
  using in_image_at kextD(1) by (simp add: keeps_def)

lemma keeps_apart: "apart q k p n \<Longrightarrow> unchanged_outside m m' q k \<Longrightarrow> keeps p n m m'"
  using apart_out by (simp add: keeps_def unchanged_outside_def)

lemma keeps_cstr: "keeps p (Suc (length bs)) m m' \<Longrightarrow> cstr m p bs \<Longrightarrow> cstr m' p bs"
  by (simp add: cstr_def keeps_def)

lemma keeps_gdt:
  assumes "keeps g 48 m m'"
  shows "map (\<lambda>i. gdt_decode m' (g + of_nat (8 * i))) [0..<6] = map (\<lambda>i. gdt_decode m (g + of_nat (8 * i))) [0..<6]"
proof (rule map_cong [OF refl])
  fix i :: nat assume "i \<in> set [0..<6]"
  then have i: "i < 6" by simp
  show "gdt_decode m' (g + of_nat (8 * i)) = gdt_decode m (g + of_nat (8 * i))"
  proof (rule gdt_decode_cong)
    fix j :: nat assume "j < 8"
    then have "8 * i + j < 48" using i by simp
    then have "m' (g + of_nat (8 * i + j)) = m (g + of_nat (8 * i + j))" using assms unfolding keeps_def by blast
    then show "m' (g + of_nat (8 * i) + of_nat j) = m (g + of_nat (8 * i) + of_nat j)" by (simp only: of_nat_add add.assoc)
  qed
qed

text \<open>A short message, with room for the others.\<close>

lemma console_room_le: "console_room n R t \<Longrightarrow> k \<le> n \<Longrightarrow> console_room k R t"
  using text_reach_mono [of k n t] by (auto simp: console_room_def terminal_ok_def)

lemma say_short:
  assumes "console_room (n + 60) 131072 t" "length msg \<le> 60"
  shows "\<exists>t' m'. (\<forall>s :: 'a kernel_state_scheme. console s = t \<longrightarrow> kmem s = m \<longrightarrow> say colour msg s = s\<lparr>console := t', kmem := m'\<rparr>)
    \<and> console_room n 131072 t' \<and> video_only m m'"
proof -
  have r: "console_room (length (map of_char msg :: u8 list) + n) 131072 t" using assms by (auto intro: console_room_le)
  obtain t' m' where p: "print_text colour (map of_char msg) (t, m) = (t', m')" by force
  then show ?thesis
    using console_room_text [OF r, of colour m]
    by (intro exI [of _ t'] exI [of _ m']) (simp add: say_def video_only_def)
qed

lemma init_memory_run:
  fixes s :: "'a kernel_state_scheme"
  assumes "image_ok im (kmem s)"
  shows "\<exists>t m cb d tb. kernel_init_memory im s = ret (s\<lparr>console := t, kmem := m, filesystems := fat16_at im # replicate 11 0,
        file_descriptors := replicate 512 0, kernel_chunk := kblock cb, kmmu := paging_switch m (kblock cb) (kmmu s),
        paging_enabled := True\<rparr>)
    \<and> console_room 500 131072 t \<and> chunk_blocks m cb d tb \<and> kused m = space_blocks cb d tb \<and> card (kused m) = 1026
    \<and> (\<forall>va. page va \<longrightarrow> paging_get m (load32 m (kblock cb)) va = va OR 7)
    \<and> map (\<lambda>i. gdt_decode m (gdt_at im + of_nat (8 * i))) [0..<6] = kernel_gdt_structured (tss_at im)
    \<and> (\<forall>p n. in_image p n \<and> apart (gdt_at im) 48 p n \<and> apart (fat16_at im + 24) 6 p n \<longrightarrow> keeps p n (kmem s) m)"
proof -
  let ?g = "gdt_at im" and ?f = "fat16_at im" and ?n = "fat16_name_at im"
  have im: "in_image ?g 48" "in_image ?n 6" "cstr (kmem s) ?n (map of_char ''FAT16'')" "apart ?g 48 ?n 6"
    "apart (?f + 24) 6 ?n 6" "apart (?f + 24) 6 ?g 48" "in_image ?f 30"
    using assms by (simp_all add: image_ok_def)
  obtain t0 m0 where 0: "terminal_initialize (console s) (kmem s) = (t0, m0)" "console_room 800 131072 t0" "video_only (kmem s) m0"
    using terminal_initialize_ok by blast
  obtain t1 m1 where 1: "\<And>s :: 'a kernel_state_scheme. console s = t0 \<Longrightarrow> kmem s = m0 \<Longrightarrow>
      say 14 (''THIS IS DEXTER!'' @ [newline, newline]) s = s\<lparr>console := t1, kmem := m1\<rparr>"
    "console_room 740 131072 t1" "video_only m0 m1"
    using say_short [of 740 t0 "''THIS IS DEXTER!'' @ [newline, newline]" m0 14] 0(2) by auto
  obtain m2 where 2: "setup_gdt m1 ?g (tss_at im) = Inr m2" "unchanged_outside m1 m2 ?g 48"
    "map (\<lambda>i. gdt_decode m2 (?g + of_nat (8 * i))) [0..<6] = kernel_gdt_structured (tss_at im)"
    using setup_gdt_table by blast
  obtain t3 m3 where 3: "\<And>s :: 'a kernel_state_scheme. console s = t1 \<Longrightarrow> kmem s = m2 \<Longrightarrow>
      say 15 (''Global descriptor table loaded.'' @ [newline]) s = s\<lparr>console := t3, kmem := m3\<rparr>"
    "console_room 680 131072 t3" "video_only m2 m3"
    using say_short [of 680 t1 "''Global descriptor table loaded.'' @ [newline]" m2 15] 1(2) by auto
  obtain m4 where 4: "kheap_init m3 kernel_heap = Inr (kernel_heap, m4)" "kused m4 = {}" "unchanged_outside m3 m4 0x7E00 25600"
    using kheap_init_spec by blast
  obtain t5 m5 where 5: "\<And>s :: 'a kernel_state_scheme. console s = t3 \<Longrightarrow> kmem s = m4 \<Longrightarrow>
      say 13 (''Kernel memory heap initialized.'' @ [newline]) s = s\<lparr>console := t5, kmem := m5\<rparr>"
    "console_room 620 131072 t5" "video_only m4 m5"
    using say_short [of 620 t3 "''Kernel memory heap initialized.'' @ [newline]" m4 13] 3(2) by auto
  have n5: "keeps ?n 6 (kmem s) m5"
    using keeps_video [OF im(2) 0(3)] keeps_video [OF im(2) 1(3)] keeps_apart [OF im(4) 2(2)] keeps_video [OF im(2) 3(3)]
      keeps_table [OF im(2) 4(3)] keeps_video [OF im(2) 5(3)] by (simp add: keeps_def)
  have six: "Suc (length (map of_char ''FAT16'' :: u8 list)) = 6" by simp
  have c5: "cstr m5 ?n (map of_char ''FAT16'')"
    by (rule keeps_cstr [OF _ im(3)]) (use n5 in \<open>simp only: six\<close>)
  have "length (map of_char ''FAT16'' :: u8 list) < 4294967295" by simp
  note fs = fs_init_ok [OF c5, unfolded six, OF im(5) this]
  obtain m6 where 6: "\<And>s :: 'a kernel_state_scheme. kmem s = m5 \<Longrightarrow>
      fs_init ?f ?n s = ret (s\<lparr>kmem := m6, filesystems := ?f # replicate 11 0, file_descriptors := replicate 512 0\<rparr>)"
      "unchanged_outside m5 m6 (?f + 24) 6"
    using fs by blast
  obtain t7 m7 where 7: "\<And>s :: 'a kernel_state_scheme. console s = t5 \<Longrightarrow> kmem s = m6 \<Longrightarrow>
      say 11 (''File systems initialized.'' @ [newline]) s = s\<lparr>console := t7, kmem := m7\<rparr>"
    "console_room 560 131072 t7" "video_only m6 m7"
    using say_short [of 560 t5 "''File systems initialized.'' @ [newline]" m6 11] 5(2) by auto
  have u: "unat (?f + 24) = unat ?f + 24" using im(7) unat32_less [of ?f] by (simp add: in_image_def unat_word_ariths)
  have "off_heap (?f + 24) 6" by (rule off_heap_low) (use im(7) u in \<open>simp_all add: in_image_def\<close>)
  then have u7: "kused m7 = {}"
    using video_only_kused [OF 5(3)] video_only_kused [OF 7(3)] 4(2) kused_off_heap [OF _ 6(2)] by simp
  obtain cb d tb m8 where 8: "\<And>s :: 'a kernel_state_scheme. kmem s = m7 \<Longrightarrow> start_paging s = ret (s\<lparr>kmem := m8, kernel_chunk := kblock cb, kmmu := paging_switch m8 (kblock cb) (kmmu s),
      paging_enabled := True\<rparr>)" "chunk_blocks m8 cb d tb" "card (kused m8) = 1026" "kext m7 m8"
      "\<And>va. page va \<Longrightarrow> paging_get m8 (load32 m8 (kblock cb)) va = va OR 7" "kused m8 = space_blocks cb d tb"
    using start_paging_ok [OF u7] by blast
  obtain t9 m9 where 9: "\<And>s :: 'a kernel_state_scheme. console s = t7 \<Longrightarrow> kmem s = m8 \<Longrightarrow>
      say 10 (''Paging enabled.'' @ [newline]) s = s\<lparr>console := t9, kmem := m9\<rparr>"
    "console_room 500 131072 t9" "video_only m8 m9"
    using say_short [of 500 t7 "''Paging enabled.'' @ [newline]" m8 10] 7(2) by auto
  have b9: "m9 (kblock b + of_nat i) = m8 (kblock b + of_nat i)" if "b \<in> space_blocks cb d tb" "i < 4096" for b i
  proof -
    have "b < 25600" using that(1) 8(2) by (auto simp: space_blocks_def chunk_blocks_def)
    then have "10485760 \<le> unat (kblock b + of_nat i - 0xB8000)" using that(2) by (rule kblock_off_screen)
    then show ?thesis using 9(3) by (simp add: video_only_def)
  qed
  note c9 = chunk_blocks_cong [OF 8(2) b9]
  have g9: "keeps ?g 48 m2 m9"
    using keeps_video [OF im(1) 3(3)] keeps_table [OF im(1) 4(3)] keeps_video [OF im(1) 5(3)] keeps_apart [OF im(6) 6(2)]
      keeps_video [OF im(1) 7(3)] keeps_kext [OF im(1) 8(4)] keeps_video [OF im(1) 9(3)] by (simp add: keeps_def)
  have sw: "paging_switch m9 (kblock cb) u = paging_switch m8 (kblock cb) u" for u
    using c9(1) 8(2) by (simp add: paging_switch_def chunk_blocks_def)
  have "kernel_init_memory im s = ret (s\<lparr>console := t9, kmem := m9, filesystems := ?f # replicate 11 0,
        file_descriptors := replicate 512 0, kernel_chunk := kblock cb, kmmu := paging_switch m9 (kblock cb) (kmmu s),
        paging_enabled := True\<rparr>)"
    using 0(1) 1(1) 2(1) 3(1) 4(1) 5(1) 6(1) 7(1) 8(1) 9(1) by (simp add: kernel_init_memory_def Let_def sw)
  moreover have "console_room 500 131072 t9" by (rule 9(2))
  moreover have "chunk_blocks m9 cb d tb" by (rule c9(1))
  moreover have "card (kused m9) = 1026" using 8(3) video_only_kused [OF 9(3)] by simp
  moreover have "kused m9 = space_blocks cb d tb" using 8(6) video_only_kused [OF 9(3)] by simp
  moreover have "paging_get m9 (load32 m9 (kblock cb)) va = va OR 7" if "page va" for va
    using c9(2) [OF _ _ that] 8(5) [OF that] by simp
  moreover have "map (\<lambda>i. gdt_decode m9 (?g + of_nat (8 * i))) [0..<6] = kernel_gdt_structured (tss_at im)"
    by (rule trans [OF keeps_gdt [OF g9] 2(3)])
  moreover have "keeps p n (kmem s) m9" if "in_image p n" "apart ?g 48 p n" "apart (?f + 24) 6 p n" for p n
    using keeps_video [OF that(1) 0(3)] keeps_video [OF that(1) 1(3)] keeps_apart [OF that(2) 2(2)] keeps_video [OF that(1) 3(3)]
      keeps_table [OF that(1) 4(3)] keeps_video [OF that(1) 5(3)] keeps_apart [OF that(3) 6(2)]
      keeps_video [OF that(1) 7(3)] keeps_kext [OF that(1) 8(4)] keeps_video [OF that(1) 9(3)] by (simp add: keeps_def)
  ultimately show ?thesis by blast
qed

end
