(* ===== verification/ProgramFile.thy ===== *)
theory ProgramFile
  imports KRuns FatCalls Process
begin

text \<open>
  Reading a program: the calls of \<^verbatim>\<open>process_load_binary\<close> on a mounted volume, one after the
  other, and what they leave alone.
\<close>

section \<open>Frames\<close>

text \<open>The state of the kernel above the file system.\<close>

lemma kernel_fields:
  fixes s s' :: "'a kernel_state_scheme"
  assumes "fat_state.more s' = fat_state.more s"
  shows "console s' = console s" "kmmu s' = kmmu s" "kernel_chunk s' = kernel_chunk s" "segments s' = segments s"
    "tasks s' = tasks s" "current_task s' = current_task s" "task_tail s' = task_tail s" "task_head s' = task_head s"
    "process_store s' = process_store s" "current_process s' = current_process s" "processes s' = processes s"
  using assms by (cases s; cases s'; simp)+

lemma with_process_sel [simp]:
  "kmem (with_process f p s) = kmem s" "tasks (with_process f p s) = tasks s" "task_head (with_process f p s) = task_head s"
  "task_tail (with_process f p s) = task_tail s" "current_task (with_process f p s) = current_task s"
  "processes (with_process f p s) = processes s" "process_store (with_process f p s) = (process_store s)(p := f (process_store s p))"
  "file_descriptors (with_process f p s) = file_descriptors s" "descs (with_process f p s) = descs s"
  "fat_items (with_process f p s) = fat_items s" "fat_descs (with_process f p s) = fat_descs s"
  "the_disk (with_process f p s) = the_disk s" "streams (with_process f p s) = streams s"
  "fat_privates (with_process f p s) = fat_privates s" "fat_directories (with_process f p s) = fat_directories s"
  by (simp_all add: with_process_def)

text \<open>A table of open files depends on the blocks it uses and on the fields of the file system only.\<close>

definition same_files :: "'a fat_state_scheme \<Rightarrow> 'a fat_state_scheme \<Rightarrow> bool" where
  "same_files s s' \<longleftrightarrow> the_disk s' = the_disk s \<and> file_descriptors s' = file_descriptors s \<and> descs s' = descs s
     \<and> fat_items s' = fat_items s \<and> fat_descs s' = fat_descs s \<and> fat_directories s' = fat_directories s
     \<and> fat_privates s' = fat_privates s \<and> streams s' = streams s"

lemma same_files_volume: "same_files s s' \<Longrightarrow> same_volume s s'"
  by (simp add: same_files_def same_volume_def)

lemma same_files_slot:
  assumes "same_files s s'"
  shows "fat_own s' = fat_own s" "slot_blocks fat_own s' = slot_blocks fat_own s" "open_files s' = open_files s"
proof -
  show own: "fat_own s' = fat_own s" using assms by (simp add: same_files_def fat_own_def fun_eq_iff)
  show "slot_blocks fat_own s' = slot_blocks fat_own s" "open_files s' = open_files s"
    using assms own by (simp_all add: same_files_def slot_blocks_def open_files_def fun_eq_iff)
qed

lemma slot_ok_base: "slot_ok fs B handle own s i p \<Longrightarrow> B' \<subseteq> B \<Longrightarrow> slot_ok fs B' handle own s i p"
  unfolding slot_ok_def by blast

lemma fat_files_keep:
  assumes ok: "fat_files_ok fs B es s" and same: "same_files s s'" and keep: "keep_blocks K (kmem s) (kmem s')"
    and K: "B' \<subseteq> K" "B' \<subseteq> B" "kused (kmem s) - (B - B') \<subseteq> K" "fat_ready B' es s"
  shows "fat_files_ok fs B' es s'"
proof -
  note o = fat.okD [OF ok] and own = same_files_slot [OF same]
  have f: "the_disk s' = the_disk s" "file_descriptors s' = file_descriptors s" "descs s' = descs s"
    "fat_items s' = fat_items s" "fat_descs s' = fat_descs s" "fat_directories s' = fat_directories s"
    using same by (simp_all add: same_files_def)
  have "keep_blocks B' (kmem s) (kmem s')" using keep K(1) by (auto simp: keep_blocks_def)
  then have r: "fat_ready B' es s'" by (rule fat_ready_keep [OF K(4)]) (simp_all only: f)
  have slot: "slot_ok fs B' fat_handle fat_own s' i (file_descriptors s ! i)" if "i < 512" "file_descriptors s ! i \<noteq> 0" for i
  proof -
    note si = o(5) [OF that]
    note sb = fat.slot_used [OF si]
    have "slot_blocks fat_own s (file_descriptors s ! i) \<subseteq> K" using sb K(3) by blast
    then have u: "slot_blocks fat_own s (file_descriptors s ! i) \<subseteq> kused (kmem s')" using keep by (auto simp: keep_blocks_def)
    have "fat_handle s (fd_private (descs s (file_descriptors s ! i)))" using si by (simp add: slot_ok_def)
    moreover have "fat_own s (fd_private (descs s (file_descriptors s ! i))) \<subseteq> kused (kmem s')" using u by (simp add: slot_blocks_def)
    ultimately have "fat_handle s' (fd_private (descs s (file_descriptors s ! i)))"
      using fat_handle_cong [of s "fd_private (descs s (file_descriptors s ! i))" s'] by (simp only: f simp_thms)
    moreover have "block_no (file_descriptors s ! i) \<in> kused (kmem s')" using u by (simp add: slot_blocks_def)
    ultimately have "slot_ok fs B fat_handle fat_own s' i (file_descriptors s ! i)"
      by (intro fat.slot_same(1) [OF si]) (simp_all only: f own)
    then show ?thesis using K(2) by (rule slot_ok_base)
  qed
  show ?thesis
  proof (rule fat.okI [OF r])
    show "slot_blocks fat_own s' (file_descriptors s' ! i) \<inter> slot_blocks fat_own s' (file_descriptors s' ! j) = {}"
      if "i < 512" "j < 512" "i \<noteq> j" "file_descriptors s' ! i \<noteq> 0" "file_descriptors s' ! j \<noteq> 0" for i j
      using o(6) [of i j] that by (simp add: f own)
  qed (use o(2-4) slot in \<open>simp_all add: f\<close>)
qed

lemma fat_files_same:
  assumes "fat_files_ok fs B es s" "same_files s s'" "keep_blocks (kused (kmem s)) (kmem s) (kmem s')"
  shows "fat_files_ok fs B es s'"
  by (rule fat_files_keep [OF assms]) (use fat.okD(1) [OF assms(1)] fat.ready_base in auto)

text \<open>More blocks that are to be left alone.\<close>

lemma fat_files_more:
  assumes "fat_files_ok fs B es s" "K \<subseteq> kused (kmem s)"
    "\<And>i. i < 512 \<Longrightarrow> file_descriptors s ! i \<noteq> 0 \<Longrightarrow> slot_blocks fat_own s (file_descriptors s ! i) \<inter> K = {}"
  shows "fat_files_ok fs (B \<union> K) es s"
proof -
  note o = fat.okD [OF assms(1)]
  have "fat_ready (B \<union> K) es s" using o(1) assms(2) unfolding fat_ready_def by blast
  moreover have "slot_ok fs (B \<union> K) fat_handle fat_own s i (file_descriptors s ! i)" if "i < 512" "file_descriptors s ! i \<noteq> 0" for i
  proof -
    note si = o(5) [OF that] and d = assms(3) [OF that]
    obtain b where b: "file_descriptors s ! i = kblock b" "b \<in> kused (kmem s)" using si by (auto simp: slot_ok_def)
    have "b \<in> slot_blocks fat_own s (file_descriptors s ! i)" using b(1) kused_less [OF b(2)] by (simp add: slot_blocks_def)
    then have nb: "b \<notin> K" and own: "fat_own s (fd_private (descs s (file_descriptors s ! i))) \<inter> K = {}"
      using d by (auto simp: slot_blocks_def)
    obtain c where c: "file_descriptors s ! i = kblock c" "c \<in> kused (kmem s)" "c \<notin> B"
        "c \<notin> fat_own s (fd_private (descs s (file_descriptors s ! i)))" using si by (auto simp: slot_ok_def)
    then have "c = b" using b kused_less by (simp add: kblock_inj)
    with c nb have "\<exists>b. file_descriptors s ! i = kblock b \<and> b \<in> kused (kmem s) \<and> b \<notin> B \<union> K
        \<and> b \<notin> fat_own s (fd_private (descs s (file_descriptors s ! i)))" by blast
    then show ?thesis using si own unfolding slot_ok_def by blast
  qed
  ultimately show ?thesis using o(2-4,6) by (intro fat.okI) simp_all
qed

lemma keep_blocks_sub: "keep_blocks K m m' \<Longrightarrow> L \<subseteq> K \<Longrightarrow> keep_blocks L m m'"
  by (auto simp: keep_blocks_def)

lemma keep_blocks_run_byte:
  assumes "keep_blocks K m m'" "{b..<b + k} \<subseteq> K" "j < 4096 * k"
  shows "m' (kblock b + of_nat j) = m (kblock b + of_nat j)"
proof -
  have "b + j div 4096 \<in> K" using assms(2,3) by (auto simp: div_less_iff_less_mult mult.commute)
  then show ?thesis unfolding kblock_run_byte [of b j] using assms(1) by (simp add: keep_blocks_def)
qed

lemma keep_blocks_table_only:
  assumes "table_only m m'" "K \<subseteq> kused m'"
  shows "keep_blocks K m m'"
proof -
  have "m' (kblock b + of_nat j) = m (kblock b + of_nat j)" if "b \<in> K" "j < 4096" for b j
    using assms that kused_less kblock_off_table [of b j] by (auto simp: table_only_def)
  with assms(2) show ?thesis by (simp add: keep_blocks_def)
qed

section \<open>A program on the volume\<close>

text \<open>A string that names the file \<open>w\<close> of the root directory.\<close>

definition file_named :: "addr \<Rightarrow> addr \<Rightarrow> u8 list \<Rightarrow> mem \<Rightarrow> bool" where
  "file_named filename mode w m \<longleftrightarrow> m mode = 0x72 \<and> kstable m mode
     \<and> (\<exists>bs. cstr m filename bs \<and> valid_path bs \<and> bs ! 0 = 0x30 \<and> kstable_block m filename (Suc (length bs))
          \<and> components (drop 3 bs) = [w])"

lemma file_named_ext: "kext m m' \<Longrightarrow> file_named filename mode w m \<Longrightarrow> file_named filename mode w m'"
  unfolding file_named_def by (metis cstr_ext kextD(1) kext_stable kstable_block_ext)

text \<open>The same file after the volume's blocks have been left alone.\<close>

lemma entry_in_base:
  assumes "fat_ready B es s" "k < length es" "j < 32"
  shows "\<exists>b \<in> B. \<exists>i < 4096. entry_at s k + of_nat j = kblock b + of_nat i"
proof -
  have "32 * k + j < 32 * length es" using assms(2,3) by simp
  then obtain b i where "b \<in> B" "i < 4096" "dir_item (root_dir s) + of_nat (32 * k + j) = kblock b + of_nat i"
    using assms(1) unfolding fat_ready_def by blast
  then show ?thesis by (auto simp: entry_at_def add.assoc)
qed

lemma file_same:
  assumes "fat_ready B es s" "k < length es" "same_volume s s'" "keep_blocks B (kmem s) (kmem s')"
  shows "entry_at s' k = entry_at s k" "file_size s' k = file_size s k" "file_cluster s' k = file_cluster s k"
proof -
  show e: "entry_at s' k = entry_at s k" using assms(3) by (simp add: entry_at_def same_volume_def)
  have "kmem s' (entry_at s k + of_nat j) = kmem s (entry_at s k + of_nat j)" if "j < 32" for j
    using entry_in_base [OF assms(1,2) that] assms(4) by (auto simp: keep_blocks_def)
  from item_same [where m' = "kmem s'" and p = "entry_at s k" and m = "kmem s" and q = "entry_at s k", OF this]
  show "file_size s' k = file_size s k" "file_cluster s' k = file_cluster s k"
    by (simp_all add: file_size_def file_cluster_def e)
qed

lemma in_first_cluster_same:
  assumes "fat_ready B es s" "k < length es" "same_volume s s'" "keep_blocks B (kmem s) (kmem s')" "in_first_cluster B s k"
  shows "in_first_cluster B s' k" "file_start s' k = file_start s k"
proof -
  note same = file_same [OF assms(1-4)]
  obtain pb where pb: "pb \<in> B" "fs_private (the_disk s) = kblock pb"
    "unat (file_size s k) \<le> 512 * unat (sectors_per_cluster (kmem s) (kblock pb))"
    using assms(5) by (auto simp: in_first_cluster_def)
  have spc: "sectors_per_cluster (kmem s') (kblock pb) = sectors_per_cluster (kmem s) (kblock pb)"
    by (rule header_keep(2) [OF assms(4) pb(1)])
  have f: "the_disk s' = the_disk s" "fat_directories s' = fat_directories s" "fat_privates s' = fat_privates s"
    "\<And>p. stream_disk (streams s' p) = stream_disk (streams s p)"
    using assms(3) by (simp_all add: same_volume_def)
  show st: "file_start s' k = file_start s k"
    unfolding file_start_def cluster_start_def same(3) f pb(2) spc ..
  show "in_first_cluster B s' k"
    using assms(5) pb spc st unfolding in_first_cluster_def f same(2,3) by auto
qed

section \<open>Loading a program\<close>

lemma off_heap_stable: "off_heap a n \<Longrightarrow> j < n \<Longrightarrow> kstable m (a + of_nat j)"
  by (simp add: off_heap_def kstable_def)

lemma load32_keep: "(\<And>j. j < 4 \<Longrightarrow> m' (a + of_nat j) = m (a + of_nat j)) \<Longrightarrow> load32 m' a = load32 m a"
proof -
  assume e: "\<And>j. j < 4 \<Longrightarrow> m' (a + of_nat j) = m (a + of_nat j)"
  from e [of 0] e [of 1] e [of 2] e [of 3] show ?thesis by (simp add: load32_def)
qed

lemma load32_off_heap: "off_heap stat 8 \<Longrightarrow> kext m m' \<Longrightarrow> load32 m' (stat + 4) = load32 m (stat + 4)"
proof (rule load32_keep)
  fix j :: nat assume stat: "off_heap stat 8" and ext: "kext m m'" and "j < 4"
  then have "kstable m (stat + of_nat (4 + j))" by (intro off_heap_stable [OF stat]) simp
  then show "m' (stat + 4 + of_nat j) = m (stat + 4 + of_nat j)" using kextD(1) [OF ext] by (simp add: add.assoc)
qed

text \<open>Opening the file, asking for its size and allocating that much.\<close>

lemma program_space:
  fixes s :: "'a kernel_state_scheme"
  assumes ok: "fat_files_ok fs B es s" and named: "file_named filename mode w (kmem s)" and k: "named_item es w k"
    and i: "least_free (open_files s) i" "i < 511" and stat: "off_heap stat 8"
    and sz: "0 < unat (file_size s k)" "unat (file_size s k) \<le> 104857600"
    and room: "(card (kused (kmem s)) + 8) * kblocks (file_size s k) \<le> 25600"
  shows "\<exists>s1 m2 m3 p. fopen (drivers hw fs) filename mode s = ret (of_nat (i + 1), s1) \<and> opened s s1 i k
    \<and> fat_files_ok fs B es s1 \<and> fstat (drivers hw fs) (of_nat (i + 1)) stat s1 = ret (0, s1\<lparr>kmem := m2\<rparr>)
    \<and> load32 m2 (stat + 4) = file_size s k \<and> (\<exists>h. open_files s1 = (open_files s)(i \<mapsto> h))
    \<and> kzalloc m2 (file_size s k) = (kblock p, m3) \<and> run_taken m2 (file_size s k) p m3 \<and> kused m2 = kused (kmem s1)
    \<and> keep_blocks (kused (kmem s1)) (kmem s1) m2 \<and> fat_files_ok fs B es (s1\<lparr>kmem := m3\<rparr>)"
proof -
  let ?n = "kblocks (file_size s k)"
  obtain bs where bs: "cstr (kmem s) filename bs" "valid_path bs" "bs ! 0 = 0x30"
    "kstable_block (kmem s) filename (Suc (length bs))" "components (drop 3 bs) = [w]"
    and mode: "kmem s mode = 0x72" "kstable (kmem s) mode"
    using named unfolding file_named_def by blast
  have n: "0 < ?n" by (rule kblocks_pos [OF sz(1)])
  then have "card (kused (kmem s)) + 8 \<le> (card (kused (kmem s)) + 8) * ?n" by simp
  then have c: "card (kused (kmem s)) + 8 \<le> 25600" using room by linarith
  then have c5: "card (kused (kmem s)) + 2 * length (components (drop 3 bs)) + 5 \<le> 25600" using bs(5) by simp
  have plain: "list_all (plain_name es) (take 1 (components (drop 3 bs)))" using bs(5) k by (simp add: named_item_def)
  from fopen_fat [OF ok bs(1-4) mode i(1) c5 plain, of hw] bs(5) k obtain s1 where
    s1: "fopen (drivers hw fs) filename mode s = ret (of_nat (i + 1), s1)" "fat_files_ok fs B es s1" "opened s s1 i k"
    by (auto simp: fopen_result_def named_item_def)
  note op = openedD [OF s1(3)]
  obtain h ib where h: "open_files s1 i = Some h" "fi_ptr (fat_items s1 (ffd_item (fat_descs s1 h))) = kblock ib"
    "item_filesize (kmem s1) (kblock ib) = file_size s k"
    using opened_file [OF s1(2,3)] by (auto simp: file_size_def entry_at_def)
  have all: "kused m \<subseteq> {..<25600}" for m using kused_less by blast
  then have cl: "clear_of (kused (kmem s1)) stat 8" using stat by (intro clear_of_low)
  have "clear_of B stat 8" using fat.ready_base [OF fat.okD(1) [OF s1(2)]] all stat by (intro clear_of_low) blast+
  from fstat_fat [OF s1(2) fd_slot_Suc [OF i(2)] h(1) this, of hw] h(2,3) obtain m2 where
    m2: "fstat (drivers hw fs) (of_nat (i + 1)) stat s1 = ret (0, s1\<lparr>kmem := m2\<rparr>)" "fat_files_ok fs B es (s1\<lparr>kmem := m2\<rparr>)"
      "unchanged_outside (kmem s1) m2 stat 8" "load32 m2 (stat + 4) = file_size s k" by auto
  note keep = clear_of_keep [OF m2(3) cl order_refl]
  have "card (kused m2) + 1 = card (kused (kmem s)) + 8" using op(2) keep(1) by simp
  then have "(card (kused m2) + 1) * ?n \<le> 25600" using room by (simp only:)
  from kzalloc_run [OF sz this] obtain p m3 where
    m3: "kzalloc m2 (file_size s k) = (kblock p, m3)" "run_taken m2 (file_size s k) p m3" by blast
  then have ext: "kext m2 m3" by (simp add: run_taken_def)
  have "keep_blocks (kused (kmem s1)) (kmem s1) m3"
    using keep_blocks_trans [OF keep(2) keep_blocks_kext [OF ext]] keep(1) by simp
  then have "fat_files_ok fs B es (s1\<lparr>kmem := m3\<rparr>)"
    by (intro fat_files_same [OF s1(2)]) (simp_all add: same_files_def)
  moreover note fopen_table [OF ok bs(1,2,4) i c5 s1(1) plain]
  ultimately show ?thesis using s1 m2(1,4) m3 keep by metis
qed

text \<open>What \<open>process_load_binary\<close> leaves when the program was loaded to block \<open>p\<close>.\<close>

definition program_loaded :: "(nat \<Rightarrow> u8) \<Rightarrow> nat \<Rightarrow> addr \<Rightarrow> 'a kernel_state_scheme \<Rightarrow> nat \<Rightarrow> 'a kernel_state_scheme \<Rightarrow> bool" where
  "program_loaded img k process s p s' \<longleftrightarrow> (let n = kblocks (file_size s k) in
     p + n \<le> 25600 \<and> {p..<p + n} \<subseteq> kused (kmem s') - kused (kmem s) \<and> keep_blocks (kused (kmem s)) (kmem s) (kmem s')
     \<and> card (kused (kmem s')) = card (kused (kmem s)) + 3 + n
     \<and> (\<forall>j < unat (file_size s k). kmem s' (kblock p + of_nat j) = img (file_start s k + j)) \<and> open_files s' = open_files s
     \<and> same_volume s s' \<and> fat_state.more s' = fat_state.more (with_process (\<lambda>x. x\<lparr>process_ptr := kblock p, process_size := file_size s k\<rparr>) process s))"

lemma with_process_more: "fat_state.more s' = fat_state.more s \<Longrightarrow> fat_state.more (with_process f p s') = fat_state.more (with_process f p s)"
  by (cases s; cases s') (simp add: with_process_def)

lemma run_clear:
  assumes "b + k \<le> 25600" "{b..<b + k} \<inter> K = {}" "K \<subseteq> {..<25600}" "n \<le> 4096 * k"
  shows "clear_of K (kblock b) n"
  unfolding clear_of_def
proof (intro allI impI conjI ballI)
  fix j assume j: "j < n"
  have r: "b + j div 4096 \<in> {b..<b + k}" using j assms(4) by (simp add: div_less_iff_less_mult mult.commute)
  then have lt: "b + j div 4096 < 25600" using assms(1) by simp
  then show "25600 \<le> unat (kblock b + of_nat j - 0x7E00)"
    unfolding kblock_run_byte [of b j] by (intro kblock_off_table) simp_all
  fix c assume "c \<in> K"
  then have "c < 25600" "c \<noteq> b + j div 4096" using r assms(2,3) by blast+
  then have "apart (kblock c) 4096 (kblock (b + j div 4096)) 4096" using lt by (intro kblock_apart) simp_all
  then show "4096 \<le> unat (kblock b + of_nat j - kblock c)"
    unfolding kblock_run_byte [of b j] by (rule apart_out) simp
qed

lemma program_read:
  fixes s :: "'a kernel_state_scheme"
  assumes ok: "fat_files_ok fs B es s" and drive: "ata_drive hw img" and k: "named_item es w k" and fits: "in_first_cluster B s k"
    and op: "opened s s1 i k" and ok3: "fat_files_ok fs B es s3" and i: "i < 511" and same: "same_files s1 s3"
    and keep: "keep_blocks (kused (kmem s1)) (kmem s1) (kmem s3)" and run: "p + kblocks (file_size s k) \<le> 25600"
    "{p..<p + kblocks (file_size s k)} \<inter> kused (kmem s1) = {}" and ok1: "fat_files_ok fs B es s1"
  shows "\<exists>s4. fread (drivers hw fs) (kblock p) (file_size s k) 1 (of_nat (i + 1)) s3 = ret (1, s4)
    \<and> fat_files_ok fs B es s4 \<and> open_files s4 = open_files s3 \<and> fat_state.more s4 = fat_state.more s3 \<and> file_part s4 = file_part s3 \<and> fat_own s4 = fat_own s3
    \<and> same_volume s3 s4
    \<and> kmem s4 = mem_fill (kmem s3) (kblock p) (unat (file_size s k)) (\<lambda>j. img (file_start s k + j))"
proof -
  obtain pb where pb: "pb \<in> B" "fs_private (the_disk s) = kblock pb"
    "unat (file_size s k) \<le> 512 * unat (sectors_per_cluster (kmem s) (kblock pb))"
    using fits by (auto simp: in_first_cluster_def)
  note f = fits [unfolded in_first_cluster_def]
  obtain h ib where h: "open_files s1 i = Some h" "ffd_pos (fat_descs s1 h) = 0" "ib \<in> kused (kmem s1)"
    "fi_ptr (fat_items s1 (ffd_item (fat_descs s1 h))) = kblock ib"
    "unat (fat16_get_first_cluster (kmem s1) (kblock ib)) = file_cluster s k"
    using opened_file [OF ok1 op] by (auto simp: file_cluster_def entry_at_def)
  note o = openedD [OF op] and slots = same_files_slot [OF same]
  have h3: "open_files s3 i = Some h" "ffd_pos (fat_descs s3 h) = 0" "fi_ptr (fat_items s3 (ffd_item (fat_descs s3 h))) = kblock ib"
    "the_disk s3 = the_disk s" "fat_directories s3 = fat_directories s" "fat_privates s3 = fat_privates s" "streams s3 = streams s"
    using h same o(3-6) slots(3) by (simp_all add: same_files_def)
  have c3: "unat (fat16_get_first_cluster (kmem s3) (kblock ib)) = file_cluster s k"
    using header_keep(1) [OF keep h(3)] h(5) by simp
  have B: "B \<subseteq> kused (kmem s)" by (rule fat.ready_base [OF fat.okD(1) [OF ok]])
  have kp: "keep_blocks B (kmem s) (kmem s3)"
    using keep_blocks_trans [OF keep_blocks_kext [OF o(1) B] keep_blocks_sub [OF keep]] B kextD(2) [OF o(1)] by blast
  have spc: "sectors_per_cluster (kmem s3) (kblock pb) = sectors_per_cluster (kmem s) (kblock pb)"
    by (rule header_keep(2) [OF kp pb(1)])
  have cs: "cluster_start s3 (file_cluster s k) = file_start s k"
    unfolding file_start_def cluster_start_def h3(4,5) pb(2) spc ..
  have own: "B \<union> fat_own s3 h \<subseteq> kused (kmem s1)"
    using open_slot(8,9) [OF ok1 h(1)] B kextD(2) [OF o(1)] unfolding slots(1) by blast
  then have "{p..<p + kblocks (file_size s k)} \<inter> (B \<union> fat_own s3 h) = {}" "B \<union> fat_own s3 h \<subseteq> {..<25600}"
    using run(2) kused_less by blast+
  then have "clear_of (B \<union> fat_own s3 h) (kblock p) (unat (file_size s k))"
    by (rule run_clear [OF run(1) _ _ kblocks_bytes(1)])
  then have clear: "clear_of (B \<union> fat_own s3 h) (kblock p) (unat (1 :: u32) * unat (file_size s k))" by simp
  have fit: "one_sector (unat (ffd_pos (fat_descs s3 h)) + l * unat (file_size s k)) (unat (file_size s k))"
    if "l < unat (1 :: u32)" for l using that h3(2) by (simp add: one_sector_def)
  have priv: "fs_private (the_disk s3) = kblock pb" using pb(2) h3(4) by simp
  have stream: "cluster_stream s3 \<noteq> 0" "stream_disk (streams s3 (cluster_stream s3)) = TheDisk"
    using f unfolding h3(4,6,7) by blast+
  have c: "2 \<le> file_cluster s k" "0 < unat (file_size s k)" using f by blast+
  have size: "unat (ffd_pos (fat_descs s3 h)) + unat (1 :: u32) * unat (file_size s k) \<le> 512 * unat (sectors_per_cluster (kmem s3) (kblock pb))"
    "cluster_start s3 (file_cluster s k) + unat (ffd_pos (fat_descs s3 h)) + unat (1 :: u32) * unat (file_size s k) < 2147483648"
    using f pb(3) unfolding spc cs h3(2) by simp_all
  have "unat (fat16_get_first_cluster (kmem s3) (fi_ptr (fat_items s3 (ffd_item (fat_descs s3 h))))) = file_cluster s k"
    using c3 h3(3) by simp
  from fread_fat [OF drive ok3 fd_slot_Suc [OF i] h3(1) this c(1) priv pb(1) stream c(2) _ size fit clear] show ?thesis
    unfolding cs h3(2) by simp
qed

lemma first_cluster_size:
  assumes "in_first_cluster B s k"
  shows "0 < unat (file_size s k)" "unat (file_size s k) \<le> 104857600"
proof -
  obtain pb where pb: "unat (file_size s k) \<le> 512 * unat (sectors_per_cluster (kmem s) (kblock pb))" "0 < unat (file_size s k)"
    using assms by (auto simp: in_first_cluster_def)
  have "unat (sectors_per_cluster (kmem s) (kblock pb)) < 256"
    using unsigned_less [of "kmem s (kblock pb + 13)", where ?'a = nat] by (simp add: sectors_per_cluster_def)
  with pb show "0 < unat (file_size s k)" "unat (file_size s k) \<le> 104857600" by simp_all
qed

text \<open>The whole function, on a file that is there and fits.\<close>

lemma load_binary_run:
  assumes "fopen drv filename mode s = ret (fd, s1)" "fd \<noteq> 0" "fstat drv fd stat s1 = ret (0, s1\<lparr>kmem := m2\<rparr>)"
    "kzalloc m2 (load32 m2 (stat + 4)) = (q, m3)" "q \<noteq> 0" "fread drv q (load32 m3 (stat + 4)) 1 fd (s1\<lparr>kmem := m3\<rparr>) = ret (1, s4)"
    "fclose drv fd (with_process (\<lambda>p. p\<lparr>process_ptr := q, process_size := load32 (kmem s4) (stat + 4)\<rparr>) process s4) = ret (r', s')"
  shows "process_load_binary drv mode stat filename process s = ret (0, s')"
  using assms by (simp add: process_load_binary_def Let_def)

text \<open>Up to the reading, with the program in memory.\<close>

lemma program_in_memory:
  fixes s :: "'a kernel_state_scheme"
  assumes ok: "fat_files_ok fs B es s" and drive: "ata_drive hw img"
    and named: "file_named filename mode w (kmem s)" and k: "named_item es w k" and fits: "in_first_cluster B s k"
    and i: "least_free (open_files s) i" "i < 511" and stat: "off_heap stat 8"
    and room: "(card (kused (kmem s)) + 8) * kblocks (file_size s k) \<le> 25600"
  shows "\<exists>s1 m2 m3 p s4. fopen (drivers hw fs) filename mode s = ret (of_nat (i + 1), s1)
    \<and> fstat (drivers hw fs) (of_nat (i + 1)) stat s1 = ret (0, s1\<lparr>kmem := m2\<rparr>)
    \<and> kzalloc m2 (file_size s k) = (kblock p, m3)
    \<and> fread (drivers hw fs) (kblock p) (file_size s k) 1 (of_nat (i + 1)) (s1\<lparr>kmem := m3\<rparr>) = ret (1, s4)
    \<and> load32 m2 (stat + 4) = file_size s k \<and> load32 m3 (stat + 4) = file_size s k \<and> load32 (kmem s4) (stat + 4) = file_size s k
    \<and> opened s s1 i k \<and> fat_files_ok fs B es s1 \<and> fat_files_ok fs B es s4 \<and> (\<exists>h. open_files s4 = (open_files s)(i \<mapsto> h))
    \<and> open_files s4 = open_files s1 \<and> fat_state.more s4 = fat_state.more s1 \<and> file_part s4 = file_part s1 \<and> fat_own s4 = fat_own s1
    \<and> same_volume s1 s4 \<and> kused m2 = kused (kmem s1) \<and> keep_blocks (kused (kmem s1)) (kmem s1) m2
    \<and> run_taken m2 (file_size s k) p m3 \<and> kext m2 (kmem s4) \<and> kused (kmem s4) = kused m3
    \<and> (\<forall>j < unat (file_size s k). kmem s4 (kblock p + of_nat j) = img (file_start s k + j))"
proof -
  let ?sz = "file_size s k" and ?n = "kblocks (file_size s k)"
  have sz: "0 < unat ?sz" "unat ?sz \<le> 104857600" using first_cluster_size [OF fits] .
  from program_space [OF ok named k i stat sz room, of hw] obtain s1 m2 m3 p where
    1: "fopen (drivers hw fs) filename mode s = ret (of_nat (i + 1), s1)" "opened s s1 i k" "fat_files_ok fs B es s1"
      "fstat (drivers hw fs) (of_nat (i + 1)) stat s1 = ret (0, s1\<lparr>kmem := m2\<rparr>)" "load32 m2 (stat + 4) = ?sz"
      "\<exists>h. open_files s1 = (open_files s)(i \<mapsto> h)" "kzalloc m2 ?sz = (kblock p, m3)" "run_taken m2 ?sz p m3" "kused m2 = kused (kmem s1)"
      "keep_blocks (kused (kmem s1)) (kmem s1) m2" "fat_files_ok fs B es (s1\<lparr>kmem := m3\<rparr>)" by blast
  have run: "p + ?n \<le> 25600" "{p..<p + ?n} \<inter> kused m2 = {}" "kext m2 m3"
    using 1(8) unfolding run_taken_def by blast+
  have keep3: "keep_blocks (kused (kmem s1)) (kmem s1) m3"
    using keep_blocks_trans [OF 1(10) keep_blocks_kext [OF run(3)]] 1(9) by simp
  from program_read [OF ok drive k fits 1(2,11) i(2) _ _ run(1) _ 1(3)] keep3 run(2) 1(9) obtain s4 where
    4: "fread (drivers hw fs) (kblock p) ?sz 1 (of_nat (i + 1)) (s1\<lparr>kmem := m3\<rparr>) = ret (1, s4)" "fat_files_ok fs B es s4"
      "open_files s4 = open_files s1" "fat_state.more s4 = fat_state.more s1" "file_part s4 = file_part s1" "fat_own s4 = fat_own s1"
      "same_volume s1 s4" "kmem s4 = mem_fill m3 (kblock p) (unat ?sz) (\<lambda>j. img (file_start s k + j))"
    by (fastforce simp: same_files_def same_volume_def open_files_def file_part_def fat_own_def fun_eq_iff)
  have m4: "kext m2 (kmem s4)" "kused (kmem s4) = kused m3"
    unfolding 4(8) using kext_fill_run [OF run(3,1,2) kblocks_bytes(1)] by blast+
  have "load32 m3 (stat + 4) = ?sz" "load32 (kmem s4) (stat + 4) = ?sz"
    using load32_off_heap [OF stat] run(3) m4(1) 1(5) by simp_all
  moreover have "kmem s4 (kblock p + of_nat j) = img (file_start s k + j)" if "j < unat ?sz" for j
    unfolding 4(8) using that less_imp_le [OF unat32_less [of ?sz]] by (rule mem_fill_in)
  moreover have "\<exists>h. open_files s4 = (open_files s)(i \<mapsto> h)" using 1(6) 4(3) by simp
  ultimately show ?thesis
    by (intro exI [of _ s1] exI [of _ m2] exI [of _ m3] exI [of _ p] exI [of _ s4] conjI allI impI) (use 1 4(1-7) m4 in blast)+
qed

lemma program_load:
  fixes s :: "'a kernel_state_scheme"
  assumes ok: "fat_files_ok fs B es s" and drive: "ata_drive hw img"
    and named: "file_named filename mode w (kmem s)" and k: "named_item es w k" and fits: "in_first_cluster B s k"
    and i: "least_free (open_files s) i" "i < 511" and stat: "off_heap stat 8"
    and room: "(card (kused (kmem s)) + 8) * kblocks (file_size s k) \<le> 25600"
  shows "\<exists>p s'. process_load_binary (drivers hw fs) mode stat filename process s = ret (0, s')
    \<and> fat_files_ok fs B es s' \<and> program_loaded img k process s p s'"
proof -
  let ?sz = "file_size s k" and ?n = "kblocks (file_size s k)" and ?K = "kused (kmem s)"
  from program_in_memory [OF assms] obtain s1 m2 m3 p s4 h where
    1: "fopen (drivers hw fs) filename mode s = ret (of_nat (i + 1), s1)"
      "fstat (drivers hw fs) (of_nat (i + 1)) stat s1 = ret (0, s1\<lparr>kmem := m2\<rparr>)" "kzalloc m2 ?sz = (kblock p, m3)"
      "fread (drivers hw fs) (kblock p) ?sz 1 (of_nat (i + 1)) (s1\<lparr>kmem := m3\<rparr>) = ret (1, s4)"
      "load32 m2 (stat + 4) = ?sz" "load32 m3 (stat + 4) = ?sz" "load32 (kmem s4) (stat + 4) = ?sz"
      "opened s s1 i k" "fat_files_ok fs B es s1" "fat_files_ok fs B es s4" "open_files s4 = (open_files s)(i \<mapsto> h)"
    and 4: "open_files s4 = open_files s1" "fat_state.more s4 = fat_state.more s1" "file_part s4 = file_part s1" "fat_own s4 = fat_own s1"
      "same_volume s1 s4" "kused m2 = kused (kmem s1)" "keep_blocks (kused (kmem s1)) (kmem s1) m2"
      "run_taken m2 ?sz p m3" "kext m2 (kmem s4)" "kused (kmem s4) = kused m3"
      "\<forall>j < unat ?sz. kmem s4 (kblock p + of_nat j) = img (file_start s k + j)" by (elim exE conjE) (rule that, assumption+)
  note op = openedD [OF 1(8)]
  have run: "p + ?n \<le> 25600" "{p..<p + ?n} \<inter> kused m2 = {}" "kused m3 = kused m2 \<union> {p..<p + ?n}"
    "card (kused m3) = card (kused m2) + ?n" "kblock p \<noteq> 0"
    using 4(8) unfolding run_taken_def by blast+
  define s5 where "s5 = with_process (\<lambda>x. x\<lparr>process_ptr := kblock p, process_size := ?sz\<rparr>) process s4"
  have same: "same_files s4 s5" "kmem s5 = kmem s4" by (simp_all add: s5_def same_files_def)
  then have ok5: "fat_files_ok fs B es s5" by (intro fat_files_same [OF 1(10)]) (simp_all add: keep_blocks_def)
  note files = same_files_slot [OF same(1)]
  let ?S = "slot_blocks fat_own s1 (file_descriptors s1 ! i)"
  have "open_files s5 i \<noteq> None" using 1(11) files(3) by simp
  moreover have "slot_blocks fat_own s4 = slot_blocks fat_own s1" "file_descriptors s5 = file_descriptors s1"
    using 4(3,4) same(1) by (simp_all add: slot_blocks_def file_part_def same_files_def fun_eq_iff)
  then have "slot_blocks fat_own s5 (file_descriptors s5 ! i) = ?S" using files(2) by simp
  ultimately obtain s6 where
    6: "fclose (drivers hw fs) (of_nat (i + 1)) s5 = ret (0, s6)" "fat_files_ok fs B es s6" "open_files s6 = (open_files s5)(i := None)"
      "kused (kmem s6) = kused m3 - ?S" "card (kused m3) = card (kused (kmem s6)) + 4" "table_only (kmem s4) (kmem s6)"
      "fat_state.more s6 = fat_state.more s5" "same_volume s5 s6"
    using fclose_fat [OF ok5 fd_slot_Suc [OF i(2)], of hw] 4(10) same(2) by auto
  have "open_files s1 i = Some h" using 1(11) 4(1) by simp
  then have S: "?S \<subseteq> kused m2" "?S \<inter> ?K = {}" using open_slot(9) [OF 1(9)] op(7) 4(6) by auto
  have K: "?K \<subseteq> kused m2" "?K \<subseteq> kused (kmem s6)" using kextD(2) [OF op(1)] 4(6) run(3) 6(4) S(2) by auto
  have "keep_blocks ?K (kmem s) m2"
    using keep_blocks_trans [OF keep_blocks_kext [OF op(1) order_refl] keep_blocks_sub [OF 4(7) kextD(2) [OF op(1)]]] .
  then have keep: "keep_blocks ?K (kmem s) (kmem s6)"
    using keep_blocks_kext [OF 4(9) K(1)] keep_blocks_table_only [OF 6(6) K(2)] by (blast intro: keep_blocks_trans)
  have "kmem s6 (kblock p + of_nat j) = kmem s4 (kblock p + of_nat j)" if "j < unat ?sz" for j
    by (rule keep_blocks_run_byte [OF keep_blocks_table_only [OF 6(6) order_refl]])
      (use run(2,3) S(1) 6(4) that kblocks_bytes(1) [of ?sz] in \<open>auto\<close>)
  then have "\<forall>j < unat ?sz. kmem s6 (kblock p + of_nat j) = img (file_start s k + j)" using 4(11) by simp
  moreover have "{p..<p + ?n} \<subseteq> kused (kmem s6) - ?K" using run(2,3) S(1) 6(4) K(1) by blast
  moreover have "open_files s6 = open_files s" using 6(3) files(3) 1(11) i(1) by (auto simp: least_free_def)
  moreover have "card (kused (kmem s6)) = card ?K + 3 + ?n" using 6(5) run(4) 4(6) op(2) by simp
  moreover have "fat_state.more s6 = fat_state.more (with_process (\<lambda>x. x\<lparr>process_ptr := kblock p, process_size := ?sz\<rparr>) process s)"
    using 6(7) 4(2) op(8) unfolding s5_def by (metis with_process_more)
  moreover have "same_volume s s1" using op(3-6) by (simp add: same_volume_def)
  then have "same_volume s s6" using 4(5) same_files_volume [OF same(1)] 6(8) by (blast intro: same_volume_trans)
  ultimately have "program_loaded img k process s p s6" using run(1) keep unfolding program_loaded_def Let_def by blast
  moreover have "(of_nat (i + 1) :: u32) \<noteq> 0" using i(2) of_nat32_eq_iff [of "i + 1" 0] by (simp del: of_nat_add of_nat_Suc)
  then have "process_load_binary (drivers hw fs) mode stat filename process s = ret (0, s6)"
    using 1(1-7) 6(1) run(5) unfolding s5_def
    by (intro load_binary_run [where fd = "of_nat (i + 1)" and ?s1.0 = s1 and ?m2.0 = m2 and ?m3.0 = m3 and q = "kblock p" and ?s4.0 = s4]) simp_all
  ultimately show ?thesis using 6(2) by blast
qed

end
