(* ===== verification/Loading.thy ===== *)
theory Loading
  imports ProgramFile Commands
begin

text \<open>
  Loading a program from a mounted FAT16 volume, end to end: what \<open>process_load\<close> makes of the
  bytes on the drive.
\<close>

section \<open>Tasks whose blocks are left alone\<close>

lemma space_keep:
  assumes "chunk_blocks m cb d tb" "space_blocks cb d tb \<subseteq> K" "keep_blocks K m m'"
  shows "chunk_blocks m' cb d tb"
    "page va \<Longrightarrow> paging_get m' (load32 m' (kblock cb)) va = paging_get m (load32 m (kblock cb)) va"
proof -
  have "m' (kblock b + of_nat i) = m (kblock b + of_nat i)" if "b \<in> space_blocks cb d tb" "i < 4096" for b i
    using assms(2,3) that by (auto simp: keep_blocks_def)
  from chunk_blocks_cong [OF assms(1) this] show "chunk_blocks m' cb d tb"
    "page va \<Longrightarrow> paging_get m' (load32 m' (kblock cb)) va = paging_get m (load32 m (kblock cb)) va" by simp_all
qed

lemma user_keep:
  assumes "tasks_ok own ts s" "u \<in> set ts" "keep_blocks (own u) (kmem s) (kmem s')"
    "page_directory (tasks s' u) = page_directory (tasks s u)"
  shows "user_address u s' va = user_address u s va"
proof -
  obtain c d tb where c: "page_directory (tasks s u) = kblock c" "chunk_blocks (kmem s) c d tb" "space_blocks c d tb \<subseteq> own u"
    using tasks_okD(2) [OF assms(1,2)] by (auto simp: task_owns_def)
  then show ?thesis
    using space_keep(2) [OF c(2,3) assms(3) page_and] assms(4) by (simp add: user_address_def translate_def)
qed

lemma tasks_keep:
  assumes ok: "tasks_ok own ts s" and keep: "\<And>t. t \<in> set ts \<Longrightarrow> keep_blocks (own t) (kmem s) (kmem s')"
    and same: "tasks s' = tasks s" "task_head s' = task_head s" "task_tail s' = task_tail s" "current_task s' = current_task s"
  shows "tasks_ok own ts s'"
proof -
  have "task_list ts s'" using tasks_okD(1) [OF ok] same by (simp add: task_list_def task_chain_def task_ends_def)
  moreover have "task_owns (kmem s') (tasks s') t (own t)" if "t \<in> set ts" for t
    by (rule task_owns_cong [OF tasks_okD(2) [OF ok that]]) (use space_keep(1) [OF _ _ keep [OF that]] same(1) in simp_all)
  moreover have "own t \<subseteq> kused (kmem s')" if "t \<in> set ts" for t using keep [OF that] by (simp add: keep_blocks_def)
  ultimately show "tasks_ok own ts s'" using tasks_okD(4) [OF ok] unfolding tasks_ok_def by blast
qed

section \<open>The task of a process\<close>

lemma task_frameD:
  assumes "task_frame s s'"
  shows "process_store s' = process_store s" "processes s' = processes s" "same_files s s'"
proof -
  note f = assms [unfolded task_frame_def]
  show "process_store s' = process_store s" "processes s' = processes s"
    using arg_cong [OF f, of process_store] arg_cong [OF f, of processes] by simp_all
  show "same_files s s'"
    using arg_cong [OF f, of the_disk] arg_cong [OF f, of file_descriptors] arg_cong [OF f, of descs] arg_cong [OF f, of fat_items]
      arg_cong [OF f, of fat_descs] arg_cong [OF f, of fat_directories] arg_cong [OF f, of fat_privates] arg_cong [OF f, of streams]
    by (simp add: same_files_def)
qed

text \<open>A task created and given the address space of a program.\<close>

lemma task_mapped:
  fixes s :: "'a kernel_state_scheme" and pr :: addr
  defines "P \<equiv> process_store s pr"
  assumes ok: "tasks_ok own ts s" and room: "card (kused (kmem s)) + 1027 \<le> 25600"
    and pg: "page (process_ptr P)" "page (process_stack P)"
    and fits: "unat (process_ptr P) + unat (process_size P) \<le> 0x7FFFF000" "unat (process_stack P) \<le> 0x7FFFF000"
  shows "\<exists>t T s5 m. task_new pr s = ret (t, s5) \<and> t \<noteq> 0 \<and> task_created pr ts s t T s5
    \<and> process_map_memory pr (with_process (\<lambda>p. p\<lparr>process_task := t\<rparr>) pr s5) =
        ret (0, with_process (\<lambda>p. p\<lparr>process_task := t\<rparr>) pr s5\<lparr>kmem := m\<rparr>)
    \<and> tasks_ok (own(t := T)) (ts @ [t]) (with_process (\<lambda>p. p\<lparr>process_task := t\<rparr>) pr s5\<lparr>kmem := m\<rparr>)
    \<and> kused m = kused (kmem s) \<union> T \<and> keep_blocks (kused (kmem s)) (kmem s) m
    \<and> (\<forall>va. user_address t (with_process (\<lambda>p. p\<lparr>process_task := t\<rparr>) pr s5\<lparr>kmem := m\<rparr>) va =
         (if va - 0x3FB000 < 0x4000 then process_stack P + (va - 0x3FB000)
          else if va - 0x400000 < program_pages P then process_ptr P + (va - 0x400000) else va))"
proof -
  obtain t T s5 where n: "task_new pr s = ret (t, s5)" and c: "task_created pr ts s t T s5"
    using task_new_created [OF tasks_okD(1) [OF ok]] tasks_ok_blocks [OF ok] room by blast
  note ok5 = tasks_ok_new [OF ok c]
  have frame: "process_store s5 = process_store s" using c task_frameD(1) unfolding task_created_def by blast
  let ?s = "with_process (\<lambda>p. p\<lparr>process_task := t\<rparr>) pr s5"
  have ok': "tasks_ok (own(t := T)) (ts @ [t]) ?s" by (rule tasks_ok_same [OF ok5]) simp_all
  have P: "process_store ?s pr = P\<lparr>process_task := t\<rparr>" by (simp add: P_def frame)
  obtain bt cb d tb where o: "t = kblock bt" "bt < 25600" "page_directory (tasks ?s t) = kblock cb" "chunk_blocks (kmem ?s) cb d tb"
    "bt \<notin> space_blocks cb d tb" "(own(t := T)) t = insert bt (space_blocks cb d tb)"
    using tasks_okD(2) [OF ok', of t] by (auto simp: task_owns_def)
  have nz: "t \<noteq> 0" using o(1,2) kblock_nonzero by simp
  have pp: "process_task (process_store ?s pr) = t" "process_ptr (process_store ?s pr) = process_ptr P"
    "process_stack (process_store ?s pr) = process_stack P" "process_size (process_store ?s pr) = process_size P"
    "program_pages (process_store ?s pr) = program_pages P"
    unfolding P by (simp_all add: program_pages_def)
  from process_map_run [of ?s pr cb d tb, unfolded pp, OF nz o(3,4) pg fits] obtain m where
    m: "process_map_memory pr ?s = ret (0, ?s\<lparr>kmem := m\<rparr>)" "chunk_blocks m cb d tb" "kused m = kused (kmem ?s)"
      "\<And>x. (\<And>b. b \<in> space_blocks cb d tb \<Longrightarrow> 4096 \<le> unat (x - kblock b)) \<Longrightarrow> m x = kmem ?s x"
      "\<And>va. translate m (kblock d) va =
         (if va - 0x3FB000 < 0x4000 then process_stack P + (va - 0x3FB000)
          else if va - 0x400000 < program_pages P then process_ptr P + (va - 0x400000) else translate (kmem ?s) (kblock d) va)"
    by blast
  note fin = mapped_tasks_ok(1) [OF ok' _ o(3,6,5,1,2) m(2,3) o(4) m(4)]
  have created: "kused (kmem s5) = kused (kmem s) \<union> T" "T \<inter> kused (kmem s) = {}" "kext (kmem s) (kmem s5)"
    "\<And>va. page va \<Longrightarrow> paging_get (kmem s5) (load32 (kmem s5) (page_directory (tasks s5 t))) va = va OR 5"
    using c unfolding task_created_def by blast+
  have dir: "load32 (kmem s5) (kblock cb) = kblock d" "load32 m (kblock cb) = kblock d" "page_directory (tasks s5 t) = kblock cb"
    using o(3,4) m(2) by (simp_all add: chunk_blocks_def)
  have "translate (kmem s5) (kblock d) va = va" for va
    using created(4) unfolding dir by (intro translate_identity [where f = 5]) simp_all
  then have user: "user_address t (?s\<lparr>kmem := m\<rparr>) va = (if va - 0x3FB000 < 0x4000 then process_stack P + (va - 0x3FB000)
      else if va - 0x400000 < program_pages P then process_ptr P + (va - 0x400000) else va)" for va
    using m(5) dir by (simp add: user_address_def)
  have "space_blocks cb d tb \<subseteq> T" using o(6) by auto
  then have sp: "b \<in> space_blocks cb d tb \<Longrightarrow> b < 25600 \<and> b \<notin> kused (kmem s)" for b
    using created(1,2) kused_less [of b "kmem s5"] by blast
  have "keep_blocks (kused (kmem s)) (kmem s5) m"
    unfolding keep_blocks_def
  proof (intro conjI ballI allI impI)
    show "kused (kmem s) \<subseteq> kused m" using m(3) created(1) by auto
    fix b j assume b: "b \<in> kused (kmem s)" "(j :: nat) < 4096"
    have "m (kblock b + of_nat j) = kmem ?s (kblock b + of_nat j)"
    proof (rule m(4))
      fix c assume "c \<in> space_blocks cb d tb"
      then have "c < 25600" "c \<noteq> b" using sp b(1) by blast+
      then have "apart (kblock c) 4096 (kblock b) 4096" using kused_less [OF b(1)] by (intro kblock_apart) simp_all
      then show "4096 \<le> unat (kblock b + of_nat j - kblock c)" using b(2) by (rule apart_out)
    qed
    then show "m (kblock b + of_nat j) = kmem s5 (kblock b + of_nat j)" by simp
  qed
  then have "keep_blocks (kused (kmem s)) (kmem s) m"
    using keep_blocks_trans [OF keep_blocks_kext [OF created(3) order_refl]] by blast
  moreover have "tasks_ok (own(t := T)) (ts @ [t]) (?s\<lparr>kmem := m\<rparr>)" by (rule fin) simp_all
  moreover have "kused m = kused (kmem s) \<union> T" using m(3) created(1) by simp
  ultimately show ?thesis
    by (intro exI [of _ t] exI [of _ T] exI [of _ s5] exI [of _ m] conjI allI n nz c m(1) user)
qed

section \<open>The process\<close>

lemma kblocks_process [simp]: "kblocks 5256 = 2" "kblocks 16384 = 4"
  by (simp_all add: kblocks_def)

lemma process_init_sel [simp]:
  "kmem (process_init p s) = mem_fill (kmem s) p 5256 (\<lambda>_. 0)" "tasks (process_init p s) = tasks s"
  "task_head (process_init p s) = task_head s" "task_tail (process_init p s) = task_tail s"
  "current_task (process_init p s) = current_task s" "processes (process_init p s) = processes s"
  "process_store (process_init p s) = (process_store s)(p := zero_process)" "same_files s (process_init p s)"
  by (simp_all add: process_init_def memset_fill same_files_def)

text \<open>The two blocks of a new process are kept apart from the file system's.\<close>

lemma process_space:
  fixes s :: "'a kernel_state_scheme"
  assumes ok: "fat_files_ok fs B es s" and room: "(card (kused (kmem s)) + 1) * 2 \<le> 25600"
  shows "\<exists>q m s1. kzalloc (kmem s) 5256 = (kblock q, m) \<and> s1 = process_init (kblock q) (s\<lparr>kmem := m\<rparr>) \<and> q + 2 \<le> 25600
    \<and> kblock q \<noteq> 0 \<and> {q..<q + 2} \<inter> kused (kmem s) = {} \<and> kused (kmem s1) = kused (kmem s) \<union> {q..<q + 2}
    \<and> card (kused (kmem s1)) = card (kused (kmem s)) + 2 \<and> kext (kmem s) (kmem s1) \<and> same_files s s1
    \<and> fat_files_ok fs (B \<union> {q..<q + 2}) es s1"
proof -
  obtain q m where q: "kzalloc (kmem s) 5256 = (kblock q, m)" "run_taken (kmem s) 5256 q m"
    using kzalloc_run [of 5256 "kmem s"] room by auto
  let ?s = "process_init (kblock q) (s\<lparr>kmem := m\<rparr>)"
  have r: "q + 2 \<le> 25600" "{q..<q + 2} \<inter> kused (kmem s) = {}" "kused m = kused (kmem s) \<union> {q..<q + 2}"
    "card (kused m) = card (kused (kmem s)) + 2" "kext (kmem s) m" "kblock q \<noteq> 0"
    using q(2) unfolding run_taken_def kblocks_process by blast+
  have m: "kext (kmem s) (kmem ?s)" "kused (kmem ?s) = kused m"
    using kext_fill_run [OF r(5,1,2), of 5256] by simp_all
  have same: "same_files s ?s" by (simp add: same_files_def process_init_def with_process_def)
  have keep: "keep_blocks (kused (kmem s)) (kmem s) (kmem ?s)" by (rule keep_blocks_kext [OF m(1) order_refl])
  note ok1 = fat_files_same [OF ok same keep] and slots = same_files_slot [OF same]
  have fd: "file_descriptors ?s = file_descriptors s" using same by (simp add: same_files_def)
  have "fat_files_ok fs (B \<union> {q..<q + 2}) es ?s"
  proof (rule fat_files_more [OF ok1])
    show "{q..<q + 2} \<subseteq> kused (kmem ?s)" unfolding m(2) r(3) by blast
    fix i assume "i < 512" "file_descriptors ?s ! i \<noteq> 0"
    then have "slot_ok fs B fat_handle fat_own s i (file_descriptors s ! i)" using fat.okD(5) [OF ok] fd by simp
    then show "slot_blocks fat_own ?s (file_descriptors ?s ! i) \<inter> {q..<q + 2} = {}"
      unfolding slots(2) fd using fat.slot_used r(2) by blast
  qed
  then show ?thesis using q(1) r m same by auto
qed

text \<open>The stack and the name.\<close>

lemma stack_and_name:
  assumes room: "(card (kused m) + 1) * 4 \<le> 25600" and q: "q + 2 \<le> 25600"
  shows "\<exists>b m3 m4. kzalloc m 16384 = (kblock b, m3) \<and> run_taken m 16384 b m3 \<and> m4 = snd (strncpy m3 (kblock q + 2) filename 108)
    \<and> kused m4 = kused m3 \<and> keep_blocks (kused m3 - {q..<q + 2}) m3 m4"
proof -
  obtain b m3 where b: "kzalloc m 16384 = (kblock b, m3)" "run_taken m 16384 b m3"
    using kzalloc_run [of 16384 m] room by auto
  let ?m = "snd (strncpy m3 (kblock q + 2) filename 108)"
  have out: "?m x = m3 x" if "8192 \<le> unat (x - kblock q)" for x
  proof -
    have e: "x - (kblock q + 2) = x - kblock q - of_nat 2" by simp
    have "unat (x - kblock q - of_nat 2) = unat (x - kblock q) - 2"
      using that by (subst unat_sub_of_nat) simp_all
    then have "unat (x - (kblock q + 2)) = unat (x - kblock q) - 2" unfolding e .
    then show ?thesis using strncpy_outside [of m3 "kblock q + 2" filename 108] that by (simp add: unchanged_outside_def)
  qed
  have "kused ?m = kused m3"
  proof (rule kused_cong_outside)
    fix k :: nat assume "k < 25600"
    then show "?m (0x7E00 + of_nat k) = m3 (0x7E00 + of_nat k)"
      using q by (intro out ktable_out_block) simp_all
  qed
  moreover have "?m (kblock c + of_nat j) = m3 (kblock c + of_nat j)" if "c \<in> kused m3 - {q..<q + 2}" "j < 4096" for c j
    using that q kused_less by (intro out run_off_blocks [where k = 2]) auto
  ultimately show ?thesis using b by (auto simp: keep_blocks_def)
qed

text \<open>The steps of \<open>process_load_for_slot\<close> on the way without errors.\<close>

lemma load_for_slot_run:
  assumes "process_get slot s = 0" "kzalloc (kmem s) 5256 = (q, m1)" "q \<noteq> 0"
    "process_load_binary drv mode stat filename q (process_init q (s\<lparr>kmem := m1\<rparr>)) = ret (0, s2)"
    "kzalloc (kmem s2) 16384 = (st, m3)" "st \<noteq> 0"
    "s4 = with_process (\<lambda>p. p\<lparr>process_stack := st, process_id := ucast slot\<rparr>) q (s2\<lparr>kmem := snd (strncpy m3 (q + 2) filename 108)\<rparr>)"
    "task_new q s4 = ret (t, s5)" "t \<noteq> 0" "process_map_memory q (with_process (\<lambda>p. p\<lparr>process_task := t\<rparr>) q s5) = ret (0, s6)"
    "unat slot < 12"
  shows "process_load_for_slot drv mode stat filename pp slot s = ret (0, q, s6\<lparr>processes := (processes s6)[unat slot := q]\<rparr>)"
proof -
  have s4: "with_process (\<lambda>p. p\<lparr>process_id := ucast slot\<rparr>) q (with_process (\<lambda>p. p\<lparr>process_stack := st\<rparr>) q
      (s2\<lparr>kmem := snd (strncpy m3 (q + 2) filename 108)\<rparr>)) = s4"
    unfolding assms(7) by (simp add: with_process_def)
  have "\<not> (0 :: u32) <s 0" by simp
  then show ?thesis
    using assms(1-6,8-11) s4
    by (simp add: process_load_for_slot_def process_load_data_def process_load_out_def Let_def)
qed

lemma entry_less:
  assumes "fat_ready B es s" "named_item es w k"
  shows "k < length es"
  by (rule named_itemD(1) [OF assms(2)])

lemma in_first_cluster_mono: "in_first_cluster B s k \<Longrightarrow> B \<subseteq> B' \<Longrightarrow> in_first_cluster B' s k"
  unfolding in_first_cluster_def by blast

text \<open>Up to the task: the process, its program in block \<open>p\<close> and its stack in block \<open>b\<close>.\<close>

definition process_prepared ::
  "(nat \<Rightarrow> u8) \<Rightarrow> nat set \<Rightarrow> nat \<Rightarrow> u32 \<Rightarrow> 'a kernel_state_scheme \<Rightarrow> nat \<Rightarrow> nat \<Rightarrow> nat \<Rightarrow> 'a kernel_state_scheme \<Rightarrow> bool" where
  "process_prepared img B k slot s q p b s4 \<longleftrightarrow>
     process_store s4 = (process_store s)(kblock q := zero_process\<lparr>process_ptr := kblock p, process_size := file_size s k,
       process_stack := kblock b, process_id := ucast slot\<rparr>)
     \<and> p + kblocks (file_size s k) \<le> 25600 \<and> b + 4 \<le> 25600 \<and> {p..<p + kblocks (file_size s k)} \<union> {b..<b + 4} \<subseteq> kused (kmem s4)
     \<and> (\<forall>j < unat (file_size s k). kmem s4 (kblock p + of_nat j) = img (file_start s k + j))
     \<and> (\<forall>j < 16384. kmem s4 (kblock b + of_nat j) = 0)
     \<and> keep_blocks (kused (kmem s)) (kmem s) (kmem s4) \<and> card (kused (kmem s4)) = card (kused (kmem s)) + 9 + kblocks (file_size s k)
     \<and> open_files s4 = open_files s \<and> same_volume s s4 \<and> processes s4 = processes s \<and> tasks s4 = tasks s
     \<and> task_head s4 = task_head s \<and> task_tail s4 = task_tail s \<and> current_task s4 = current_task s"

lemma process_prepare:
  fixes s :: "'a kernel_state_scheme"
  assumes ok: "fat_files_ok fs B es s" and drive: "ata_drive hw img"
    and named: "file_named filename mode w (kmem s)" and k: "named_item es w k" and fits: "in_first_cluster B s k"
    and i: "least_free (open_files s) i" "i < 511" and stat: "off_heap stat 8"
    and room: "(card (kused (kmem s)) + 10) * kblocks (file_size s k) \<le> 25600"
      "(card (kused (kmem s)) + kblocks (file_size s k) + 6) * 4 \<le> 25600"
  shows "\<exists>q m1 s2 b m3 p s4. kzalloc (kmem s) 5256 = (kblock q, m1) \<and> kblock q \<noteq> 0
    \<and> process_load_binary (drivers hw fs) mode stat filename (kblock q) (process_init (kblock q) (s\<lparr>kmem := m1\<rparr>)) = ret (0, s2)
    \<and> kzalloc (kmem s2) 16384 = (kblock b, m3) \<and> kblock b \<noteq> 0
    \<and> s4 = with_process (\<lambda>p. p\<lparr>process_stack := kblock b, process_id := ucast slot\<rparr>) (kblock q)
        (s2\<lparr>kmem := snd (strncpy m3 (kblock q + 2) filename 108)\<rparr>)
    \<and> fat_files_ok fs B es s4 \<and> process_prepared img B k slot s q p b s4"
proof -
  let ?n = "kblocks (file_size s k)" and ?K = "kused (kmem s)"
  have "(card ?K + 1) * 2 \<le> 25600" using room(2) by simp
  from process_space [OF ok this] obtain q m1 s1 where
    1: "kzalloc (kmem s) 5256 = (kblock q, m1)" "s1 = process_init (kblock q) (s\<lparr>kmem := m1\<rparr>)" "q + 2 \<le> 25600" "kblock q \<noteq> 0"
      "{q..<q + 2} \<inter> ?K = {}" "kused (kmem s1) = ?K \<union> {q..<q + 2}" "card (kused (kmem s1)) = card ?K + 2" "kext (kmem s) (kmem s1)"
      "same_files s s1" "fat_files_ok fs (B \<union> {q..<q + 2}) es s1" by blast
  note ready = fat.okD(1) [OF ok] and vol = same_files_volume [OF 1(9)]
  have B: "B \<subseteq> ?K" by (rule fat.ready_base [OF ready])
  note kB = keep_blocks_kext [OF 1(8) B]
  have kl: "k < length es" by (rule entry_less [OF ready k])
  have fl: "file_size s1 k = file_size s k" "file_start s1 k = file_start s k"
    using file_same(2) [OF ready kl vol kB] in_first_cluster_same(2) [OF ready kl vol kB fits] by simp_all
  have fits1: "in_first_cluster (B \<union> {q..<q + 2}) s1 k"
    by (rule in_first_cluster_mono [OF in_first_cluster_same(1) [OF ready kl vol kB fits]]) blast
  have "file_named filename mode w (kmem s1)" by (rule file_named_ext [OF 1(8) named])
  moreover have "least_free (open_files s1) i" using i(1) same_files_slot(3) [OF 1(9)] by simp
  moreover have "(card (kused (kmem s1)) + 8) * kblocks (file_size s1 k) \<le> 25600" using room(1) 1(7) fl(1) by (simp add: add.commute)
  ultimately obtain p s2 where
    2: "process_load_binary (drivers hw fs) mode stat filename (kblock q) s1 = ret (0, s2)" "fat_files_ok fs (B \<union> {q..<q + 2}) es s2"
      "program_loaded img k (kblock q) s1 p s2"
    using program_load [OF 1(10) drive _ k fits1 _ i(2) stat] by blast
  have L: "p + ?n \<le> 25600" "{p..<p + ?n} \<subseteq> kused (kmem s2) - kused (kmem s1)" "keep_blocks (kused (kmem s1)) (kmem s1) (kmem s2)"
    "card (kused (kmem s2)) = card ?K + 5 + ?n" "\<And>j. j < unat (file_size s k) \<Longrightarrow> kmem s2 (kblock p + of_nat j) = img (file_start s k + j)"
    "open_files s2 = open_files s1" "same_volume s1 s2"
    "fat_state.more s2 = fat_state.more (with_process (\<lambda>x. x\<lparr>process_ptr := kblock p, process_size := file_size s k\<rparr>) (kblock q) s1)"
    using 2(3) 1(7) unfolding program_loaded_def Let_def fl by auto
  have "(card (kused (kmem s2)) + 1) * 4 \<le> 25600" using room(2) L(4) by simp
  from stack_and_name [OF this 1(3), of filename] obtain b m3 m4 where
    3: "kzalloc (kmem s2) 16384 = (kblock b, m3)" "run_taken (kmem s2) 16384 b m3" "m4 = snd (strncpy m3 (kblock q + 2) filename 108)"
      "kused m4 = kused m3" "keep_blocks (kused m3 - {q..<q + 2}) m3 m4" by blast
  have R: "b + 4 \<le> 25600" "{b..<b + 4} \<inter> kused (kmem s2) = {}" "kused m3 = kused (kmem s2) \<union> {b..<b + 4}"
    "card (kused m3) = card (kused (kmem s2)) + 4" "kext (kmem s2) m3" "kblock b \<noteq> 0" "\<forall>i < unat (16384 :: u32). m3 (kblock b + of_nat i) = 0"
    using 3(2) unfolding run_taken_def kblocks_process by blast+
  define s4 where "s4 = with_process (\<lambda>p. p\<lparr>process_stack := kblock b, process_id := ucast slot\<rparr>) (kblock q) (s2\<lparr>kmem := m4\<rparr>)"
  let ?Q = "{q..<q + 2}"
  have Q: "?Q \<subseteq> kused (kmem s2)" using L(3) 1(6) by (auto simp: keep_blocks_def)
  have "keep_blocks (kused (kmem s2) - ?Q) (kmem s2) m3" by (rule keep_blocks_kext [OF R(5) Diff_subset])
  moreover have "keep_blocks (kused (kmem s2) - ?Q) m3 m4" by (rule keep_blocks_sub [OF 3(5)]) (use R(3) in blast)
  ultimately have k24: "keep_blocks (kused (kmem s2) - ?Q) (kmem s2) m4" by (rule keep_blocks_trans)
  have K: "?K \<subseteq> kused (kmem s2) - ?Q" using L(3) 1(5,6) by (auto simp: keep_blocks_def)
  have keep: "keep_blocks ?K (kmem s) m4"
    using keep_blocks_kext [OF 1(8) order_refl] keep_blocks_sub [OF L(3)] keep_blocks_sub [OF k24 K] 1(6)
    by (blast intro: keep_blocks_trans)
  have "fat_files_ok fs B es s4"
  proof (rule fat_files_keep [OF 2(2)])
    show "same_files s2 s4" "keep_blocks (kused (kmem s2) - ?Q) (kmem s2) (kmem s4)"
      using k24 by (simp_all add: s4_def same_files_def)
    show "B \<subseteq> kused (kmem s2) - ?Q" using B K by blast
    show "kused (kmem s2) - (B \<union> ?Q - B) \<subseteq> kused (kmem s2) - ?Q" using 1(5) B by blast
    show "fat_ready B es s2"
    proof (rule fat_ready_keep [OF ready])
      show "keep_blocks B (kmem s) (kmem s2)"
        using keep_blocks_trans [OF kB keep_blocks_sub [OF L(3)]] B 1(6) by blast
    qed (use vol L(7) in \<open>simp_all add: same_volume_def\<close>)
  qed blast
  moreover have "process_prepared img B k slot s q p b s4"
    unfolding process_prepared_def
  proof (intro conjI allI impI)
    note kf = kernel_fields [OF L(8)]
    show "process_store s4 = (process_store s)(kblock q := zero_process\<lparr>process_ptr := kblock p, process_size := file_size s k,
       process_stack := kblock b, process_id := ucast slot\<rparr>)" using kf(9) by (simp add: s4_def 1(2) process_init_def)
    show "processes s4 = processes s" "tasks s4 = tasks s" "task_head s4 = task_head s" "task_tail s4 = task_tail s" "current_task s4 = current_task s"
      using kf by (simp_all add: s4_def 1(2) process_init_def)
    show "p + ?n \<le> 25600" "b + 4 \<le> 25600" by (rule L R)+
    show "{p..<p + ?n} \<union> {b..<b + 4} \<subseteq> kused (kmem s4)" using L(2) R(3) 3(4) by (auto simp: s4_def)
    show "kmem s4 (kblock p + of_nat j) = img (file_start s k + j)" if "j < unat (file_size s k)" for j
    proof -
      have "j < 4096 * ?n" using that kblocks_bytes(1) [of "file_size s k"] by linarith
      moreover have "{p..<p + ?n} \<subseteq> kused (kmem s2) - ?Q" using L(2) 1(6) by blast
      ultimately show ?thesis using keep_blocks_run_byte [OF k24] L(5) [OF that] by (simp add: s4_def)
    qed
    show "kmem s4 (kblock b + of_nat j) = 0" if "j < 16384" for j
    proof -
      have "{b..<b + 4} \<subseteq> kused m3 - ?Q" using R(2,3) Q by blast
      then show ?thesis using keep_blocks_run_byte [OF 3(5)] R(7) that by (simp add: s4_def)
    qed
    show "keep_blocks ?K (kmem s) (kmem s4)" using keep by (simp add: s4_def)
    show "card (kused (kmem s4)) = card ?K + 9 + ?n" using L(4) R(4) 3(4) by (simp add: s4_def)
    have "same_files s2 s4" by (simp add: s4_def same_files_def)
    from same_files_slot(3) [OF this] show "open_files s4 = open_files s" using L(6) same_files_slot(3) [OF 1(9)] by simp
    have "same_volume s2 s4" by (simp add: s4_def same_volume_def)
    then show "same_volume s s4" using vol L(7) by (blast intro: same_volume_trans)
  qed
  ultimately show ?thesis using 1(1,2,4) 2(1) 3(1,3) R(6) unfolding s4_def by blast
qed

text \<open>Where the program and the stack are seen.\<close>

lemma program_at:
  assumes "unat (process_ptr P) + unat (process_size P) \<le> 0x7FFFF000" "j < unat (process_size P)" "unat (process_size P) \<le> 104857600"
  shows "\<not> 0x400000 + of_nat j - 0x3FB000 < (0x4000 :: u32)" "0x400000 + of_nat j - 0x400000 < program_pages P"
proof -
  have "j < 4294967296" using assms(2,3) by linarith
  then have j: "unat (of_nat j :: u32) = j" by simp
  have "unat (0x400000 + of_nat j - 0x3FB000 :: u32) = 0x5000 + j" using assms(2,3) j by (simp add: unat_word_ariths unat_sub_if')
  then show "\<not> 0x400000 + of_nat j - 0x3FB000 < (0x4000 :: u32)" by (simp add: word_less_nat_alt)
  let ?e = "process_ptr P + process_size P"
  have e: "unat ?e = unat (process_ptr P) + unat (process_size P)" using assms(1) by (simp add: unat_word_ariths)
  then have "?e \<le> paging_align_address ?e" using assms(1) by (intro align_address) simp
  then have "unat (process_ptr P) + unat (process_size P) \<le> unat (paging_align_address ?e)" using e by (simp add: word_le_nat_alt)
  then have "unat (process_size P) \<le> unat (program_pages P)" by (simp add: program_pages_def unat_sub_if')
  then show "0x400000 + of_nat j - 0x400000 < program_pages P" using assms(2) j by (simp add: word_less_nat_alt)
qed

lemma stack_at: "j < 16384 \<Longrightarrow> 0x3FB000 + of_nat j - 0x3FB000 < (0x4000 :: u32)"
  by (simp add: word_less_nat_alt)

text \<open>The process \<open>q\<close> with the task \<open>t\<close> is ready to run the file of entry \<open>k\<close>.\<close>

definition program_ready :: "(nat \<Rightarrow> u8) \<Rightarrow> 'a kernel_state_scheme \<Rightarrow> nat \<Rightarrow> addr \<Rightarrow> addr \<Rightarrow> 'a kernel_state_scheme \<Rightarrow> bool" where
  "program_ready img s k q t s' \<longleftrightarrow> process_task (process_store s' q) = t \<and> task_process (tasks s' t) = q
     \<and> task_registers (tasks s' t) = start_registers
     \<and> (\<forall>j < unat (file_size s k). kmem s' (user_address t s' (0x400000 + of_nat j)) = img (file_start s k + j))
     \<and> (\<forall>j < 16384. kmem s' (user_address t s' (0x3FB000 + of_nat j)) = 0)"

lemma prepared_ptrs:
  assumes "process_prepared img B k slot s q p b s4" "0 < unat (file_size s k)"
  defines "P \<equiv> process_store s4 (kblock q)"
  shows "process_ptr P = kblock p" "process_stack P = kblock b" "process_size P = file_size s k" "p < 25600" "b < 25600"
    "unat (kblock p) + unat (file_size s k) \<le> 0x7FFFF000" "unat (kblock b) \<le> 0x7FFFF000" "unat (file_size s k) \<le> 104857600"
proof -
  note prep = assms(1) [unfolded process_prepared_def]
  show "process_ptr P = kblock p" "process_stack P = kblock b" "process_size P = file_size s k" using prep by (simp_all add: P_def)
  have lt: "p + kblocks (file_size s k) \<le> 25600" "b + 4 \<le> 25600" using prep by blast+
  from lt kblocks_pos [OF assms(2)] show pb: "p < 25600" "b < 25600" by simp_all
  show "unat (kblock p) + unat (file_size s k) \<le> 0x7FFFF000" "unat (kblock b) \<le> 0x7FFFF000" "unat (file_size s k) \<le> 104857600"
    using lt kblocks_bytes(1) [of "file_size s k"] pb by (simp_all add: unat_kblock)
qed

text \<open>Its bytes, seen through the task's space.\<close>

lemma prepared_bytes:
  assumes prep: "process_prepared img B k slot s q p b s4" and size: "0 < unat (file_size s k)"
    and keep: "keep_blocks (kused (kmem s4)) (kmem s4) (kmem s')"
    and user: "\<And>va. user_address t s' va = (if va - 0x3FB000 < 0x4000 then kblock b + (va - 0x3FB000)
      else if va - 0x400000 < program_pages (process_store s4 (kblock q)) then kblock p + (va - 0x400000) else va)"
  shows "j < unat (file_size s k) \<Longrightarrow> kmem s' (user_address t s' (0x400000 + of_nat j)) = img (file_start s k + j)"
    and "j < 16384 \<Longrightarrow> kmem s' (user_address t s' (0x3FB000 + of_nat j)) = 0"
proof -
  note ptr = prepared_ptrs [OF prep size] and prep = prep [unfolded process_prepared_def]
  show "kmem s' (user_address t s' (0x400000 + of_nat j)) = img (file_start s k + j)" if j: "j < unat (file_size s k)"
  proof -
    have "j < 4096 * kblocks (file_size s k)" using j kblocks_bytes(1) [of "file_size s k"] by linarith
    then have "kmem s' (kblock p + of_nat j) = kmem s4 (kblock p + of_nat j)"
      using prep by (intro keep_blocks_run_byte [OF keep]) simp_all
    moreover have "kmem s4 (kblock p + of_nat j) = img (file_start s k + j)" using prep j by blast
    ultimately show ?thesis using program_at [of "process_store s4 (kblock q)" j] ptr j by (simp add: user)
  qed
  show "kmem s' (user_address t s' (0x3FB000 + of_nat j)) = 0" if j: "j < 16384"
  proof -
    have "kmem s' (kblock b + of_nat j) = kmem s4 (kblock b + of_nat j)"
      using prep j by (intro keep_blocks_run_byte [OF keep, where k = 4]) simp_all
    moreover have "kmem s4 (kblock b + of_nat j) = 0" using prep j by blast
    ultimately show ?thesis using stack_at [OF j] by (simp add: user)
  qed
qed

text \<open>From the prepared process to its entry in the table.\<close>

lemma process_started:
  fixes s :: "'a kernel_state_scheme"
  assumes tasks: "tasks_ok own ts s" and files: "fat_files_ok fs B es s4" and prep: "process_prepared img B k slot s q p b s4"
    and size: "0 < unat (file_size s k)" and room: "card (kused (kmem s4)) + 1027 \<le> 25600"
  shows "\<exists>t T s5 s6 s'. task_new (kblock q) s4 = ret (t, s5) \<and> t \<noteq> 0
    \<and> process_map_memory (kblock q) (with_process (\<lambda>p. p\<lparr>process_task := t\<rparr>) (kblock q) s5) = ret (0, s6)
    \<and> s' = s6\<lparr>processes := (processes s6)[i := kblock q]\<rparr> \<and> processes s' = (processes s)[i := kblock q]
    \<and> program_ready img s k (kblock q) t s' \<and> tasks_ok (own(t := T)) (ts @ [t]) s'
    \<and> (\<forall>u \<in> set ts. \<forall>va. user_address u s' va = user_address u s va) \<and> same_files s4 s' \<and> fat_files_ok fs B es s'
    \<and> card (kused (kmem s')) = card (kused (kmem s4)) + 1027"
proof -
  note ptr = prepared_ptrs [OF prep size] and pr = prep [unfolded process_prepared_def]
  have keep: "keep_blocks (kused (kmem s)) (kmem s) (kmem s4)" using pr by blast
  have own: "own u \<subseteq> kused (kmem s)" if "u \<in> set ts" for u using tasks_okD(3) [OF tasks that] .
  have "tasks_ok own ts s4" by (rule tasks_keep [OF tasks keep_blocks_sub [OF keep own]]) (use pr in simp_all)
  from task_mapped [of own ts s4 "kblock q", unfolded ptr(1-3), OF this room] ptr obtain t T s5 m where
    t: "task_new (kblock q) s4 = ret (t, s5)" "t \<noteq> 0" "task_created (kblock q) ts s4 t T s5"
      "process_map_memory (kblock q) (with_process (\<lambda>p. p\<lparr>process_task := t\<rparr>) (kblock q) s5) =
        ret (0, with_process (\<lambda>p. p\<lparr>process_task := t\<rparr>) (kblock q) s5\<lparr>kmem := m\<rparr>)"
      "tasks_ok (own(t := T)) (ts @ [t]) (with_process (\<lambda>p. p\<lparr>process_task := t\<rparr>) (kblock q) s5\<lparr>kmem := m\<rparr>)"
      "kused m = kused (kmem s4) \<union> T" "keep_blocks (kused (kmem s4)) (kmem s4) m"
      "\<And>va. user_address t (with_process (\<lambda>p. p\<lparr>process_task := t\<rparr>) (kblock q) s5\<lparr>kmem := m\<rparr>) va =
         (if va - 0x3FB000 < 0x4000 then kblock b + (va - 0x3FB000)
          else if va - 0x400000 < program_pages (process_store s4 (kblock q)) then kblock p + (va - 0x400000) else va)" by auto
  let ?w = "with_process (\<lambda>p. p\<lparr>process_task := t\<rparr>) (kblock q) s5\<lparr>kmem := m\<rparr>"
  define s' where "s' = ?w\<lparr>processes := (processes ?w)[i := kblock q]\<rparr>"
  have sel: "kmem s' = m" "tasks s' = tasks s5" "process_store s' = (process_store s5)(kblock q := (process_store s5 (kblock q))\<lparr>process_task := t\<rparr>)"
    "processes s' = (processes s5)[i := kblock q]" by (simp_all add: s'_def)
  note cr = t(3) [unfolded task_created_def]
  have "task_frame s4 s5" using cr by blast
  note fr = task_frameD [OF this]
  have user: "user_address t s' va = (if va - 0x3FB000 < 0x4000 then kblock b + (va - 0x3FB000)
      else if va - 0x400000 < program_pages (process_store s4 (kblock q)) then kblock p + (va - 0x400000) else va)" for va
    using t(8) [of va] by (simp add: user_address_def s'_def)
  have k4: "keep_blocks (kused (kmem s4)) (kmem s4) (kmem s')" using t(7) by (simp add: sel(1))
  have "program_ready img s k (kblock q) t s'"
    unfolding program_ready_def using prepared_bytes [OF prep size k4 user] cr by (simp add: sel(2,3))
  moreover have "tasks_ok (own(t := T)) (ts @ [t]) s'" by (rule tasks_ok_same [OF t(5)]) (simp_all add: s'_def)
  moreover have "user_address u s' va = user_address u s va" if u: "u \<in> set ts" for u va
  proof -
    have "u \<noteq> t" using cr u by blast
    then have "page_directory (tasks s' u) = page_directory (tasks s u)" using cr pr sel(2) by simp
    moreover have "kused (kmem s) \<subseteq> kused (kmem s4)" using keep by (simp add: keep_blocks_def)
    then have "keep_blocks (own u) (kmem s) (kmem s')"
      using keep_blocks_trans [OF keep_blocks_sub [OF keep own [OF u]] keep_blocks_sub [OF k4]] own [OF u] by blast
    ultimately show ?thesis by (intro user_keep [OF tasks u])
  qed
  moreover have "same_files s5 s'" by (simp add: s'_def same_files_def)
  then have same: "same_files s4 s'" using fr(3) by (simp add: same_files_def)
  moreover have "fat_files_ok fs B es s'" by (rule fat_files_same [OF files same k4])
  moreover have "card (kused (kmem s')) = card (kused (kmem s4)) + 1027"
  proof -
    have "card T = 1027" "T \<inter> kused (kmem s4) = {}" using cr task_owns_card by blast+
    moreover from this have "card (kused (kmem s4) \<union> T) = card (kused (kmem s4)) + card T"
      by (intro card_Un_disjoint) (auto simp: taken_blocks_def intro: card_ge_0_finite)
    ultimately show ?thesis using t(6) by (simp add: sel(1))
  qed
  moreover have "processes s' = (processes s)[i := kblock q]" using sel(4) fr(2) pr by simp
  ultimately show ?thesis using t(1,2,4) s'_def by blast
qed

lemma free_slot:
  assumes "i < 12" "processes s ! i = 0" "\<forall>j < i. processes s ! j \<noteq> 0"
  shows "process_get_free_slot s = of_nat i" "process_get (of_nat i) s = 0" "\<not> (of_nat i :: u32) <s 0" "unat (of_nat i :: u32) = i"
proof -
  have "find (\<lambda>i. processes s ! i = 0) [0..<12] = Some i" using assms by (auto simp: find_Some_iff)
  then show "process_get_free_slot s = of_nat i" by (simp add: process_get_free_slot_def)
  show u: "unat (of_nat i :: u32) = i" using assms(1) by simp
  then show "process_get (of_nat i) s = 0" "\<not> (of_nat i :: u32) <s 0" using assms(1,2) by (simp_all add: process_get_def sless_small)
qed

text \<open>All of it.\<close>

lemma process_load_run:
  fixes s :: "'a kernel_state_scheme"
  assumes "files_ok fs (fat_ready B es) B fat_handle fat_own s" "tasks_ok own ts s" "ata_drive hw img"
    "file_named filename mode w (kmem s)" "named_item es w k" "in_first_cluster B s k"
    "least_free (open_files s) i" "i < 511" "off_heap stat 8" "slot < 12" "processes s ! slot = 0" "\<forall>j < slot. processes s ! j \<noteq> 0"
    "(card (kused (kmem s)) + 10) * kblocks (file_size s k) \<le> 25600"
    "(card (kused (kmem s)) + kblocks (file_size s k) + 6) * 4 \<le> 25600"
  shows "\<exists>q t T s'. process_load (drivers hw fs) mode stat filename pp s = ret (0, q, s')
    \<and> processes s' = (processes s)[slot := q] \<and> program_ready img s k q t s'
    \<and> tasks_ok (own(t := T)) (ts @ [t]) s' \<and> (\<forall>u \<in> set ts. \<forall>va. user_address u s' va = user_address u s va)
    \<and> files_ok fs (fat_ready B es) B fat_handle fat_own s' \<and> open_files s' = open_files s \<and> same_volume s s'
    \<and> card (kused (kmem s')) = card (kused (kmem s)) + kblocks (file_size s k) + 1036"
proof -
  let ?n = "kblocks (file_size s k)" and ?slot = "of_nat slot :: u32"
  note sl = free_slot [OF assms(10-12)]
  from process_prepare [OF assms(1,3-9,13,14), where slot = ?slot] obtain q m1 s2 b m3 p s4 where
    1: "kzalloc (kmem s) 5256 = (kblock q, m1)" "kblock q \<noteq> 0"
      "process_load_binary (drivers hw fs) mode stat filename (kblock q) (process_init (kblock q) (s\<lparr>kmem := m1\<rparr>)) = ret (0, s2)"
      "kzalloc (kmem s2) 16384 = (kblock b, m3)" "kblock b \<noteq> 0"
      "s4 = with_process (\<lambda>p. p\<lparr>process_stack := kblock b, process_id := ucast ?slot\<rparr>) (kblock q)
        (s2\<lparr>kmem := snd (strncpy m3 (kblock q + 2) filename 108)\<rparr>)"
      "files_ok fs (fat_ready B es) B fat_handle fat_own s4" "process_prepared img B k ?slot s q p b s4" by metis
  note prep = 1(8) [unfolded process_prepared_def]
  have size: "0 < unat (file_size s k)" using assms(6) by (simp add: in_first_cluster_def)
  have room: "card (kused (kmem s4)) + 1027 \<le> 25600" using prep assms(14) by simp
  from process_started [OF assms(2) 1(7,8) size room, of slot] obtain t T s5 s6 s' where
    t: "task_new (kblock q) s4 = ret (t, s5)" "t \<noteq> 0"
      "process_map_memory (kblock q) (with_process (\<lambda>p. p\<lparr>process_task := t\<rparr>) (kblock q) s5) = ret (0, s6)"
      "s' = s6\<lparr>processes := (processes s6)[slot := kblock q]\<rparr>" "processes s' = (processes s)[slot := kblock q]"
      "program_ready img s k (kblock q) t s'" "tasks_ok (own(t := T)) (ts @ [t]) s'"
      "\<forall>u \<in> set ts. \<forall>va. user_address u s' va = user_address u s va" "same_files s4 s'"
      "files_ok fs (fat_ready B es) B fat_handle fat_own s'" "card (kused (kmem s')) = card (kused (kmem s4)) + 1027" by metis
  have "process_load (drivers hw fs) mode stat filename pp s = ret (0, kblock q, s')"
    using load_for_slot_run [OF sl(2) 1(1,2,3,4,5,6) t(1-3)] sl(1,3,4) assms(10) by (simp add: process_load_def t(4))
  moreover have "open_files s' = open_files s" "same_volume s s'" "card (kused (kmem s')) = card (kused (kmem s)) + ?n + 1036"
    using same_files_slot(3) [OF t(9)] prep same_volume_trans [OF _ same_files_volume [OF t(9)]] t(11) by simp_all
  ultimately show ?thesis using t(5-8,10) by blast
qed

section \<open>The example volume with an empty process table\<close>

definition example_system :: kernel_state where
  "example_system = example_volume (fat_state.more ((no_tasks undefined)\<lparr>processes := replicate 12 0\<rparr> :: kernel_state))"

lemma example_file:
  "file_size (example_volume x) 0 = 600" "file_start (example_volume x) 0 = 6656" "in_first_cluster {0, 1, 2} (example_volume x) 0"
  "file_named 0x100000 0x100003 example_name (kmem (example_volume x))"
proof -
  let ?s = "example_volume x"
  have it: "example_mem (kblock 0 + of_nat j) = example_item ! j" if "j < 32" for j
    by (rule bytes_nth [OF example_item_at that])
  have e: "entry_at ?s 0 = kblock 0" by (simp add: entry_at_def example_sel)
  show size: "file_size ?s 0 = 600"
    using it [of 28] it [of 29] it [of 30] it [of 31]
    by (simp add: file_size_def e item_filesize_def load32_def example_sel example_item_def add.assoc)
  have cl: "file_cluster ?s 0 = 3"
    using it [of 20] it [of 21] it [of 26] it [of 27]
    by (simp add: file_cluster_def e fat16_get_first_cluster_def Fat16.load16_def example_sel example_item_def add.assoc)
  have "example_mem (kblock 1 + of_nat 13) = 2"
    unfolding example_mem_def by (subst mem_fill_in) simp_all
  then have spc: "sectors_per_cluster (kmem ?s) (kblock 1) = 2" by (simp add: sectors_per_cluster_def example_sel)
  show start: "file_start ?s 0 = 6656"
    by (simp add: file_start_def cl cluster_start_def example_sel) (use spc in \<open>simp add: example_sel\<close>)
  have "kblock 2 \<noteq> 0" by (rule kblock_nonzero) simp
  then have "cluster_stream ?s \<noteq> 0" by (simp add: example_sel)
  moreover have "fs_private (the_disk ?s) = kblock 1" "stream_disk (streams ?s (cluster_stream ?s)) = TheDisk" by (simp_all add: example_sel)
  ultimately show "in_first_cluster {0, 1, 2} ?s 0"
    unfolding in_first_cluster_def size start cl using spc by (intro conjI bexI [of _ 1]) simp_all
  show "file_named 0x100000 0x100003 example_name (kmem ?s)"
    unfolding file_named_def by (intro conjI exI [of _ example_path] example_call example_components)
qed

section \<open>Properties\<close>

text \<open>
  C4: Loading a program whose file lies within its first cluster, end to end: \<open>process_load\<close>
  finds a slot, reads the file and creates a task in whose address space the bytes of the file
  on the drive stand from 0x400000 on and sixteen zero kilobytes below 0x3FF000, with the
  registers a program starts with. The spaces of the other tasks, the open files and the volume
  are as before, and of the heap 1036 blocks more are in use besides those of the program itself.
  Of a longer file nothing is claimed: the driver looks its further clusters up in the wrong place.
\<close>

theorem process_load_program:
  fixes s :: "'a kernel_state_scheme"
  assumes "files_ok fs (fat_ready B es) B fat_handle fat_own s" "tasks_ok own ts s" "ata_drive hw img"
    "file_named filename mode w (kmem s)" "named_item es w k" "in_first_cluster B s k"
    "least_free (open_files s) i" "i < 511" "off_heap stat 8" "slot < 12" "processes s ! slot = 0" "\<forall>j < slot. processes s ! j \<noteq> 0"
    "(card (kused (kmem s)) + 10) * kblocks (file_size s k) \<le> 25600"
    "(card (kused (kmem s)) + kblocks (file_size s k) + 6) * 4 \<le> 25600"
  shows "\<exists>q t T s'. process_load (drivers hw fs) mode stat filename pp s = ret (0, q, s')
    \<and> processes s' = (processes s)[slot := q] \<and> program_ready img s k q t s'
    \<and> tasks_ok (own(t := T)) (ts @ [t]) s' \<and> (\<forall>u \<in> set ts. \<forall>va. user_address u s' va = user_address u s va)
    \<and> files_ok fs (fat_ready B es) B fat_handle fat_own s' \<and> open_files s' = open_files s \<and> same_volume s s'
    \<and> card (kused (kmem s')) = card (kused (kmem s)) + kblocks (file_size s k) + 1036"
  using process_load_run [OF assms] .

theorem process_load_program_witness:
  "\<exists>q t s'. process_load (drivers (ideal_drive of_nat) 0x180000) 0x100003 0x190000 0x100000 0 example_system = ret (0, q, s')
    \<and> processes s' ! 0 = q \<and> kmem s' (user_address t s' (0x400000 + of_nat 7)) = 6663"
proof -
  let ?s = example_system
  have ok: "fat_files_ok 0x180000 {0, 1, 2} example_entries ?s" unfolding example_system_def by (rule example_files_ok)
  have "fat_state.more ?s = fat_state.more ((no_tasks undefined)\<lparr>processes := replicate 12 0\<rparr> :: kernel_state)"
    by (simp add: example_system_def example_volume_def)
  note kf = kernel_fields [OF this]
  have procs: "processes ?s = replicate 12 0" using kf by simp
  have tasks: "tasks_ok (\<lambda>_. {}) [] ?s"
    using kf by (simp add: no_tasks_def tasks_ok_def task_list_def task_chain_def task_ends_def)
  note fl = example_file [where x = "fat_state.more ((no_tasks undefined)\<lparr>processes := replicate 12 0\<rparr> :: kernel_state)", folded example_system_def]
  have free: "least_free (open_files ?s) 0" "card (kused (kmem ?s)) = 3"
    unfolding example_system_def by (simp_all add: example_sel least_free_def example_used)
  obtain q t T s' where
    s': "process_load (drivers (ideal_drive of_nat) 0x180000) 0x100003 0x190000 0x100000 0 ?s = ret (0, q, s')"
      "processes s' = (replicate 12 0)[0 := q]" "program_ready of_nat ?s 0 q t s'"
    using process_load_program [OF ok tasks ideal_drive [of of_nat] fl(4) example_find fl(3) free(1), where stat = "0x190000" and slot = 0 and pp = 0]
      fl(1) free(2) procs off_heap_low [of "0x190000" 8] by (auto simp: kblocks_def)
  have "\<forall>j < 600. kmem s' (user_address t s' (0x400000 + of_nat j)) = of_nat (6656 + j)"
    using s'(3) by (simp add: program_ready_def fl)
  from this [rule_format, of 7] have "kmem s' (user_address t s' (0x400000 + of_nat 7)) = 6663" by simp
  then show ?thesis using s'(1,2) procs by auto
qed

end
