(* ===== verification/Mount.thy ===== *)
theory Mount
  imports FatCalls KRuns
begin

text \<open>
  Mounting: from the bytes of a FAT16 volume on the drive to the state the calls on files rely
  on. The drive's first four gigabytes are looked at as a memory, so that the header and the
  directory items are read off it by the same functions as in memory.
\<close>

section \<open>Volumes on a drive\<close>

definition drive_mem :: "(nat \<Rightarrow> u8) \<Rightarrow> mem" where
  "drive_mem img a = img (unat a)"

definition root_sector :: "(nat \<Rightarrow> u8) \<Rightarrow> nat" where
  "root_sector img = unat (fat_copies (drive_mem img) 0) * unat (sectors_per_fat (drive_mem img) 0)
     + unat (reserved_sectors (drive_mem img) 0)"

definition root_size :: "(nat \<Rightarrow> u8) \<Rightarrow> nat" where
  "root_size img = 32 * unat (root_dir_entries (drive_mem img) 0)"

text \<open>Where the items of the root directory stand, and where a cluster does.\<close>

definition volume_item :: "(nat \<Rightarrow> u8) \<Rightarrow> nat \<Rightarrow> addr" where
  "volume_item img k = of_nat (512 * root_sector img + 32 * k)"

definition volume_cluster :: "(nat \<Rightarrow> u8) \<Rightarrow> nat \<Rightarrow> nat" where
  "volume_cluster img c = 512 * (root_sector img + root_size img div 512 + (c - 2) * unat (sectors_per_cluster (drive_mem img) 0))"

text \<open>The size of the file of item \<open>k\<close>, its first cluster and its place on the drive.\<close>

definition volume_file_size :: "(nat \<Rightarrow> u8) \<Rightarrow> nat \<Rightarrow> u32" where
  "volume_file_size img k = item_filesize (drive_mem img) (volume_item img k)"

definition volume_file_cluster :: "(nat \<Rightarrow> u8) \<Rightarrow> nat \<Rightarrow> nat" where
  "volume_file_cluster img k = unat (fat16_get_first_cluster (drive_mem img) (volume_item img k))"

definition volume_file_start :: "(nat \<Rightarrow> u8) \<Rightarrow> nat \<Rightarrow> nat" where
  "volume_file_start img k = volume_cluster img (volume_file_cluster img k)"

text \<open>
  A FAT16 volume: the signature, and a root directory that starts with the items \<open>rs\<close>, 32 bytes
  each and whatever they are (files, directories, the label, parts of long names, deleted items),
  and ends with a zero. The texts of the items end within them, as they do where the high half of
  the first cluster is 0 (byte 20 of an item) or, for a part of a long name, the type (byte 12).
\<close>

definition fat16_volume :: "(nat \<Rightarrow> u8) \<Rightarrow> entries \<Rightarrow> bool" where
  "fat16_volume img rs \<longleftrightarrow> signature (drive_mem img) 0 = 0x29
     \<and> 0 < root_size img \<and> 32 * length rs \<le> root_size img \<and> 512 * root_sector img + root_size img + 32 < 2147483648
     \<and> (\<forall>k < length rs. bytes (drive_mem img) (volume_item img k) 32 = rs ! k \<and> rs ! k ! 0 \<noteq> 0 \<and> item_ended (rs ! k))
     \<and> drive_mem img (volume_item img (length rs)) = 0"

text \<open>
  The items the driver knows after mounting: it counts those that are not deleted, but then looks
  at as many from the start, deleted or not.
\<close>

definition known_items :: "entries \<Rightarrow> entries" where
  "known_items rs = take (length (filter (\<lambda>r. r ! 0 \<noteq> 0xE5) rs)) rs"

lemma length_known: "length (known_items rs) = length (filter (\<lambda>r. r ! 0 \<noteq> 0xE5) rs)"
  by (simp add: known_items_def)

lemma known_items_nth: "k < length (known_items rs) \<Longrightarrow> k < length rs \<and> known_items rs ! k = rs ! k"
  using length_filter_le [of "\<lambda>r. r ! 0 \<noteq> 0xE5" rs] unfolding known_items_def
  by (simp add: less_le_trans)

lemma known_items_all: "known_items rs = rs \<longleftrightarrow> (\<forall>r \<in> set rs. r ! 0 \<noteq> 0xE5)"
proof
  assume "known_items rs = rs"
  then have "length (filter (\<lambda>r. r ! 0 \<noteq> 0xE5) rs) = length rs" by (metis length_known)
  then show "\<forall>r \<in> set rs. r ! 0 \<noteq> 0xE5"
    using length_filter_less [of _ rs "\<lambda>r. r ! 0 \<noteq> 0xE5"] by (metis less_irrefl)
qed (simp add: known_items_def filter_id_conv [THEN iffD2])

lemma drive_mem_of_nat: "k < 4294967296 \<Longrightarrow> drive_mem img (of_nat k) = img k"
  by (simp add: drive_mem_def)

text \<open>Bytes that are the same at two places.\<close>

lemma item_moved:
  assumes "\<And>i. i < 32 \<Longrightarrow> m' (b + of_nat i) = m (a + of_nat i)"
  shows "bytes m' b 32 = bytes m a 32"
    "item_filesize m' b = item_filesize m a" "fat16_get_first_cluster m' b = fat16_get_first_cluster m a"
proof -
  show "bytes m' b 32 = bytes m a 32" using assms by (simp add: bytes_def)
  show "item_filesize m' b = item_filesize m a" "fat16_get_first_cluster m' b = fat16_get_first_cluster m a"
    using assms [of 20] assms [of 21] assms [of 26] assms [of 27] assms [of 28] assms [of 29] assms [of 30] assms [of 31]
    by (simp_all add: item_filesize_def fat16_get_first_cluster_def load32_def load16_def add.assoc)
qed

text \<open>The header, read to \<open>p\<close>.\<close>

lemma header_read:
  assumes "\<And>i. i < 62 \<Longrightarrow> m (p + of_nat i) = img i"
  shows "sectors_per_cluster m p = sectors_per_cluster (drive_mem img) 0" "reserved_sectors m p = reserved_sectors (drive_mem img) 0"
    "fat_copies m p = fat_copies (drive_mem img) 0" "root_dir_entries m p = root_dir_entries (drive_mem img) 0"
    "sectors_per_fat m p = sectors_per_fat (drive_mem img) 0" "signature m p = signature (drive_mem img) 0"
  using assms [of 13] assms [of 14] assms [of 15] assms [of 16] assms [of 17] assms [of 18] assms [of 22] assms [of 23] assms [of 38]
  by (simp_all add: sectors_per_cluster_def reserved_sectors_def fat_copies_def root_dir_entries_def sectors_per_fat_def
      signature_def load16_def drive_mem_def add.assoc)

lemma load16_bound: "unat (ucast (load16 m a) :: u32) < 65536"
proof -
  have "unat (load16 m a) < 65536" using unsigned_less [of "load16 m a", where ?'a = nat] by simp
  then show ?thesis by (simp add: unsigned_ucast_eq take_bit_nat_eq_self)
qed

lemma header_words:
  fixes m p
  defines "R \<equiv> fat_copies m p * sectors_per_fat m p + reserved_sectors m p"
  shows "unat R = unat (fat_copies m p) * unat (sectors_per_fat m p) + unat (reserved_sectors m p)"
    "unat (root_dir_entries m p * 32) = 32 * unat (root_dir_entries m p)" "unat (root_dir_entries m p) < 65536"
proof -
  have "unat (fat_copies m p) \<le> 255"
    using unsigned_less [of "m (p + 16)", where ?'a = nat] by (simp add: fat_copies_def unsigned_ucast_eq)
  moreover have "unat (sectors_per_fat m p) \<le> 65535" "unat (reserved_sectors m p) \<le> 65535"
    using load16_bound [of m "p + 22"] load16_bound [of m "p + 14"] by (simp_all add: sectors_per_fat_def reserved_sectors_def)
  moreover from calculation have "unat (fat_copies m p) * unat (sectors_per_fat m p) \<le> 255 * 65535" by (intro mult_le_mono)
  ultimately show "unat R = unat (fat_copies m p) * unat (sectors_per_fat m p) + unat (reserved_sectors m p)"
    by (simp add: R_def unat_word_ariths)
  show e: "unat (root_dir_entries m p) < 65536" using load16_bound [of m "p + 17"] by (simp add: root_dir_entries_def)
  then show "unat (root_dir_entries m p * 32) = 32 * unat (root_dir_entries m p)" by (simp add: unat_word_ariths)
qed

section \<open>The steps of mounting\<close>

lemma new_stream:
  assumes "card (kused (kmem s)) < 25600"
  shows "\<exists>b m. diskstreamer_new 0 s = ret (kblock b, s\<lparr>kmem := m, streams := (streams s)(kblock b := \<lparr>pos = 0, stream_disk = TheDisk\<rparr>)\<rparr>)
    \<and> b < 25600 \<and> b \<notin> kused (kmem s) \<and> kused m = insert b (kused (kmem s)) \<and> kext (kmem s) m
    \<and> card (kused m) = Suc (card (kused (kmem s))) \<and> kblock b \<noteq> 0"
proof -
  obtain b m where "kzalloc (kmem s) 8 = (kblock b, m)" "b < 25600" "b \<notin> kused (kmem s)" "kused m = insert b (kused (kmem s))"
    "kext (kmem s) m" "card (kused m) = Suc (card (kused (kmem s)))" "kblock b \<noteq> 0"
    using kzalloc_new [OF assms, of 8] by auto
  then show ?thesis by (intro exI [of _ b] exI [of _ m]) (simp add: diskstreamer_new_def disk_get_def)
qed

text \<open>The private data in block \<open>p\<close>, which was free in \<open>m0\<close>, gets three streams.\<close>

lemma init_private_run:
  fixes s :: "'a fat_state_scheme"
  assumes "kext m0 (kmem s)" "p < 25600" "p \<notin> kused m0" "p \<in> kused (kmem s)" "card (kused (kmem s)) + 3 \<le> 25600"
    "disk_id (the_disk s) = 0"
  shows "\<exists>a b c m. fat16_init_private (kblock p) s = ret (s\<lparr>kmem := m,
      streams := (streams s)(kblock a := \<lparr>pos = 0, stream_disk = TheDisk\<rparr>, kblock b := \<lparr>pos = 0, stream_disk = TheDisk\<rparr>,
        kblock c := \<lparr>pos = 0, stream_disk = TheDisk\<rparr>),
      fat_privates := (fat_privates s)(kblock p := \<lparr>cluster_read_stream = kblock a, fat_read_stream = kblock b, directory_stream = kblock c\<rparr>),
      fat_directories := (fat_directories s)(root_directory (kblock p) :=
        \<lparr>dir_item = 0, dir_total = 0, dir_sector_pos = 0, dir_ending_sector_pos = 0\<rparr>)\<rparr>)
    \<and> kext m0 m \<and> kused m = {a, b, c} \<union> kused (kmem s) \<and> {a, b, c} \<inter> kused (kmem s) = {} \<and> distinct [a, b, c]
    \<and> card (kused m) = card (kused (kmem s)) + 3 \<and> {a, b, c} \<subseteq> {..<25600}"
proof -
  have nz: "kblock p \<noteq> 0" using assms(2) by (rule kblock_nonzero)
  let ?s0 = "s\<lparr>kmem := snd (memset (kmem s) (kblock p) 0 92),
    fat_privates := (fat_privates s)(kblock p := \<lparr>cluster_read_stream = 0, fat_read_stream = 0, directory_stream = 0\<rparr>),
    fat_directories := (fat_directories s)(root_directory (kblock p) :=
      \<lparr>dir_item = 0, dir_total = 0, dir_sector_pos = 0, dir_ending_sector_pos = 0\<rparr>)\<rparr>"
  have u0: "kused (kmem ?s0) = kused (kmem s)" using assms(2) by (simp add: memset_fill kused_fill)
  have k0: "kext m0 (kmem ?s0)" using kext_fill [OF assms(1-3)] by (simp add: memset_fill)
  have "card (kused (kmem ?s0)) < 25600" using assms(5) u0 by simp
  from new_stream [OF this] obtain a m1 where
    1: "diskstreamer_new 0 ?s0 = ret (kblock a, ?s0\<lparr>kmem := m1, streams := (streams ?s0)(kblock a := \<lparr>pos = 0, stream_disk = TheDisk\<rparr>)\<rparr>)"
      "a < 25600" "a \<notin> kused (kmem s)" "kused m1 = insert a (kused (kmem s))" "kext (kmem ?s0) m1" "card (kused m1) = card (kused (kmem s)) + 1"
    unfolding u0 by auto
  let ?s1 = "?s0\<lparr>kmem := m1, streams := (streams ?s0)(kblock a := \<lparr>pos = 0, stream_disk = TheDisk\<rparr>),
    fat_privates := (fat_privates ?s0)(kblock p := (fat_privates ?s0 (kblock p))\<lparr>cluster_read_stream := kblock a\<rparr>)\<rparr>"
  have "card (kused (kmem ?s1)) < 25600" using assms(5) 1(6) by simp
  from new_stream [OF this] obtain b m2 where
    2: "diskstreamer_new 0 ?s1 = ret (kblock b, ?s1\<lparr>kmem := m2, streams := (streams ?s1)(kblock b := \<lparr>pos = 0, stream_disk = TheDisk\<rparr>)\<rparr>)"
      "b < 25600" "b \<notin> kused m1" "kused m2 = insert b (kused m1)" "kext m1 m2" "card (kused m2) = card (kused (kmem s)) + 2"
    using 1(6) by auto
  let ?s2 = "?s1\<lparr>kmem := m2, streams := (streams ?s1)(kblock b := \<lparr>pos = 0, stream_disk = TheDisk\<rparr>),
    fat_privates := (fat_privates ?s1)(kblock p := (fat_privates ?s1 (kblock p))\<lparr>fat_read_stream := kblock b\<rparr>)\<rparr>"
  have "card (kused (kmem ?s2)) < 25600" using assms(5) 2(6) by simp
  from new_stream [OF this] obtain c m3 where
    3: "diskstreamer_new 0 ?s2 = ret (kblock c, ?s2\<lparr>kmem := m3, streams := (streams ?s2)(kblock c := \<lparr>pos = 0, stream_disk = TheDisk\<rparr>)\<rparr>)"
      "c < 25600" "c \<notin> kused m2" "kused m3 = insert c (kused m2)" "kext m2 m3" "card (kused m3) = card (kused (kmem s)) + 3"
    using 2(6) by auto
  have "fat16_init_private (kblock p) s = ret (s\<lparr>kmem := m3,
      streams := (streams s)(kblock a := \<lparr>pos = 0, stream_disk = TheDisk\<rparr>, kblock b := \<lparr>pos = 0, stream_disk = TheDisk\<rparr>,
        kblock c := \<lparr>pos = 0, stream_disk = TheDisk\<rparr>),
      fat_privates := (fat_privates s)(kblock p := \<lparr>cluster_read_stream = kblock a, fat_read_stream = kblock b, directory_stream = kblock c\<rparr>),
      fat_directories := (fat_directories s)(root_directory (kblock p) :=
        \<lparr>dir_item = 0, dir_total = 0, dir_sector_pos = 0, dir_ending_sector_pos = 0\<rparr>)\<rparr>)"
    unfolding fat16_init_private_def using nz 1(1) 2(1) 3(1) assms(6) by (simp add: Let_def)
  moreover have "kext m0 m3" using k0 1(5) 2(5) 3(5) by (blast intro: kext_trans)
  moreover have "kused m3 = {a, b, c} \<union> kused (kmem s)" using 1(4) 2(4) 3(4) by auto
  moreover have "{a, b, c} \<inter> kused (kmem s) = {}" "distinct [a, b, c]" using 1(3,4) 2(3,4) 3(3) by auto
  ultimately show ?thesis using 1(2) 2(2) 3(2,6) by blast
qed

text \<open>Counting the items: an item never crosses the end of a sector.\<close>

lemma read_local_item:
  assumes "ata_drive hw img" "stream \<noteq> 0" "stream_disk (streams s stream) = TheDisk"
    "unat (pos (streams s stream)) = p" "p mod 32 = 0" "p + 32 < 2147483648"
  shows "\<exists>log item. diskstreamer_read_local hw stream 32 s = ret (0, item,
      s\<lparr>io_log := log, streams := (streams s)(stream := (streams s stream)\<lparr>pos := pos (streams s stream) + 32\<rparr>)\<rparr>)
    \<and> item 0 = img p"
proof -
  obtain q where q: "p = 32 * q" using assms(5) by (auto elim: dvdE)
  have "p mod 512 = 32 * (q mod 16)" using mult_mod_right [of 32 q 16] q by simp
  then have al: "p mod 512 + 32 \<le> 512" using mod_less_divisor [of 16 q] by linarith
  let ?s = "s\<lparr>kmem := \<lambda>_. 0\<rparr>"
  have "\<exists>log. diskstreamer_read hw stream 0 32 ?s = ret (0, ?s\<lparr>io_log := log,
      kmem := mem_fill (\<lambda>_. 0) 0 32 (\<lambda>i. img (p + i)),
      streams := (streams s)(stream := (streams s stream)\<lparr>pos := pos (streams s stream) + 32\<rparr>)\<rparr>)"
    using stream_read [OF assms(1,2), of ?s 32 0] assms(3,4,6) al by simp
  then obtain log where "diskstreamer_read hw stream 0 32 ?s = ret (0, ?s\<lparr>io_log := log,
      kmem := mem_fill (\<lambda>_. 0) 0 32 (\<lambda>i. img (p + i)),
      streams := (streams s)(stream := (streams s stream)\<lparr>pos := pos (streams s stream) + 32\<rparr>)\<rparr>)" by blast
  moreover have "mem_fill (\<lambda>_. 0) 0 32 (\<lambda>i. img (p + i)) 0 = img p"
    using mem_fill_in [of 0 32 "\<lambda>_. 0" 0 "\<lambda>i. img (p + i)"] by simp
  ultimately show ?thesis
    by (intro exI [of _ log] exI [of _ "mem_fill (\<lambda>_. 0) 0 32 (\<lambda>i. img (p + i))"]) (simp add: diskstreamer_read_local_def)
qed

lemma count_items:
  assumes "ata_drive hw img" "stream \<noteq> 0" "stream_disk (streams s stream) = TheDisk"
    "unat (pos (streams s stream)) = p" "p mod 32 = 0" "p + 32 * length cs + 32 < 2147483648"
    "\<And>k. k < length cs \<Longrightarrow> img (p + 32 * k) = cs ! k" "0 \<notin> set cs" "img (p + 32 * length cs) = 0"
  shows "\<exists>log q. count_items_loop hw stream i s = ret (i + of_nat (length (filter (\<lambda>c. c \<noteq> 0xE5) cs)),
    s\<lparr>io_log := log, streams := (streams s)(stream := (streams s stream)\<lparr>pos := q\<rparr>)\<rparr>)"
  using assms(3-)
proof (induction cs arbitrary: i p s)
  case Nil
  then obtain log item where r: "diskstreamer_read_local hw stream 32 s = ret (0, item,
      s\<lparr>io_log := log, streams := (streams s)(stream := (streams s stream)\<lparr>pos := pos (streams s stream) + 32\<rparr>)\<rparr>)"
    "item 0 = img p" using read_local_item [OF assms(1,2)] by fastforce
  have "item 0 = 0" using r(2) Nil by simp
  then show ?case by (subst count_items_loop.simps) (use r(1) in auto)
next
  case (Cons c cs)
  then obtain log item where r: "diskstreamer_read_local hw stream 32 s = ret (0, item,
      s\<lparr>io_log := log, streams := (streams s)(stream := (streams s stream)\<lparr>pos := pos (streams s stream) + 32\<rparr>)\<rparr>)"
    "item 0 = img p" using read_local_item [OF assms(1,2), of s p] by fastforce
  define s1 where "s1 = s\<lparr>io_log := log, streams := (streams s)(stream := (streams s stream)\<lparr>pos := pos (streams s stream) + 32\<rparr>)\<rparr>"
  define i1 where "i1 = (if c = 0xE5 then i else i + 1)"
  have "item 0 = c" "c \<noteq> 0" using Cons.prems(5) [of 0] Cons.prems(6) r(2) by simp_all
  then have step: "count_items_loop hw stream i s = count_items_loop hw stream i1 s1"
    by (subst count_items_loop.simps) (simp add: r(1) s1_def i1_def)
  have "unat (pos (streams s1 stream)) = p + 32" using Cons.prems(2,4) by (simp add: s1_def unat_word_ariths)
  moreover have "(p + 32) mod 32 = 0" using Cons.prems(3) by simp
  moreover have "img (p + 32 + 32 * k) = cs ! k" if "k < length cs" for k
    using Cons.prems(5) [of "Suc k"] that by (simp add: algebra_simps)
  moreover have "img (p + 32 + 32 * length cs) = 0" "p + 32 + 32 * length cs + 32 < 2147483648"
    using Cons.prems(4,7) by (simp_all add: algebra_simps)
  moreover have "stream_disk (streams s1 stream) = TheDisk" "0 \<notin> set cs" using Cons.prems(1,6) by (simp_all add: s1_def)
  ultimately obtain log' q where "count_items_loop hw stream i1 s1 = ret (i1 + of_nat (length (filter (\<lambda>c. c \<noteq> 0xE5) cs)),
      s1\<lparr>io_log := log', streams := (streams s1)(stream := (streams s1 stream)\<lparr>pos := q\<rparr>)\<rparr>)"
    using Cons.IH [of s1 "p + 32" i1] by metis
  then show ?case unfolding step
    by (intro exI [of _ log'] exI [of _ q]) (simp add: s1_def i1_def fun_upd_def algebra_simps cong: if_cong)
qed

section \<open>Mounting\<close>

text \<open>The root directory, counted and read to a run of blocks; \<open>m0\<close> is the memory before mounting.\<close>

lemma root_directory_run:
  fixes s :: "'a fat_state_scheme"
  assumes drive: "ata_drive hw img" and vol: "fat16_volume img rs" and hdr: "\<And>i. i < 62 \<Longrightarrow> kmem s (fp + of_nat i) = img i"
    and dsk: "sector_size (the_disk s) = 512" "fs_private (the_disk s) = fp"
    and c: "directory_stream (fat_privates s fp) = c" "c \<noteq> 0" "stream_disk (streams s c) = TheDisk"
    and room: "(card (kused (kmem s)) + 1) * kblocks (of_nat (root_size img)) \<le> 25600"
  shows "\<exists>r m log q m1. fat16_get_root_directory hw fp d s = ret (0, s\<lparr>kmem := m, io_log := log,
      streams := (streams s)(c := (streams s c)\<lparr>pos := q\<rparr>),
      fat_directories := (fat_directories s)(d := \<lparr>dir_item = kblock r, dir_total = of_nat (length (known_items rs)),
        dir_sector_pos = of_nat (root_sector img), dir_ending_sector_pos = of_nat (root_sector img + root_size img div 512)\<rparr>)\<rparr>)
    \<and> run_taken (kmem s) (of_nat (root_size img)) r m1
    \<and> m = mem_fill m1 (kblock r) (root_size img) (\<lambda>i. img (512 * root_sector img + i))"
proof -
  note h = header_read [of "kmem s" fp img, OF hdr]
  note w = header_words [of "drive_mem img" 0]
  note v = vol [unfolded fat16_volume_def]
  let ?R = "root_sector img" and ?N = "root_size img"
  have R: "fat_copies (kmem s) fp * sectors_per_fat (kmem s) fp + reserved_sectors (kmem s) fp = of_nat ?R"
    using w(1) by (simp add: h root_sector_def)
  have N: "root_dir_entries (kmem s) fp * 32 = of_nat ?N" using w(2) by (simp add: h root_size_def mult.commute)
  have lt: "512 * ?R + ?N + 32 < 2147483648" "0 < ?N" using v by blast+
  have uN: "unat (of_nat ?N :: u32) = ?N" using lt(1) by simp
  have uP: "unat (of_nat ?R * 512 :: u32) = 512 * ?R" using lt(1) by (simp add: unat_word_ariths)
  have div: "int_div (of_nat ?N) 512 = ret (of_nat (?N div 512))"
  proof -
    have "sint (of_nat ?N :: u32) = int ?N" using lt(1) uN by (simp add: sint_small)
    then show ?thesis using int_sdiv_smod(1) [of ?N] by (simp add: int_div_def)
  qed
  let ?s1 = "s\<lparr>streams := (streams s)(c := (streams s c)\<lparr>pos := of_nat ?R * 512\<rparr>)\<rparr>"
  have item: "drive_mem img (volume_item img k) = img (512 * ?R + 32 * k)" if "k \<le> length rs" for k
    unfolding volume_item_def using that lt v by (intro drive_mem_of_nat) linarith
  let ?cs = "map (\<lambda>r. r ! 0) rs"
  have "img (512 * ?R + 32 * k) = ?cs ! k" if "k < length ?cs" for k
  proof -
    have "bytes (drive_mem img) (volume_item img k) 32 = rs ! k" using v that by simp
    from bytes_nth [OF this, of 0] show ?thesis using item [of k] that by simp
  qed
  moreover have "0 \<notin> set ?cs" using v by (auto simp: in_set_conv_nth)
  moreover have "img (512 * ?R + 32 * length ?cs) = 0" using v item [of "length rs"] by simp
  moreover have "(512 * ?R) mod 32 = 0" using mod_mult_self1_is_0 [of 32 "16 * ?R"] by simp
  moreover have "length (filter (\<lambda>c. c \<noteq> 0xE5) ?cs) = length (known_items rs)"
    by (simp add: length_known filter_map comp_def)
  ultimately obtain log q where cnt: "count_items_loop hw c 0 ?s1 = ret (of_nat (length (known_items rs)),
      ?s1\<lparr>io_log := log, streams := (streams ?s1)(c := (streams ?s1 c)\<lparr>pos := q\<rparr>)\<rparr>)"
    using count_items [OF drive c(2), of ?s1 "512 * ?R" ?cs 0] c(3) uP lt v by auto
  then have total: "fat16_get_total_items_for_directory hw (of_nat ?R) s = ret (of_nat (length (known_items rs)),
      s\<lparr>io_log := log, streams := (streams s)(c := (streams s c)\<lparr>pos := q\<rparr>)\<rparr>)"
    unfolding fat16_get_total_items_for_directory_def using c dsk by (simp add: diskstreamer_seek_def)
  have "unat (of_nat ?N :: u32) \<le> 104857600" using w(3) uN by (simp add: root_size_def)
  then obtain r m1 where r: "kzalloc (kmem s) (of_nat ?N) = (kblock r, m1)" "run_taken (kmem s) (of_nat ?N) r m1"
    using kzalloc_run [of "of_nat ?N" "kmem s"] room lt(2) uN by auto
  have nz: "kblock r \<noteq> 0" using r(2) by (simp add: run_taken_def)
  let ?s2 = "s\<lparr>io_log := log, kmem := m1, streams := (streams s)(c := (streams s c)\<lparr>pos := of_nat ?R * 512\<rparr>)\<rparr>"
  have "unat (pos (streams ?s2 c)) mod 512 = 0" using uP by simp
  then obtain log' where rd: "diskstreamer_read hw c (kblock r) (of_nat ?N) ?s2 = ret (0, ?s2\<lparr>io_log := log',
        kmem := mem_fill m1 (kblock r) ?N (\<lambda>i. img (512 * ?R + i)),
        streams := (streams ?s2)(c := (streams ?s2 c)\<lparr>pos := pos (streams ?s2 c) + of_nat ?N\<rparr>)\<rparr>)"
    using stream_read [OF drive c(2), of ?s2 "of_nat ?N" "kblock r"] c(3) uN uP lt(1) by auto
  have "fat16_get_root_directory hw fp d s = ret (0, s\<lparr>kmem := mem_fill m1 (kblock r) ?N (\<lambda>i. img (512 * ?R + i)), io_log := log',
      streams := (streams s)(c := (streams s c)\<lparr>pos := of_nat ?R * 512 + of_nat ?N\<rparr>),
      fat_directories := (fat_directories s)(d := \<lparr>dir_item = kblock r, dir_total = of_nat (length (known_items rs)),
        dir_sector_pos = of_nat ?R, dir_ending_sector_pos = of_nat (?R + ?N div 512)\<rparr>)\<rparr>)"
    unfolding fat16_get_root_directory_def Let_def using dsk c nz r(1) total div rd
    by (simp add: R N diskstreamer_seek_def fat16_sector_to_absolute_def)
  with r(2) show ?thesis by blast
qed

definition volume_mounted :: "(nat \<Rightarrow> u8) \<Rightarrow> nat set \<Rightarrow> entries \<Rightarrow> 'a fat_state_scheme \<Rightarrow> bool" where
  "volume_mounted img B es s \<longleftrightarrow> fat_ready B es s
     \<and> (\<exists>p \<in> B. fs_private (the_disk s) = kblock p \<and> sectors_per_cluster (kmem s) (kblock p) = sectors_per_cluster (drive_mem img) 0)
     \<and> cluster_stream s \<noteq> 0 \<and> stream_disk (streams s (cluster_stream s)) = TheDisk
     \<and> (\<forall>k < length es. file_size s k = volume_file_size img k \<and> file_cluster s k = volume_file_cluster img k
          \<and> file_start s k = volume_file_start img k)"

lemma run_stable:
  assumes "{b..<b + k} \<subseteq> kused m" "n \<le> 4096 * k"
  shows "kstable_block m (kblock b) n"
  unfolding kstable_block_def
proof (intro allI impI)
  fix i assume "i < n"
  then have "b + i div 4096 \<in> kused m" using assms by (auto simp: div_less_iff_less_mult mult.commute)
  then show "kstable m (kblock b + of_nat i)"
    using kblock_stable_block [of "b + i div 4096" m 4096] unfolding kblock_run_byte [of b i] kstable_block_def by simp
qed

text \<open>The state once the header is in block \<open>p\<close> and the root directory in the run at \<open>r\<close>.\<close>

lemma volume_mountedI:
  fixes s :: "'a fat_state_scheme"
  assumes vol: "fat16_volume img rs"
    and disk: "fs_private (the_disk s) = kblock p" "sector_size (the_disk s) = 512"
    and hdr: "\<And>i. i < 62 \<Longrightarrow> kmem s (kblock p + of_nat i) = img i"
    and root: "root_dir s = \<lparr>dir_item = kblock r, dir_total = of_nat (length (known_items rs)), dir_sector_pos = start,
      dir_ending_sector_pos = of_nat (root_sector img + root_size img div 512)\<rparr>"
    and items: "\<And>i. i < root_size img \<Longrightarrow> kmem s (kblock r + of_nat i) = img (512 * root_sector img + i)"
    and run: "root_size img \<le> 4096 * k" "{r..<r + k} \<subseteq> B"
    and B: "p \<in> B" "B \<subseteq> kused (kmem s)"
    and st: "cluster_stream s \<noteq> 0" "stream_disk (streams s (cluster_stream s)) = TheDisk"
  shows "volume_mounted img B (known_items rs) s"
proof -
  note v = vol [unfolded fat16_volume_def]
  let ?es = "known_items rs"
  have all: "length ?es \<le> length rs" by (simp add: length_known)
  have lt: "512 * root_sector img + root_size img + 32 < 2147483648" "32 * length rs \<le> root_size img" using v by blast+
  then have lt': "32 * length ?es \<le> root_size img" using all by linarith
  have it: "kmem s (kblock r + of_nat (32 * k) + of_nat i) = drive_mem img (volume_item img k + of_nat i)" if "k < length ?es" "i < 32" for k i
  proof -
    have "kmem s (kblock r + of_nat (32 * k + i)) = img (512 * root_sector img + (32 * k + i))"
      using that lt' by (intro items) linarith
    also have "\<dots> = drive_mem img (of_nat (512 * root_sector img + (32 * k + i)))"
      using that lt lt' by (subst drive_mem_of_nat) simp_all
    finally show ?thesis by (simp add: volume_item_def add.assoc)
  qed
  note mv = item_moved [where m' = "kmem s" and m = "drive_mem img", OF it]
  have st32: "kstable_block (kmem s) (kblock r) (32 * length ?es)"
    using run B lt' by (intro run_stable [of r k]) auto
  have "bytes (kmem s) (kblock r + of_nat (32 * k)) 32 = ?es ! k \<and> item_ended (?es ! k)" if k: "k < length ?es" for k
  proof -
    note kn = known_items_nth [OF k]
    then have "bytes (drive_mem img) (volume_item img k) 32 = rs ! k" "item_ended (rs ! k)" using v by blast+
    with mv(1) [OF k] kn show ?thesis by simp
  qed
  with st32 have "dir_list (kmem s) (kblock r) ?es" by (simp add: dir_list_def)
  moreover have "sint (of_nat (length ?es) :: u32) = int (length ?es)" using lt lt' by (subst sint_small) simp_all
  ultimately have "mounted s ?es" using root by (simp add: mounted_def)
  moreover have "\<exists>b \<in> B. \<exists>j < 4096. kblock r + of_nat i = kblock b + of_nat j" if i: "i < 32 * length (known_items rs)" for i
  proof -
    have "i < 4096 * k" using i lt' run(1) by linarith
    then have "r + i div 4096 \<in> B" using run(2) by (auto simp: div_less_iff_less_mult mult.commute)
    then show ?thesis unfolding kblock_run_byte [of r i] by (intro bexI [of _ "r + i div 4096"] exI [of _ "i mod 4096"]) simp_all
  qed
  ultimately have "fat_ready B ?es s" using B disk root by (simp add: fat_ready_def)
  moreover note h = header_read(1) [of "kmem s" "kblock p" img, OF hdr]
  have e: "entry_at s k = kblock r + of_nat (32 * k)" for k by (simp add: entry_at_def root)
  have fl: "file_size s k = volume_file_size img k" "file_cluster s k = volume_file_cluster img k" if "k < length (known_items rs)" for k
    using mv(2,3) [OF that] by (simp_all add: file_size_def file_cluster_def volume_file_size_def volume_file_cluster_def e)
  have "root_sector img + root_size img div 512 < 4294967296" using lt(1) by linarith
  then have "unat (of_nat (root_sector img + root_size img div 512) :: u32) = root_sector img + root_size img div 512"
    by (simp del: of_nat_add)
  then have "cluster_start s c = volume_cluster img c" for c
    using h by (simp add: cluster_start_def volume_cluster_def disk(1) root [unfolded disk(1)])
  then have "file_start s k = volume_file_start img k" if "k < length (known_items rs)" for k
    using fl(2) [OF that] by (simp add: file_start_def volume_file_start_def)
  ultimately show ?thesis using h disk(1) B(1) st fl unfolding volume_mounted_def by blast
qed

text \<open>
  \<open>fat16_resolve\<close> up to the signature: the private data with the header in block \<open>p\<close>, the three
  streams in \<open>a\<close>, \<open>b\<close> and \<open>c\<close>, and the stream for the header in \<open>d\<close>.
\<close>

definition header_loaded :: "(nat \<Rightarrow> u8) \<Rightarrow> addr \<Rightarrow> 'a fat_state_scheme \<Rightarrow> nat \<Rightarrow> nat \<Rightarrow> nat \<Rightarrow> nat \<Rightarrow> nat
    \<Rightarrow> 'a fat_state_scheme \<Rightarrow> bool" where
  "header_loaded img fs s p a b c d s4 \<longleftrightarrow> distinct [p, a, b, c, d] \<and> {p, a, b, c, d} \<subseteq> {..<25600} \<and> {p, a, b, c, d} \<inter> kused (kmem s) = {}
     \<and> kused (kmem s4) = kused (kmem s) \<union> {p, a, b, c, d} \<and> card (kused (kmem s4)) = card (kused (kmem s)) + 5 \<and> kext (kmem s) (kmem s4)
     \<and> (\<forall>i < 62. kmem s4 (kblock p + of_nat i) = img i)
     \<and> s4 = s\<lparr>kmem := kmem s4, io_log := io_log s4, the_disk := (the_disk s)\<lparr>filesystem := fs, fs_private := kblock p\<rparr>,
         streams := (streams s)(kblock a := \<lparr>pos = 0, stream_disk = TheDisk\<rparr>, kblock b := \<lparr>pos = 0, stream_disk = TheDisk\<rparr>,
           kblock c := \<lparr>pos = 0, stream_disk = TheDisk\<rparr>, kblock d := \<lparr>pos = 62, stream_disk = TheDisk\<rparr>),
         fat_privates := (fat_privates s)(kblock p :=
           \<lparr>cluster_read_stream = kblock a, fat_read_stream = kblock b, directory_stream = kblock c\<rparr>),
         fat_directories := (fat_directories s)(root_directory (kblock p) :=
           \<lparr>dir_item = 0, dir_total = 0, dir_sector_pos = 0, dir_ending_sector_pos = 0\<rparr>)\<rparr>"

text \<open>What follows the label \<^verbatim>\<open>out\<close>.\<close>

definition mount_end :: "nat \<Rightarrow> nat \<Rightarrow> u32 \<Rightarrow> 'a fat_state_scheme \<Rightarrow> 'a fat_state_scheme" where
  "mount_end p d r s = (let m = kfree (kmem s) (kblock d) in
     if r <s 0 then s\<lparr>kmem := kfree m (kblock p), the_disk := (the_disk s)\<lparr>fs_private := 0\<rparr>\<rparr> else s\<lparr>kmem := m\<rparr>)"

lemma resolve_start:
  fixes s :: "'a fat_state_scheme"
  assumes drive: "ata_drive hw img" and dsk: "disk_id (the_disk s) = 0" and card: "card (kused (kmem s)) + 5 \<le> 25600"
  shows "\<exists>p a b c d s3 s4. header_loaded img fs s p a b c d s4
    \<and> diskstreamer_read hw (kblock d) (kblock p) 62 s3 = ret (0, s4)
    \<and> (\<forall>r s5. fat16_mount hw (kblock p) (kblock d) s3 = ret (r, s5) \<longrightarrow> fat16_resolve hw fs TheDisk s = ret (r, mount_end p d r s5))"
proof -
  have "card (kused (kmem s)) < 25600" using card by simp
  from kzalloc_new [OF this, of 92] obtain p m1 where
    1: "kzalloc (kmem s) 92 = (kblock p, m1)" "p < 25600" "p \<notin> kused (kmem s)" "kused m1 = insert p (kused (kmem s))"
      "kext (kmem s) m1" "card (kused m1) = Suc (card (kused (kmem s)))" by auto
  let ?s1 = "s\<lparr>kmem := m1\<rparr>"
  have "card (kused (kmem ?s1)) + 3 \<le> 25600" using card 1(6) by simp
  from init_private_run [of "kmem s" ?s1 p, OF _ 1(2,3) _ this] 1(4,5) dsk(1) obtain a b c m2 where
    2: "fat16_init_private (kblock p) ?s1 = ret (s\<lparr>kmem := m2,
      streams := (streams s)(kblock a := \<lparr>pos = 0, stream_disk = TheDisk\<rparr>, kblock b := \<lparr>pos = 0, stream_disk = TheDisk\<rparr>,
        kblock c := \<lparr>pos = 0, stream_disk = TheDisk\<rparr>),
      fat_privates := (fat_privates s)(kblock p := \<lparr>cluster_read_stream = kblock a, fat_read_stream = kblock b, directory_stream = kblock c\<rparr>),
      fat_directories := (fat_directories s)(root_directory (kblock p) :=
        \<lparr>dir_item = 0, dir_total = 0, dir_sector_pos = 0, dir_ending_sector_pos = 0\<rparr>)\<rparr>)"
      "kext (kmem s) m2" "kused m2 = {a, b, c} \<union> kused m1" "{a, b, c} \<inter> kused m1 = {}" "distinct [a, b, c]"
      "card (kused m2) = card (kused m1) + 3" "{a, b, c} \<subseteq> {..<25600}" by auto
  define s2 where "s2 = s\<lparr>kmem := m2,
      streams := (streams s)(kblock a := \<lparr>pos = 0, stream_disk = TheDisk\<rparr>, kblock b := \<lparr>pos = 0, stream_disk = TheDisk\<rparr>,
        kblock c := \<lparr>pos = 0, stream_disk = TheDisk\<rparr>),
      fat_privates := (fat_privates s)(kblock p := \<lparr>cluster_read_stream = kblock a, fat_read_stream = kblock b, directory_stream = kblock c\<rparr>),
      fat_directories := (fat_directories s)(root_directory (kblock p) :=
        \<lparr>dir_item = 0, dir_total = 0, dir_sector_pos = 0, dir_ending_sector_pos = 0\<rparr>),
      the_disk := (the_disk s)\<lparr>fs_private := kblock p, filesystem := fs\<rparr>\<rparr>"
  have "card (kused (kmem s2)) < 25600" using card 1(6) 2(6) by (simp add: s2_def)
  from new_stream [OF this] obtain d m3 where
    3: "diskstreamer_new 0 s2 = ret (kblock d, s2\<lparr>kmem := m3, streams := (streams s2)(kblock d := \<lparr>pos = 0, stream_disk = TheDisk\<rparr>)\<rparr>)"
      "d < 25600" "d \<notin> kused m2" "kused m3 = insert d (kused m2)" "kext m2 m3" "card (kused m3) = Suc (card (kused m2))" "kblock d \<noteq> 0"
    by (auto simp: s2_def)
  let ?s3 = "s2\<lparr>kmem := m3, streams := (streams s2)(kblock d := \<lparr>pos = 0, stream_disk = TheDisk\<rparr>)\<rparr>"
  obtain log where 4: "diskstreamer_read hw (kblock d) (kblock p) 62 ?s3 = ret (0, ?s3\<lparr>io_log := log,
      kmem := mem_fill m3 (kblock p) 62 (\<lambda>i. img i), streams := (streams ?s3)(kblock d := (streams ?s3 (kblock d))\<lparr>pos := 62\<rparr>)\<rparr>)"
    using stream_read [OF drive 3(7), of ?s3 62 "kblock p"] by auto
  let ?m4 = "mem_fill m3 (kblock p) 62 (\<lambda>i. img i)"
  let ?s4 = "?s3\<lparr>io_log := log, kmem := ?m4, streams := (streams ?s3)(kblock d := (streams ?s3 (kblock d))\<lparr>pos := 62\<rparr>)\<rparr>"
  have u4: "kused ?m4 = kused m3" using 1(2) by (simp add: kused_fill)
  have k4: "kext (kmem s) ?m4" by (rule kext_fill [OF kext_trans [OF 2(2) 3(5)] 1(2,3)]) simp
  have bs: "distinct [p, a, b, c, d]" "{p, a, b, c, d} \<inter> kused (kmem s) = {}" "kused m3 = kused (kmem s) \<union> {p, a, b, c, d}"
    "{p, a, b, c, d} \<subseteq> {..<25600}"
    using 1(2-4) 2(3,4,5,7) 3(2-4) by auto
  have "card (kused ?m4) = card (kused (kmem s)) + 5" "\<forall>i < 62. ?m4 (kblock p + of_nat i) = img i"
    using 1(6) 2(6) 3(6) u4 by (simp_all add: mem_fill_in)
  then have "header_loaded img fs s p a b c d ?s4"
    unfolding header_loaded_def using bs k4 u4 by (intro conjI) (simp_all add: s2_def)
  moreover have "fat16_resolve hw fs TheDisk s = ret (r, mount_end p d r s5)"
    if "fat16_mount hw (kblock p) (kblock d) ?s3 = ret (r, s5)" for r s5
    using 1(1) 2(1) 3(1,7) dsk(1) that
    by (simp add: fat16_resolve_def Let_def s2_def diskstreamer_close_def mount_end_def)
  ultimately show ?thesis using 4 by blast
qed

text \<open>Mounting a volume.\<close>

lemma resolve_run:
  fixes s :: "'a fat_state_scheme"
  assumes drive: "ata_drive hw img" and vol: "fat16_volume img rs" and dsk: "disk_id (the_disk s) = 0" "sector_size (the_disk s) = 512"
    and room: "(card (kused (kmem s)) + 6) * kblocks (of_nat (root_size img)) \<le> 25600"
  shows "\<exists>B s'. fat16_resolve hw fs TheDisk s = ret (0, s') \<and> volume_mounted img B (known_items rs) s'
    \<and> B \<inter> kused (kmem s) = {} \<and> kused (kmem s') = kused (kmem s) \<union> B
    \<and> card (kused (kmem s')) = card (kused (kmem s)) + 4 + kblocks (of_nat (root_size img)) \<and> kext (kmem s) (kmem s')
    \<and> s' = s\<lparr>kmem := kmem s', io_log := io_log s', the_disk := (the_disk s)\<lparr>filesystem := fs, fs_private := fs_private (the_disk s')\<rparr>,
        streams := streams s', fat_privates := fat_privates s', fat_directories := fat_directories s'\<rparr>"
proof -
  note v = vol [unfolded fat16_volume_def]
  let ?N = "of_nat (root_size img) :: u32"
  have lt: "512 * root_sector img + root_size img + 32 < 2147483648" "0 < root_size img" using v by blast+
  have uN: "unat ?N = root_size img" using lt(1) by simp
  have "0 < kblocks ?N" using lt(2) uN by (intro kblocks_pos) simp
  then have "card (kused (kmem s)) + 6 \<le> (card (kused (kmem s)) + 6) * kblocks ?N" by simp
  then have "card (kused (kmem s)) + 5 \<le> 25600" using room by linarith
  from resolve_start [OF drive dsk(1) this, of fs] obtain p a b c d s3 s4 where
    1: "header_loaded img fs s p a b c d s4" "diskstreamer_read hw (kblock d) (kblock p) 62 s3 = ret (0, s4)"
      "\<And>r s5. fat16_mount hw (kblock p) (kblock d) s3 = ret (r, s5) \<Longrightarrow> fat16_resolve hw fs TheDisk s = ret (r, mount_end p d r s5)"
    by blast
  note H = 1(1) [unfolded header_loaded_def]
  have H': "kused (kmem s4) = kused (kmem s) \<union> {p, a, b, c, d}" "{p, a, b, c, d} \<inter> kused (kmem s) = {}" "distinct [p, a, b, c, d]"
    "card (kused (kmem s4)) = card (kused (kmem s)) + 5" "kext (kmem s) (kmem s4)" using H by - (elim conjE, assumption)+
  have lt5: "p < 25600" "a < 25600" "c < 25600" "d < 25600" using H by simp_all
  have nz: "kblock d \<noteq> 0" "kblock c \<noteq> 0" "kblock a \<noteq> 0" and ne: "kblock c \<noteq> kblock d" "kblock a \<noteq> kblock c" "kblock a \<noteq> kblock d"
    using H'(3) lt5 by (simp_all add: kblock_nonzero kblock_inj)
  have hdr: "kmem s4 (kblock p + of_nat i) = img i" if "i < 62" for i using H that by simp
  have e: "s4 = s\<lparr>kmem := kmem s4, io_log := io_log s4, the_disk := (the_disk s)\<lparr>filesystem := fs, fs_private := kblock p\<rparr>,
         streams := (streams s)(kblock a := \<lparr>pos = 0, stream_disk = TheDisk\<rparr>, kblock b := \<lparr>pos = 0, stream_disk = TheDisk\<rparr>,
           kblock c := \<lparr>pos = 0, stream_disk = TheDisk\<rparr>, kblock d := \<lparr>pos = 62, stream_disk = TheDisk\<rparr>),
         fat_privates := (fat_privates s)(kblock p :=
           \<lparr>cluster_read_stream = kblock a, fat_read_stream = kblock b, directory_stream = kblock c\<rparr>),
         fat_directories := (fat_directories s)(root_directory (kblock p) :=
           \<lparr>dir_item = 0, dir_total = 0, dir_sector_pos = 0, dir_ending_sector_pos = 0\<rparr>)\<rparr>"
    using H by - (elim conjE, assumption)
  obtain m4 l4 where s4: "s4 = s\<lparr>kmem := m4, io_log := l4, the_disk := (the_disk s)\<lparr>filesystem := fs, fs_private := kblock p\<rparr>,
         streams := (streams s)(kblock a := \<lparr>pos = 0, stream_disk = TheDisk\<rparr>, kblock b := \<lparr>pos = 0, stream_disk = TheDisk\<rparr>,
           kblock c := \<lparr>pos = 0, stream_disk = TheDisk\<rparr>, kblock d := \<lparr>pos = 62, stream_disk = TheDisk\<rparr>),
         fat_privates := (fat_privates s)(kblock p :=
           \<lparr>cluster_read_stream = kblock a, fat_read_stream = kblock b, directory_stream = kblock c\<rparr>),
         fat_directories := (fat_directories s)(root_directory (kblock p) :=
           \<lparr>dir_item = 0, dir_total = 0, dir_sector_pos = 0, dir_ending_sector_pos = 0\<rparr>)\<rparr>"
    by (rule that [OF e])
  have "(card (kused (kmem s4)) + 1) * kblocks ?N \<le> 25600" using room H'(4) by (simp add: add.commute)
  with root_directory_run [OF drive vol, of s4 "kblock p" "kblock c" "root_directory (kblock p)", OF hdr]
  obtain r m log q m5 where 5: "fat16_get_root_directory hw (kblock p) (root_directory (kblock p)) s4 = ret (0, s4\<lparr>kmem := m, io_log := log,
      streams := (streams s4)(kblock c := (streams s4 (kblock c))\<lparr>pos := q\<rparr>),
      fat_directories := (fat_directories s4)(root_directory (kblock p) := \<lparr>dir_item = kblock r, dir_total = of_nat (length (known_items rs)),
        dir_sector_pos = of_nat (root_sector img), dir_ending_sector_pos = of_nat (root_sector img + root_size img div 512)\<rparr>)\<rparr>)"
      "run_taken (kmem s4) ?N r m5" "m = mem_fill m5 (kblock r) (root_size img) (\<lambda>i. img (512 * root_sector img + i))"
    using nz ne dsk by (auto simp: s4)
  let ?s5 = "s4\<lparr>kmem := m, io_log := log,
      streams := (streams s4)(kblock c := (streams s4 (kblock c))\<lparr>pos := q\<rparr>),
      fat_directories := (fat_directories s4)(root_directory (kblock p) := \<lparr>dir_item = kblock r, dir_total = of_nat (length (known_items rs)),
        dir_sector_pos = of_nat (root_sector img), dir_ending_sector_pos = of_nat (root_sector img + root_size img div 512)\<rparr>)\<rparr>"
  define s5 where "s5 = mount_end p d 0 ?s5"
  have "signature (kmem s4) (kblock p) = 0x29" using header_read(6) [of "kmem s4" "kblock p" img, OF hdr] v by simp
  then have "fat16_mount hw (kblock p) (kblock d) s3 = ret (0, ?s5)" using 1(2) 5(1) nz(1) by (simp add: fat16_mount_def)
  from 1(3) [OF this] have res: "fat16_resolve hw fs TheDisk s = ret (0, s5)" unfolding s5_def .
  let ?k = "kblocks ?N"
  let ?B = "{p, a, b, c} \<union> {r..<r + ?k}"
  have nN: "root_size img \<le> 4096 * ?k" using kblocks_bytes(1) [of ?N] uN by simp
  have run: "r + ?k \<le> 25600" "{r..<r + ?k} \<inter> kused (kmem s4) = {}" "kused m5 = kused (kmem s4) \<union> {r..<r + ?k}" "kext (kmem s4) m5"
    "card (kused m5) = card (kused (kmem s4)) + ?k" using 5(2) unfolding run_taken_def by blast+
  note fill = kext_fill_run [OF run(4,1,2) nN, of "\<lambda>i. img (512 * root_sector img + i)", folded 5(3)]
  have m5: "kmem s5 = kfree m (kblock d)" by (simp add: s5_def mount_end_def)
  have um5: "kused (kmem s5) = kused m - {d}" unfolding m5 by (rule kused_kfree [OF lt5(4)])
  have d: "d \<in> kused m" "d \<notin> kused (kmem s)" "d \<notin> ?B" using run(2,3) fill(2) H'(1-3) by auto
  have used: "kused (kmem s5) = kused (kmem s) \<union> ?B" using um5 fill(2) run(3) H'(1) d by auto
  have disj: "?B \<inter> kused (kmem s) = {}" using run(2) H'(1,2) by auto
  have k5: "kext (kmem s) (kmem s5)" unfolding m5 by (rule kext_free [OF kext_trans [OF H'(5) fill(1)] lt5(4) d(2)])
  have tab: "table_only m (kmem s5)" unfolding m5 by (rule table_only_kfree [OF lt5(4)])
  have "volume_mounted img ?B (known_items rs) s5"
  proof (rule volume_mountedI [OF vol])
    show "fs_private (the_disk s5) = kblock p" "sector_size (the_disk s5) = 512" using dsk by (simp_all add: s5_def mount_end_def s4)
    show "root_dir s5 = \<lparr>dir_item = kblock r, dir_total = of_nat (length (known_items rs)), dir_sector_pos = of_nat (root_sector img),
        dir_ending_sector_pos = of_nat (root_sector img + root_size img div 512)\<rparr>" by (simp add: s5_def mount_end_def s4)
    show "kmem s5 (kblock p + of_nat i) = img i" if i: "i < 62" for i
    proof -
      have "p \<in> kused (kmem s4)" using H'(1) by simp
      then have "kstable (kmem s4) (kblock p + of_nat i)" using kblock_stable_block [of p "kmem s4" 62] i by (simp add: kstable_block_def)
      from kextD(1) [OF fill(1) this] have "m (kblock p + of_nat i) = img i" using hdr [OF i] by simp
      then show ?thesis using tab kblock_off_table [OF lt5(1), of i] i by (simp add: table_only_def)
    qed
    show "kmem s5 (kblock r + of_nat i) = img (512 * root_sector img + i)" if i: "i < root_size img" for i
    proof -
      have "r + i div 4096 < 25600" using i nN run(1) less_mult_imp_div_less [of i ?k 4096] by (simp add: mult.commute)
      then have "25600 \<le> unat (kblock r + of_nat i - 0x7E00)" unfolding kblock_run_byte [of r i] by (intro kblock_off_table) simp_all
      then have "kmem s5 (kblock r + of_nat i) = m (kblock r + of_nat i)" using tab by (simp add: table_only_def)
      then show ?thesis using i lt(1) by (simp add: 5(3) mem_fill_in)
    qed
    show "root_size img \<le> 4096 * ?k" "{r..<r + ?k} \<subseteq> ?B" "p \<in> ?B" "?B \<subseteq> kused (kmem s5)" using nN used by auto
    show "cluster_stream s5 \<noteq> 0" "stream_disk (streams s5 (cluster_stream s5)) = TheDisk"
      using nz ne by (auto simp: s5_def mount_end_def s4)
  qed
  moreover have "card (kused (kmem s5)) = card (kused (kmem s)) + 4 + ?k" unfolding um5 using d(1) fill(2) run(5) H'(4) by simp
  moreover have "s5 = s\<lparr>kmem := kmem s5, io_log := io_log s5, the_disk := (the_disk s)\<lparr>filesystem := fs, fs_private := fs_private (the_disk s5)\<rparr>,
        streams := streams s5, fat_privates := fat_privates s5, fat_directories := fat_directories s5\<rparr>"
    by (simp add: s5_def mount_end_def s4)
  ultimately show ?thesis using res disj used k5 by blast
qed

text \<open>Anything else is refused.\<close>

lemma resolve_refused:
  fixes s :: "'a fat_state_scheme"
  assumes drive: "ata_drive hw img" and sig: "signature (drive_mem img) 0 \<noteq> 0x29" and dsk: "disk_id (the_disk s) = 0"
    and card: "card (kused (kmem s)) + 5 \<le> 25600"
  shows "\<exists>s'. fat16_resolve hw fs TheDisk s = ret (- EFSNOTUS, s') \<and> fs_private (the_disk s') = 0
    \<and> kused (kmem s) \<subseteq> kused (kmem s') \<and> card (kused (kmem s')) = card (kused (kmem s)) + 3 \<and> kext (kmem s) (kmem s')
    \<and> filesystems s' = filesystems s"
proof -
  from resolve_start [OF drive dsk card, of fs] obtain p a b c d s3 s4 where
    1: "header_loaded img fs s p a b c d s4" "diskstreamer_read hw (kblock d) (kblock p) 62 s3 = ret (0, s4)"
      "\<And>r s5. fat16_mount hw (kblock p) (kblock d) s3 = ret (r, s5) \<Longrightarrow> fat16_resolve hw fs TheDisk s = ret (r, mount_end p d r s5)"
    by blast
  note H = 1(1) [unfolded header_loaded_def]
  have H': "kused (kmem s4) = kused (kmem s) \<union> {p, a, b, c, d}" "{p, a, b, c, d} \<inter> kused (kmem s) = {}" "distinct [p, a, b, c, d]"
    "card (kused (kmem s4)) = card (kused (kmem s)) + 5" "kext (kmem s) (kmem s4)" using H by - (elim conjE, assumption)+
  have lt: "p < 25600" "d < 25600" using H by simp_all
  have "signature (kmem s4) (kblock p) = signature (drive_mem img) 0" using H by (intro header_read(6)) simp
  then have "fat16_mount hw (kblock p) (kblock d) s3 = ret (- EFSNOTUS, s4)"
    using 1(2) sig kblock_nonzero [OF lt(2)] by (simp add: fat16_mount_def)
  note res = 1(3) [OF this]
  let ?s = "mount_end p d (- EFSNOTUS) s4"
  have m: "kmem ?s = kfree (kfree (kmem s4) (kblock d)) (kblock p)" "fs_private (the_disk ?s) = 0" by (simp_all add: mount_end_def word_sless_alt)
  have used: "kused (kmem ?s) = kused (kmem s4) - {d} - {p}" unfolding m by (simp add: kused_kfree [OF lt(1)] kused_kfree [OF lt(2)])
  have "d \<in> kused (kmem s4)" "p \<in> kused (kmem s4) - {d}" using H'(1,3) by auto
  then have "card (kused (kmem ?s)) = card (kused (kmem s)) + 3" unfolding used using H'(4) by simp
  moreover have "kext (kmem s) (kmem ?s)"
    unfolding m using H'(2,5) lt by (intro kext_free) auto
  moreover have "kused (kmem s) \<subseteq> kused (kmem ?s)" unfolding used using H'(1,2) by auto
  moreover have "filesystems s4 = filesystems s"
    using arg_cong [of s4 _ filesystems] H by - (elim conjE, drule arg_cong [where f = filesystems], simp)
  then have "filesystems ?s = filesystems s" by (simp add: mount_end_def Let_def)
  ultimately show ?thesis using res m(2) by blast
qed

section \<open>The start of the disk\<close>

lemma fs_resolve_loop_none: "\<forall>i \<in> set is. filesystems s ! i = 0 \<Longrightarrow> fs_resolve_loop drv dsk is s = ret (0, s)"
  by (induction "is") simp_all

lemma disk_init_run:
  fixes s :: "'a fat_state_scheme"
  assumes drive: "ata_drive hw img" and vol: "fat16_volume img rs"
    and tables: "filesystems s = fs # replicate 11 0" "fs \<noteq> 0" "file_descriptors s = replicate 512 0"
    and room: "(card (kused (kmem s)) + 6) * kblocks (of_nat (root_size img)) \<le> 25600"
  shows "\<exists>B s'. disk_search_and_init (drivers hw fs) s = ret s' \<and> volume_mounted img B (known_items rs) s' \<and> fat_files_ok fs B (known_items rs) s'
    \<and> B \<inter> kused (kmem s) = {} \<and> kused (kmem s') = kused (kmem s) \<union> B
    \<and> card (kused (kmem s')) = card (kused (kmem s)) + 4 + kblocks (of_nat (root_size img)) \<and> kext (kmem s) (kmem s')
    \<and> s' = s\<lparr>kmem := kmem s', io_log := io_log s', the_disk := the_disk s', streams := streams s',
        fat_privates := fat_privates s', fat_directories := fat_directories s'\<rparr>"
proof -
  let ?s = "s\<lparr>the_disk := \<lparr>disk_type = 0, sector_size = 512, disk_id = 0, filesystem = 0, fs_private = 0\<rparr>\<rparr>"
  have "(card (kused (kmem ?s)) + 6) * kblocks (of_nat (root_size img)) \<le> 25600" using room by simp
  from resolve_run [OF drive vol _ _ this, of fs] obtain B s1 where
    1: "fat16_resolve hw fs TheDisk ?s = ret (0, s1)" "volume_mounted img B (known_items rs) s1" "B \<inter> kused (kmem s) = {}"
      "kused (kmem s1) = kused (kmem s) \<union> B" "card (kused (kmem s1)) = card (kused (kmem s)) + 4 + kblocks (of_nat (root_size img))"
      "kext (kmem s) (kmem s1)"
      "s1 = ?s\<lparr>kmem := kmem s1, io_log := io_log s1, the_disk := (the_disk ?s)\<lparr>filesystem := fs, fs_private := fs_private (the_disk s1)\<rparr>,
        streams := streams s1, fat_privates := fat_privates s1, fat_directories := fat_directories s1\<rparr>" by auto
  have X: "(the_disk ?s)\<lparr>filesystem := fs, fs_private := fs_private (the_disk s1)\<rparr> = the_disk s1"
    using arg_cong [OF 1(7), of the_disk] by simp
  from arg_cong [OF X, of filesystem] have d1: "filesystem (the_disk s1) = fs" by simp
  then have d: "filesystem (the_disk s1) = fs" "s1\<lparr>the_disk := (the_disk s1)\<lparr>filesystem := fs\<rparr>\<rparr> = s1" by auto
  have "file_descriptors s1 = file_descriptors s" using arg_cong [OF 1(7), of file_descriptors] by simp
  then have ok: "fat_files_ok fs B (known_items rs) s1"
    using 1(2) d(1) tables(2,3) by (simp add: files_ok_def volume_mounted_def)
  have fs: "filesystems s1 = fs # replicate 11 0" using arg_cong [OF 1(7), of filesystems] tables(1) by simp
  have "[0..<12] = 0 # [Suc 0..<12]" by (simp add: upt_conv_Cons)
  then have "fs_resolve (drivers hw fs) TheDisk ?s = ret (fs, s1)"
    unfolding fs_resolve_def using tables(1,2) 1(1) fs by (simp add: with_driver_def drivers_def fat16_fs_def)
  then have "disk_search_and_init (drivers hw fs) s = ret (s1\<lparr>the_disk := (the_disk s1)\<lparr>filesystem := fs\<rparr>\<rparr>)"
    by (simp add: disk_search_and_init_def Let_def)
  moreover have "s1 = s\<lparr>kmem := kmem s1, io_log := io_log s1, the_disk := the_disk s1, streams := streams s1,
        fat_privates := fat_privates s1, fat_directories := fat_directories s1\<rparr>"
    by (rule trans [OF 1(7) [unfolded X]]) simp
  ultimately show ?thesis using 1(2-6) ok unfolding d(2) by blast
qed

section \<open>A drive for the examples\<close>

text \<open>
  Two sectors per cluster, one reserved sector, two tables of one sector, sixteen items in the
  root directory, the first of them \<open>example_item\<close>; the clusters hold bytes that tell their
  places.
\<close>

definition example_drive :: "nat \<Rightarrow> u8" where
  "example_drive i = (if i = 13 then 2 else if i = 14 then 1 else if i = 16 then 2 else if i = 17 then 16 else if i = 22 then 1
     else if i = 38 then 0x29 else if 1536 \<le> i \<and> i < 1568 then example_item ! (i - 1536) else if i < 2048 then 0 else of_nat i)"

lemma example_drive_fields:
  "root_sector example_drive = 3" "root_size example_drive = 512" "volume_item example_drive k = of_nat (1536 + 32 * k)"
  "sectors_per_cluster (drive_mem example_drive) 0 = 2" "signature (drive_mem example_drive) 0 = 0x29"
proof -
  show "root_sector example_drive = 3" "root_size example_drive = 512" "sectors_per_cluster (drive_mem example_drive) 0 = 2"
    "signature (drive_mem example_drive) 0 = 0x29"
    by (simp_all add: root_sector_def root_size_def fat_copies_def sectors_per_fat_def reserved_sectors_def root_dir_entries_def
        sectors_per_cluster_def signature_def load16_def drive_mem_def example_drive_def)
  then show "volume_item example_drive k = of_nat (1536 + 32 * k)" by (simp add: volume_item_def)
qed

lemma example_drive_item:
  "bytes (drive_mem example_drive) 0x600 32 = example_item"
  "item_filesize (drive_mem example_drive) 0x600 = 600" "fat16_get_first_cluster (drive_mem example_drive) 0x600 = 3"
proof -
  let ?m = "drive_mem example_drive"
  show b: "bytes ?m 0x600 32 = example_item"
  proof (rule nth_equalityI)
    fix i assume "i < length (bytes ?m 0x600 32)"
    then have i: "i < 32" by simp
    then have "?m (of_nat (1536 + i)) = example_drive (1536 + i)" by (intro drive_mem_of_nat) simp
    then show "bytes ?m 0x600 32 ! i = example_item ! i" using i by (simp add: example_drive_def)
  qed (simp add: example_item_def)
  note at = bytes_nth [OF b]
  show "item_filesize ?m 0x600 = 600" "fat16_get_first_cluster ?m 0x600 = 3"
    using at [of 20] at [of 21] at [of 26] at [of 27] at [of 28] at [of 29] at [of 30] at [of 31]
    by (simp_all add: item_filesize_def fat16_get_first_cluster_def load32_def load16_def example_item_def)
qed

lemma example_drive_volume: "fat16_volume example_drive example_entries" "known_items example_entries = example_entries"
proof -
  have "drive_mem example_drive 0x620 = 0" by (simp add: drive_mem_def example_drive_def)
  moreover have "example_item ! 0 \<noteq> 0" by (simp add: example_item_def)
  ultimately show "fat16_volume example_drive example_entries"
    using example_drive_item(1) example_item_text(1) unfolding fat16_volume_def example_drive_fields by (simp add: example_entries_def)
  show "known_items example_entries = example_entries"
    by (simp add: known_items_all example_entries_def example_item_def)
qed

lemma example_drive_file:
  "volume_file_size example_drive 0 = 600" "volume_file_cluster example_drive 0 = 3" "volume_file_start example_drive 0 = 3072"
  using example_drive_item
  by (simp_all add: volume_file_size_def volume_file_cluster_def volume_file_start_def volume_cluster_def example_drive_fields)

section \<open>Properties\<close>

text \<open>
  C8: Starting the disk on a drive with a FAT16 volume mounts it: the driver's private data and
  the root directory stand in blocks that were free, and the items the driver knows, each by the
  size and the place on the drive that it gives, are the first of the root directory, as many as
  there are items that are not deleted. Without a deleted item these are all of them; each
  deleted item hides one item at the end. The root directory may hold items of every kind, whose
  texts have to end within their 32 bytes, and has to end with a zero. The calls on files find
  the state they rely on.
\<close>

theorem disk_mounts_volume:
  assumes "ata_drive hw img" and "fat16_volume img rs" and "filesystems s = fs # replicate 11 0" and "fs \<noteq> 0"
    and "file_descriptors s = replicate 512 0"
    and "(card (kused (kmem s)) + 6) * kblocks (of_nat (root_size img)) \<le> 25600"
  shows "\<exists>B s'. disk_search_and_init (drivers hw fs) s = ret s' \<and> (known_items rs = rs \<longleftrightarrow> (\<forall>r \<in> set rs. r ! 0 \<noteq> 0xE5))
    \<and> files_ok fs (fat_ready B (known_items rs)) B fat_handle fat_own s'
    \<and> (\<forall>k < length (known_items rs). file_size s' k = volume_file_size img k \<and> file_start s' k = volume_file_start img k)
    \<and> B \<inter> kused (kmem s) = {} \<and> kused (kmem s') = kused (kmem s) \<union> B
    \<and> card (kused (kmem s')) = card (kused (kmem s)) + 4 + kblocks (of_nat (root_size img)) \<and> kext (kmem s) (kmem s')"
proof -
  from disk_init_run [OF assms] obtain B s' where
    s': "disk_search_and_init (drivers hw fs) s = ret s'" "volume_mounted img B (known_items rs) s'" "files_ok fs (fat_ready B (known_items rs)) B fat_handle fat_own s'"
      "B \<inter> kused (kmem s) = {}" "kused (kmem s') = kused (kmem s) \<union> B"
      "card (kused (kmem s')) = card (kused (kmem s)) + 4 + kblocks (of_nat (root_size img))" "kext (kmem s) (kmem s')" by (elim exE conjE)
  from s'(2) have "\<forall>k < length (known_items rs). file_size s' k = volume_file_size img k \<and> file_start s' k = volume_file_start img k"
    by (simp add: volume_mounted_def)
  with s' known_items_all [of rs] show ?thesis by (intro exI [of _ B] exI [of _ s'] conjI) assumption+
qed

theorem disk_mounts_volume_witness:
  "\<exists>B s'. disk_search_and_init (drivers (ideal_drive example_drive) 0x180000) fat_example = ret s'
    \<and> files_ok 0x180000 (fat_ready B example_entries) B fat_handle fat_own s' \<and> file_size s' 0 = 600 \<and> file_start s' 0 = 3072
    \<and> card (kused (kmem s')) = 8"
proof -
  have kb: "kblocks (of_nat (root_size example_drive)) = 1" by (simp add: example_drive_fields kblocks_def)
  have t: "filesystems fat_example = 0x180000 # replicate 11 0" "file_descriptors fat_example = replicate 512 0"
    by (simp_all add: example_volume_def)
  obtain B s' where "disk_search_and_init (drivers (ideal_drive example_drive) 0x180000) fat_example = ret s'"
      "files_ok 0x180000 (fat_ready B example_entries) B fat_handle fat_own s'"
      "\<forall>k < length example_entries. file_size s' k = volume_file_size example_drive k \<and> file_start s' k = volume_file_start example_drive k"
      "card (kused (kmem s')) = card (kused (kmem fat_example)) + 4 + kblocks (of_nat (root_size example_drive))"
    using disk_mounts_volume [OF ideal_drive example_drive_volume(1) t(1) _ t(2)] unfolding example_drive_volume(2) by (auto simp: kb example_sel example_used)
  then show ?thesis by (auto simp: example_entries_def example_drive_file kb example_sel example_used)
qed

text \<open>
  C31: A drive without the signature of FAT16 is refused: the disk is left without a filesystem,
  the private data is released, but the three streams it had stay allocated.
\<close>

theorem disk_refuses_other:
  assumes "ata_drive hw img" and "signature (drive_mem img) 0 \<noteq> 0x29" and "filesystems s = fs # replicate 11 0" and "fs \<noteq> 0"
    and "card (kused (kmem s)) + 5 \<le> 25600"
  shows "\<exists>s'. disk_search_and_init (drivers hw fs) s = ret s' \<and> filesystem (the_disk s') = 0 \<and> fs_private (the_disk s') = 0
    \<and> kused (kmem s) \<subseteq> kused (kmem s') \<and> card (kused (kmem s')) = card (kused (kmem s)) + 3 \<and> kext (kmem s) (kmem s')"
proof -
  let ?s = "s\<lparr>the_disk := \<lparr>disk_type = 0, sector_size = 512, disk_id = 0, filesystem = 0, fs_private = 0\<rparr>\<rparr>"
  have "card (kused (kmem ?s)) + 5 \<le> 25600" using assms(5) by simp
  from resolve_refused [OF assms(1,2) _ this, of fs] obtain s1 where
    1: "fat16_resolve hw fs TheDisk ?s = ret (- EFSNOTUS, s1)" "fs_private (the_disk s1) = 0" "filesystems s1 = filesystems s"
      "kused (kmem s) \<subseteq> kused (kmem s1)" "card (kused (kmem s1)) = card (kused (kmem s)) + 3" "kext (kmem s) (kmem s1)" by auto
  have "fs_resolve_loop (drivers hw fs) TheDisk [Suc 0..<12] s1 = ret (0, s1)"
    by (rule fs_resolve_loop_none) (use 1(3) assms(3) in auto)
  moreover have "[0..<12] = 0 # [Suc 0..<12]" by (simp add: upt_conv_Cons)
  ultimately have "fs_resolve (drivers hw fs) TheDisk ?s = ret (0, s1)"
    unfolding fs_resolve_def using assms(3,4) 1(1) by (simp add: with_driver_def drivers_def fat16_fs_def)
  then show ?thesis using 1(2-6) by (simp add: disk_search_and_init_def Let_def)
qed

theorem disk_refuses_other_witness:
  "\<exists>s'. disk_search_and_init (drivers (ideal_drive (\<lambda>_. 0)) 0x180000) fat_example = ret s' \<and> filesystem (the_disk s') = 0
    \<and> card (kused (kmem s')) = 6"
proof -
  have s: "signature (drive_mem (\<lambda>_. 0)) 0 \<noteq> 0x29" by (simp add: signature_def drive_mem_def)
  have t: "filesystems fat_example = 0x180000 # replicate 11 0" by (simp add: example_volume_def)
  show ?thesis using disk_refuses_other [OF ideal_drive s t] by (auto simp: example_sel example_used)
qed

end
