(* ===== verification/Boot.thy ===== *)
theory Boot
  imports Kernel Loading Mount
begin

text \<open>
  The start of the kernel as a whole, from the machine the boot loader leaves to a mounted
  volume, and the loading of a program on the kernel that has started.
\<close>

section \<open>Writes off the heap\<close>

text \<open>Messages and the task segment leave every block in use alone.\<close>

definition blocks_kept :: "mem \<Rightarrow> mem \<Rightarrow> bool" where
  "blocks_kept m m' \<longleftrightarrow> kused m' = kused m \<and> keep_blocks (kused m) m m'"

lemma blocks_kept_trans: "blocks_kept m m' \<Longrightarrow> blocks_kept m' m'' \<Longrightarrow> blocks_kept m m''"
  by (auto simp: blocks_kept_def intro: keep_blocks_trans)

lemma blocks_kept_video: "video_only m m' \<Longrightarrow> blocks_kept m m'"
  unfolding blocks_kept_def keep_blocks_def
proof (intro conjI ballI allI impI)
  assume v: "video_only m m'"
  then show u: "kused m' = kused m" by (rule video_only_kused)
  then show "kused m \<subseteq> kused m'" by simp
  fix b i :: nat assume "b \<in> kused m" "i < 4096"
  then show "m' (kblock b + of_nat i) = m (kblock b + of_nat i)"
    using v kblock_off_screen [of b i] kused_less by (auto simp: video_only_def)
qed

lemma blocks_kept_outside:
  assumes "off_heap p n" "unchanged_outside m m' p n"
  shows "blocks_kept m m'"
  unfolding blocks_kept_def keep_blocks_def
proof (intro conjI ballI allI impI)
  show u: "kused m' = kused m" by (rule kused_off_heap [OF assms])
  then show "kused m \<subseteq> kused m'" by simp
  fix b i :: nat assume b: "b \<in> kused m" "i < 4096"
  let ?x = "kblock b + of_nat i"
  have "n \<le> unat (?x - p)"
  proof (rule ccontr)
    define j where "j = unat (?x - p)"
    assume "\<not> n \<le> unat (?x - p)"
    then have "j < n" "?x = p + of_nat j" by (simp_all add: j_def)
    then have "4096 \<le> unat (?x - kblock b)" using assms(1) kused_less [OF b(1)] by (metis off_heap_def)
    then show False using b(2) by simp
  qed
  then show "m' ?x = m ?x" using assms(2) by (simp add: unchanged_outside_def)
qed

lemma in_image_off_heap: "in_image p n \<Longrightarrow> off_heap p n"
  by (rule off_heap_low) (simp_all add: in_image_def)

section \<open>The second half of the start\<close>

text \<open>The task segment has the kernel's stack.\<close>

lemma setup_tss_run:
  "\<exists>m. (\<forall>s :: 'a kernel_state_scheme. kmem s = m0 \<longrightarrow> setup_tss tss s = s\<lparr>kmem := m, task_register := 0x28\<rparr>)
    \<and> unchanged_outside m0 m tss 100 \<and> load32 m (tss + 4) = 0x600000 \<and> load32 m (tss + 8) = 0x10"
proof -
  let ?m1 = "snd (memset m0 tss 0 100)"
  let ?m2 = "store32 ?m1 (tss + of_nat 4) 0x600000"
  let ?m3 = "store32 ?m2 (tss + of_nat 8) 0x10"
  have "unchanged_outside m0 ?m1 tss 100" by (simp add: memset_fill)
  moreover have "unchanged_outside ?m1 ?m2 tss 100" "unchanged_outside ?m2 ?m3 tss 100"
    by (intro store32_within, simp)+
  ultimately have "unchanged_outside m0 ?m3 tss 100" by (blast intro: unchanged_outside_trans)
  moreover have "load32 ?m3 (tss + 8) = 0x10" by (simp add: load_store_same)
  moreover have "load32 ?m3 (tss + 4) = load32 ?m2 (tss + 4)"
  proof (rule load_store_other)
    have "tss + of_nat 8 + of_nat i \<noteq> tss + 4 + of_nat j" if "i < 4" "j < 4" for i j
    proof -
      have "(of_nat (8 + i) :: u32) \<noteq> of_nat (4 + j)" using that by (subst of_nat32_eq_iff) simp_all
      then show ?thesis by (simp add: add.assoc)
    qed
    then show "apart (tss + of_nat 8) 4 (tss + 4) 4" by (simp add: apart_def)
  qed
  then have "load32 ?m3 (tss + 4) = 0x600000" by (simp add: load_store_same)
  ultimately show ?thesis by (intro exI [of _ ?m3]) (simp add: setup_tss_def Let_def)
qed

text \<open>
  What the boot loader and the linker leave: no task, no process, no system call, no keyboard,
  and a keyboard driver with its routine.
\<close>

definition fresh_kernel :: "image \<Rightarrow> 'a kernel_state_scheme \<Rightarrow> bool" where
  "fresh_kernel im s \<longleftrightarrow> task_head s = 0 \<and> task_tail s = 0 \<and> current_task s = 0 \<and> processes s = replicate 12 0
     \<and> isr80h_commands s = replicate 1024 0 \<and> keyboard_list_tail s = 0
     \<and> keyboard_init_function (keyboards s (classic_keyboard_at im)) = classic_init_at im"

definition boot_image :: "image \<Rightarrow> mem \<Rightarrow> bool" where
  "boot_image im m \<longleftrightarrow> image_ok im m \<and> in_image (tss_at im) 100 \<and> apart (tss_at im) 100 (gdt_at im) 48
     \<and> length (interrupt_pointer_table (interrupts_at im)) = 512"

lemma register_commands_run:
  assumes "isr80h_commands s = replicate 1024 0"
  shows "isr80h_register_commands im s =
    Inr (s\<lparr>isr80h_commands := (replicate 1024 0)[0 := command0_at im, 1 := command1_at im]\<rparr>)"
  using assms by (simp add: isr80h_register_commands_def isr80h_register_command_def word_sless_alt word_sle_eq)

lemma keyboard_init_run:
  assumes "keyboard_list_tail s = 0" "keyboard_init_function (keyboards s (classic_keyboard_at im)) = classic_init_at im"
  shows "keyboard_init (keyboard_code im) (classic_keyboard_at im) s =
    ret (s\<lparr>keyboard_list_head := classic_keyboard_at im, keyboard_list_tail := classic_keyboard_at im, io_log := outb 0x64 0xAE (io_log s)\<rparr>)"
  using assms by (simp add: keyboard_init_def keyboard_insert_def call_pointer_def keyboard_code_def classic_keyboard_init_def Let_def)

lemma volume_mounted_keep:
  assumes v: "volume_mounted img B es s" and same: "same_volume s s'" and keep: "keep_blocks B (kmem s) (kmem s')"
  shows "volume_mounted img B es s'"
proof -
  have f: "the_disk s' = the_disk s" "fat_directories s' = fat_directories s" "fat_privates s' = fat_privates s"
    "\<And>p. stream_disk (streams s' p) = stream_disk (streams s p)"
    using same by (simp_all add: same_volume_def)
  have r: "fat_ready B es s" using v by (simp add: volume_mounted_def)
  obtain p where p: "p \<in> B" "fs_private (the_disk s) = kblock p"
    "sectors_per_cluster (kmem s) (kblock p) = sectors_per_cluster (drive_mem img) 0"
    using v by (auto simp: volume_mounted_def)
  note spc = header_keep(2) [OF keep p(1)]
  have "fat_ready B es s'" by (rule fat_ready_keep [OF r keep]) (simp_all add: f)
  moreover have "file_start s' k = file_start s k" if "k < length es" for k
    using file_same(3) [OF r that same keep] by (simp add: file_start_def cluster_start_def f p(2) spc)
  ultimately show ?thesis
    using v p spc file_same(2,3) [OF r _ same keep] unfolding volume_mounted_def f by auto
qed

text \<open>The whole of \<open>kernel_init\<close>.\<close>

lemma kernel_init_run:
  fixes s :: "'a kernel_state_scheme"
  assumes im: "boot_image im (kmem s)" and fresh: "fresh_kernel im s" and drive: "ata_drive hw img" and vol: "fat16_volume img rs"
    and room: "1032 * kblocks (of_nat (root_size img)) \<le> 25600"
  shows "\<exists>B s' cb d tb. kernel_init (drivers hw (fat16_at im)) im s = ret s' \<and> volume_mounted img B (known_items rs) s' \<and> fat_files_ok (fat16_at im) B (known_items rs) s'
    \<and> open_files s' = (\<lambda>_. None) \<and> console_room 200 131072 (console s') \<and> paging_enabled s' \<and> kernel_chunk s' = kblock cb
    \<and> chunk_blocks (kmem s') cb d tb \<and> space_blocks cb d tb \<subseteq> kused (kmem s') - B \<and> cr3 (kmmu s') = kblock d
    \<and> (\<forall>va. page va \<longrightarrow> paging_get (kmem s') (kblock d) va = va OR 7) \<and> card (kused (kmem s')) = 1030 + kblocks (of_nat (root_size img))
    \<and> task_head s' = 0 \<and> task_tail s' = 0 \<and> current_task s' = 0 \<and> processes s' = replicate 12 0
    \<and> isr80h_commands s' = (replicate 1024 0)[0 := command0_at (commands_at im), 1 := command1_at (commands_at im)]
    \<and> map gate_target (idt_descriptors s') =
        (interrupt_pointer_table (interrupts_at im))[0 := idt_zero_at (interrupts_at im), 0x80 := isr80h_wrapper_at (interrupts_at im)]
    \<and> load32 (kmem s') (tss_at im + 4) = 0x600000 \<and> load32 (kmem s') (tss_at im + 8) = 0x10 \<and> task_register s' = 0x28
    \<and> map (\<lambda>i. gdt_decode (kmem s') (gdt_at im + of_nat (8 * i))) [0..<6] = kernel_gdt_structured (tss_at im)
    \<and> (\<forall>p n. in_image p n \<and> apart (gdt_at im) 48 p n \<and> apart (fat16_at im + 24) 6 p n \<and> apart (tss_at im) 100 p n
         \<longrightarrow> keeps p n (kmem s) (kmem s'))"
proof -
  have i: "image_ok im (kmem s)" "in_image (tss_at im) 100" "length (interrupt_pointer_table (interrupts_at im)) = 512"
    "apart (tss_at im) 100 (gdt_at im) 48" "in_image (gdt_at im) 48"
    using im by (simp_all add: boot_image_def image_ok_def)
  note f = fresh [unfolded fresh_kernel_def]
  from init_memory_run [OF i(1)] obtain t0 m0 cb d tb where
    0: "kernel_init_memory im s = ret (s\<lparr>console := t0, kmem := m0, filesystems := fat16_at im # replicate 11 0,
        file_descriptors := replicate 512 0, kernel_chunk := kblock cb, kmmu := paging_switch m0 (kblock cb) (kmmu s), paging_enabled := True\<rparr>)"
      "console_room 500 131072 t0" "chunk_blocks m0 cb d tb" "card (kused m0) = 1026" "kused m0 = space_blocks cb d tb"
      "\<And>va. page va \<Longrightarrow> paging_get m0 (load32 m0 (kblock cb)) va = va OR 7"
      "\<And>p n. in_image p n \<Longrightarrow> apart (gdt_at im) 48 p n \<Longrightarrow> apart (fat16_at im + 24) 6 p n \<Longrightarrow> keeps p n (kmem s) m0"
      "map (\<lambda>i. gdt_decode m0 (gdt_at im + of_nat (8 * i))) [0..<6] = kernel_gdt_structured (tss_at im)" by metis
  let ?start = "s\<lparr>console := t0, kmem := m0, filesystems := fat16_at im # replicate 11 0,
        file_descriptors := replicate 512 0, kernel_chunk := kblock cb, kmmu := paging_switch m0 (kblock cb) (kmmu s), paging_enabled := True\<rparr>"
  let ?cmds = "(replicate 1024 0)[0 := command0_at (commands_at im), 1 := command1_at (commands_at im)]"
  obtain t1 m1 where 1: "\<And>s :: 'a kernel_state_scheme. console s = t0 \<Longrightarrow> kmem s = m0 \<Longrightarrow>
      say 15 (''Kernel commands registered.'' @ [newline]) s = s\<lparr>console := t1, kmem := m1\<rparr>"
    "console_room 440 131072 t1" "video_only m0 m1"
    using say_short [of 440 t0 "''Kernel commands registered.'' @ [newline]" m0 15] 0(2) by auto
  obtain t2 m2 where 2: "\<And>s :: 'a kernel_state_scheme. console s = t1 \<Longrightarrow> kmem s = m1 \<Longrightarrow>
      say 13 (''Interrupt descriptor table initialized.'' @ [newline]) s = s\<lparr>console := t2, kmem := m2\<rparr>"
    "console_room 380 131072 t2" "video_only m1 m2"
    using say_short [of 380 t1 "''Interrupt descriptor table initialized.'' @ [newline]" m1 13] 1(2) by auto
  obtain t3 m3 where 3: "\<And>s :: 'a kernel_state_scheme. console s = t2 \<Longrightarrow> kmem s = m2 \<Longrightarrow>
      say 15 (''Keyboard initialized.'' @ [newline]) s = s\<lparr>console := t3, kmem := m3\<rparr>"
    "console_room 320 131072 t3" "video_only m2 m3"
    using say_short [of 320 t2 "''Keyboard initialized.'' @ [newline]" m2 15] 2(2) by auto
  define s3 where "s3 = ?start\<lparr>isr80h_commands := ?cmds,
      idt_descriptors := map kernel_gate ((interrupt_pointer_table (interrupts_at im))[0 := idt_zero_at (interrupts_at im),
        0x80 := isr80h_wrapper_at (interrupts_at im)]),
      idtr_descriptor := \<lparr>idtr_limit = 4095, idtr_base = idt_at (interrupts_at im)\<rparr>,
      idt_register := \<lparr>idtr_limit = 4095, idtr_base = idt_at (interrupts_at im)\<rparr>,
      keyboard_list_head := classic_keyboard_at im, keyboard_list_tail := classic_keyboard_at im, io_log := outb 0x64 0xAE (io_log s),
      console := t3, kmem := m3\<rparr>"
  note k03 = blocks_kept_trans [OF blocks_kept_trans [OF blocks_kept_video [OF 1(3)] blocks_kept_video [OF 2(3)]] blocks_kept_video [OF 3(3)]]
  have u3: "kused m3 = kused m0" using k03 by (simp add: blocks_kept_def)
  have "filesystems s3 = fat16_at im # replicate 11 0" "file_descriptors s3 = replicate 512 0"
    "(card (kused (kmem s3)) + 6) * kblocks (of_nat (root_size img)) \<le> 25600"
    using room u3 0(4) by (simp_all add: s3_def)
  moreover have "fat16_at im \<noteq> 0" using i(1) by (auto simp: image_ok_def in_image_def)
  ultimately obtain B s4 where 4: "disk_search_and_init (drivers hw (fat16_at im)) s3 = ret s4" "volume_mounted img B (known_items rs) s4"
      "fat_files_ok (fat16_at im) B (known_items rs) s4" "B \<inter> kused m0 = {}" "kused (kmem s4) = kused m0 \<union> B"
      "card (kused (kmem s4)) = 1030 + kblocks (of_nat (root_size img))" "kext m3 (kmem s4)"
      "s4 = s3\<lparr>kmem := kmem s4, io_log := io_log s4, the_disk := the_disk s4, streams := streams s4,
        fat_privates := fat_privates s4, fat_directories := fat_directories s4\<rparr>"
    using disk_init_run [OF drive vol, of s3 "fat16_at im"] u3 0(4) by (auto simp: s3_def)
  have con4: "console s4 = t3" using arg_cong [OF 4(8), of console] by (simp add: s3_def)
  obtain t5 m5 where 5: "\<And>s :: 'a kernel_state_scheme. console s = t3 \<Longrightarrow> kmem s = kmem s4 \<Longrightarrow>
      say 14 (''Primary disk initialized.'' @ [newline]) s = s\<lparr>console := t5, kmem := m5\<rparr>"
    "console_room 260 131072 t5" "video_only (kmem s4) m5"
    using say_short [of 260 t3 "''Primary disk initialized.'' @ [newline]" "kmem s4" 14] 3(2) by auto
  obtain m6 where 6: "\<And>s :: 'a kernel_state_scheme. kmem s = m5 \<Longrightarrow> setup_tss (tss_at im) s = s\<lparr>kmem := m6, task_register := 0x28\<rparr>"
    "unchanged_outside m5 m6 (tss_at im) 100" "load32 m6 (tss_at im + 4) = 0x600000" "load32 m6 (tss_at im + 8) = 0x10"
    using setup_tss_run [of m5 "tss_at im"] by auto
  obtain t7 m7 where 7: "\<And>s :: 'a kernel_state_scheme. console s = t5 \<Longrightarrow> kmem s = m6 \<Longrightarrow>
      say 10 (''Task switching segment loaded.'' @ [newline]) s = s\<lparr>console := t7, kmem := m7\<rparr>"
    "console_room 200 131072 t7" "video_only m6 m7"
    using say_short [of 200 t5 "''Task switching segment loaded.'' @ [newline]" m6 10] 5(2) by auto
  let ?fin = "s4\<lparr>console := t7, kmem := m7, task_register := 0x28\<rparr>"
  have n: "length (interrupt_pointer_table (interrupts_at im)) = 512" by (rule i(3))
  have run: "kernel_init (drivers hw (fat16_at im)) im s = ret ?fin"
  proof -
    let ?a = "?start\<lparr>isr80h_commands := ?cmds\<rparr>"
    have A: "isr80h_register_commands (commands_at im) ?start = Inr ?a"
      using register_commands_run [of ?start "commands_at im"] f by simp
    have "kernel_init (drivers hw (fat16_at im)) im s =
      prog_bind (disk_search_and_init (drivers hw (fat16_at im)) s3) (\<lambda>s.
               let s = say 14 (''Primary disk initialized.'' @ [newline]) s;
                   s = setup_tss (tss_at im) s
               in ret (say 10 (''Task switching segment loaded.'' @ [newline]) s))"
      unfolding kernel_init_def using 0(1) A 1(1) 2(1) 3(1) f
      by (simp add: Let_def s3_def idt_init_run [OF n] keyboard_init_run)
    then show ?thesis using 4(1) 5(1) 6(1) 7(1) con4 by (simp add: Let_def)
  qed
  have k47: "blocks_kept (kmem s4) m7"
    by (rule blocks_kept_trans [OF blocks_kept_trans [OF blocks_kept_video [OF 5(3)]
      blocks_kept_outside [OF in_image_off_heap [OF i(2)] 6(2)]] blocks_kept_video [OF 7(3)]])
  then have u7: "kused m7 = kused m0 \<union> B" and keep47: "keep_blocks (kused (kmem s4)) (kmem s4) m7"
    using 4(5) by (simp_all add: blocks_kept_def)
  have same: "same_files s4 ?fin" by (simp add: same_files_def)
  have "volume_mounted img B (known_items rs) ?fin"
    by (rule volume_mounted_keep [OF 4(2) same_files_volume [OF same]]) (use keep47 4(5) in \<open>auto intro: keep_blocks_sub\<close>)
  moreover have "fat_files_ok (fat16_at im) B (known_items rs) ?fin" by (rule fat_files_same [OF 4(3) same]) (use keep47 in simp)
  moreover have opens: "open_files ?fin = (\<lambda>_. None)"
  proof -
    have "file_descriptors s4 = replicate 512 0" using arg_cong [OF 4(8), of file_descriptors] by (simp add: s3_def)
    then show ?thesis by (simp add: open_files_def fun_eq_iff)
  qed
  have "keep_blocks (kused m0) m0 m7"
  proof -
    have "keep_blocks (kused m0) m0 m3" using k03 by (simp add: blocks_kept_def)
    moreover have "keep_blocks (kused m0) m3 (kmem s4)" by (rule keep_blocks_kext [OF 4(7)]) (simp add: u3)
    moreover have "keep_blocks (kused m0) (kmem s4) m7" by (rule keep_blocks_sub [OF keep47]) (use 4(5) in blast)
    ultimately show ?thesis by (blast intro: keep_blocks_trans)
  qed
  then have "keep_blocks (space_blocks cb d tb) m0 m7" unfolding 0(5) .
  note sp = space_keep [OF 0(3) order_refl this]
  moreover have "paging_get m7 (kblock d) va = va OR 7" if "page va" for va
    using sp(2) [OF that] 0(6) [OF that] sp(1) 0(3) by (simp add: chunk_blocks_def)
  moreover have "cr3 (kmmu ?fin) = kblock d"
    using arg_cong [OF 4(8), of kmmu] 0(3) by (simp add: s3_def paging_switch_def chunk_blocks_def)
  moreover have "keeps p n (kmem s) m7" if "in_image p n" "apart (gdt_at im) 48 p n" "apart (fat16_at im + 24) 6 p n" "apart (tss_at im) 100 p n" for p n
    using 0(7) [OF that(1-3)] keeps_video [OF that(1) 1(3)] keeps_video [OF that(1) 2(3)] keeps_video [OF that(1) 3(3)]
      keeps_kext [OF that(1) 4(7)] keeps_video [OF that(1) 5(3)] keeps_apart [OF that(4) 6(2)] keeps_video [OF that(1) 7(3)]
    by (simp add: keeps_def)
  moreover have "keeps (gdt_at im) 48 m0 m7"
    using keeps_video [OF i(5) 1(3)] keeps_video [OF i(5) 2(3)] keeps_video [OF i(5) 3(3)] keeps_kext [OF i(5) 4(7)]
      keeps_video [OF i(5) 5(3)] keeps_apart [OF i(4) 6(2)] keeps_video [OF i(5) 7(3)] by (simp add: keeps_def)
  then have "map (\<lambda>i. gdt_decode (kmem ?fin) (gdt_at im + of_nat (8 * i))) [0..<6] = kernel_gdt_structured (tss_at im)"
    using trans [OF keeps_gdt 0(8)] by simp
  moreover have "load32 m7 (tss_at im + 4) = 0x600000" "load32 m7 (tss_at im + 8) = 0x10"
  proof -
    have k: "m7 (tss_at im + of_nat j) = m6 (tss_at im + of_nat j)" if "j < 100" for j
      using keeps_video [OF i(2) 7(3)] that by (simp add: keeps_def)
    have "load32 m7 (tss_at im + of_nat q) = load32 m6 (tss_at im + of_nat q)" if "q \<le> 96" for q
      by (rule load32_keep) (use k [of "q + j" for j] that in \<open>simp add: add.assoc\<close>)
    from this [of 4] this [of 8] 6(3,4) show "load32 m7 (tss_at im + 4) = 0x600000" "load32 m7 (tss_at im + 8) = 0x10" by simp_all
  qed
  moreover have "space_blocks cb d tb \<subseteq> kused (kmem ?fin) - B" using u7 4(4) 0(5) by auto
  moreover have "card (kused (kmem ?fin)) = 1030 + kblocks (of_nat (root_size img))" using 4(6) k47 by (simp add: blocks_kept_def)
  moreover have "map gate_target (map kernel_gate as) = as" for as by (simp add: comp_def gate_roundtrip)
  then have "map gate_target (idt_descriptors ?fin) =
        (interrupt_pointer_table (interrupts_at im))[0 := idt_zero_at (interrupts_at im), 0x80 := isr80h_wrapper_at (interrupts_at im)]"
    using arg_cong [OF 4(8), of idt_descriptors] by (simp add: s3_def)
  moreover have "paging_enabled ?fin" "kernel_chunk ?fin = kblock cb" "task_head ?fin = 0" "task_tail ?fin = 0" "current_task ?fin = 0"
    "processes ?fin = replicate 12 0" "isr80h_commands ?fin = ?cmds"
    using f arg_cong [OF 4(8), of paging_enabled] arg_cong [OF 4(8), of kernel_chunk] arg_cong [OF 4(8), of task_head]
      arg_cong [OF 4(8), of task_tail] arg_cong [OF 4(8), of current_task] arg_cong [OF 4(8), of processes] arg_cong [OF 4(8), of isr80h_commands]
    by (simp_all add: s3_def)
  ultimately show ?thesis using run 7(2) sp(1) opens
    by - (rule exI [of _ B], rule exI [of _ ?fin], rule exI [of _ cb], rule exI [of _ d], rule exI [of _ tb], simp)
qed

section \<open>A program on the booted kernel\<close>

text \<open>A constant of the image: nothing writes to it while the kernel starts.\<close>

definition constant_at :: "image \<Rightarrow> addr \<Rightarrow> nat \<Rightarrow> bool" where
  "constant_at im p n \<longleftrightarrow> in_image p n \<and> apart (gdt_at im) 48 p n \<and> apart (fat16_at im + 24) 6 p n \<and> apart (tss_at im) 100 p n"

text \<open>The strings \<^verbatim>\<open>"r"\<close> and a path to the file \<open>w\<close> of the root directory, among the constants.\<close>

definition path_constant :: "image \<Rightarrow> addr \<Rightarrow> addr \<Rightarrow> u8 list \<Rightarrow> mem \<Rightarrow> bool" where
  "path_constant im filename mode w m \<longleftrightarrow> m mode = 0x72 \<and> constant_at im mode 1
     \<and> (\<exists>bs. cstr m filename bs \<and> valid_path bs \<and> bs ! 0 = 0x30 \<and> constant_at im filename (Suc (length bs))
          \<and> components (drop 3 bs) = [w])"

lemma in_image_stable: "in_image p n \<Longrightarrow> kstable_block m p n"
  using in_image_at by (simp add: kstable_block_def)

lemma path_constant_named:
  assumes "path_constant im filename mode w m" "\<And>p n. constant_at im p n \<Longrightarrow> keeps p n m m'"
  shows "file_named filename mode w m'"
proof -
  obtain bs where bs: "m mode = 0x72" "constant_at im mode 1" "cstr m filename bs" "valid_path bs" "bs ! 0 = 0x30"
    "constant_at im filename (Suc (length bs))" "components (drop 3 bs) = [w]"
    using assms(1) unfolding path_constant_def by blast
  have img: "in_image mode 1" "in_image filename (Suc (length bs))" using bs(2,6) by (simp_all add: constant_at_def)
  have "m' mode = m mode" using assms(2) [OF bs(2)] by (simp add: keeps_def)
  moreover have "kstable m' mode" using in_image_stable [OF img(1), of m'] by (simp add: kstable_block_def)
  moreover have "cstr m' filename bs" by (rule keeps_cstr [OF assms(2) [OF bs(6)] bs(3)])
  moreover have "kstable_block m' filename (Suc (length bs))" by (rule in_image_stable [OF img(2)])
  ultimately show ?thesis unfolding file_named_def using bs(1,4,5,7) by metis
qed

text \<open>A file of the volume that lies in its first cluster.\<close>

definition volume_file_fits :: "(nat \<Rightarrow> u8) \<Rightarrow> nat \<Rightarrow> bool" where
  "volume_file_fits img k \<longleftrightarrow> 2 \<le> volume_file_cluster img k \<and> 0 < unat (volume_file_size img k)
     \<and> unat (volume_file_size img k) \<le> 512 * unat (sectors_per_cluster (drive_mem img) 0)
     \<and> volume_file_start img k + unat (volume_file_size img k) < 2147483648"

lemma volume_file_first_cluster:
  assumes "volume_mounted img B es s" "k < length es" "volume_file_fits img k"
  shows "in_first_cluster B s k" "file_size s k = volume_file_size img k" "file_start s k = volume_file_start img k"
  using assms unfolding volume_mounted_def in_first_cluster_def volume_file_fits_def by auto

section \<open>A machine for the examples\<close>

definition example_image :: image where
  "example_image = \<lparr>gdt_at = 0x101000, tss_at = 0x101100, fat16_at = 0x102000, fat16_name_at = 0x103000, mode_at = 0x104003,
     blank_bin_at = 0x104000, hello_txt_at = 0x104000, license_txt_at = 0x104000, classic_keyboard_at = 0x105000,
     classic_init_at = 0x105100, interrupts_at = \<lparr>idt_at = 0x106000, interrupt_pointer_table = replicate 512 0x100400,
       idt_zero_at = 0x100200, isr80h_wrapper_at = 0x100300\<rparr>,
     commands_at = \<lparr>command0_at = 0x100600, command1_at = 0x100700\<rparr>\<rparr>"

text \<open>The strings \<^verbatim>\<open>FAT16\<close> and \<^verbatim>\<open>0:/r.txt\<close>; the mode string stands inside the second.\<close>

definition example_boot_mem :: mem where
  "example_boot_mem = (\<lambda>_. 0)(0x103000 := 0x46, 0x103001 := 0x41, 0x103002 := 0x54, 0x103003 := 0x31, 0x103004 := 0x36,
     0x104000 := 0x30, 0x104001 := 0x3a, 0x104002 := 0x2f, 0x104003 := 0x72, 0x104004 := 0x2e, 0x104005 := 0x74,
     0x104006 := 0x78, 0x104007 := 0x74)"

definition example_kernel :: kernel_state where
  "example_kernel = (no_tasks undefined)\<lparr>kmem := example_boot_mem, processes := replicate 12 0, isr80h_commands := replicate 1024 0,
     keyboard_list_tail := 0, keyboards := \<lambda>_. \<lparr>keyboard_init_function = 0x105100, next_keyboard = 0\<rparr>\<rparr>"

lemma example_boot:
  "boot_image example_image (kmem example_kernel)" "fresh_kernel example_image example_kernel"
  "path_constant example_image 0x104000 0x104003 example_name (kmem example_kernel)"
proof -
  have "cstr example_boot_mem 0x103000 (map of_char ''FAT16'')" by (simp add: example_boot_mem_def)
  then show "boot_image example_image (kmem example_kernel)"
    by (simp add: boot_image_def image_ok_def example_image_def example_kernel_def in_image_def apart_ordered)
  show "fresh_kernel example_image example_kernel" by (simp add: fresh_kernel_def example_kernel_def no_tasks_def example_image_def)
  have "cstr example_boot_mem 0x104000 example_path" by (simp add: example_boot_mem_def example_path_def)
  moreover have "example_boot_mem 0x104003 = 0x72" by (simp add: example_boot_mem_def)
  moreover have "constant_at example_image 0x104000 (Suc (length example_path))" "constant_at example_image 0x104003 1"
    by (simp_all add: constant_at_def example_image_def in_image_def apart_ordered example_path_def)
  ultimately show "path_constant example_image 0x104000 0x104003 example_name (kmem example_kernel)"
    unfolding path_constant_def using example_call(2,3) example_components by (auto simp: example_kernel_def)
qed

section \<open>Properties\<close>

text \<open>
  C3: \<open>kernel_init\<close> on a drive with a FAT16 volume brings the whole kernel up: paging is enabled and
  leads every address to itself, the six segments are in the table, the gates lead to their routines and the two system calls are
  registered, the task segment has the kernel's stack, the volume is mounted with every item the
  driver knows (all items of the root directory when none is deleted) known by its size and
  place, no file is open, and there is no task and no process yet.
\<close>

theorem kernel_init_up:
  assumes "boot_image im (kmem s)" and "fresh_kernel im s" and "ata_drive hw img" and "fat16_volume img rs"
    and "1032 * kblocks (of_nat (root_size img)) \<le> 25600"
  shows "\<exists>B s'. kernel_init (drivers hw (fat16_at im)) im s = ret s'
    \<and> paging_enabled s' \<and> (\<forall>va. translate (kmem s') (cr3 (kmmu s')) va = va)
    \<and> map gate_target (idt_descriptors s') =
        (interrupt_pointer_table (interrupts_at im))[0 := idt_zero_at (interrupts_at im), 0x80 := isr80h_wrapper_at (interrupts_at im)]
    \<and> isr80h_commands s' = (replicate 1024 0)[0 := command0_at (commands_at im), 1 := command1_at (commands_at im)]
    \<and> map (\<lambda>i. gdt_decode (kmem s') (gdt_at im + of_nat (8 * i))) [0..<6] = kernel_gdt_structured (tss_at im)
    \<and> load32 (kmem s') (tss_at im + 4) = 0x600000 \<and> load32 (kmem s') (tss_at im + 8) = 0x10 \<and> task_register s' = 0x28
    \<and> files_ok (fat16_at im) (fat_ready B (known_items rs)) B fat_handle fat_own s' \<and> open_files s' = (\<lambda>_. None)
    \<and> (\<forall>k < length (known_items rs). file_size s' k = volume_file_size img k \<and> file_start s' k = volume_file_start img k)
    \<and> tasks_ok (\<lambda>_. {}) [] s' \<and> processes s' = replicate 12 0 \<and> card (kused (kmem s')) = 1030 + kblocks (of_nat (root_size img))"
proof -
  from kernel_init_run [OF assms] obtain B s' cb d tb where
    1: "kernel_init (drivers hw (fat16_at im)) im s = ret s'" "volume_mounted img B (known_items rs) s'" "fat_files_ok (fat16_at im) B (known_items rs) s'"
      "open_files s' = (\<lambda>_. None)" "paging_enabled s'" "cr3 (kmmu s') = kblock d"
      "\<forall>va. page va \<longrightarrow> paging_get (kmem s') (kblock d) va = va OR 7"
      "card (kused (kmem s')) = 1030 + kblocks (of_nat (root_size img))"
    and 2: "task_head s' = 0" "task_tail s' = 0" "current_task s' = 0" "processes s' = replicate 12 0"
      "isr80h_commands s' = (replicate 1024 0)[0 := command0_at (commands_at im), 1 := command1_at (commands_at im)]"
      "map gate_target (idt_descriptors s') =
        (interrupt_pointer_table (interrupts_at im))[0 := idt_zero_at (interrupts_at im), 0x80 := isr80h_wrapper_at (interrupts_at im)]"
      "load32 (kmem s') (tss_at im + 4) = 0x600000" "load32 (kmem s') (tss_at im + 8) = 0x10" "task_register s' = 0x28"
      "map (\<lambda>i. gdt_decode (kmem s') (gdt_at im + of_nat (8 * i))) [0..<6] = kernel_gdt_structured (tss_at im)"
    by (elim exE conjE)
  have "\<forall>va. translate (kmem s') (cr3 (kmmu s')) va = va" unfolding 1(6) using 1(7) by (intro allI translate_identity [where f = 7]) auto
  moreover have "tasks_ok (\<lambda>_. {}) [] s'" using 2(1-3) by (simp add: tasks_ok_def task_list_def task_chain_def task_ends_def)
  moreover have "\<forall>k < length (known_items rs). file_size s' k = volume_file_size img k \<and> file_start s' k = volume_file_start img k"
    using 1(2) by (simp add: volume_mounted_def)
  ultimately show ?thesis using 1(1,3-5,8) 2(4-10) by (intro exI [of _ B] exI [of _ s'] conjI) assumption+
qed

theorem kernel_init_up_witness:
  "\<exists>B s'. kernel_init (drivers (ideal_drive example_drive) 0x102000) example_image example_kernel = ret s' \<and> paging_enabled s'
    \<and> files_ok 0x102000 (fat_ready B example_entries) B fat_handle fat_own s' \<and> file_start s' 0 = 3072 \<and> card (kused (kmem s')) = 1031"
proof -
  have kb: "kblocks (of_nat (root_size example_drive)) = 1" by (simp add: example_drive_fields kblocks_def)
  have at: "fat16_at example_image = 0x102000" by (simp add: example_image_def)
  obtain B s' where "kernel_init (drivers (ideal_drive example_drive) 0x102000) example_image example_kernel = ret s'" "paging_enabled s'"
      "files_ok 0x102000 (fat_ready B example_entries) B fat_handle fat_own s'"
      "\<forall>k < length example_entries. file_size s' k = volume_file_size example_drive k \<and> file_start s' k = volume_file_start example_drive k"
      "card (kused (kmem s')) = 1031"
    using kernel_init_up [OF example_boot(1,2) ideal_drive example_drive_volume(1), unfolded example_drive_volume(2)] unfolding kb at by auto
  then show ?thesis by (intro exI [of _ B] exI [of _ s']) (simp add: example_entries_def example_drive_file)
qed

text \<open>
  C1: On the kernel that has started from a drive with a FAT16 volume, a program is loaded that
  lies within the first cluster of its file: its size is at most that of one cluster, its text
  is that of one item only among those the driver knows, which is no directory, and the heap has
  room for it and for the root directory.
  The new task sees the bytes of the drive from 0x400000 on, has a zeroed stack below 0x3FF000,
  and will start with the registers of a program. Of a longer file nothing is claimed: the driver
  looks its further clusters up in the wrong place.
\<close>

theorem booted_kernel_loads_program:
  assumes "boot_image im (kmem s)" and "fresh_kernel im s" and "ata_drive hw img" and "fat16_volume img rs"
    and "1032 * kblocks (of_nat (root_size img)) \<le> 25600"
    and "path_constant im filename mode w (kmem s)" and "named_item (known_items rs) w k" and "volume_file_fits img k" and "off_heap stat 8"
    and "(1040 + kblocks (of_nat (root_size img))) * kblocks (volume_file_size img k) \<le> 25600"
  shows "\<exists>s1 q t s2. kernel_init (drivers hw (fat16_at im)) im s = ret s1
    \<and> process_load (drivers hw (fat16_at im)) mode stat filename pp s1 = ret (0, q, s2) \<and> processes s2 = q # replicate 11 0
    \<and> process_task (process_store s2 q) = t \<and> task_registers (tasks s2 t) = start_registers
    \<and> (\<forall>j < unat (volume_file_size img k). kmem s2 (user_address t s2 (0x400000 + of_nat j)) = img (volume_file_start img k + j))
    \<and> (\<forall>j < 16384. kmem s2 (user_address t s2 (0x3FB000 + of_nat j)) = 0)"
proof -
  from kernel_init_run [OF assms(1-5)] obtain B s1 cb d tb where
    1: "kernel_init (drivers hw (fat16_at im)) im s = ret s1" "volume_mounted img B (known_items rs) s1" "fat_files_ok (fat16_at im) B (known_items rs) s1"
      "open_files s1 = (\<lambda>_. None)" "card (kused (kmem s1)) = 1030 + kblocks (of_nat (root_size img))"
      "task_head s1 = 0" "task_tail s1 = 0" "current_task s1 = 0" "processes s1 = replicate 12 0"
      "\<forall>p n. in_image p n \<and> apart (gdt_at im) 48 p n \<and> apart (fat16_at im + 24) 6 p n \<and> apart (tss_at im) 100 p n
         \<longrightarrow> keeps p n (kmem s) (kmem s1)"
    by (elim exE conjE)
  have named: "file_named filename mode w (kmem s1)"
    by (rule path_constant_named [OF assms(6)]) (use 1(10) in \<open>simp add: constant_at_def\<close>)
  have "fat_ready B (known_items rs) s1" using 1(2) by (simp add: volume_mounted_def)
  note fl = volume_file_first_cluster [OF 1(2) entry_less [OF this assms(7)] assms(8)]
  have tasks: "tasks_ok (\<lambda>_. {}) [] s1" using 1(6-8) by (simp add: tasks_ok_def task_list_def task_chain_def task_ends_def)
  have free: "least_free (open_files s1) 0" by (simp add: least_free_def 1(4))
  let ?n = "kblocks (of_nat (root_size img))" and ?k = "kblocks (volume_file_size img k)"
  have "1040 * ?k \<le> (1040 + ?n) * ?k" by simp
  then have "?k \<le> 24" using assms(10) by linarith
  moreover have "?n \<le> 24" using assms(5) by linarith
  ultimately have "(card (kused (kmem s1)) + ?k + 6) * 4 \<le> 25600" unfolding 1(5) by simp
  moreover have "(card (kused (kmem s1)) + 10) * ?k \<le> 25600" using assms(10) 1(5) by simp
  ultimately obtain q t s2 where
    2: "process_load (drivers hw (fat16_at im)) mode stat filename pp s1 = ret (0, q, s2)" "processes s2 = (processes s1)[0 := q]"
      "program_ready img s1 k q t s2"
    using process_load_run [OF 1(3) tasks assms(3) named assms(7) fl(1) free _ assms(9), of 0 pp] 1(9) unfolding fl(2) by auto
  have "processes s2 = q # replicate 11 0" using 2(2) 1(9) by (simp add: numeral_eq_Suc)
  then show ?thesis using 1(1) 2(1,3) unfolding program_ready_def fl(2,3) by blast
qed

theorem booted_kernel_loads_program_witness:
  "\<exists>s1 q t s2. kernel_init (drivers (ideal_drive example_drive) 0x102000) example_image example_kernel = ret s1
    \<and> process_load (drivers (ideal_drive example_drive) 0x102000) 0x104003 0x180000 0x104000 0 s1 = ret (0, q, s2)
    \<and> kmem s2 (user_address t s2 0x400007) = of_nat 3079"
proof -
  have kb: "kblocks (of_nat (root_size example_drive)) = 1" by (simp add: example_drive_fields kblocks_def)
  have at: "fat16_at example_image = 0x102000" by (simp add: example_image_def)
  have "unat (sectors_per_cluster (drive_mem example_drive) 0) = 2" by (simp add: example_drive_fields)
  then have fits: "volume_file_fits example_drive 0" by (simp add: volume_file_fits_def example_drive_file)
  have stat: "off_heap 0x180000 8" by (rule off_heap_low) simp_all
  obtain s1 q t s2 where
    1: "kernel_init (drivers (ideal_drive example_drive) 0x102000) example_image example_kernel = ret s1"
      "process_load (drivers (ideal_drive example_drive) 0x102000) 0x104003 0x180000 0x104000 0 s1 = ret (0, q, s2)"
      "\<forall>j < unat (volume_file_size example_drive 0). kmem s2 (user_address t s2 (0x400000 + of_nat j)) =
        example_drive (volume_file_start example_drive 0 + j)"
    using booted_kernel_loads_program [OF example_boot(1,2) ideal_drive example_drive_volume(1) _ example_boot(3), unfolded example_drive_volume(2), OF _ example_find fits stat, of 0]
    unfolding kb at example_drive_file by (auto simp: kblocks_def)
  have "kmem s2 (user_address t s2 (0x400000 + of_nat 7)) = example_drive (3072 + 7)"
    using 1(3) by (simp only: example_drive_file) (drule spec [of _ 7], simp)
  moreover have "example_drive (3072 + 7) = of_nat 3079" by (simp add: example_drive_def)
  ultimately show ?thesis using 1(1,2) by auto
qed

end
