(* ===== verification/Spec2Isabelle.thy ===== *)
theory Spec2Isabelle
  imports Heap KHeap KRuns Paging Gdt FatCalls Stdio KState Keyboard TaskList Idt Commands Process Boot
begin

text \<open>
  Verification of the Dexter kernel, a small operating system for 32-bit x86 in C: a block heap,
  paging, a FAT16 file system on an ATA drive, a text terminal, tasks and processes with their
  own address spaces, interrupts and system calls. The theories model every C file under
  \<^verbatim>\<open>src/\<close> but \<^verbatim>\<open>libc/math.c\<close> (only \<^verbatim>\<open>abs\<close>) and prove what the parts promise, and where they do not
  keep it, that they do not.

  The state. Memory is a function from 32-bit addresses to bytes (\<open>mem\<close>); machine integers are
  words of their width, with the signed comparisons and the wrap-around of the code. What the
  code keeps as raw bytes is bytes here: strings, the heap's block table, page directories and
  tables, segment descriptors, the FAT header and directory items, video memory. Structures that
  are only reached through typed pointers (path parts, streams, file descriptors, tasks,
  processes, keyboards) are records in stores indexed by the address \<open>kzalloc\<close> returned, whose
  bytes are still allocated and cleared in memory. The globals are fields of one record that
  grows with the components: \<open>path_heap\<close>, \<open>dev_state\<close>, \<open>file_state\<close>, \<open>fat_state\<close>,
  \<open>kernel_state\<close>; an operation is defined on the smallest of them it needs and on all its
  extensions. Pointers to functions are addresses, and the code at an address is a parameter.

  Effects and errors. A function that can panic, divide by zero, read an uninitialised variable
  or leave the bounds of an object returns a sum with \<open>fault\<close>; one that may not return
  (loops that wait for the drive, strings without terminator) an \<open>option\<close>; \<open>prog\<close> combines
  both (theory Prog). Writing through NULL is the fault \<open>NullDeref\<close> where the code does not
  check. Results of the code's own error numbers are words such as \<open>- EIO\<close>.

  Theories, in the order of the imports:
  Kernel_Prelude: types, bytes and words of memory, \<open>mem_fill\<close>, \<open>apart\<close>, \<open>cstr\<close>, the collections
    \<open>mem_simps\<close>, \<open>loop_simps\<close>, \<open>measure_simps\<close>.
  CString, CStdlib: \<^verbatim>\<open>libc/string.c\<close>, \<^verbatim>\<open>libc/stdlib.c\<close>; closed forms of the loops.
  Heap, KHeap, KFrames, KRuns: \<^verbatim>\<open>mem/heap.c\<close>, \<^verbatim>\<open>mem/kheap.c\<close> and the allocation functions of
    \<^verbatim>\<open>stdlib.c\<close>. The locale \<open>block_allocator\<close> states what an allocator of a number of blocks promises,
    also when it grants more than there are; it is interpreted on every heap and on the kernel's. \<open>kused\<close> are the blocks in use, \<open>kblock\<close> the
    address of a block, \<open>kext\<close> the relation of memories between which only free blocks changed;
    KRuns has what an allocation of several blocks gives when enough blocks are free.
  Tables: the locale \<open>table\<close> of what is looked up after updates; interpreted on address spaces,
    interrupt gates, callbacks and system calls.
  Pages, Paging, Spaces, UserMemory: \<^verbatim>\<open>mem/paging.c\<close>, the processor's address translation, and
    what a string copy does while another address space is loaded.
  Gdt: \<^verbatim>\<open>sys/gdt.c\<close> and the descriptor table of \<^verbatim>\<open>sys/kernel.c\<close>.
  PathParser: \<^verbatim>\<open>fs/pparser.c\<close>.
  Disk: \<^verbatim>\<open>fs/disk.c\<close>, \<^verbatim>\<open>fs/streamer.c\<close>. The drive is a parameter \<open>hardware\<close>; \<open>ata_drive\<close> is the documented
    behaviour of an ATA drive in programmed I/O: the words of a sector may be read once the status
    has shown DRQ without BSY, and nothing is known of a word read at any other moment.
    \<open>ideal_drive\<close> is a drive that behaves so, busy at first and giving 0xFFFF to who does not wait.
  File, FileTable: \<^verbatim>\<open>fs/file.c\<close>. The locale \<open>fs_contract\<close> states what \<^verbatim>\<open>file.c\<close> needs of a driver, and
    in it the calls are shown to refine an abstract table of open files. \<open>call_ok\<close> is the caller's
    part: as records in stores cannot be overwritten through a buffer here, buffers have to stay
    clear of the blocks of the volume, of the driver and of every open file.
  Fat16, FatFrames, FatNames, FatVolume, FatFiles, FatExample, FatCalls: \<^verbatim>\<open>fs/fat16.c\<close>; the
    items of the root directory are their 32 bytes, of whatever kind, and \<open>item_text\<close> is the text
    the driver makes of one, the short name but for two overruns. The driver fulfils
    \<open>fs_contract\<close> on a mounted volume for names that no directory and at most one item has
    (\<open>plain_name\<close>); opening by name and reading within the first cluster.
  Stdio: \<^verbatim>\<open>libc/stdio.c\<close> against a typewriter with an unbounded tape of cells.
  KState, Keyboard: the state of the whole kernel; \<^verbatim>\<open>dev/keyboard.c\<close>, \<^verbatim>\<open>dev/classic.c\<close>. The locale \<open>fifo\<close>
    is the contract of a queue; the ring of the current process is an interpretation.
  Task, TaskList, CopyString: \<^verbatim>\<open>proc/task.c\<close>; the invariant \<open>tasks_ok\<close> of the doubly linked list whose
    tasks own disjoint blocks, creation and removal, turns, and the fetching of a string from
    a task's memory.
  Idt: \<^verbatim>\<open>sys/idt.c\<close>. Commands: \<^verbatim>\<open>proc/commands.c\<close>, \<^verbatim>\<open>proc/isr80h.c\<close>. Process: \<^verbatim>\<open>proc/process.c\<close>.
  ProgramFile, Loading: \<open>process_load\<close> on a mounted volume: what each of its steps keeps of the
    open files, the volume and the other tasks, up to the task that is ready to run.
  Mount: from the bytes of a FAT16 volume on the drive (\<open>fat16_volume\<close>: the signature and a root
    directory that ends with a zero; deleted items are allowed and cost the driver items at the
    end, \<open>known_items\<close>) to the mounted state, and the refusal of any other drive.
  Kernel: \<^verbatim>\<open>sys/kernel.c\<close>, composed of all of these. Boot: \<open>kernel_init\<close> from the image the loader
    left to the kernel that runs, and a program loaded on it.

  What the properties show. The heap never hands out a block of its table twice, but releases only the first
  block of an allocation and overcommits at the end of the table. Address spaces are tables from
  pages to frames; mapping a range changes exactly its pages; building one takes 1026 blocks and
  releasing it gives them back. Paths are parsed into their names and every other string is
  refused. The drive's sectors arrive in memory, and the driver's calls refine the table of open
  files; a file is found by the text of its item and the bytes of its first cluster are read. The task list stays linked, every
  task gets its turn, handlers return into the current task; the two system calls compute and
  print what the caller's memory holds; a process sees its program and its stack where programs
  expect them, and a program loaded from a file within its first cluster has the bytes of the drive there. The
  start of the kernel, the mounting of the volume included, establishes what all of this relies on.

  Bounds and fuel. The kernel's heap has 25600 blocks of 4096 bytes, and hypotheses on free blocks
  are stated on \<open>card (kused m)\<close>. Loops over counters are functions with a measure or folds over
  their indices; only loops the code itself does not bound are partial functions, and
  their termination is a property (\<open>disk_read_sector_reads\<close>) or part of the closed form.
  No definition uses fuel.

  Not modelled. The assembly under \<^verbatim>\<open>src/x86\<close> and \<^verbatim>\<open>src/x64\<close> appears only as what it does to the state
  (ports, control and segment registers, the return to a task). \<^verbatim>\<open>libc/math.c\<close> computes on \<^verbatim>\<open>double\<close>,
  which the imported theories do not have. \<^verbatim>\<open>libc/time.c\<close> and \<^verbatim>\<open>libc/unistd.c\<close> are empty. Interrupts do not
  arrive between the steps of an operation: the kernel runs with interrupts disabled. The
  processor's checks of page table flags are left out, as every entry the kernel writes is
  present and the kernel may access all pages. The kernel's own static data (the globals and the
  table of open files) has no address, so a buffer cannot overlap it. Without a property are the
  paths on which the loading of a program fails, reads that leave the first cluster of a file
  (the driver looks the next one up in the wrong place), directories below the root, which the
  driver cannot open, and names that several items of the root directory have.
\<close>

end
